(* ===== verification/Prelude.thy ===== *)
theory Prelude
  imports Main "HOL-Library.Word" "HOL-Library.Signed_Division" "HOL-Library.AList"
begin

text \<open>
  Shared material of the development: the collections of rewrite rules the
  component theories extend, facts about 64-bit words read as naturals, facts
  about association lists (the model of Go's maps) and about sums over them.
\<close>

named_theorems u64_simps \<open>reading uint64 arithmetic as arithmetic on naturals\<close>
named_theorems err_simps \<open>classification of error values\<close>
named_theorems valid_defs \<open>the validation predicates, unfolded together\<close>

type_synonym uint64 = "64 word"

section \<open>Words as naturals\<close>

lemma unat_less_2p64: "unat (x :: uint64) < 18446744073709551616"
  using unsigned_less [of x] by simp

lemma u64_le [u64_simps]: "(x :: uint64) \<le> y \<longleftrightarrow> unat x \<le> unat y"
  by (rule word_le_nat_alt)

lemma u64_less [u64_simps]: "(x :: uint64) < y \<longleftrightarrow> unat x < unat y"
  by (rule word_less_nat_alt)

lemma u64_eq [u64_simps]: "(x :: uint64) = y \<longleftrightarrow> unat x = unat y"
  by (rule word_unat_eq_iff)

lemma u64_add: "unat x + unat y < 18446744073709551616 \<Longrightarrow> unat ((x :: uint64) + y) = unat x + unat y"
  using unat_add_lem [of x y] by simp

lemma u64_add_wrap: "unat ((x :: uint64) + y) = (unat x + unat y) mod 18446744073709551616"
  by (simp add: unat_word_ariths)

lemma u64_sub: "unat y \<le> unat x \<Longrightarrow> unat ((x :: uint64) - y) = unat x - unat y"
  by (simp add: unat_sub word_le_nat_alt)

lemma u64_min [u64_simps]: "unat (min (x :: uint64) y) = min (unat x) (unat y)"
  by (simp add: min_def word_le_nat_alt)

lemma u64_max [u64_simps]: "unat (max (x :: uint64) y) = max (unat x) (unat y)"
  by (simp add: max_def word_le_nat_alt)

lemma u64_of_nat: "n < 18446744073709551616 \<Longrightarrow> unat (of_nat n :: uint64) = n"
  by (simp add: unat_of_nat)

lemma u64_of_int: "0 \<le> k \<Longrightarrow> k < 18446744073709551616 \<Longrightarrow> unat (word_of_int k :: uint64) = nat k"
  by (simp add: unsigned_of_int take_bit_int_eq_self)

lemma u64_div: "unat ((x :: uint64) div y) = unat x div unat y"
  by (rule unat_div)

section \<open>Association lists\<close>

abbreviation keys :: "('k \<times> 'v) list \<Rightarrow> 'k list" where
  "keys m \<equiv> map fst m"

lemma map_of_update [simp]: "map_of (AList.update k v m) = (map_of m)(k \<mapsto> v)"
  by (rule update_conv')

lemma map_of_delete [simp]: "map_of (AList.delete k m) = (map_of m)(k := None)"
  by (rule delete_conv')

lemma length_update_present: "k \<in> set (keys m) \<Longrightarrow> length (AList.update k v m) = length m"
  by (induction m) auto

lemma length_update_absent: "k \<notin> set (keys m) \<Longrightarrow> length (AList.update k v m) = Suc (length m)"
  by (induction m) auto

lemma length_delete_present:
  "distinct (keys m) \<Longrightarrow> k \<in> set (keys m) \<Longrightarrow> Suc (length (AList.delete k m)) = length m"
proof (induction m)
  case (Cons p m)
  then show ?case
    by (cases p) (auto simp: delete_notin_dom image_iff)
qed simp

lemma keys_delete: "set (keys (AList.delete k m)) = set (keys m) - {k}"
  by (induction m) auto

lemma keys_update: "set (keys (AList.update k v m)) = insert k (set (keys m))"
  by (induction m) auto

lemma map_of_Some_key: "map_of m k = Some v \<Longrightarrow> k \<in> set (keys m)"
  by (force dest: map_of_SomeD)

lemma map_of_None_key: "map_of m k = None \<longleftrightarrow> k \<notin> set (keys m)"
  by (simp add: map_of_eq_None_iff)

section \<open>Separators in strings\<close>

lemma sep_unique:
  assumes "a @ c # x = b @ c # y" "c \<notin> set a" "c \<notin> set b"
  shows "a = b \<and> x = y"
  using assms
proof (induction a arbitrary: b)
  case Nil
  then show ?case by (cases b) auto
next
  case (Cons d a)
  then show ?case by (cases b) auto
qed

end
