(* ===== verification/Go_Runtime.thy ===== *)
theory Go_Runtime
  imports Prelude
begin

text \<open>
  The parts of the Go language and standard library the sources use: signed
  64-bit arithmetic (\<open>int64\<close>, truncating division), package \<open>math/bits\<close> on
  \<open>uint64\<close>, and package \<open>time\<close>. An instant is the number of nanoseconds since
  the Unix epoch, an \<open>int\<close>; locations and monotonic readings are left out,
  since the sources compare instants only. A \<open>time.Duration\<close> is an \<open>int\<close> in
  the \<open>int64\<close> range, counting nanoseconds.
\<close>

section \<open>int64\<close>

definition i64 :: "int \<Rightarrow> int" where
  "i64 x = (x + 2 ^ 63) mod 2 ^ 64 - 2 ^ 63"

definition int64_range :: "int \<Rightarrow> bool" where
  "int64_range x \<longleftrightarrow> - (2 ^ 63) \<le> x \<and> x < 2 ^ 63"

abbreviation (input) MaxInt64 :: int where
  "MaxInt64 \<equiv> 9223372036854775807"

abbreviation (input) MinInt64 :: int where
  "MinInt64 \<equiv> - 9223372036854775808"

lemma i64_id [simp]: "int64_range x \<Longrightarrow> i64 x = x"
  by (simp add: i64_def int64_range_def)

lemma i64_range: "int64_range (i64 x)"
  by (simp add: i64_def int64_range_def)

lemma int64_rangeI: "- 9223372036854775808 \<le> x \<Longrightarrow> x \<le> 9223372036854775807 \<Longrightarrow> int64_range x"
  by (simp add: int64_range_def)

text \<open>Conversion \<open>int64(u)\<close> and \<open>time.Duration(u)\<close> of a \<open>uint64\<close>, and \<open>uint64(x)\<close> of an \<open>int64\<close>.\<close>

definition int64_of :: "uint64 \<Rightarrow> int" where
  "int64_of u = i64 (uint u)"

definition uint64_of :: "int \<Rightarrow> uint64" where
  "uint64_of x = word_of_int x"

lemma unat_uint64_of: "0 \<le> x \<Longrightarrow> x < 18446744073709551616 \<Longrightarrow> unat (uint64_of x) = nat x"
  by (simp add: uint64_of_def u64_of_int)

lemma int64_of_small:
  assumes "unat u < 9223372036854775808"
  shows "int64_of u = int (unat u)"
proof -
  have "int (unat u) < 9223372036854775808" "0 \<le> int (unat u)" using assms by linarith+
  then have "int64_range (int (unat u))" by (intro int64_rangeI) linarith+
  then show ?thesis by (simp add: int64_of_def)
qed

section \<open>math/bits\<close>

definition bits_Mul64 :: "uint64 \<Rightarrow> uint64 \<Rightarrow> uint64 \<times> uint64" where
  "bits_Mul64 x y = (of_nat (unat x * unat y div 2 ^ 64), x * y)"

definition bits_Add64 :: "uint64 \<Rightarrow> uint64 \<Rightarrow> uint64 \<Rightarrow> uint64 \<times> uint64" where
  "bits_Add64 x y carry =
     (x + y + carry, if unat x + unat y + unat carry \<ge> 2 ^ 64 then 1 else 0)"

definition bits_Sub64 :: "uint64 \<Rightarrow> uint64 \<Rightarrow> uint64 \<Rightarrow> uint64 \<times> uint64" where
  "bits_Sub64 x y borrow =
     (x - y - borrow, if unat x < unat y + unat borrow then 1 else 0)"

text \<open>
  \<open>bits.Div64\<close> panics when the divisor is zero or not above the high word.
  Every call in the sources stands behind exactly that test, so the total
  function below is only used where Go's returns.
\<close>

definition bits_Div64 :: "uint64 \<Rightarrow> uint64 \<Rightarrow> uint64 \<Rightarrow> uint64 \<times> uint64" where
  "bits_Div64 hi lo y =
     (let n = unat hi * 2 ^ 64 + unat lo in (of_nat (n div unat y), of_nat (n mod unat y)))"

definition dword :: "uint64 \<Rightarrow> uint64 \<Rightarrow> nat" where
  "dword hi lo = unat hi * 2 ^ 64 + unat lo"

lemma dword_Mul64: "(case bits_Mul64 x y of (hi, lo) \<Rightarrow> dword hi lo) = unat x * unat y"
proof -
  have "unat x * unat y < 2 ^ 64 * 2 ^ 64"
    using unat_less_2p64 [of x] unat_less_2p64 [of y] by (intro mult_strict_mono) auto
  then have "unat x * unat y div 2 ^ 64 < 2 ^ 64"
    by (intro less_mult_imp_div_less) (simp add: ac_simps)
  then have hi: "unat (of_nat (unat x * unat y div 2 ^ 64) :: uint64) = unat x * unat y div 2 ^ 64"
    by (intro u64_of_nat) simp
  have lo: "unat (x * y) = unat x * unat y mod 2 ^ 64"
    by (simp add: unat_word_ariths)
  show ?thesis
    unfolding bits_Mul64_def dword_def prod.case hi lo
    by (rule div_mult_mod_eq)
qed

lemma Div64_fst:
  "dword hi lo < unat y * 2 ^ 64 \<Longrightarrow> unat (fst (bits_Div64 hi lo y)) = dword hi lo div unat y"
  unfolding bits_Div64_def dword_def Let_def fst_conv
  by (intro u64_of_nat) (simp add: less_mult_imp_div_less mult.commute)

lemma Div64_snd:
  assumes "0 < unat y"
  shows "unat (snd (bits_Div64 hi lo y)) = dword hi lo mod unat y"
proof -
  have "dword hi lo mod unat y < unat y" using assms by simp
  also have "unat y < 18446744073709551616" by (rule unat_less_2p64)
  finally show ?thesis
    unfolding bits_Div64_def dword_def Let_def snd_conv by (rule u64_of_nat)
qed

text \<open>Adding one word to a double word, with the carry passed on, as the sources do.\<close>

definition dword_add :: "uint64 \<times> uint64 \<Rightarrow> uint64 \<Rightarrow> uint64 \<times> uint64" where
  "dword_add p r =
     (case p of (high, low) \<Rightarrow>
        let (low', carry) = bits_Add64 low r 0 in (fst (bits_Add64 high carry 0), low'))"

definition dword_sub :: "uint64 \<times> uint64 \<Rightarrow> uint64 \<Rightarrow> uint64 \<times> uint64" where
  "dword_sub p r =
     (case p of (high, low) \<Rightarrow>
        let (low', borrow) = bits_Sub64 low r 0 in (fst (bits_Sub64 high 0 borrow), low'))"

lemma dword_add_value:
  assumes "dword high low + unat r < 2 ^ 128"
  shows "(case dword_add (high, low) r of (h, l) \<Rightarrow> dword h l) = dword high low + unat r"
proof (cases "unat low + unat r \<ge> 2 ^ 64")
  case False
  then show ?thesis
    by (simp add: dword_add_def bits_Add64_def dword_def u64_add)
next
  case True
  have low: "unat (low + r) = unat low + unat r - 2 ^ 64"
  proof -
    have "unat low + unat r - 2 ^ 64 < 2 ^ 64"
      using unat_less_2p64 [of low] unat_less_2p64 [of r] True by simp
    then show ?thesis
      using True by (simp add: u64_add_wrap mod_if)
  qed
  have "unat high + 1 < 2 ^ 64"
    using assms True by (simp add: dword_def)
  then have high: "unat (high + 1) = unat high + 1"
    by (subst u64_add) simp_all
  show ?thesis
    using True by (simp add: dword_add_def bits_Add64_def dword_def low high)
qed

lemma dword_sub_value:
  assumes "unat r \<le> dword high low"
  shows "(case dword_sub (high, low) r of (h, l) \<Rightarrow> dword h l) = dword high low - unat r"
proof (cases "unat low < unat r")
  case False
  then show ?thesis
    by (simp add: dword_sub_def bits_Sub64_def dword_def u64_sub)
next
  case True
  have low: "unat (low - r) = unat low + 18446744073709551616 - unat r"
    using True by (simp add: unat_sub_if')
  have "1 \<le> unat high"
  proof (rule ccontr)
    assume "\<not> ?thesis"
    then have "unat high = 0" by simp
    then show False using assms True by (simp add: dword_def)
  qed
  then have high: "unat (high - 1) = unat high - 1"
    by (subst u64_sub) simp_all
  have "unat high * 2 ^ 64 = (unat high - 1) * 2 ^ 64 + 2 ^ 64"
    using \<open>1 \<le> unat high\<close> by (simp add: diff_mult_distrib)
  then show ?thesis
    using True unat_less_2p64 [of r] by (simp add: dword_sub_def bits_Sub64_def dword_def low high)
qed

section \<open>Truncating division\<close>

text \<open>
  Go's \<open>/\<close> and \<open>%\<close> on signed integers truncate towards zero: \<open>sdiv\<close> and \<open>smod\<close>.
  The sources turn the truncated quotient into the floor by hand; the two
  facts below say when the correction is right.
\<close>

lemma sdiv_nonneg: "0 \<le> k \<Longrightarrow> 0 < l \<Longrightarrow> (k :: int) sdiv l = k div l"
  by (cases "k = 0") (simp_all add: signed_divide_int_def)

lemma smod_eq: "(k :: int) smod l = k - (k sdiv l) * l"
  using sdiv_mult_smod_eq [of k l] by simp

lemma sdiv_neg:
  assumes "k < 0" "0 < l"
  shows "(k :: int) sdiv l = - ((- k) div l)"
  using assms by (simp add: signed_divide_int_def)

lemma sdiv_exact:
  assumes "0 < l" "(k :: int) smod l = 0"
  shows "k sdiv l = k div l"
proof -
  have "k = (k sdiv l) * l" using assms(2) by (simp add: smod_eq)
  then show ?thesis using assms(1) by (metis nonzero_mult_div_cancel_right less_irrefl)
qed

lemma sdiv_neg_inexact:
  assumes "0 < l" "(k :: int) < 0" "k smod l \<noteq> 0"
  shows "k sdiv l - 1 = k div l"
proof -
  define q where "q = (- k) div l"
  define r where "r = (- k) mod l"
  have kqr: "- k = q * l + r" by (simp add: q_def r_def)
  have r: "0 \<le> r" "r < l" using assms(1) by (simp_all add: r_def)
  have sd: "k sdiv l = - q" using assms by (simp add: sdiv_neg q_def)
  then have "r \<noteq> 0" using assms(3) kqr by (simp add: smod_eq)
  then have "k = (- q - 1) * l + (l - r)" "0 \<le> l - r" "l - r < l"
    using kqr r by (simp_all add: algebra_simps)
  then have "k div l = - q - 1"
    by (metis div_mult_self3 add.commute div_pos_pos_trivial add.right_neutral assms(1) less_irrefl mult.commute)
  then show ?thesis by (simp add: sd)
qed

section \<open>time\<close>

type_synonym time = int
type_synonym duration = int

abbreviation (input) Microsecond :: duration where "Microsecond \<equiv> 1000"
abbreviation (input) Millisecond :: duration where "Millisecond \<equiv> 1000000"
abbreviation (input) Second :: duration where "Second \<equiv> 1000000000"

text \<open>The zero \<open>time.Time\<close> is the first instant of year 1.\<close>

definition zero_time :: time where
  "zero_time = - 62135596800000000000"

definition IsZero :: "time \<Rightarrow> bool" where
  "IsZero t \<longleftrightarrow> t = zero_time"

definition UnixNano :: "time \<Rightarrow> int" where
  "UnixNano t = i64 t"

definition UnixMicro :: "time \<Rightarrow> int" where
  "UnixMicro t = i64 (t div 1000)"

definition time_UnixMicro :: "int \<Rightarrow> time" where
  "time_UnixMicro us = us * 1000"

text \<open>\<open>time.Unix(0, ns)\<close>.\<close>

definition time_UnixNano :: "int \<Rightarrow> time" where
  "time_UnixNano ns = ns"

definition time_Add :: "time \<Rightarrow> duration \<Rightarrow> time" where
  "time_Add t d = t + d"

text \<open>\<open>Time.Sub\<close> saturates at the largest and smallest duration.\<close>

definition time_Sub :: "time \<Rightarrow> time \<Rightarrow> duration" where
  "time_Sub t u = (if t - u > MaxInt64 then MaxInt64 else if t - u < MinInt64 then MinInt64 else t - u)"

text \<open>\<open>t.Truncate(time.Microsecond)\<close>: the zero time lies on a microsecond.\<close>

definition Truncate_us :: "time \<Rightarrow> time" where
  "Truncate_us t = (t div 1000) * 1000"

definition Microseconds :: "duration \<Rightarrow> int" where
  "Microseconds d = d sdiv 1000"

definition Milliseconds :: "duration \<Rightarrow> int" where
  "Milliseconds d = d sdiv 1000000"

lemma Microseconds_nonneg [simp]: "0 \<le> d \<Longrightarrow> Microseconds d = d div 1000"
  by (simp add: Microseconds_def sdiv_nonneg)

lemma Microseconds_ge: "d < 0 \<Longrightarrow> Microseconds d \<le> 0"
  by (simp add: Microseconds_def sdiv_neg)

text \<open>Instants on a microsecond, as every backend normalises the request time.\<close>

definition on_micro :: "time \<Rightarrow> bool" where
  "on_micro t \<longleftrightarrow> t mod 1000 = 0"

lemma on_micro_UnixMicro [simp]: "on_micro (time_UnixMicro us)"
  by (simp add: on_micro_def time_UnixMicro_def)

lemma on_micro_Truncate [simp]: "on_micro (Truncate_us t)"
  by (simp add: on_micro_def Truncate_us_def)

lemma on_micro_split: "on_micro t \<Longrightarrow> t div 1000 * 1000 = t"
  by (simp add: on_micro_def flip: minus_mod_eq_div_mult)

end
