(* ===== verification/Errors.thy ===== *)
theory Errors
  imports Go_Runtime
begin

text \<open>
  \<^verbatim>\<open>errors.go\<close> and \<^verbatim>\<open>strict_errors.go\<close>: error values, \<open>errors.Is\<close> on them, the
  outcome declarations a strict backend returns, and the errors of a strict
  batch with their bounded texts.

  A Go \<open>error\<close> is a \<open>go_error option\<close>, \<open>None\<close> for nil. The sentinels are the
  constant constructors; a pointer type of the package has one constructor for
  its values and one for its nil pointer, which is a non-nil \<open>error\<close> in Go. An
  error of any other package is \<open>Foreign\<close>, with its text and the errors its own
  \<open>Unwrap\<close> or \<open>Is\<close> leads to.
\<close>

datatype strictOutcomeKind =
  strictOutcomeCanceled | strictOutcomeDeadline | strictOutcomeUnknown

datatype go_error =
    ErrRejected | ErrInvalidPolicy | ErrInvalidKey | ErrInvalidRequest
  | ErrUnavailable | ErrDeadline | ErrOverflow | ErrCorrupt | ErrUnsupported
  | ErrLeaseNotFound | ErrLeaseNotOwned | ErrCanceled | ErrOutcomeUnknown
  | ContextCanceled | ContextDeadlineExceeded
  | StrictOutcome strictOutcomeKind "strictOutcomeKind option"
  | NilStrictOutcome
  | BackendError "go_error option"
  | NilBackendError
  | BatchItemError nat "go_error option"
  | NilBatchItemError
  | StrictBatchError "go_error list"
  | NilStrictBatchError
  | Wrapped string go_error
  | Prefixed string go_error
  | PersistedStateError go_error
  | Joined "go_error list"
  | Foreign string "go_error list"

text \<open>\<open>directError\<close>: identity with a sentinel, never a walk of the error tree.\<close>

definition directError :: "go_error option \<Rightarrow> go_error option \<Rightarrow> bool" where
  "directError err target =
     (case (err, target) of
        (None, None) \<Rightarrow> True
      | (Some e, Some t) \<Rightarrow> e = t
      | _ \<Rightarrow> False)"

lemma directError_Some [err_simps, simp]: "directError (Some e) (Some t) \<longleftrightarrow> e = t"
  by (simp add: directError_def)

lemma directError_None [err_simps, simp]:
  "\<not> directError None (Some t)" "\<not> directError (Some e) None" "directError None None"
  by (simp_all add: directError_def)

section \<open>Outcome declarations\<close>

definition CanceledOutcome :: go_error where
  "CanceledOutcome = StrictOutcome strictOutcomeCanceled None"

definition DeadlineOutcome :: go_error where
  "DeadlineOutcome = StrictOutcome strictOutcomeDeadline None"

definition UnknownOutcome :: "go_error option \<Rightarrow> go_error" where
  "UnknownOutcome contextCategory =
     StrictOutcome strictOutcomeUnknown
       (if directError contextCategory (Some ContextCanceled) then Some strictOutcomeCanceled
        else if directError contextCategory (Some ContextDeadlineExceeded) then Some strictOutcomeDeadline
        else None)"

definition strictOutcome_Is :: "strictOutcomeKind \<Rightarrow> strictOutcomeKind option \<Rightarrow> go_error \<Rightarrow> bool" where
  "strictOutcome_Is kind ctx target =
     (case kind of
        strictOutcomeCanceled \<Rightarrow> target \<in> {ErrCanceled, ContextCanceled, ErrDeadline}
      | strictOutcomeDeadline \<Rightarrow> target \<in> {ErrDeadline, ContextDeadlineExceeded}
      | strictOutcomeUnknown \<Rightarrow>
          if target = ErrOutcomeUnknown then True
          else if ctx = Some strictOutcomeCanceled then target \<in> {ErrCanceled, ContextCanceled, ErrDeadline}
          else if ctx = Some strictOutcomeDeadline then target \<in> {ErrDeadline, ContextDeadlineExceeded}
          else False)"

text \<open>\<open>errors.Is(err, target)\<close> for a sentinel \<open>target\<close>.\<close>

fun errors_Is :: "go_error \<Rightarrow> go_error \<Rightarrow> bool" where
  "errors_Is (StrictOutcome k c) t = strictOutcome_Is k c t"
| "errors_Is NilStrictOutcome t = False"
| "errors_Is (BackendError None) t = False"
| "errors_Is (BackendError (Some e)) t = errors_Is e t"
| "errors_Is NilBackendError t = False"
| "errors_Is (BatchItemError i None) t = False"
| "errors_Is (BatchItemError i (Some e)) t = errors_Is e t"
| "errors_Is NilBatchItemError t = False"
| "errors_Is (StrictBatchError es) t = list_ex (\<lambda>e. errors_Is e t) es"
| "errors_Is NilStrictBatchError t = False"
| "errors_Is (Wrapped s e) t = errors_Is e t"
| "errors_Is (Prefixed s e) t = errors_Is e t"
| "errors_Is (PersistedStateError e) t = errors_Is e t"
| "errors_Is (Joined es) t = list_ex (\<lambda>e. errors_Is e t) es"
| "errors_Is (Foreign s es) t = list_ex (\<lambda>e. errors_Is e t) es"
| "errors_Is e t = (e = t)"

definition Is :: "go_error option \<Rightarrow> go_error \<Rightarrow> bool" where
  "Is err t = (case err of None \<Rightarrow> False | Some e \<Rightarrow> errors_Is e t)"

lemma Is_simps [err_simps, simp]: "\<not> Is None t" "Is (Some e) t = errors_Is e t"
  by (simp_all add: Is_def)

section \<open>Backend categories\<close>

definition safeBackendCategory :: "go_error option \<Rightarrow> bool" where
  "safeBackendCategory err \<longleftrightarrow>
     directError err (Some ErrRejected) \<or> directError err (Some ErrUnavailable) \<or>
     directError err (Some ErrOverflow) \<or> directError err (Some ErrCorrupt) \<or>
     directError err (Some ErrUnsupported) \<or> directError err (Some ErrLeaseNotFound) \<or>
     directError err (Some ErrLeaseNotOwned)"

definition NewBackendError :: "go_error option \<Rightarrow> go_error + go_error" where
  "NewBackendError category =
     (if \<not> safeBackendCategory category
      then Inl (Wrapped ''backend error category is not safe'' ErrInvalidPolicy)
      else Inr (BackendError category))"

definition BackendError_Category :: "go_error \<Rightarrow> go_error option" where
  "BackendError_Category err = (case err of BackendError c \<Rightarrow> c | _ \<Rightarrow> None)"

lemma safe_Some: "safeBackendCategory (Some e) \<longleftrightarrow>
    e \<in> {ErrRejected, ErrUnavailable, ErrOverflow, ErrCorrupt, ErrUnsupported, ErrLeaseNotFound, ErrLeaseNotOwned}"
  by (auto simp: safeBackendCategory_def)

lemma safe_None [simp]: "\<not> safeBackendCategory None"
  by (simp add: safeBackendCategory_def)

lemma safe_E:
  assumes "safeBackendCategory err"
  obtains e where "err = Some e"
    "e \<in> {ErrRejected, ErrUnavailable, ErrOverflow, ErrCorrupt, ErrUnsupported, ErrLeaseNotFound, ErrLeaseNotOwned}"
  using assms by (cases err) (auto simp: safe_Some)

section \<open>Texts\<close>

fun decimal_digits :: "nat \<Rightarrow> string" where
  "decimal_digits n =
     (if n < 10 then [char_of (48 + n)] else decimal_digits (n div 10) @ [char_of (48 + n mod 10)])"

declare decimal_digits.simps [simp del]

text \<open>\<open>err.Error()\<close>; \<open>fmt.Errorf("%w: text")\<close> appends the text to the wrapped error's and
  \<open>fmt.Errorf("item %d: %w")\<close> puts it before.\<close>

fun Error_text :: "go_error \<Rightarrow> string" where
  "Error_text ErrRejected = ''rate limit rejected''"
| "Error_text ErrInvalidPolicy = ''invalid rate limit policy''"
| "Error_text ErrInvalidKey = ''invalid rate limit key''"
| "Error_text ErrInvalidRequest = ''invalid rate limit request''"
| "Error_text ErrUnavailable = ''rate limit backend unavailable''"
| "Error_text ErrDeadline = ''rate limit deadline exceeded''"
| "Error_text ErrOverflow = ''rate limit arithmetic overflow''"
| "Error_text ErrCorrupt = ''rate limit state corrupt''"
| "Error_text ErrUnsupported = ''rate limit operation unsupported''"
| "Error_text ErrLeaseNotFound = ''rate limit lease not found''"
| "Error_text ErrLeaseNotOwned = ''rate limit lease not owned''"
| "Error_text ErrCanceled = ''rate limit canceled''"
| "Error_text ErrOutcomeUnknown = ''rate limit outcome unknown''"
| "Error_text ContextCanceled = ''context canceled''"
| "Error_text ContextDeadlineExceeded = ''context deadline exceeded''"
| "Error_text (StrictOutcome strictOutcomeCanceled c) = ''rate limit canceled''"
| "Error_text (StrictOutcome strictOutcomeDeadline c) = ''rate limit deadline exceeded''"
| "Error_text (StrictOutcome strictOutcomeUnknown c) = ''rate limit outcome unknown''"
| "Error_text NilStrictOutcome = ''rate limit outcome error''"
| "Error_text (BackendError None) = ''rate limit backend error''"
| "Error_text (BackendError (Some e)) = Error_text e"
| "Error_text NilBackendError = ''rate limit backend error''"
| "Error_text (BatchItemError i None) = ''item error''"
| "Error_text (BatchItemError i (Some e)) = ''item '' @ decimal_digits i @ '': '' @ Error_text e"
| "Error_text NilBatchItemError = ''item error''"
| "Error_text (StrictBatchError []) = ''batch error''"
| "Error_text (StrictBatchError (e # es)) =
     Error_text e @ concat (map (\<lambda>x. [char_of (10::nat)] @ Error_text x) es)"
| "Error_text NilStrictBatchError = ''batch error''"
| "Error_text (Wrapped s e) = Error_text e @ '': '' @ s"
| "Error_text (Prefixed s e) = s @ '': '' @ Error_text e"
| "Error_text (PersistedStateError e) = Error_text e"
| "Error_text (Joined []) = ''''"
| "Error_text (Joined (e # es)) =
     Error_text e @ concat (map (\<lambda>x. [char_of (10::nat)] @ Error_text x) es)"
| "Error_text (Foreign s es) = s"

definition BatchItemError_Index :: "go_error \<Rightarrow> int" where
  "BatchItemError_Index err =
     (case err of BatchItemError i (Some e) \<Rightarrow> int i | _ \<Rightarrow> -1)"

definition StrictBatchError_Items :: "go_error \<Rightarrow> go_error list" where
  "StrictBatchError_Items err = (case err of StrictBatchError es \<Rightarrow> es | _ \<Rightarrow> [])"

definition MaxBackendErrorBytes :: nat where "MaxBackendErrorBytes = 32"
definition MaxStrictBatchErrorBytes :: nat where "MaxStrictBatchErrorBytes = 11007"
definition MaxBackendNameBytes :: nat where "MaxBackendNameBytes = 64"

end
