(* ===== verification/Policy.thy ===== *)
theory Policy
  imports Errors
begin

text \<open>
  \<^verbatim>\<open>policy.go\<close>: policy specifications, the checks of \<open>NewPolicy\<close> and the accessors
  of a constructed policy. \<open>policy_wf\<close> is what construction guarantees; the
  arithmetic of every backend rests on it.
\<close>

definition maxExactInteger :: uint64 where
  "maxExactInteger = 9007199254740991"

definition MaxPolicyIDBytes :: nat where "MaxPolicyIDBytes = 64"
definition MaxPolicyRevisionBytes :: nat where "MaxPolicyRevisionBytes = 64"
definition MaxConcurrencyLeases :: uint64 where "MaxConcurrencyLeases = 1024"

datatype algorithm =
  TokenBucket | FixedWindow | SlidingWindow | Concurrency | UnknownAlgorithm string

datatype failureMode = FailClosed | FailOpen | UnknownFailureMode nat

text \<open>\<open>OtherConsistency\<close> covers every other string, the empty one included.\<close>

datatype consistency = ConsistencyProcessLocal | ConsistencyStrong | OtherConsistency string

record policySpec =
  s_ID :: string
  s_Revision :: string
  s_Algorithm :: algorithm
  s_Capacity :: uint64
  s_Period :: duration
  s_Burst :: uint64
  s_MaxCost :: uint64
  s_FailureMode :: failureMode
  s_Consistency :: consistency
  s_Lease :: duration

record policy =
  p_id :: string
  p_revision :: string
  p_algorithm :: algorithm
  p_capacity :: uint64
  p_period :: duration
  p_burst :: uint64
  p_maxCost :: uint64
  p_failureMode :: failureMode
  p_consistency :: consistency
  p_lease :: duration

text \<open>
  Strings are lists of bytes. Go ranges over runes, but a string with a byte
  above 127 has a rune outside the tested ranges either way, so testing bytes
  accepts the same strings.
\<close>

definition in_range :: "nat \<Rightarrow> nat \<Rightarrow> char \<Rightarrow> bool" where
  "in_range lo hi c \<longleftrightarrow> lo \<le> of_char c \<and> of_char c \<le> hi"

abbreviation lower :: "char \<Rightarrow> bool" where "lower \<equiv> in_range 97 122"
abbreviation upper :: "char \<Rightarrow> bool" where "upper \<equiv> in_range 65 90"
abbreviation digit :: "char \<Rightarrow> bool" where "digit \<equiv> in_range 48 57"

definition policyIdentifierChar :: "char \<Rightarrow> bool" where
  "policyIdentifierChar c \<longleftrightarrow> lower c \<or> upper c \<or> digit c \<or> c \<in> {CHR ''-'', CHR ''_'', CHR ''.'', CHR '':''}"

definition validPolicyIdentifier :: "string \<Rightarrow> nat \<Rightarrow> bool" where
  "validPolicyIdentifier value limit \<longleftrightarrow>
     \<not> (value = [] \<or> length value > limit) \<and> list_all policyIdentifierChar value"

definition Limit :: "policy \<Rightarrow> uint64" where
  "Limit p = p_capacity p + p_burst p"

definition NewPolicy :: "policySpec \<Rightarrow> go_error + policy" where
  "NewPolicy spec =
     (if \<not> validPolicyIdentifier (s_ID spec) MaxPolicyIDBytes \<or>
         \<not> validPolicyIdentifier (s_Revision spec) MaxPolicyRevisionBytes \<or> s_Capacity spec = 0
      then Inl (Wrapped ''identity and capacity are required'' ErrInvalidPolicy)
      else let (limit, carry) = bits_Add64 (s_Capacity spec) (s_Burst spec) 0 in
      if carry \<noteq> 0
      then Inl (Wrapped ''capacity plus burst exceeds exact arithmetic'' ErrInvalidPolicy)
      else if limit > maxExactInteger
      then Inl (Wrapped ''capacity plus burst exceeds exact arithmetic'' ErrInvalidPolicy)
      else if s_Algorithm spec \<in> {TokenBucket, FixedWindow, SlidingWindow} \<and>
         (s_Period spec < Microsecond \<or> s_Period spec smod Microsecond \<noteq> 0)
      then Inl (Wrapped ''period must use positive microsecond precision'' ErrInvalidPolicy)
      else if s_Algorithm spec = Concurrency \<and>
         (s_Lease spec < Microsecond \<or> s_Lease spec smod Microsecond \<noteq> 0)
      then Inl (Wrapped ''concurrency lease must use positive microsecond precision'' ErrInvalidPolicy)
      else if s_Algorithm spec \<notin> {TokenBucket, FixedWindow, SlidingWindow, Concurrency}
      then Inl (Wrapped ''unknown algorithm'' ErrInvalidPolicy)
      else let periodMicros = uint64_of (Microseconds (s_Period spec)) in
      if s_Algorithm spec \<noteq> Concurrency \<and> limit > maxExactInteger div periodMicros
      then Inl (Wrapped ''limit and period exceed exact arithmetic bounds'' ErrInvalidPolicy)
      else if s_Algorithm spec = Concurrency \<and> limit > MaxConcurrencyLeases
      then Inl (Wrapped ''concurrency limit exceeds lease budget'' ErrInvalidPolicy)
      else let maxCost = (if s_MaxCost spec = 0 then limit else s_MaxCost spec) in
      if maxCost > limit
      then Inl (Wrapped ''maximum cost exceeds limit'' ErrInvalidPolicy)
      else if s_FailureMode spec \<noteq> FailClosed \<and> s_FailureMode spec \<noteq> FailOpen
      then Inl (Wrapped ''unknown failure mode'' ErrInvalidPolicy)
      else if s_Algorithm spec = Concurrency \<and> s_FailureMode spec = FailOpen
      then Inl (Wrapped ''concurrency leases cannot fail open'' ErrInvalidPolicy)
      else let consistency' =
        (if s_Consistency spec = OtherConsistency '''' then ConsistencyProcessLocal else s_Consistency spec) in
      if consistency' \<noteq> ConsistencyProcessLocal \<and> consistency' \<noteq> ConsistencyStrong
      then Inl (Wrapped ''unknown consistency'' ErrInvalidPolicy)
      else Inr \<lparr>p_id = s_ID spec, p_revision = s_Revision spec, p_algorithm = s_Algorithm spec,
                p_capacity = s_Capacity spec, p_period = s_Period spec, p_burst = s_Burst spec,
                p_maxCost = maxCost, p_failureMode = s_FailureMode spec,
                p_consistency = consistency', p_lease = s_Lease spec\<rparr>)"

section \<open>What construction guarantees\<close>

definition period_us :: "policy \<Rightarrow> nat" where
  "period_us p = nat (p_period p div 1000)"

definition lease_us :: "policy \<Rightarrow> nat" where
  "lease_us p = nat (p_lease p div 1000)"

definition duration_wf :: "duration \<Rightarrow> bool" where
  "duration_wf d \<longleftrightarrow> 1000 \<le> d \<and> d \<le> MaxInt64 \<and> d mod 1000 = 0"

definition policy_wf :: "policy \<Rightarrow> bool" where
  "policy_wf p \<longleftrightarrow>
     validPolicyIdentifier (p_id p) MaxPolicyIDBytes \<and>
     validPolicyIdentifier (p_revision p) MaxPolicyRevisionBytes \<and>
     0 < unat (p_capacity p) \<and>
     unat (p_capacity p) + unat (p_burst p) \<le> 9007199254740991 \<and>
     p_algorithm p \<in> {TokenBucket, FixedWindow, SlidingWindow, Concurrency} \<and>
     (p_algorithm p \<noteq> Concurrency \<longrightarrow>
        duration_wf (p_period p) \<and>
        (unat (p_capacity p) + unat (p_burst p)) * period_us p \<le> 9007199254740991) \<and>
     (p_algorithm p = Concurrency \<longrightarrow>
        duration_wf (p_lease p) \<and> unat (p_capacity p) + unat (p_burst p) \<le> 1024 \<and>
        p_failureMode p = FailClosed) \<and>
     0 < unat (p_maxCost p) \<and> unat (p_maxCost p) \<le> unat (p_capacity p) + unat (p_burst p) \<and>
     p_failureMode p \<in> {FailClosed, FailOpen} \<and>
     p_consistency p \<in> {ConsistencyProcessLocal, ConsistencyStrong}"

text \<open>A specification whose durations are \<open>int64\<close> values, as every Go value is.\<close>

definition spec_typed :: "policySpec \<Rightarrow> bool" where
  "spec_typed spec \<longleftrightarrow> int64_range (s_Period spec) \<and> int64_range (s_Lease spec)"

lemma smod_micro: "0 \<le> d \<Longrightarrow> d smod 1000 = 0 \<longleftrightarrow> (d :: int) mod 1000 = 0"
  by (simp add: smod_eq sdiv_nonneg minus_div_mult_eq_mod)

lemma Limit_unat:
  "unat (p_capacity p) + unat (p_burst p) \<le> 9007199254740991 \<Longrightarrow>
   unat (Limit p) = unat (p_capacity p) + unat (p_burst p)"
  by (simp add: Limit_def u64_add)

lemma policy_wf_Limit: "policy_wf p \<Longrightarrow> unat (Limit p) = unat (p_capacity p) + unat (p_burst p)"
  by (simp add: policy_wf_def Limit_unat)

lemma policy_wf_Limit_bound: "policy_wf p \<Longrightarrow> unat (Limit p) \<le> 9007199254740991"
  by (simp add: policy_wf_Limit) (simp add: policy_wf_def)

lemma policy_wf_capacity: "policy_wf p \<Longrightarrow> 0 < unat (p_capacity p) \<and> unat (p_capacity p) \<le> unat (Limit p)"
  by (simp add: policy_wf_Limit) (simp add: policy_wf_def)

lemma policy_wf_period:
  assumes "policy_wf p" "p_algorithm p \<noteq> Concurrency"
  shows "duration_wf (p_period p)" "0 < period_us p"
    "p_period p = int (period_us p) * 1000"
    "unat (Limit p) * period_us p \<le> 9007199254740991" "period_us p \<le> 9007199254740991"
proof -
  show d: "duration_wf (p_period p)" using assms by (simp add: policy_wf_def)
  then have pos: "1 \<le> p_period p div 1000" unfolding duration_wf_def by linarith
  then show "0 < period_us p" by (simp add: period_us_def)
  have "p_period p div 1000 * 1000 = p_period p"
    using d by (auto simp: duration_wf_def)
  then show "p_period p = int (period_us p) * 1000" using pos by (simp add: period_us_def)
  show lp: "unat (Limit p) * period_us p \<le> 9007199254740991"
    using assms by (simp add: policy_wf_Limit) (simp add: policy_wf_def)
  have "1 * period_us p \<le> unat (Limit p) * period_us p"
    using policy_wf_capacity [OF assms(1)] by (intro mult_le_mono1) linarith
  then show "period_us p \<le> 9007199254740991" using lp by linarith
qed

text \<open>The policy a specification describes, with the defaults of \<open>NewPolicy\<close> filled in.\<close>

definition policy_of_spec :: "policySpec \<Rightarrow> policy" where
  "policy_of_spec spec =
     \<lparr>p_id = s_ID spec, p_revision = s_Revision spec, p_algorithm = s_Algorithm spec,
      p_capacity = s_Capacity spec, p_period = s_Period spec, p_burst = s_Burst spec,
      p_maxCost = (if s_MaxCost spec = 0 then s_Capacity spec + s_Burst spec else s_MaxCost spec),
      p_failureMode = s_FailureMode spec,
      p_consistency =
        (if s_Consistency spec = OtherConsistency '''' then ConsistencyProcessLocal else s_Consistency spec),
      p_lease = s_Lease spec\<rparr>"

lemma duration_check:
  "int64_range d \<Longrightarrow> (d < Microsecond \<or> d smod Microsecond \<noteq> 0) \<longleftrightarrow> \<not> duration_wf d"
  using smod_micro [of d] by (cases "d < 1000") (auto simp: duration_wf_def int64_range_def)

lemma exact_product_check:
  assumes "duration_wf d"
  shows "n \<le> unat (maxExactInteger div uint64_of (Microseconds d)) \<longleftrightarrow>
    n * nat (d div 1000) \<le> 9007199254740991"
proof -
  have d: "1000 \<le> d" "d \<le> 9223372036854775807" using assms by (simp_all add: duration_wf_def)
  then have pos: "0 < nat (d div 1000)" by linarith
  have "unat (uint64_of (d div 1000)) = nat (d div 1000)"
    using d by (intro unat_uint64_of) linarith+
  then show ?thesis
    using d pos by (simp add: u64_div maxExactInteger_def less_eq_div_iff_mult_less_eq)
qed

lemma if_Inl_eq_Inr: "(if c then Inl e else x) = Inr y \<longleftrightarrow> \<not> c \<and> x = Inr y"
  by simp

lemma NewPolicy_limit_check:
  "(let (limit, carry) = bits_Add64 c b 0 in
      if carry \<noteq> 0 then x else if limit > maxExactInteger then x else f limit) =
   (if unat c + unat b \<le> 9007199254740991 then f (c + b) else x)"
proof (cases "unat c + unat b < 18446744073709551616")
  case True
  then show ?thesis
    by (simp add: bits_Add64_def u64_less u64_add maxExactInteger_def not_le)
qed (simp add: bits_Add64_def)

text \<open>
  C32. \<open>NewPolicy\<close> accepts a specification exactly when the policy it describes,
  with the default maximum cost and consistency filled in, is well formed, and
  then returns that policy. Well-formedness holds the bounds every backend
  computes with: limit, and limit times period in microseconds, at most
  2^53 - 1, positive whole-microsecond durations, at most 1,024 concurrency
  units, no fail-open concurrency.
\<close>

theorem NewPolicy_iff:
  assumes "spec_typed spec"
  shows "NewPolicy spec = Inr p \<longleftrightarrow> p = policy_of_spec spec \<and> policy_wf p"
proof -
  let ?c = "s_Capacity spec" and ?b = "s_Burst spec" and ?a = "s_Algorithm spec"
  have dur: "int64_range (s_Period spec)" "int64_range (s_Lease spec)"
    using assms by (simp_all add: spec_typed_def)
  show ?thesis
  proof (cases "unat ?c + unat ?b \<le> 9007199254740991 \<and> ?c \<noteq> 0")
    case False
    then show ?thesis
      unfolding NewPolicy_def NewPolicy_limit_check
      by (auto simp: policy_wf_def policy_of_spec_def)
  next
    case True
    then have lim: "unat (?c + ?b) = unat ?c + unat ?b" "0 < unat ?c"
      by (simp_all add: u64_add unat_gt_0)
    have "NewPolicy spec = Inr p \<longleftrightarrow> policy_wf (policy_of_spec spec) \<and> policy_of_spec spec = p"
      using True
      unfolding NewPolicy_def NewPolicy_limit_check
      by (simp only: Let_def if_True if_Inl_eq_Inr duration_check [OF dur(1)] duration_check [OF dur(2)],
          simp add: policy_wf_def policy_of_spec_def lim u64_less period_us_def
            MaxConcurrencyLeases_def not_less,
          cases ?a; auto simp: exact_product_check lim unat_gt_0)
    then show ?thesis by auto
  qed
qed

section \<open>A sample\<close>

definition sample_spec :: policySpec where
  "sample_spec =
     \<lparr>s_ID = ''api'', s_Revision = ''v1'', s_Algorithm = TokenBucket, s_Capacity = 10, s_Period = 1000000000,
      s_Burst = 5, s_MaxCost = 0, s_FailureMode = FailOpen, s_Consistency = OtherConsistency '''', s_Lease = 0\<rparr>"

definition sample_policy :: policy where
  "sample_policy =
     \<lparr>p_id = ''api'', p_revision = ''v1'', p_algorithm = TokenBucket, p_capacity = 10, p_period = 1000000000,
      p_burst = 5, p_maxCost = 15, p_failureMode = FailOpen, p_consistency = ConsistencyProcessLocal, p_lease = 0\<rparr>"

lemma sample_policy_wf [simp]: "policy_wf sample_policy"
  by (simp add: policy_wf_def sample_policy_def validPolicyIdentifier_def policyIdentifierChar_def in_range_def
      MaxPolicyIDBytes_def MaxPolicyRevisionBytes_def duration_wf_def period_us_def)

theorem NewPolicy_iff_witness: "spec_typed sample_spec \<and> NewPolicy sample_spec = Inr sample_policy"
proof -
  have "spec_typed sample_spec" by (simp add: spec_typed_def sample_spec_def int64_range_def)
  moreover have "sample_policy = policy_of_spec sample_spec"
    by (simp add: sample_policy_def policy_of_spec_def sample_spec_def)
  ultimately show ?thesis using NewPolicy_iff [of sample_spec sample_policy] by simp
qed

end
