(* ===== verification/Keys.thy ===== *)
theory Keys
  imports Policy
begin

text \<open>
  \<^verbatim>\<open>key.go\<close>: validation and derivation of admission keys. SHA-256 is a parameter
  \<open>sha256\<close> of the definitions (a function from byte strings to byte strings);
  the one property of it that anything rests on, that two given inputs do not
  collide, is a hypothesis where it is used.
\<close>

definition MaxSubjectBytes :: nat where "MaxSubjectBytes = 256"
definition maxKeyPartBytes :: nat where "maxKeyPartBytes = 48"

record subject =
  sub_Kind :: string
  sub_Value :: string

record keySpec =
  k_Namespace :: string
  k_Version :: string
  k_Subject :: subject
  k_Hash :: bool

record key =
  k_value :: string
  k_subjectKind :: string

definition zero_key :: key where
  "zero_key = \<lparr>k_value = '''', k_subjectKind = ''''\<rparr>"

abbreviation NUL :: char where "NUL \<equiv> CHR 0x00"

definition keyPartChar :: "char \<Rightarrow> bool" where
  "keyPartChar c \<longleftrightarrow> lower c \<or> digit c \<or> c = CHR ''-'' \<or> c = CHR ''_''"

definition validKeyPart :: "string \<Rightarrow> bool" where
  "validKeyPart value \<longleftrightarrow>
     value \<noteq> [] \<and> \<not> length value > maxKeyPartBytes \<and> list_all keyPartChar value"

definition hex_digit :: "nat \<Rightarrow> char" where
  "hex_digit n = (if n < 10 then char_of (48 + n) else char_of (87 + n))"

definition hex_EncodeToString :: "string \<Rightarrow> string" where
  "hex_EncodeToString bytes =
     concat (map (\<lambda>c. [hex_digit (of_char c div 16), hex_digit (of_char c mod 16)]) bytes)"

definition unsafe_subject_chars :: "char set" where
  "unsafe_subject_chars = {CHR ''{'', CHR ''}'', NUL, CHR 0x0D, CHR 0x0A}"

definition key_preimage :: "keySpec \<Rightarrow> string" where
  "key_preimage spec =
     k_Namespace spec @ NUL # k_Version spec @ NUL # sub_Kind (k_Subject spec) @ NUL # sub_Value (k_Subject spec)"

definition NewKey :: "(string \<Rightarrow> string) \<Rightarrow> keySpec \<Rightarrow> go_error + key" where
  "NewKey sha256 spec =
     (if \<not> validKeyPart (k_Namespace spec) \<or> \<not> validKeyPart (k_Version spec) \<or>
         \<not> validKeyPart (sub_Kind (k_Subject spec)) \<or> sub_Value (k_Subject spec) = [] \<or>
         length (sub_Value (k_Subject spec)) > MaxSubjectBytes
      then Inl (Wrapped ''invalid or oversized component'' ErrInvalidKey)
      else if \<not> k_Hash spec \<and> list_ex (\<lambda>c. c \<in> unsafe_subject_chars) (sub_Value (k_Subject spec))
      then Inl (Wrapped ''unsafe subject characters'' ErrInvalidKey)
      else let value = (if k_Hash spec then hex_EncodeToString (sha256 (key_preimage spec))
                        else sub_Value (k_Subject spec)) in
        Inr \<lparr>k_value = k_Namespace spec @ '':'' @ k_Version spec @ '':'' @
               sub_Kind (k_Subject spec) @ '':'' @ value,
             k_subjectKind = sub_Kind (k_Subject spec)\<rparr>)"

definition key_String :: "key \<Rightarrow> string" where "key_String k = k_value k"
definition SubjectKind :: "key \<Rightarrow> string" where "SubjectKind k = k_subjectKind k"

text \<open>The identity under which every backend stores the state of a policy and a key.\<close>

definition state_key :: "string \<Rightarrow> key \<Rightarrow> string" where
  "state_key policyID k = policyID @ NUL # key_String k"

section \<open>Separators stay outside the parts\<close>

lemma keyPart_no_sep: "validKeyPart s \<Longrightarrow> CHR '':'' \<notin> set s \<and> NUL \<notin> set s"
  by (auto simp: validKeyPart_def keyPartChar_def in_range_def list_all_iff)

lemma policyId_no_NUL: "validPolicyIdentifier s n \<Longrightarrow> NUL \<notin> set s"
  by (auto simp: validPolicyIdentifier_def policyIdentifierChar_def in_range_def list_all_iff)

lemma hex_digit_inj: "m < 16 \<Longrightarrow> n < 16 \<Longrightarrow> hex_digit m = hex_digit n \<Longrightarrow> m = n"
  by (auto simp: hex_digit_def char_of_eq_iff take_bit_eq_mod
      dest!: arg_cong [where f = "of_char :: char \<Rightarrow> nat"] split: if_splits)

lemma of_char_less_256: "(of_char c :: nat) < 256"
  by (rule nat_of_char_less_256)

lemma hex_byte_inj:
  assumes "hex_digit (of_char c div 16) = hex_digit (of_char d div 16)"
    "hex_digit (of_char c mod 16) = hex_digit (of_char d mod 16)"
  shows "c = d"
proof -
  have "(of_char c :: nat) div 16 = of_char d div 16"
    using assms(1) of_char_less_256 [of c] of_char_less_256 [of d]
    by (intro hex_digit_inj) (simp_all add: less_mult_imp_div_less)
  moreover have "(of_char c :: nat) mod 16 = of_char d mod 16"
    using assms(2) by (intro hex_digit_inj) simp_all
  ultimately have "(of_char c :: nat) = of_char d"
    by (metis div_mult_mod_eq)
  then show ?thesis by simp
qed

lemma hex_inj: "hex_EncodeToString xs = hex_EncodeToString ys \<Longrightarrow> xs = ys"
proof (induction xs arbitrary: ys)
  case Nil
  then show ?case by (cases ys) (auto simp: hex_EncodeToString_def)
next
  case (Cons c xs)
  then show ?case
    by (cases ys) (auto simp: hex_EncodeToString_def dest: hex_byte_inj)
qed

lemma key_parts_unique:
  assumes "n @ c # v @ c # k @ c # x = n' @ c # v' @ c # k' @ c # x'"
    and "c \<notin> set n" "c \<notin> set v" "c \<notin> set k" "c \<notin> set n'" "c \<notin> set v'" "c \<notin> set k'"
  shows "n = n' \<and> v = v' \<and> k = k' \<and> x = x'"
proof -
  from sep_unique [OF assms(1,2,5)] have n: "n = n'" and r: "v @ c # k @ c # x = v' @ c # k' @ c # x'"
    by simp_all
  from sep_unique [OF r assms(3,6)] have v: "v = v'" and r': "k @ c # x = k' @ c # x'"
    by simp_all
  from sep_unique [OF r' assms(4,7)] n v show ?thesis by simp
qed

lemma NewKey_Inr:
  "NewKey sha256 spec = Inr k \<longleftrightarrow>
     validKeyPart (k_Namespace spec) \<and> validKeyPart (k_Version spec) \<and>
     validKeyPart (sub_Kind (k_Subject spec)) \<and> sub_Value (k_Subject spec) \<noteq> [] \<and>
     length (sub_Value (k_Subject spec)) \<le> 256 \<and>
     (k_Hash spec \<or> set (sub_Value (k_Subject spec)) \<inter> unsafe_subject_chars = {}) \<and>
     k = \<lparr>k_value = k_Namespace spec @ CHR '':'' # k_Version spec @ CHR '':'' #
            sub_Kind (k_Subject spec) @ CHR '':'' #
            (if k_Hash spec then hex_EncodeToString (sha256 (key_preimage spec))
             else sub_Value (k_Subject spec)),
          k_subjectKind = sub_Kind (k_Subject spec)\<rparr>"
  by (auto simp: NewKey_def MaxSubjectBytes_def list_ex_iff Let_def)

lemma NewKey_spec_unique:
  assumes "NewKey sha256 spec = Inr k" "NewKey sha256 spec' = Inr k'"
    and "key_String k = key_String k'" "k_Hash spec = k_Hash spec'"
    and "sha256 (key_preimage spec) = sha256 (key_preimage spec') \<Longrightarrow> key_preimage spec = key_preimage spec'"
  shows "spec = spec'"
proof -
  have v: "validKeyPart (k_Namespace spec)" "validKeyPart (k_Version spec)" "validKeyPart (sub_Kind (k_Subject spec))"
    "validKeyPart (k_Namespace spec')" "validKeyPart (k_Version spec')" "validKeyPart (sub_Kind (k_Subject spec'))"
    using assms(1,2) by (auto simp: NewKey_Inr)
  note sep = v [THEN keyPart_no_sep]
  have "k_Namespace spec = k_Namespace spec' \<and> k_Version spec = k_Version spec' \<and>
    sub_Kind (k_Subject spec) = sub_Kind (k_Subject spec') \<and>
    (if k_Hash spec then hex_EncodeToString (sha256 (key_preimage spec)) else sub_Value (k_Subject spec)) =
    (if k_Hash spec' then hex_EncodeToString (sha256 (key_preimage spec')) else sub_Value (k_Subject spec'))"
  proof (rule key_parts_unique [where c = "CHR '':''"])
    have "k_value k = k_value k'" using assms(3) by (simp add: key_String_def)
    then show "k_Namespace spec @ CHR '':'' # k_Version spec @ CHR '':'' # sub_Kind (k_Subject spec) @ CHR '':'' #
        (if k_Hash spec then hex_EncodeToString (sha256 (key_preimage spec)) else sub_Value (k_Subject spec)) =
      k_Namespace spec' @ CHR '':'' # k_Version spec' @ CHR '':'' # sub_Kind (k_Subject spec') @ CHR '':'' #
        (if k_Hash spec' then hex_EncodeToString (sha256 (key_preimage spec')) else sub_Value (k_Subject spec'))"
      using assms(1,2) unfolding NewKey_Inr by simp
  qed (use sep in simp_all)
  then have parts: "k_Namespace spec = k_Namespace spec'" "k_Version spec = k_Version spec'"
    "sub_Kind (k_Subject spec) = sub_Kind (k_Subject spec')"
    and val: "if k_Hash spec
      then hex_EncodeToString (sha256 (key_preimage spec)) = hex_EncodeToString (sha256 (key_preimage spec'))
      else sub_Value (k_Subject spec) = sub_Value (k_Subject spec')"
    using assms(4) by (simp_all split: if_splits)
  have "sub_Value (k_Subject spec) = sub_Value (k_Subject spec')"
  proof (cases "k_Hash spec")
    case True
    then have "key_preimage spec = key_preimage spec'"
      using val assms(5) by (simp add: hex_inj)
    then show ?thesis
      using parts by (simp add: key_preimage_def)
  qed (use val in simp)
  then show ?thesis using parts assms(4) by simp
qed

text \<open>
  C31. Keys identify subjects. Two accepted specifications with the same hashing
  mode give the same backend key only if namespace, version, subject kind and
  subject value are the same, provided SHA-256 does not collide on the two
  NUL-separated inputs that are hashed.
\<close>

theorem NewKey_injective:
  assumes "NewKey sha256 spec = Inr k" "NewKey sha256 spec' = Inr k'"
    and "key_String k = key_String k'" "k_Hash spec = k_Hash spec'"
    and "sha256 (key_preimage spec) = sha256 (key_preimage spec') \<Longrightarrow> key_preimage spec = key_preimage spec'"
  shows "spec = spec'"
  using assms by (rule NewKey_spec_unique)

section \<open>A sample\<close>

definition sample_keySpec :: "bool \<Rightarrow> keySpec" where
  "sample_keySpec hashed =
     \<lparr>k_Namespace = ''app'', k_Version = ''v1'', k_Subject = \<lparr>sub_Kind = ''user'', sub_Value = ''42''\<rparr>, k_Hash = hashed\<rparr>"

definition sample_key :: key where
  "sample_key = \<lparr>k_value = ''app:v1:user:42'', k_subjectKind = ''user''\<rparr>"

lemma NewKey_sample: "NewKey sha256 (sample_keySpec False) = Inr sample_key"
  by (simp add: NewKey_def sample_keySpec_def sample_key_def validKeyPart_def keyPartChar_def in_range_def
      maxKeyPartBytes_def MaxSubjectBytes_def unsafe_subject_chars_def)

theorem NewKey_injective_witness:
  "\<exists>k. NewKey rev (sample_keySpec True) = Inr k \<and>
     (\<forall>spec. k_Hash spec \<and> NewKey rev spec = Inr k \<longrightarrow> spec = sample_keySpec True)"
proof -
  have "\<exists>k. NewKey rev (sample_keySpec True) = Inr k"
    by (simp add: NewKey_def sample_keySpec_def validKeyPart_def keyPartChar_def in_range_def
        maxKeyPartBytes_def MaxSubjectBytes_def)
  then obtain k where k: "NewKey rev (sample_keySpec True) = Inr k" ..
  have "spec = sample_keySpec True" if "k_Hash spec" "NewKey rev spec = Inr k" for spec
    using NewKey_injective [OF that(2) k refl] that(1) by (simp add: sample_keySpec_def)
  with k show ?thesis by blast
qed

end
