(* ===== verification/Request.thy ===== *)
theory Request
  imports Keys
begin

text \<open>
  \<^verbatim>\<open>request.go\<close>, \<^verbatim>\<open>decision.go\<close>, \<^verbatim>\<open>observation.go\<close> and the data types of \<^verbatim>\<open>lease.go\<close>:
  admission and lease requests with their validation, decisions, leases and
  observations.
\<close>

record request =
  r_Policy :: policy
  r_Key :: key
  r_Cost :: uint64
  r_Now :: time

type_synonym reason = string

text \<open>
  The first four reasons are declared in \<^verbatim>\<open>decision.go\<close>, the next three in
  \<^verbatim>\<open>strict_service.go\<close> and the last in \<^verbatim>\<open>atomic_batch.go\<close>.
\<close>

abbreviation (input) ReasonAllowed :: reason where "ReasonAllowed \<equiv> ''allowed''"
abbreviation (input) ReasonLimited :: reason where "ReasonLimited \<equiv> ''limited''"
abbreviation (input) ReasonFailOpen :: reason where "ReasonFailOpen \<equiv> ''fail_open''"
abbreviation (input) ReasonBackendUnavailable :: reason where "ReasonBackendUnavailable \<equiv> ''backend_unavailable''"
abbreviation (input) ReasonCanceled :: reason where "ReasonCanceled \<equiv> ''canceled''"
abbreviation (input) ReasonDeadline :: reason where "ReasonDeadline \<equiv> ''deadline''"
abbreviation (input) ReasonOutcomeUnknown :: reason where "ReasonOutcomeUnknown \<equiv> ''outcome_unknown''"
abbreviation (input) ReasonAtomicRejected :: reason where "ReasonAtomicRejected \<equiv> ''atomic_rejected''"

record decision =
  d_Allowed :: bool
  d_Remaining :: uint64
  d_Limit :: uint64
  d_Reset :: time
  d_RetryAfter :: duration
  d_Reason :: reason
  d_Backend :: string
  d_PolicyRevision :: string

definition zero_Decision :: decision where
  "zero_Decision =
     \<lparr>d_Allowed = False, d_Remaining = 0, d_Limit = 0, d_Reset = zero_time, d_RetryAfter = 0,
      d_Reason = '''', d_Backend = '''', d_PolicyRevision = ''''\<rparr>"

record observation =
  o_PolicyID :: string
  o_SubjectKind :: string
  o_Decision :: decision
  o_Err :: "go_error option"
  o_Duration :: duration

record leaseRequest =
  lr_Request :: request
  lr_LeaseID :: string

record lease =
  l_ID :: string
  l_Key :: key
  l_PolicyID :: string
  l_PolicyRevision :: string
  l_Cost :: uint64
  l_ExpiresAt :: time
  l_Backend :: string

definition zero_Lease :: lease where
  "zero_Lease =
     \<lparr>l_ID = '''', l_Key = zero_key, l_PolicyID = '''', l_PolicyRevision = '''', l_Cost = 0,
      l_ExpiresAt = zero_time, l_Backend = ''''\<rparr>"

section \<open>Validation\<close>

definition request_invalid :: go_error where
  "request_invalid = Wrapped ''policy, key, time, and bounded cost are required'' ErrInvalidRequest"

definition request_duration :: "policy \<Rightarrow> duration" where
  "request_duration p = (if p_algorithm p = Concurrency then p_lease p else p_period p)"

definition Request_Validate :: "request \<Rightarrow> go_error option" where
  "Request_Validate r =
     (if p_id (r_Policy r) = '''' then Some request_invalid
      else if k_value (r_Key r) = '''' then Some request_invalid
      else if IsZero (r_Now r) then Some request_invalid
      else if r_Cost r = 0 then Some request_invalid
      else if r_Cost r > p_maxCost (r_Policy r) then Some request_invalid
      else let micros = UnixMicro (r_Now r) in
      if micros < - int64_of maxExactInteger
      then Some (Wrapped ''time exceeds exact backend range'' ErrInvalidRequest)
      else if micros > int64_of maxExactInteger - Microseconds (request_duration (r_Policy r))
      then Some (Wrapped ''reset exceeds exact backend range'' ErrInvalidRequest)
      else None)"

definition MaxLeaseIDBytes :: nat where "MaxLeaseIDBytes = 128"

definition LeaseRequest_Validate :: "leaseRequest \<Rightarrow> go_error option" where
  "LeaseRequest_Validate r =
     (case Request_Validate (lr_Request r) of
        Some err \<Rightarrow> Some err
      | None \<Rightarrow>
        if p_algorithm (r_Policy (lr_Request r)) \<noteq> Concurrency \<or> lr_LeaseID r = '''' \<or>
           length (lr_LeaseID r) > MaxLeaseIDBytes
        then Some (Wrapped ''concurrency policy and bounded lease ID are required'' ErrInvalidRequest)
        else None)"

section \<open>What a validated request guarantees\<close>

definition maxExact :: int where "maxExact = 9007199254740991"

lemma int64_of_maxExact [simp]: "int64_of maxExactInteger = maxExact"
  by (simp add: int64_of_def maxExactInteger_def maxExact_def i64_def)

text \<open>
  A time whose Unix microsecond count fits \<open>int64\<close>. Outside this range
  \<open>Time.UnixMicro\<close> wraps; no clock reaches it, and \<open>Validate\<close> does not test it.
\<close>

definition micro_range :: "time \<Rightarrow> bool" where
  "micro_range t \<longleftrightarrow> int64_range (t div 1000)"

lemma UnixMicro_range [simp]: "micro_range t \<Longrightarrow> UnixMicro t = t div 1000"
  by (simp add: UnixMicro_def micro_range_def)

text \<open>A policy value is the zero policy or came out of \<open>NewPolicy\<close>; the first has no identity.\<close>

definition request_typed :: "request \<Rightarrow> bool" where
  "request_typed r \<longleftrightarrow> (p_id (r_Policy r) \<noteq> '''' \<longrightarrow> policy_wf (r_Policy r)) \<and> micro_range (r_Now r)"

definition dur_us :: "policy \<Rightarrow> int" where
  "dur_us p = request_duration p div 1000"

definition request_ok :: "request \<Rightarrow> bool" where
  "request_ok r \<longleftrightarrow>
     policy_wf (r_Policy r) \<and> k_value (r_Key r) \<noteq> '''' \<and>
     0 < unat (r_Cost r) \<and> unat (r_Cost r) \<le> unat (p_maxCost (r_Policy r)) \<and>
     - maxExact \<le> r_Now r div 1000 \<and> r_Now r div 1000 \<le> maxExact - dur_us (r_Policy r)"

lemma duration_wf_request: "policy_wf p \<Longrightarrow> duration_wf (request_duration p)"
  by (auto simp: policy_wf_def request_duration_def)

lemma Microseconds_request: "policy_wf p \<Longrightarrow> Microseconds (request_duration p) = dur_us p"
  using duration_wf_request [of p] by (simp add: dur_us_def duration_wf_def)

lemma dur_us_bounds: "policy_wf p \<Longrightarrow> 1 \<le> dur_us p \<and> dur_us p \<le> 9223372036854775"
  using duration_wf_request [of p] unfolding dur_us_def duration_wf_def by linarith

lemma policy_wf_id: "policy_wf p \<Longrightarrow> p_id p \<noteq> ''''"
  by (auto simp: policy_wf_def validPolicyIdentifier_def)

lemma Request_Validate_None:
  "Request_Validate r = None \<longleftrightarrow>
     p_id (r_Policy r) \<noteq> '''' \<and> k_value (r_Key r) \<noteq> '''' \<and> \<not> IsZero (r_Now r) \<and>
     r_Cost r \<noteq> 0 \<and> \<not> r_Cost r > p_maxCost (r_Policy r) \<and>
     \<not> UnixMicro (r_Now r) < - maxExact \<and>
     \<not> UnixMicro (r_Now r) > maxExact - Microseconds (request_duration (r_Policy r))"
  by (simp add: Request_Validate_def Let_def)

lemma Request_Validate_ok:
  assumes "request_typed r" "Request_Validate r = None"
  shows "request_ok r"
proof -
  have "policy_wf (r_Policy r)" "micro_range (r_Now r)"
    using assms by (auto simp: Request_Validate_None request_typed_def)
  then show ?thesis
    using assms(2) by (auto simp: Request_Validate_None request_ok_def Microseconds_request u64_less not_less unat_gt_0)
qed

text \<open>
  C35. \<open>Request.Validate\<close> accepts a request exactly when it is in order: a
  constructed policy, a key, a cost between 1 and the policy's maximum, and a
  time from which the policy's period or lease stays inside the exact
  microsecond range of 2^53 - 1 on both sides. Times are assumed to have a
  Unix microsecond count that fits \<open>int64\<close>.
\<close>

theorem Request_Validate_iff:
  assumes "request_typed r"
  shows "Request_Validate r = None \<longleftrightarrow> request_ok r"
proof
  assume "Request_Validate r = None"
  then show "request_ok r" by (rule Request_Validate_ok [OF assms])
next
  assume ok: "request_ok r"
  then have wf: "policy_wf (r_Policy r)" and now: "- maxExact \<le> r_Now r div 1000" "micro_range (r_Now r)"
    using assms by (auto simp: request_ok_def request_typed_def)
  have "\<not> IsZero (r_Now r)"
    using now(1) by (auto simp: IsZero_def zero_time_def maxExact_def)
  then show "Request_Validate r = None"
    using ok wf now policy_wf_id [OF wf]
    by (auto simp: Request_Validate_None request_ok_def Microseconds_request u64_less)
qed

section \<open>A sample\<close>

definition sample_request :: request where
  "sample_request = \<lparr>r_Policy = sample_policy, r_Key = sample_key, r_Cost = 3, r_Now = 1700000000000000000\<rparr>"

theorem Request_Validate_iff_witness: "request_typed sample_request \<and> Request_Validate sample_request = None"
proof -
  have "request_typed sample_request"
    by (simp add: request_typed_def sample_request_def micro_range_def int64_range_def)
  moreover have "request_ok sample_request"
    by (simp add: request_ok_def sample_request_def sample_key_def maxExact_def dur_us_def request_duration_def)
      (simp add: sample_policy_def)
  ultimately show ?thesis using Request_Validate_iff [of sample_request] by simp
qed

lemma sample_request_valid [simp]: "Request_Validate sample_request = None"
  by (simp add: Request_Validate_def sample_request_def sample_key_def sample_policy_def IsZero_def zero_time_def
      UnixMicro_def i64_def maxExact_def request_duration_def Let_def)

end
