(* ===== verification/Token_Bucket.thy ===== *)
theory Token_Bucket
  imports Main
begin

text \<open>
  What a token bucket promises, whatever its representation. A bucket has a
  level in token-microseconds (tokens times period plus the fractional part),
  a clock, and a step that takes an instant and a cost and says whether it
  admits. The laws, for
  instants the representation can hold (\<open>ok\<close>): a step at a later instant adds capacity times the elapsed
  microseconds, up to the limit, admits exactly when the level covers the cost,
  and then takes the cost off. Everything the backends promise about rates
  follows from that, and is proved here once.
\<close>

section \<open>Integer refill\<close>

lemma refill_arith:
  fixes tokens rem x per lim :: nat
  assumes "0 < per"
  shows "(if tokens + (x + rem) div per \<ge> lim then lim * per
          else (tokens + (x + rem) div per) * per + (x + rem) mod per) =
    min (lim * per) (tokens * per + rem + x)"
proof -
  let ?t = "tokens + (x + rem) div per"
  have total: "tokens * per + rem + x = ?t * per + (x + rem) mod per"
    by (simp add: add_mult_distrib)
  show ?thesis
  proof (cases "?t \<ge> lim")
    case True
    then have "lim * per \<le> ?t * per" by (rule mult_le_mono1)
    then have "min (lim * per) (tokens * per + rem + x) = lim * per" using total by linarith
    then show ?thesis using True by simp
  next
    case False
    then have "Suc ?t * per \<le> lim * per" by (intro mult_le_mono1) simp
    moreover have "(x + rem) mod per < per" using assms by simp
    ultimately have "min (lim * per) (tokens * per + rem + x) = ?t * per + (x + rem) mod per"
      using total by simp
    then show ?thesis using False by simp
  qed
qed

lemma ceil_least:
  fixes need cap e :: nat
  assumes "0 < cap"
  shows "need \<le> cap * e \<longleftrightarrow> need div cap + (if need mod cap \<noteq> 0 then 1 else 0) \<le> e"
proof -
  have split: "need = cap * (need div cap) + need mod cap" by simp
  have m: "need mod cap < cap" using assms by simp
  show ?thesis
  proof (cases "need mod cap = 0")
    case True
    then have "need = cap * (need div cap)" using split by simp
    then show ?thesis using True assms by (metis add.right_neutral mult_le_cancel1)
  next
    case False
    have "need \<le> cap * e \<longleftrightarrow> need div cap < e"
    proof
      assume "need \<le> cap * e"
      then have "cap * (need div cap) < cap * e" using split False by linarith
      then show "need div cap < e" by simp
    next
      assume "need div cap < e"
      then have "cap * Suc (need div cap) \<le> cap * e" by (intro mult_le_mono2) simp
      then show "need \<le> cap * e" using split m unfolding mult_Suc_right by linarith
    qed
    then show ?thesis using False by (simp add: Suc_le_eq)
  qed
qed

section \<open>The contract\<close>

locale token_bucket =
  fixes step :: "'p \<Rightarrow> int \<Rightarrow> nat \<Rightarrow> 's \<Rightarrow> bool \<times> 's"
    and inv :: "'p \<Rightarrow> 's \<Rightarrow> bool"
    and level :: "'p \<Rightarrow> 's \<Rightarrow> nat"
    and clock :: "'s \<Rightarrow> int"
    and ok :: "'p \<Rightarrow> int \<Rightarrow> bool"
    and cap per lim :: "'p \<Rightarrow> nat"
  assumes level_bound: "inv p s \<Longrightarrow> level p s \<le> lim p * per p"
    and step_law: "inv p s \<Longrightarrow> ok p t \<Longrightarrow> clock s \<le> t \<Longrightarrow> 0 < c \<Longrightarrow> c \<le> lim p \<Longrightarrow> step p t c s = (b, s') \<Longrightarrow>
      inv p s' \<and> clock s' = t \<and>
      (b \<longleftrightarrow> c * per p \<le> min (lim p * per p) (level p s + cap p * nat (t - clock s))) \<and>
      level p s' + (if b then c * per p else 0) = min (lim p * per p) (level p s + cap p * nat (t - clock s))"
begin

text \<open>A run: requests (instant, cost) in order, and the costs that were admitted.\<close>

fun run :: "'p \<Rightarrow> (int \<times> nat) list \<Rightarrow> 's \<Rightarrow> nat \<times> 's" where
  "run p [] s = (0, s)"
| "run p ((t, c) # xs) s =
     (let (b, s1) = step p t c s; (adm, s2) = run p xs s1 in ((if b then c else 0) + adm, s2))"

fun timely :: "'p \<Rightarrow> int \<Rightarrow> (int \<times> nat) list \<Rightarrow> bool" where
  "timely p t0 [] = True"
| "timely p t0 ((t, c) # xs) = (t0 \<le> t \<and> ok p t \<and> 0 < c \<and> c \<le> lim p \<and> timely p t xs)"

lemma run_bound:
  "inv p s \<Longrightarrow> timely p (clock s) xs \<Longrightarrow> run p xs s = (adm, s') \<Longrightarrow>
   inv p s' \<and> clock s \<le> clock s' \<and>
   adm * per p + level p s' \<le> level p s + cap p * nat (clock s' - clock s)"
proof (induction xs arbitrary: s adm)
  case (Cons x xs)
  obtain t c where x: "x = (t, c)" by (cases x)
  obtain b s1 where st: "step p t c s = (b, s1)" by (cases "step p t c s")
  obtain tot where r: "run p xs s1 = (tot, s')" and adm: "adm = (if b then c else 0) + tot"
    using Cons.prems x st by (auto simp: Let_def split: prod.splits)
  have t: "ok p t" "clock s \<le> t" "0 < c" "c \<le> lim p" "timely p t xs" using Cons.prems x by auto
  note law = step_law [OF Cons.prems(1) t(1-4) st]
  have ih: "inv p s' \<and> clock s1 \<le> clock s' \<and>
      tot * per p + level p s' \<le> level p s1 + cap p * nat (clock s' - clock s1)"
    using Cons.IH [of s1 tot] law t r by simp
  have "nat (clock s' - clock s) = nat (clock s' - t) + nat (t - clock s)"
    using ih law t by linarith
  then have "cap p * nat (clock s' - clock s) = cap p * nat (clock s' - t) + cap p * nat (t - clock s)"
    by (simp add: distrib_left)
  moreover have "level p s1 + (if b then c * per p else 0) \<le> level p s + cap p * nat (t - clock s)"
    using conjunct2 [OF conjunct2 [OF conjunct2 [OF law]]] by linarith
  ultimately show ?case
    using ih law t by (auto simp: adm add_mult_distrib)
qed simp

text \<open>No more is admitted in any stretch than the limit and what refills during it.\<close>

lemma run_rate:
  assumes "inv p s" "timely p (clock s) xs" "run p xs s = (adm, s')"
  shows "adm * per p \<le> lim p * per p + cap p * nat (clock s' - clock s)"
  using run_bound [OF assms] level_bound [OF assms(1)] by linarith

text \<open>A refused cost is admitted at a later instant exactly when the refill covers it.\<close>

lemma retry_exact:
  assumes "inv p s" "ok p t" "clock s \<le> t" "0 < c" "c \<le> lim p" "step p t c s = (False, s1)" "ok p t'" "t \<le> t'"
  shows "fst (step p t' c s1) \<longleftrightarrow> c * per p \<le> level p s1 + cap p * nat (t' - t)"
proof -
  obtain b s2 where st: "step p t' c s1 = (b, s2)" by (cases "step p t' c s1")
  have i: "inv p s1" "clock s1 = t" using step_law [OF assms(1-6)] by simp_all
  have "c * per p \<le> lim p * per p" using assms(5) by (rule mult_le_mono1)
  then show ?thesis using step_law [OF i(1) assms(7) _ assms(4,5) st] i assms(8) st by simp
qed

end

end
