(* ===== verification/Memory_State.thy ===== *)
theory Memory_State
  imports Request Token_Bucket
begin

text \<open>
  The data of \<^verbatim>\<open>memory/store.go\<close> and its helper functions. The states of a shard
  and the leases of a state are Go maps, here association lists; a nil lease
  map and an empty one behave alike. A state is reached through a pointer in
  Go; here an operation returns the updated state and the shard stores it.
\<close>

record segment =
  g_index :: int
  g_used :: uint64

record leaseState =
  ls_cost :: uint64
  ls_expiresAt :: time

record mstate =
  st_revision :: string
  st_algorithm :: algorithm
  st_lastSeen :: time
  st_tokens :: uint64
  st_remainder :: uint64
  st_lastRefill :: time
  st_windowStart :: int
  st_windowPeriod :: duration
  st_used :: uint64
  st_segments :: "segment list"
  st_leases :: "(string \<times> leaseState) list"

definition slidingSegments :: nat where "slidingSegments = 16"

definition zero_segment :: segment where
  "zero_segment = \<lparr>g_index = 0, g_used = 0\<rparr>"

definition new_state :: "request \<Rightarrow> mstate" where
  "new_state r =
     \<lparr>st_revision = p_revision (r_Policy r), st_algorithm = p_algorithm (r_Policy r), st_lastSeen = r_Now r,
      st_tokens = Limit (r_Policy r), st_remainder = 0, st_lastRefill = r_Now r, st_windowStart = 0,
      st_windowPeriod = p_period (r_Policy r), st_used = 0,
      st_segments = replicate slidingSegments zero_segment, st_leases = []\<rparr>"

text \<open>\<open>value>>63\<close> is an arithmetic shift, so it is -1 exactly for negative values.\<close>

definition floorBoundary :: "int \<Rightarrow> int \<Rightarrow> int" where
  "floorBoundary value width =
     (let quotient = value sdiv width in
      if value smod width = 0 then i64 (quotient * width)
      else let quotient = (if value div 2 ^ 63 = - 1 then quotient - 1 else quotient)
      in i64 (quotient * width))"

definition positiveMod :: "int \<Rightarrow> int \<Rightarrow> int" where
  "positiveMod value modulus =
     (let result = value smod modulus in if result < 0 then result + modulus else result)"

definition nonnegative :: "duration \<Rightarrow> duration" where
  "nonnegative d = max d 0"

lemma shift63: "int64_range v \<Longrightarrow> v div 2 ^ 63 = - 1 \<longleftrightarrow> v < 0"
proof -
  assume "int64_range v"
  then have v: "- 9223372036854775808 \<le> v" "v < 9223372036854775808" by (simp_all add: int64_range_def)
  show ?thesis
  proof (cases "v < 0")
    case True
    then have "v div 9223372036854775808 = - 1" using v by linarith
    then show ?thesis using True by simp
  qed (use v in simp)
qed

lemma floorBoundary_floor:
  assumes "0 < width" "int64_range v" "int64_range (v div width * width)"
  shows "floorBoundary v width = v div width * width"
proof (cases "v smod width = 0")
  case True
  then show ?thesis using assms by (simp add: floorBoundary_def sdiv_exact Let_def)
next
  case False
  show ?thesis
  proof (cases "v < 0")
    case True
    then have "v sdiv width - 1 = v div width" using assms False by (intro sdiv_neg_inexact)
    then show ?thesis using assms False True shift63 [OF assms(2)] by (simp add: floorBoundary_def Let_def)
  next
    case nn: False
    then have "v sdiv width = v div width" using assms by (simp add: sdiv_nonneg)
    then show ?thesis using assms False nn shift63 [OF assms(2)] by (simp add: floorBoundary_def Let_def)
  qed
qed

lemma positiveMod_mod: "0 < m \<Longrightarrow> positiveMod v m = v mod m"
proof (cases "v smod m = 0")
  case True
  assume "0 < m"
  then have "v = v div m * m" using True sdiv_exact [of m v] by (simp add: smod_eq)
  then have "v mod m = 0" by (metis mod_mult_self2_is_0)
  then show ?thesis using True by (simp add: positiveMod_def)
next
  case False
  assume m: "0 < m"
  show ?thesis
  proof (cases "v < 0")
    case True
    have "v smod m = v mod m - m"
      using sdiv_neg_inexact [OF m True False] by (simp add: smod_eq algebra_simps minus_div_mult_eq_mod [symmetric])
    moreover have "v mod m < m" "0 \<le> v mod m" using m by simp_all
    ultimately show ?thesis by (simp add: positiveMod_def Let_def)
  next
    case nn: False
    then have "v smod m = v mod m" using m by (simp add: smod_eq sdiv_nonneg minus_div_mult_eq_mod)
    then show ?thesis using pos_mod_sign [OF m, of v] by (simp add: positiveMod_def Let_def)
  qed
qed

end
