(* ===== verification/Memory_Token.thy ===== *)
theory Memory_Token
  imports Memory_State
begin

text \<open>
  The token bucket of \<^verbatim>\<open>memory/store.go\<close>: \<open>refill\<close>, \<open>refillDuration\<close> and
  \<open>admitToken\<close>, and that they meet the contract of theory \<open>Token_Bucket\<close>.
\<close>

definition refill :: "mstate \<Rightarrow> request \<Rightarrow> mstate" where
  "refill current r =
     (let p = r_Policy r; now = r_Now r in
      if \<not> now > st_lastRefill current then current
      else if st_tokens current = Limit p then current\<lparr>st_lastRefill := now, st_remainder := 0\<rparr>
      else let elapsed = uint64_of (Microseconds (time_Sub now (st_lastRefill current)));
               (high, low) = dword_add (bits_Mul64 elapsed (p_capacity p)) (st_remainder current);
               period = uint64_of (Microseconds (p_period p))
      in
      if high \<ge> period
      then current\<lparr>st_tokens := Limit p, st_remainder := 0, st_lastRefill := now\<rparr>
      else let (added, remainder) = bits_Div64 high low period;
               tokens = min (st_tokens current + added) (Limit p)
      in current\<lparr>st_tokens := tokens,
                 st_remainder := (if tokens = Limit p then 0 else remainder), st_lastRefill := now\<rparr>)"

definition refillDuration :: "uint64 \<Rightarrow> uint64 \<Rightarrow> policy \<Rightarrow> duration" where
  "refillDuration tokens remainder p =
     (if tokens = 0 then 0
      else let (high, low) = dword_sub (bits_Mul64 tokens (uint64_of (Microseconds (p_period p)))) remainder;
               capacity = p_capacity p
      in
      if high \<ge> capacity then MaxInt64
      else let (quotient, rest) = bits_Div64 high low capacity;
               quotient = (if rest \<noteq> 0 then quotient + 1 else quotient)
      in
      if quotient > uint64_of (MaxInt64 div Microsecond) then MaxInt64
      else i64 (int64_of quotient * Microsecond))"

definition admitToken :: "mstate \<Rightarrow> request \<Rightarrow> mstate \<times> decision \<times> go_error option" where
  "admitToken current0 r =
     (let p = r_Policy r; current = refill current0 r; limit = Limit p in
      if st_tokens current < r_Cost r
      then let retry = refillDuration (r_Cost r - st_tokens current) (st_remainder current) p;
               reset = refillDuration (limit - st_tokens current) (st_remainder current) p
           in (current,
               zero_Decision\<lparr>d_Allowed := False, d_Limit := limit, d_Remaining := st_tokens current,
                 d_Reset := time_Add (r_Now r) reset, d_RetryAfter := retry, d_Reason := ReasonLimited\<rparr>,
               Some ErrRejected)
      else let current = current\<lparr>st_tokens := st_tokens current - r_Cost r\<rparr>;
               reset = refillDuration (limit - st_tokens current) (st_remainder current) p
           in (current,
               zero_Decision\<lparr>d_Allowed := True, d_Limit := limit, d_Remaining := st_tokens current,
                 d_Reset := time_Add (r_Now r) reset, d_Reason := ReasonAllowed\<rparr>,
               None))"

section \<open>Invariant and level\<close>

definition token_inv :: "policy \<Rightarrow> mstate \<Rightarrow> bool" where
  "token_inv p st \<longleftrightarrow>
     unat (st_tokens st) \<le> unat (Limit p) \<and> unat (st_remainder st) < period_us p \<and>
     (st_tokens st = Limit p \<longrightarrow> st_remainder st = 0) \<and> on_micro (st_lastRefill st)"

definition token_level :: "policy \<Rightarrow> mstate \<Rightarrow> nat" where
  "token_level p st = unat (st_tokens st) * period_us p + unat (st_remainder st)"

definition token_policy :: "policy \<Rightarrow> bool" where
  "token_policy p \<longleftrightarrow> policy_wf p \<and> p_algorithm p = TokenBucket"

text \<open>
  The addition \<open>current.tokens+added\<close> is not checked for overflow. It stays
  below 2^64 for every policy with at most 1,024 tokens per microsecond.
\<close>

definition no_wrap :: "policy \<Rightarrow> bool" where
  "no_wrap p \<longleftrightarrow> unat (p_capacity p) \<le> 1024 * period_us p"

lemma token_policy_facts:
  assumes "token_policy p"
  shows "0 < period_us p" "unat (Limit p) * period_us p \<le> 9007199254740991" "period_us p \<le> 9007199254740991"
    "0 < unat (p_capacity p)" "unat (p_capacity p) \<le> unat (Limit p)" "unat (Limit p) \<le> 9007199254740991"
    "unat (uint64_of (Microseconds (p_period p))) = period_us p"
proof -
  have wf: "policy_wf p" "p_algorithm p \<noteq> Concurrency" using assms by (auto simp: token_policy_def)
  note per = policy_wf_period [OF wf]
  show "0 < period_us p" "unat (Limit p) * period_us p \<le> 9007199254740991" "period_us p \<le> 9007199254740991"
    using per by simp_all
  show "0 < unat (p_capacity p)" "unat (p_capacity p) \<le> unat (Limit p)"
    using policy_wf_capacity [OF wf(1)] by simp_all
  show "unat (Limit p) \<le> 9007199254740991" using policy_wf_Limit_bound [OF wf(1)] .
  have "Microseconds (p_period p) = int (period_us p)" using per by simp
  then show "unat (uint64_of (Microseconds (p_period p))) = period_us p"
    using per(5) by (simp add: unat_uint64_of)
qed

lemma token_level_bound: "token_inv p st \<Longrightarrow> token_level p st \<le> unat (Limit p) * period_us p"
proof (cases "st_tokens st = Limit p")
  case True
  assume "token_inv p st"
  then show ?thesis using True by (simp add: token_inv_def token_level_def)
next
  case False
  assume i: "token_inv p st"
  then have "Suc (unat (st_tokens st)) \<le> unat (Limit p)"
    using False by (simp add: token_inv_def u64_eq)
  then have "Suc (unat (st_tokens st)) * period_us p \<le> unat (Limit p) * period_us p" by (rule mult_le_mono1)
  then show ?thesis using i by (simp add: token_inv_def token_level_def)
qed

section \<open>Refilling\<close>

lemma elapsed_us:
  assumes "t0 < now"
  shows "unat (uint64_of (Microseconds (time_Sub now t0))) = min 9223372036854775 (nat ((now - t0) div 1000))"
proof (cases "now - t0 > 9223372036854775807")
  case True
  then have "9223372036854775 \<le> (now - t0) div 1000" by linarith
  then show ?thesis using True by (simp add: time_Sub_def unat_uint64_of)
next
  case False
  then have "0 \<le> (now - t0) div 1000" "(now - t0) div 1000 \<le> 9223372036854775" using assms by linarith+
  then show ?thesis using False assms by (simp add: time_Sub_def unat_uint64_of)
qed

lemma dword_refill:
  assumes "unat elapsed \<le> 9223372036854775" "unat cap \<le> 9007199254740991"
    and "dword_add (bits_Mul64 elapsed cap) rem = (high, low)"
  shows "dword high low = unat elapsed * unat cap + unat rem"
proof -
  obtain h l where m: "bits_Mul64 elapsed cap = (h, l)" by (cases "bits_Mul64 elapsed cap")
  have v: "dword h l = unat elapsed * unat cap" using dword_Mul64 [of elapsed cap] m by simp
  have "unat elapsed * unat cap \<le> 9223372036854775 * 9007199254740991"
    using assms by (intro mult_le_mono)
  then have "dword h l + unat rem < 2 ^ 128"
    using v unat_less_2p64 [of rem] by simp
  then show ?thesis using dword_add_value [of h l rem] assms(3) m v by simp
qed

lemma dword_high_ge: "unat y \<le> unat high \<longleftrightarrow> unat y * 2 ^ 64 \<le> dword high low"
proof
  assume "unat y \<le> unat high"
  then have "unat y * 2 ^ 64 \<le> unat high * 2 ^ 64" by (rule mult_le_mono1)
  then show "unat y * 2 ^ 64 \<le> dword high low" unfolding dword_def by linarith
next
  assume y: "unat y * 2 ^ 64 \<le> dword high low"
  show "unat y \<le> unat high"
  proof (rule ccontr)
    assume "\<not> ?thesis"
    then have "Suc (unat high) * 2 ^ 64 \<le> unat y * 2 ^ 64" by (intro mult_le_mono1) simp
    then show False using y unat_less_2p64 [of low] unfolding dword_def by simp
  qed
qed

text \<open>The branches of \<open>refill\<close> past its two early returns, on naturals.\<close>

lemma refill_branches:
  assumes p: "token_policy (r_Policy r)" and later: "st_lastRefill st < r_Now r"
    and not_full: "st_tokens st \<noteq> Limit (r_Policy r)"
  defines "n \<equiv> min 9223372036854775 (nat ((r_Now r - st_lastRefill st) div 1000)) * unat (p_capacity (r_Policy r)) +
      unat (st_remainder st)"
  shows "(period_us (r_Policy r) * 2 ^ 64 \<le> n \<and>
      refill st r = st\<lparr>st_tokens := Limit (r_Policy r), st_remainder := 0, st_lastRefill := r_Now r\<rparr>) \<or>
    (\<exists>added remainder. unat added = n div period_us (r_Policy r) \<and> unat remainder = n mod period_us (r_Policy r) \<and>
      refill st r = st\<lparr>st_tokens := min (st_tokens st + added) (Limit (r_Policy r)),
        st_remainder := (if min (st_tokens st + added) (Limit (r_Policy r)) = Limit (r_Policy r) then 0 else remainder),
        st_lastRefill := r_Now r\<rparr>)"
proof -
  let ?p = "r_Policy r"
  define period where "period = uint64_of (Microseconds (p_period ?p))"
  define elapsed where "elapsed = uint64_of (Microseconds (time_Sub (r_Now r) (st_lastRefill st)))"
  obtain high low where d: "dword_add (bits_Mul64 elapsed (p_capacity ?p)) (st_remainder st) = (high, low)"
    by (cases "dword_add (bits_Mul64 elapsed (p_capacity ?p)) (st_remainder st)")
  note pf = token_policy_facts [OF p]
  have per: "unat period = period_us ?p" using pf(7) by (simp add: period_def)
  have el: "unat elapsed = min 9223372036854775 (nat ((r_Now r - st_lastRefill st) div 1000))"
    using elapsed_us [OF later] by (simp add: elapsed_def)
  have n: "dword high low = n"
    using dword_refill [OF _ _ d] el pf by (simp add: n_def)
  obtain added remainder where dv: "bits_Div64 high low period = (added, remainder)" by (cases "bits_Div64 high low period")
  have r: "refill st r = (if high \<ge> period
      then st\<lparr>st_tokens := Limit ?p, st_remainder := 0, st_lastRefill := r_Now r\<rparr>
      else st\<lparr>st_tokens := min (st_tokens st + added) (Limit ?p),
        st_remainder := (if min (st_tokens st + added) (Limit ?p) = Limit ?p then 0 else remainder),
        st_lastRefill := r_Now r\<rparr>)"
    unfolding refill_def Let_def using later not_full d dv by (simp add: period_def elapsed_def)
  show ?thesis
  proof (cases "high \<ge> period")
    case True
    then show ?thesis using r n dword_high_ge [of period high low] per by (simp add: u64_le)
  next
    case False
    then have "dword high low < unat period * 2 ^ 64"
      using dword_high_ge [of period high low] by (simp add: u64_le)
    then have "unat added = n div period_us ?p" using Div64_fst [of high low period] dv n per by simp
    moreover have "unat remainder = n mod period_us ?p"
      using Div64_snd [of period high low] dv n per pf by simp
    ultimately show ?thesis using r False by auto
  qed
qed

lemma no_wrap_added:
  assumes "no_wrap p" "es \<le> 9223372036854775" "rem < period_us p" "tokens \<le> 9007199254740991"
  shows "tokens + (es * unat (p_capacity p) + rem) div period_us p < 18446744073709551616"
proof -
  have "es * unat (p_capacity p) \<le> 9223372036854775 * (1024 * period_us p)"
    using assms(1,2) unfolding no_wrap_def by (intro mult_le_mono)
  then have "es * unat (p_capacity p) + rem < Suc (9223372036854775 * 1024) * period_us p"
    using assms(3) by simp
  then have "(es * unat (p_capacity p) + rem) div period_us p < Suc (9223372036854775 * 1024)"
    by (rule less_mult_imp_div_less)
  then show ?thesis using assms(4) by simp
qed

lemma saturated_elapsed:
  fixes L cap E level :: nat
  assumes "L \<le> 9007199254740991" "0 < cap"
  shows "min L (level + cap * min 9223372036854775 E) = min L (level + cap * E)"
proof (cases "E \<le> 9223372036854775")
  case False
  have "1 * 9223372036854775 \<le> cap * 9223372036854775"
    using assms(2) by (intro mult_le_mono1) simp
  moreover have "cap * 9223372036854775 \<le> cap * E" using False by (intro mult_le_mono2) simp
  ultimately have "L \<le> level + cap * 9223372036854775" "L \<le> level + cap * E" using assms(1) by linarith+
  then show ?thesis using False by (simp add: min_def)
qed simp

text \<open>A wide quotient fills the bucket; otherwise the sum of tokens is exact.\<close>

lemma refill_more:
  assumes p: "token_policy (r_Policy r)" "no_wrap (r_Policy r)" and inv: "token_inv (r_Policy r) st"
    and more: "st_lastRefill st < r_Now r" "st_tokens st \<noteq> Limit (r_Policy r)"
  defines "es \<equiv> min 9223372036854775 (nat ((r_Now r - st_lastRefill st) div 1000))"
  shows "token_level (r_Policy r) (refill st r) =
      min (unat (Limit (r_Policy r)) * period_us (r_Policy r))
        (unat (st_tokens st) * period_us (r_Policy r) + unat (st_remainder st) + es * unat (p_capacity (r_Policy r))) \<and>
    unat (st_tokens (refill st r)) \<le> unat (Limit (r_Policy r)) \<and>
    unat (st_remainder (refill st r)) < period_us (r_Policy r) \<and>
    (st_tokens (refill st r) = Limit (r_Policy r) \<longrightarrow> st_remainder (refill st r) = 0) \<and>
    st_lastRefill (refill st r) = r_Now r"
proof -
  let ?lim = "unat (Limit (r_Policy r))" and ?per = "period_us (r_Policy r)"
  define n where "n = es * unat (p_capacity (r_Policy r)) + unat (st_remainder st)"
  note pf = token_policy_facts [OF p(1)]
  from refill_branches [OF p(1) more, folded es_def, folded n_def] show ?thesis
  proof (elim disjE conjE exE)
    assume big: "?per * 2 ^ 64 \<le> n"
      and r: "refill st r = st\<lparr>st_tokens := Limit (r_Policy r), st_remainder := 0, st_lastRefill := r_Now r\<rparr>"
    have "?per * ?lim \<le> ?per * 2 ^ 64" using pf(6) by (intro mult_le_mono2) simp
    then have "?lim * ?per \<le> n" using le_trans [OF _ big] by (subst mult.commute)
    then show ?thesis using r pf by (simp add: token_level_def n_def)
  next
    fix added remainder
    assume a: "unat added = n div ?per" "unat remainder = n mod ?per"
      and r: "refill st r = st\<lparr>st_tokens := min (st_tokens st + added) (Limit (r_Policy r)),
        st_remainder := (if min (st_tokens st + added) (Limit (r_Policy r)) = Limit (r_Policy r) then 0 else remainder),
        st_lastRefill := r_Now r\<rparr>"
    have "unat (st_tokens st) + n div ?per < 18446744073709551616"
      unfolding n_def using inv pf by (intro no_wrap_added [OF p(2)]) (simp_all add: es_def token_inv_def)
    then have sum: "unat (st_tokens st + added) = unat (st_tokens st) + n div ?per"
      using a by (subst u64_add) simp_all
    have "token_level (r_Policy r) (refill st r) = (if unat (st_tokens st) + n div ?per \<ge> ?lim then ?lim * ?per
        else (unat (st_tokens st) + n div ?per) * ?per + n mod ?per)"
      using a by (auto simp: r token_level_def u64_eq u64_le sum min_def)
    also have "\<dots> = min (?lim * ?per)
        (unat (st_tokens st) * ?per + unat (st_remainder st) + es * unat (p_capacity (r_Policy r)))"
      unfolding n_def by (rule refill_arith [OF pf(1)])
    finally show ?thesis using a pf by (auto simp: r u64_eq u64_min)
  qed
qed

lemma refill_level:
  assumes p: "token_policy (r_Policy r)" "no_wrap (r_Policy r)" and inv: "token_inv (r_Policy r) st"
    and now: "on_micro (r_Now r)" "st_lastRefill st \<le> r_Now r"
  shows "token_inv (r_Policy r) (refill st r) \<and> st_lastRefill (refill st r) = r_Now r \<and>
    token_level (r_Policy r) (refill st r) =
      min (unat (Limit (r_Policy r)) * period_us (r_Policy r))
        (token_level (r_Policy r) st + unat (p_capacity (r_Policy r)) * nat ((r_Now r - st_lastRefill st) div 1000))"
proof -
  let ?p = "r_Policy r"
  note pf = token_policy_facts [OF p(1)]
  consider (same) "st_lastRefill st = r_Now r" | (full) "st_lastRefill st < r_Now r" "st_tokens st = Limit ?p"
    | (more) "st_lastRefill st < r_Now r" "st_tokens st \<noteq> Limit ?p" using now by linarith
  then show ?thesis
  proof cases
    case same
    then show ?thesis using inv token_level_bound [OF inv] by (simp add: refill_def)
  next
    case full
    then show ?thesis using inv now pf by (simp add: refill_def token_inv_def token_level_def)
  next
    case more
    then show ?thesis
      using refill_more [OF p inv more] now saturated_elapsed [OF pf(2,4), of "token_level ?p st"]
      by (simp add: token_inv_def token_level_def mult.commute)
  qed
qed

section \<open>Waiting times\<close>

definition refill_us :: "nat \<Rightarrow> nat \<Rightarrow> policy \<Rightarrow> nat" where
  "refill_us tokens rem p =
     (let need = tokens * period_us p - rem; cap = unat (p_capacity p)
      in need div cap + (if need mod cap \<noteq> 0 then 1 else 0))"

lemma refill_us_least:
  assumes "token_policy p"
  shows "refill_us tokens rem p \<le> e \<longleftrightarrow> tokens * period_us p \<le> rem + unat (p_capacity p) * e"
proof -
  have "refill_us tokens rem p \<le> e \<longleftrightarrow> tokens * period_us p - rem \<le> unat (p_capacity p) * e"
    unfolding refill_us_def Let_def using token_policy_facts(4) [OF assms] by (intro ceil_least [symmetric])
  then show ?thesis by linarith
qed

lemma small_dword: "dword high low \<le> 9007199254740991 \<Longrightarrow> unat high = 0 \<and> unat low = dword high low"
  by (cases "unat high") (simp_all add: dword_def)

lemma refill_need:
  assumes p: "token_policy p" and t: "tokens \<noteq> 0" "unat tokens \<le> unat (Limit p)" and rem: "unat remainder < period_us p"
    and d: "dword_sub (bits_Mul64 tokens (uint64_of (Microseconds (p_period p)))) remainder = (high, low)"
  defines "need \<equiv> unat tokens * period_us p - unat remainder"
  shows "dword high low = need" "need \<le> 9007199254740991"
proof -
  note pf = token_policy_facts [OF p]
  define period where "period = uint64_of (Microseconds (p_period p))"
  have per: "unat period = period_us p" using pf(7) by (simp add: period_def)
  obtain h l where m: "bits_Mul64 tokens period = (h, l)" by (cases "bits_Mul64 tokens period")
  have v: "dword h l = unat tokens * period_us p" using dword_Mul64 [of tokens period] m per by simp
  have "1 * period_us p \<le> unat tokens * period_us p"
    using t by (intro mult_le_mono1) (simp add: Suc_le_eq unat_gt_0)
  then have "unat remainder \<le> dword h l" using v rem by linarith
  then show "dword high low = need"
    using dword_sub_value [of remainder h l] d v m by (simp add: need_def period_def)
  have "unat tokens * period_us p \<le> unat (Limit p) * period_us p" using t(2) by (rule mult_le_mono1)
  then show "need \<le> 9007199254740991" using pf(2) unfolding need_def by linarith
qed

lemma refillDuration_us:
  assumes p: "token_policy p" and t: "unat tokens \<le> unat (Limit p)" and rem: "unat remainder < period_us p"
  shows "refillDuration tokens remainder p = 1000 * int (refill_us (unat tokens) (unat remainder) p)"
proof (cases "tokens = 0")
  case True
  then show ?thesis by (simp add: refillDuration_def refill_us_def)
next
  case False
  note pf = token_policy_facts [OF p]
  let ?need = "unat tokens * period_us p - unat remainder" and ?cap = "p_capacity p"
  obtain high low where d: "dword_sub (bits_Mul64 tokens (uint64_of (Microseconds (p_period p)))) remainder = (high, low)"
    by (cases "dword_sub (bits_Mul64 tokens (uint64_of (Microseconds (p_period p)))) remainder")
  note need = refill_need [OF p False t rem d]
  have high: "\<not> high \<ge> ?cap" using small_dword [of high low] need pf(4) by (simp add: u64_le)
  obtain q rest where q: "bits_Div64 high low ?cap = (q, rest)" by (cases "bits_Div64 high low ?cap")
  have "dword high low < unat ?cap * 2 ^ 64"
    using high dword_high_ge [of ?cap high low] by (simp add: u64_le)
  then have qv: "unat q = ?need div unat ?cap" using Div64_fst [of high low ?cap] q need by simp
  have rv: "rest \<noteq> 0 \<longleftrightarrow> ?need mod unat ?cap \<noteq> 0" using Div64_snd [OF pf(4), of high low] q need by (simp add: u64_eq)
  have qb: "unat q \<le> 9007199254740991" using qv need(2) div_le_dividend [of ?need "unat ?cap"] by linarith
  define q' where "q' = (if rest \<noteq> 0 then q + 1 else q)"
  have q': "unat q' = refill_us (unat tokens) (unat remainder) p"
    using qb rv qv by (auto simp: q'_def refill_us_def Let_def u64_add)
  have qb': "unat q' \<le> 9007199254740992" using qb by (auto simp: q'_def u64_add)
  have "\<not> q' > uint64_of (9223372036854775807 div 1000)" using qb' by (simp add: u64_less unat_uint64_of)
  then have "refillDuration tokens remainder p = i64 (int64_of q' * 1000)"
    unfolding refillDuration_def Let_def d prod.case q q'_def [symmetric] using False high by (simp only: if_False)
  moreover have "int64_of q' = int (unat q')" using qb' by (intro int64_of_small) simp
  moreover have "int64_range (int (unat q') * 1000)" using qb' by (intro int64_rangeI) linarith+
  ultimately show ?thesis by (simp only: i64_id q' mult.commute)
qed

lemma refillDuration_least:
  assumes "token_policy p" "unat tokens \<le> unat (Limit p)" "unat remainder < period_us p"
  shows "refillDuration tokens remainder p \<le> 1000 * int e \<longleftrightarrow>
    unat tokens * period_us p \<le> unat remainder + unat (p_capacity p) * e"
  using refill_us_least [OF assms(1), of "unat tokens" "unat remainder" e] refillDuration_us [OF assms] by simp

section \<open>Admission meets the contract\<close>

lemma level_covers:
  fixes tokens rem c per :: nat
  assumes "rem < per"
  shows "c * per \<le> tokens * per + rem \<longleftrightarrow> c \<le> tokens"
proof
  assume c: "c * per \<le> tokens * per + rem"
  show "c \<le> tokens"
  proof (rule ccontr)
    assume "\<not> c \<le> tokens"
    then have "Suc tokens * per \<le> c * per" by (intro mult_le_mono1) simp
    then show False using c assms by simp
  qed
next
  assume "c \<le> tokens"
  then have "c * per \<le> tokens * per" by (rule mult_le_mono1)
  then show "c * per \<le> tokens * per + rem" by linarith
qed

lemma admitToken_law:
  assumes p: "token_policy (r_Policy r)" "no_wrap (r_Policy r)" and inv: "token_inv (r_Policy r) st"
    and now: "on_micro (r_Now r)" "st_lastRefill st \<le> r_Now r" and cost: "0 < unat (r_Cost r)"
    and adm: "admitToken st r = (st', d, err)"
  defines "refilled \<equiv> min (unat (Limit (r_Policy r)) * period_us (r_Policy r))
      (token_level (r_Policy r) st + unat (p_capacity (r_Policy r)) * nat ((r_Now r - st_lastRefill st) div 1000))"
  shows "token_inv (r_Policy r) st'" "st_lastRefill st' = r_Now r"
    "err = None \<longleftrightarrow> unat (r_Cost r) * period_us (r_Policy r) \<le> refilled"
    "token_level (r_Policy r) st' + (if err = None then unat (r_Cost r) * period_us (r_Policy r) else 0) = refilled"
proof -
  let ?p = "r_Policy r" and ?s = "refill st r" and ?c = "unat (r_Cost r)"
  note rl = refill_level [OF p inv now, folded refilled_def]
  have rem: "unat (st_remainder ?s) < period_us ?p" using rl by (simp add: token_inv_def)
  have err: "err = None \<longleftrightarrow> ?c \<le> unat (st_tokens ?s)"
    using adm by (auto simp: admitToken_def Let_def u64_less split: if_splits)
  have st': "st' = (if err = None then ?s\<lparr>st_tokens := st_tokens ?s - r_Cost r\<rparr> else ?s)"
    using adm by (auto simp: admitToken_def Let_def split: if_splits)
  have sub: "err = None \<Longrightarrow> unat (st_tokens ?s - r_Cost r) = unat (st_tokens ?s) - ?c"
    using err by (simp add: u64_sub)
  show "st_lastRefill st' = r_Now r" using st' rl by simp
  show covers: "err = None \<longleftrightarrow> ?c * period_us ?p \<le> refilled"
    using level_covers [OF rem, of ?c "unat (st_tokens ?s)"] rl err by (simp add: token_level_def)
  show "token_inv ?p st'"
    using rl st' err sub cost by (auto simp: token_inv_def u64_eq)
  show "token_level ?p st' + (if err = None then ?c * period_us ?p else 0) = refilled"
  proof (cases "err = None")
    case True
    then have "?c * period_us ?p \<le> unat (st_tokens ?s) * period_us ?p" using err by (intro mult_le_mono1) simp
    moreover have "token_level ?p st' = unat (st_tokens ?s) * period_us ?p - ?c * period_us ?p + unat (st_remainder ?s)"
      using st' True sub by (simp add: token_level_def diff_mult_distrib)
    moreover have "unat (st_tokens ?s) * period_us ?p + unat (st_remainder ?s) = refilled"
      using rl by (simp add: token_level_def)
    ultimately show ?thesis unfolding if_P [OF True] by linarith
  qed (use rl st' in auto)
qed

text \<open>The contract's operations for one policy: instants in microseconds, costs as naturals.\<close>

definition token_request :: "policy \<Rightarrow> int \<Rightarrow> nat \<Rightarrow> request" where
  "token_request p t c = \<lparr>r_Policy = p, r_Key = zero_key, r_Cost = of_nat c, r_Now = time_UnixMicro t\<rparr>"

definition mem_step :: "policy \<Rightarrow> int \<Rightarrow> nat \<Rightarrow> mstate \<Rightarrow> bool \<times> mstate" where
  "mem_step p t c st = (case admitToken st (token_request p t c) of (st', d, err) \<Rightarrow> (err = None, st'))"

definition mem_inv :: "policy \<Rightarrow> mstate \<Rightarrow> bool" where
  "mem_inv p st \<longleftrightarrow> token_policy p \<and> no_wrap p \<and> token_inv p st"

definition mem_clock :: "mstate \<Rightarrow> int" where
  "mem_clock st = st_lastRefill st div 1000"

abbreviation pol_cap :: "policy \<Rightarrow> nat" where "pol_cap p \<equiv> unat (p_capacity p)"
abbreviation pol_lim :: "policy \<Rightarrow> nat" where "pol_lim p \<equiv> unat (Limit p)"

lemma elapsed_micro:
  "on_micro s \<Longrightarrow> (time_UnixMicro t - s) div 1000 = t - s div 1000"
  by (auto simp: on_micro_def time_UnixMicro_def)

interpretation mem_bucket: token_bucket mem_step mem_inv token_level mem_clock "\<lambda>_ _. True" pol_cap period_us pol_lim
proof
  fix p s
  assume "mem_inv p s"
  then show "token_level p s \<le> pol_lim p * period_us p" by (simp add: mem_inv_def token_level_bound)
next
  fix p s t c b s'
  assume i: "mem_inv p s" and t: "mem_clock s \<le> t" and c: "0 < c" "c \<le> pol_lim p" and st: "mem_step p t c s = (b, s')"
  let ?r = "token_request p t c"
  obtain d err where a: "admitToken s ?r = (s', d, err)" and b: "b = (err = None)"
    using st by (auto simp: mem_step_def split: prod.splits)
  have p: "token_policy p" "no_wrap p" "token_inv p s" using i by (simp_all add: mem_inv_def)
  have cost: "unat (of_nat c :: uint64) = c"
    using c token_policy_facts(6) [OF p(1)] by (intro u64_of_nat) simp
  have micro: "on_micro (st_lastRefill s)" using p by (simp add: token_inv_def)
  have late: "st_lastRefill s \<le> time_UnixMicro t"
    using t on_micro_split [OF micro] by (simp add: mem_clock_def time_UnixMicro_def)
  have r: "r_Policy ?r = p" "unat (r_Cost ?r) = c" "r_Now ?r = time_UnixMicro t"
    using cost by (simp_all add: token_request_def)
  have el: "nat ((time_UnixMicro t - st_lastRefill s) div 1000) = nat (t - mem_clock s)"
    using elapsed_micro [OF micro, of t] by (simp add: mem_clock_def)
  have pre: "token_policy (r_Policy ?r)" "no_wrap (r_Policy ?r)" "token_inv (r_Policy ?r) s" "on_micro (r_Now ?r)"
    "st_lastRefill s \<le> r_Now ?r" "0 < unat (r_Cost ?r)"
    using p late c r by simp_all
  note law = admitToken_law [OF pre a, unfolded r el]
  show "mem_inv p s' \<and> mem_clock s' = t \<and>
    (b \<longleftrightarrow> c * period_us p \<le> min (pol_lim p * period_us p) (token_level p s + pol_cap p * nat (t - mem_clock s))) \<and>
    token_level p s' + (if b then c * period_us p else 0) =
      min (pol_lim p * period_us p) (token_level p s + pol_cap p * nat (t - mem_clock s))"
    using law p b by (simp add: mem_inv_def mem_clock_def time_UnixMicro_def)
qed

section \<open>Properties\<close>

lemma admitToken_rejected:
  assumes "admitToken st r = (st', d, Some e)"
  shows "e = ErrRejected \<and> st' = refill st r \<and> unat (st_tokens st') < unat (r_Cost r) \<and> \<not> d_Allowed d \<and>
    d_Remaining d = st_tokens st' \<and>
    d_RetryAfter d = refillDuration (r_Cost r - st_tokens st') (st_remainder st') (r_Policy r)"
  using assms by (auto simp: admitToken_def Let_def u64_less zero_Decision_def split: if_splits)

text \<open>
  C28. The retry hint of a rejected token request is exact: if nothing else is
  admitted meanwhile, the same request is admitted again \<open>k\<close> microseconds later
  exactly when the hint has passed by then. The hint is never early, and never
  a microsecond longer than needed.
\<close>

theorem token_retry_exact:
  assumes p: "token_policy (r_Policy r)" "no_wrap (r_Policy r)" and inv: "token_inv (r_Policy r) st"
    and now: "on_micro (r_Now r)" "st_lastRefill st \<le> r_Now r"
    and cost: "0 < unat (r_Cost r)" "unat (r_Cost r) \<le> unat (Limit (r_Policy r))"
    and rej: "admitToken st r = (st', d, Some e)"
  shows "snd (snd (admitToken st' (r\<lparr>r_Now := r_Now r + 1000 * int k\<rparr>))) = None \<longleftrightarrow> d_RetryAfter d \<le> 1000 * int k"
proof -
  let ?p = "r_Policy r" and ?c = "unat (r_Cost r)" and ?r = "r\<lparr>r_Now := r_Now r + 1000 * int k\<rparr>"
  note law = admitToken_law [OF p inv now cost(1) rej] and rj = admitToken_rejected [OF rej]
  let ?t = "unat (st_tokens st')" and ?rem = "unat (st_remainder st')"
  have lt: "?t < ?c" and hint: "d_RetryAfter d = refillDuration (r_Cost r - st_tokens st') (st_remainder st') ?p"
    using rj by blast+
  have rem: "?rem < period_us ?p" using law(1) by (simp add: token_inv_def)
  have micro: "on_micro (r_Now ?r)" using now(1) by (simp add: on_micro_def mod_simps)
  obtain st2 d2 err2 where a: "admitToken st' ?r = (st2, d2, err2)" by (metis prod_cases3)
  have "?c * period_us ?p \<le> pol_lim ?p * period_us ?p" using cost(2) by (rule mult_le_mono1)
  then have "err2 = None \<longleftrightarrow> ?c * period_us ?p \<le> ?t * period_us ?p + ?rem + pol_cap ?p * k"
    using admitToken_law(3) [OF _ _ _ _ _ _ a] p law(1,2) micro cost by (simp add: token_level_def)
  also have "\<dots> \<longleftrightarrow> (?c - ?t) * period_us ?p \<le> ?rem + pol_cap ?p * k"
  proof -
    have "?t * period_us ?p \<le> ?c * period_us ?p" using lt by (intro mult_le_mono1) simp
    then show ?thesis unfolding diff_mult_distrib by linarith
  qed
  also have "?c - ?t = unat (r_Cost r - st_tokens st')" using lt by (simp add: u64_sub)
  also have "unat (r_Cost r - st_tokens st') * period_us ?p \<le> ?rem + pol_cap ?p * k \<longleftrightarrow> d_RetryAfter d \<le> 1000 * int k"
    using hint lt cost by (subst refillDuration_least [symmetric, OF p(1) _ rem]) (simp_all add: u64_sub)
  finally show ?thesis using a by simp
qed

definition sample_token :: mstate where
  "sample_token = (new_state sample_request)\<lparr>st_tokens := 1\<rparr>"

lemma sample_token_facts:
  "token_policy sample_policy" "no_wrap sample_policy" "token_inv sample_policy sample_token"
  by (simp_all add: token_policy_def no_wrap_def token_inv_def sample_token_def new_state_def sample_request_def
      on_micro_def Limit_def period_us_def)
    (simp_all add: sample_policy_def)

theorem token_retry_exact_witness:
  "\<exists>st' d e. admitToken sample_token sample_request = (st', d, Some e) \<and>
     (snd (snd (admitToken st' (sample_request\<lparr>r_Now := r_Now sample_request + 1000 * int 200000\<rparr>))) = None \<longleftrightarrow>
      d_RetryAfter d \<le> 200000000)"
proof -
  have "\<exists>st' d e. admitToken sample_token sample_request = (st', d, Some e)"
    by (simp add: admitToken_def refill_def sample_token_def new_state_def sample_request_def Let_def)
  then obtain st' d e where a: "admitToken sample_token sample_request = (st', d, Some e)" by blast
  have "snd (snd (admitToken st' (sample_request\<lparr>r_Now := r_Now sample_request + 1000 * int 200000\<rparr>))) = None \<longleftrightarrow>
      d_RetryAfter d \<le> 1000 * int 200000"
    by (rule token_retry_exact [OF _ _ _ _ _ _ _ a])
      (use sample_token_facts in \<open>simp_all add: sample_request_def on_micro_def sample_token_def new_state_def\<close>,
       simp_all add: sample_policy_def Limit_def)
  then show ?thesis using a by auto
qed

definition wrap_policy :: policy where
  "wrap_policy = sample_policy\<lparr>p_capacity := 9007199254740991, p_period := 1000, p_burst := 0, p_maxCost := 1\<rparr>"

definition wrap_request :: request where
  "wrap_request = \<lparr>r_Policy = wrap_policy, r_Key = sample_key, r_Cost = 1, r_Now = 2048000\<rparr>"

definition wrap_state :: mstate where
  "wrap_state = (new_state (wrap_request\<lparr>r_Now := 0\<rparr>))\<lparr>st_tokens := 9007199254740990\<rparr>"

text \<open>
  C36. Outside \<open>no_wrap\<close> the unchecked addition of \<open>refill\<close> wraps: under a valid
  policy of 2^53 - 1 tokens per microsecond, a bucket one token short of full
  holds 2,049 tokens fewer than the limit after 2,048 microseconds of
  refilling, instead of being full.
\<close>

theorem refill_overflow:
  "policy_wf wrap_policy \<and> Request_Validate wrap_request = None \<and> token_inv wrap_policy wrap_state \<and>
   unat (st_tokens (refill wrap_state wrap_request)) = 9007199254738942 \<and>
   unat (Limit wrap_policy) = 9007199254740991"
proof (intro conjI)
  show "policy_wf wrap_policy"
    using sample_policy_wf by (simp add: policy_wf_def wrap_policy_def sample_policy_def period_us_def duration_wf_def)
  show "Request_Validate wrap_request = None"
    by (simp add: Request_Validate_def wrap_request_def wrap_policy_def sample_policy_def sample_key_def IsZero_def
        zero_time_def UnixMicro_def i64_def maxExact_def request_duration_def Let_def)
  show "token_inv wrap_policy wrap_state"
    by (simp add: token_inv_def wrap_state_def wrap_policy_def new_state_def wrap_request_def Limit_def on_micro_def period_us_def)
  show "unat (st_tokens (refill wrap_state wrap_request)) = 9007199254738942"
    by (simp add: refill_def wrap_state_def wrap_request_def wrap_policy_def new_state_def Limit_def Let_def
        time_Sub_def uint64_of_def bits_Mul64_def dword_add_def bits_Add64_def bits_Div64_def min_def)
  show "unat (Limit wrap_policy) = 9007199254740991" by (simp add: Limit_def wrap_policy_def)
qed

end
