(* ===== verification/Window_Counter.thy ===== *)
theory Window_Counter
  imports Main
begin

text \<open>
  What a fixed-window limiter promises: a step counts in the window of its
  instant, admits exactly when the count leaves room for the cost, and starts
  other windows from zero. Time does not go back over a run, so no aligned
  window admits more than the limit. Proved once for every representation.
\<close>

locale window_counter =
  fixes step :: "'p \<Rightarrow> int \<Rightarrow> nat \<Rightarrow> 's \<Rightarrow> bool \<times> 's"
    and inv :: "'p \<Rightarrow> 's \<Rightarrow> bool"
    and ok :: "'p \<Rightarrow> int \<Rightarrow> bool"
    and window :: "'p \<Rightarrow> int \<Rightarrow> int"
    and count :: "'p \<Rightarrow> 's \<Rightarrow> int \<Rightarrow> nat"
    and lim :: "'p \<Rightarrow> nat"
  assumes count_bound: "inv p s \<Longrightarrow> count p s w \<le> lim p"
    and window_mono: "inv p s \<Longrightarrow> t \<le> t' \<Longrightarrow> window p t \<le> window p t'"
    and step_law: "inv p s \<Longrightarrow> ok p t \<Longrightarrow> 0 < c \<Longrightarrow> c \<le> lim p \<Longrightarrow> step p t c s = (b, s') \<Longrightarrow>
      inv p s' \<and> (b \<longleftrightarrow> count p s (window p t) + c \<le> lim p) \<and>
      count p s' (window p t) = count p s (window p t) + (if b then c else 0)"
begin

text \<open>The cost admitted in window \<open>w\<close> over a run of requests (instant, cost).\<close>

fun admitted :: "'p \<Rightarrow> int \<Rightarrow> (int \<times> nat) list \<Rightarrow> 's \<Rightarrow> nat" where
  "admitted p w [] s = 0"
| "admitted p w ((t, c) # xs) s =
     (let (b, s1) = step p t c s in (if b \<and> window p t = w then c else 0) + admitted p w xs s1)"

fun timely :: "'p \<Rightarrow> int \<Rightarrow> (int \<times> nat) list \<Rightarrow> bool" where
  "timely p t0 [] = True"
| "timely p t0 ((t, c) # xs) = (t0 \<le> t \<and> ok p t \<and> 0 < c \<and> c \<le> lim p \<and> timely p t xs)"

lemma admitted_past: "inv p s \<Longrightarrow> timely p t0 xs \<Longrightarrow> w < window p t0 \<Longrightarrow> admitted p w xs s = 0"
proof (induction xs arbitrary: s t0)
  case (Cons x xs)
  obtain t c where x: "x = (t, c)" by (cases x)
  obtain b s1 where st: "step p t c s = (b, s1)" by (cases "step p t c s")
  have t: "t0 \<le> t" "ok p t" "0 < c" "c \<le> lim p" "timely p t xs" using Cons.prems x by auto
  have "w < window p t" using window_mono [OF Cons.prems(1) t(1)] Cons.prems(3) by linarith
  then show ?case using Cons.IH [of s1 t] step_law [OF Cons.prems(1) t(2-4) st] t x st by simp
qed simp

lemma admitted_current:
  "inv p s \<Longrightarrow> timely p t0 xs \<Longrightarrow> w \<le> window p t0 \<Longrightarrow> admitted p w xs s + count p s w \<le> lim p"
proof (induction xs arbitrary: s t0)
  case Nil
  then show ?case by (simp add: count_bound)
next
  case (Cons x xs)
  obtain t c where x: "x = (t, c)" by (cases x)
  obtain b s1 where st: "step p t c s = (b, s1)" by (cases "step p t c s")
  have t: "t0 \<le> t" "ok p t" "0 < c" "c \<le> lim p" "timely p t xs" using Cons.prems x by auto
  note law = step_law [OF Cons.prems(1) t(2-4) st]
  have le: "w \<le> window p t" using window_mono [OF Cons.prems(1) t(1)] Cons.prems(3) by linarith
  show ?case
  proof (cases "w = window p t")
    case True
    then show ?thesis using Cons.IH [of s1 t] law t x st by (cases b) simp_all
  next
    case False
    then have "admitted p w (x # xs) s = 0" using admitted_past [of p s1 t xs w] law t x st le by simp
    then show ?thesis using count_bound [OF Cons.prems(1)] by simp
  qed
qed

lemma window_limit: "inv p s \<Longrightarrow> timely p t0 xs \<Longrightarrow> admitted p w xs s \<le> lim p"
proof (induction xs arbitrary: s t0)
  case (Cons x xs)
  obtain t c where x: "x = (t, c)" by (cases x)
  obtain b s1 where st: "step p t c s = (b, s1)" by (cases "step p t c s")
  have t: "t0 \<le> t" "ok p t" "0 < c" "c \<le> lim p" "timely p t xs" using Cons.prems x by auto
  note law = step_law [OF Cons.prems(1) t(2-4) st]
  show ?case
  proof (cases "w \<le> window p t")
    case True
    have "timely p t (x # xs)" using t x by simp
    then show ?thesis using admitted_current [OF Cons.prems(1) _ True, of "x # xs"] by simp
  next
    case False
    then show ?thesis using Cons.IH [of s1 t] law t x st by simp
  qed
qed simp

end

text \<open>
  What a segmented sliding window promises: at an instant it looks at the
  segments after \<open>oldest\<close> up to the current one, admits exactly when their sum
  leaves room for the cost, and counts the cost in the current segment.
\<close>

locale sliding_counter =
  fixes step :: "'p \<Rightarrow> int \<Rightarrow> nat \<Rightarrow> 's \<Rightarrow> bool \<times> 's"
    and inv :: "'p \<Rightarrow> int \<Rightarrow> 's \<Rightarrow> bool"
    and ok :: "'p \<Rightarrow> int \<Rightarrow> bool"
    and seg :: "'p \<Rightarrow> int \<Rightarrow> int"
    and oldest :: "'p \<Rightarrow> int \<Rightarrow> int"
    and count :: "'p \<Rightarrow> 's \<Rightarrow> int \<Rightarrow> nat"
    and lim :: "'p \<Rightarrow> nat"
  assumes seg_mono: "inv p t s \<Longrightarrow> t1 \<le> t2 \<Longrightarrow> seg p t1 \<le> seg p t2"
    and oldest_mono: "inv p t s \<Longrightarrow> t1 \<le> t2 \<Longrightarrow> oldest p t1 \<le> oldest p t2"
    and oldest_less: "inv p t s \<Longrightarrow> oldest p t1 < seg p t1"
    and no_future: "inv p t s \<Longrightarrow> seg p t < i \<Longrightarrow> count p s i = 0"
    and step_law: "inv p t0 s \<Longrightarrow> t0 \<le> t \<Longrightarrow> ok p t \<Longrightarrow> 0 < c \<Longrightarrow> c \<le> lim p \<Longrightarrow> step p t c s = (b, s') \<Longrightarrow>
      inv p t s' \<and> (b \<longleftrightarrow> (\<Sum>i\<in>{oldest p t + 1..seg p t}. count p s i) + c \<le> lim p) \<and>
      (\<forall>i. oldest p t < i \<and> i \<le> seg p t \<longrightarrow> count p s' i = count p s i + (if b \<and> i = seg p t then c else 0))"
begin

text \<open>A run keeps the log of what it admitted, latest first.\<close>

fun run :: "'p \<Rightarrow> (int \<times> nat) list \<Rightarrow> 's \<times> (int \<times> nat) list \<Rightarrow> 's \<times> (int \<times> nat) list" where
  "run p [] sl = sl"
| "run p ((t, c) # xs) (s, log) =
     (let (b, s1) = step p t c s in run p xs (s1, if b then (t, c) # log else log))"

fun timely :: "'p \<Rightarrow> int \<Rightarrow> (int \<times> nat) list \<Rightarrow> bool" where
  "timely p t0 [] = True"
| "timely p t0 ((t, c) # xs) = (t0 \<le> t \<and> ok p t \<and> 0 < c \<and> c \<le> lim p \<and> timely p t xs)"

definition logged :: "(int \<Rightarrow> bool) \<Rightarrow> (int \<times> nat) list \<Rightarrow> nat" where
  "logged P log = sum_list (map snd (filter (\<lambda>(t, c). P t) log))"

lemma logged_simps [simp]:
  "logged P [] = 0" "logged P ((t, c) # log) = (if P t then c else 0) + logged P log"
  by (simp_all add: logged_def)

lemma logged_mono: "\<forall>x \<in> set log. P (fst x) \<longrightarrow> Q (fst x) \<Longrightarrow> logged P log \<le> logged Q log"
  by (induction log) auto

lemma logged_none: "\<forall>x \<in> set log. \<not> P (fst x) \<Longrightarrow> logged P log = 0"
  by (induction log) auto

lemma logged_sum: "(\<Sum>i\<in>{a..b}. logged (\<lambda>t. seg p t = i) log) = logged (\<lambda>t. a \<le> seg p t \<and> seg p t \<le> b) log"
proof (induction log)
  case (Cons x log)
  obtain t c where x: "x = (t, c)" by (cases x)
  have "(\<Sum>i\<in>{a..b}. if seg p t = i then c else 0) = (if a \<le> seg p t \<and> seg p t \<le> b then c else 0)"
    by (simp add: sum.delta')
  then show ?case using Cons by (simp add: x sum.distrib)
qed simp

definition faithful :: "'p \<Rightarrow> int \<Rightarrow> 's \<Rightarrow> (int \<times> nat) list \<Rightarrow> bool" where
  "faithful p t s log \<longleftrightarrow> inv p t s \<and> (\<forall>x \<in> set log. fst x \<le> t) \<and>
     (\<forall>i. oldest p t < i \<longrightarrow> count p s i = logged (\<lambda>u. seg p u = i) log)"

text \<open>Any closed stretch whose instants all fall into the window of its last one.\<close>

definition narrow :: "'p \<Rightarrow> int \<Rightarrow> int \<Rightarrow> bool" where
  "narrow p a z \<longleftrightarrow> (\<forall>u t. a \<le> u \<and> u \<le> t \<and> t \<le> z \<longrightarrow> oldest p t < seg p u)"

definition bounded :: "'p \<Rightarrow> (int \<times> nat) list \<Rightarrow> bool" where
  "bounded p log \<longleftrightarrow> (\<forall>a z. narrow p a z \<longrightarrow> logged (\<lambda>u. a \<le> u \<and> u \<le> z) log \<le> lim p)"

lemma step_faithful:
  assumes f: "faithful p t0 s log" and b: "bounded p log"
    and t: "t0 \<le> t" "ok p t" "0 < c" "c \<le> lim p" and st: "step p t c s = (adm, s')"
  defines "log' \<equiv> if adm then (t, c) # log else log"
  shows "faithful p t s' log'" "bounded p log'"
proof -
  have inv: "inv p t0 s" using f by (simp add: faithful_def)
  note law = step_law [OF inv t st]
  have past: "\<forall>x \<in> set log'. fst x \<le> t" using f t by (auto simp: faithful_def log'_def)
  have old: "oldest p t0 \<le> oldest p t" using oldest_mono [OF inv t(1)] .
  have cnt: "count p s' i = logged (\<lambda>u. seg p u = i) log'" if i: "oldest p t < i" for i
  proof (cases "i \<le> seg p t")
    case True
    then show ?thesis using law i f old by (auto simp: faithful_def log'_def)
  next
    case False
    have "logged (\<lambda>u. seg p u = i) log' = 0"
      using past seg_mono [OF inv, of _ t] False by (intro logged_none) force
    then show ?thesis using law no_future [of p t s' i] False by simp
  qed
  show "faithful p t s' log'" using law past cnt by (simp add: faithful_def)
  have sum: "adm \<Longrightarrow> logged (\<lambda>u. oldest p t + 1 \<le> seg p u \<and> seg p u \<le> seg p t) log' \<le> lim p"
  proof -
    assume adm
    have "(\<Sum>i\<in>{oldest p t + 1..seg p t}. count p s i) = logged (\<lambda>u. oldest p t + 1 \<le> seg p u \<and> seg p u \<le> seg p t) log"
      unfolding logged_sum [symmetric] using f old by (intro sum.cong) (auto simp: faithful_def)
    then show ?thesis using law \<open>adm\<close> oldest_less [OF inv, of t] by (simp add: log'_def)
  qed
  show "bounded p log'" unfolding bounded_def
  proof (intro allI impI)
    fix a z
    assume n: "narrow p a z"
    show "logged (\<lambda>u. a \<le> u \<and> u \<le> z) log' \<le> lim p"
    proof (cases "adm \<and> a \<le> t \<and> t \<le> z")
      case True
      have "logged (\<lambda>u. a \<le> u \<and> u \<le> z) log' \<le> logged (\<lambda>u. oldest p t + 1 \<le> seg p u \<and> seg p u \<le> seg p t) log'"
        using n True past seg_mono [OF inv] by (intro logged_mono) (fastforce simp: narrow_def)
      then show ?thesis using sum True by linarith
    next
      case False
      then have "logged (\<lambda>u. a \<le> u \<and> u \<le> z) log' = logged (\<lambda>u. a \<le> u \<and> u \<le> z) log" by (auto simp: log'_def)
      then show ?thesis using b n by (simp add: bounded_def)
    qed
  qed
qed

lemma run_bounded:
  "faithful p t0 s log \<Longrightarrow> bounded p log \<Longrightarrow> timely p t0 xs \<Longrightarrow> run p xs (s, log) = (s', log') \<Longrightarrow> bounded p log'"
proof (induction xs arbitrary: t0 s log)
  case (Cons x xs)
  obtain t c where x: "x = (t, c)" by (cases x)
  obtain b s1 where st: "step p t c s = (b, s1)" by (cases "step p t c s")
  have t: "t0 \<le> t" "ok p t" "0 < c" "c \<le> lim p" "timely p t xs" using Cons.prems x by auto
  show ?case
    using Cons.IH [OF step_faithful [OF Cons.prems(1,2) t(1-4) st] t(5)] Cons.prems(4) x st by simp
qed simp

end

end
