(* ===== verification/Memory_Window.thy ===== *)
theory Memory_Window
  imports Memory_State Window_Counter
begin

text \<open>
  The fixed and sliding windows of \<^verbatim>\<open>memory/store.go\<close>: \<open>consumeWindow\<close>,
  \<open>admitFixed\<close> and \<open>admitSliding\<close>.
\<close>

definition consumeWindow :: "mstate \<Rightarrow> request \<Rightarrow> time \<Rightarrow> mstate \<times> decision \<times> go_error option" where
  "consumeWindow current r reset =
     (let limit = Limit (r_Policy r); remaining = limit - min (st_used current) limit in
      if r_Cost r > remaining
      then (current,
            zero_Decision\<lparr>d_Allowed := False, d_Limit := limit, d_Remaining := remaining, d_Reset := reset,
              d_RetryAfter := nonnegative (time_Sub reset (r_Now r)), d_Reason := ReasonLimited\<rparr>,
            Some ErrRejected)
      else let current = current\<lparr>st_used := st_used current + r_Cost r\<rparr> in
           (current,
            zero_Decision\<lparr>d_Allowed := True, d_Limit := limit, d_Remaining := limit - st_used current,
              d_Reset := reset, d_Reason := ReasonAllowed\<rparr>,
            None))"

definition admitFixed :: "mstate \<Rightarrow> request \<Rightarrow> mstate \<times> decision \<times> go_error option" where
  "admitFixed current r =
     (let period = p_period (r_Policy r);
          start = floorBoundary (UnixNano (r_Now r)) period;
          current = (if st_windowStart current \<noteq> start then current\<lparr>st_windowStart := start, st_used := 0\<rparr> else current);
          reset = time_UnixNano (i64 (start + period))
      in consumeWindow current r reset)"

text \<open>The loop over the segments: cleared segments, the sum in use and the earliest index in use.\<close>

fun scanSegments :: "int \<Rightarrow> segment list \<Rightarrow> uint64 \<Rightarrow> int \<Rightarrow> segment list \<times> uint64 \<times> int" where
  "scanSegments oldest [] used earliest = ([], used, earliest)"
| "scanSegments oldest (g # gs) used earliest =
     (if g_index g \<le> oldest
      then let (gs', u, e) = scanSegments oldest gs used earliest in (zero_segment # gs', u, e)
      else let (gs', u, e) = scanSegments oldest gs (used + g_used g)
             (if g_used g \<noteq> 0 then min earliest (g_index g) else earliest)
           in (g # gs', u, e))"

definition segmentSize :: "policy \<Rightarrow> int" where
  "segmentSize p = i64 (p_period p + int slidingSegments - 1) sdiv int slidingSegments"

definition admitSliding :: "mstate \<Rightarrow> request \<Rightarrow> mstate \<times> decision \<times> go_error option" where
  "admitSliding current r =
     (let p = r_Policy r; width = segmentSize p;
          index = floorBoundary (UnixNano (r_Now r)) width sdiv width;
          oldest = floorBoundary (UnixNano (time_Add (r_Now r) (- p_period p))) width sdiv width;
          (segments, used, earliest) = scanSegments oldest (st_segments current) 0 MaxInt64;
          slot = nat (positiveMod index (int slidingSegments));
          segments = (if g_index (segments ! slot) \<noteq> index
                      then segments[slot := \<lparr>g_index = index, g_used = 0\<rparr>] else segments);
          reset = (if earliest \<noteq> MaxInt64
                   then time_Add (time_UnixNano (i64 (i64 (earliest + 1) * width))) (p_period p)
                   else time_Add (r_Now r) (p_period p));
          (current, d, err) = consumeWindow (current\<lparr>st_segments := segments, st_used := used\<rparr>) r reset
      in if err = None
         then (current\<lparr>st_segments := (st_segments current)[slot :=
                 (st_segments current ! slot)\<lparr>g_used := g_used (st_segments current ! slot) + r_Cost r\<rparr>]\<rparr>, d, err)
         else (current, d, err))"

section \<open>Consumption\<close>

lemma consumeWindow_law:
  assumes "policy_wf (r_Policy r)" "unat (st_used st) \<le> unat (Limit (r_Policy r))"
    and "consumeWindow st r reset = (st', d, err)"
  shows "err = None \<longleftrightarrow> unat (st_used st) + unat (r_Cost r) \<le> unat (Limit (r_Policy r))"
    "st' = (if err = None then st\<lparr>st_used := st_used st + r_Cost r\<rparr> else st)"
    "unat (st_used st') = unat (st_used st) + (if err = None then unat (r_Cost r) else 0)"
    "d_Allowed d \<longleftrightarrow> err = None" "d_Reset d = reset" "d_Limit d = Limit (r_Policy r)"
    "unat (d_Remaining d) = unat (Limit (r_Policy r)) - unat (st_used st')"
proof -
  note lim = policy_wf_Limit_bound [OF assms(1)]
  have m: "min (st_used st) (Limit (r_Policy r)) = st_used st" using assms(2) by (simp add: min_def u64_le)
  have rem: "unat (Limit (r_Policy r) - st_used st) = unat (Limit (r_Policy r)) - unat (st_used st)"
    using assms(2) by (rule u64_sub)
  show c: "err = None \<longleftrightarrow> unat (st_used st) + unat (r_Cost r) \<le> unat (Limit (r_Policy r))"
    using assms m rem by (auto simp: consumeWindow_def Let_def u64_less split: if_splits)
  show st': "st' = (if err = None then st\<lparr>st_used := st_used st + r_Cost r\<rparr> else st)"
    using assms(3) by (auto simp: consumeWindow_def Let_def split: if_splits)
  show u: "unat (st_used st') = unat (st_used st) + (if err = None then unat (r_Cost r) else 0)"
    using c lim by (auto simp: st' u64_add)
  show "d_Allowed d \<longleftrightarrow> err = None" "d_Reset d = reset" "d_Limit d = Limit (r_Policy r)"
    using assms(3) by (auto simp: consumeWindow_def Let_def zero_Decision_def split: if_splits)
  show "unat (d_Remaining d) = unat (Limit (r_Policy r)) - unat (st_used st')"
  proof (cases "err = None")
    case True
    then have "unat (st_used st + r_Cost r) \<le> unat (Limit (r_Policy r))" using c u st' by simp
    then show ?thesis using assms(3) True st' by (auto simp: consumeWindow_def Let_def u64_sub split: if_splits)
  next
    case False
    then show ?thesis using assms(3) st' m rem by (auto simp: consumeWindow_def Let_def split: if_splits)
  qed
qed

section \<open>Fixed windows\<close>

definition fixed_policy :: "policy \<Rightarrow> bool" where
  "fixed_policy p \<longleftrightarrow> policy_wf p \<and> p_algorithm p = FixedWindow"

definition fixed_inv :: "policy \<Rightarrow> mstate \<Rightarrow> bool" where
  "fixed_inv p st \<longleftrightarrow> fixed_policy p \<and> unat (st_used st) \<le> unat (Limit p)"

text \<open>Instants whose window starts and ends within \<open>int64\<close> nanoseconds: for every
  policy period, at least the years 1970 to 2262 up to one period.\<close>

definition fixed_ok :: "policy \<Rightarrow> time \<Rightarrow> bool" where
  "fixed_ok p t \<longleftrightarrow> int64_range t \<and> int64_range (t div p_period p * p_period p) \<and>
     int64_range (t div p_period p * p_period p + p_period p)"

definition fixed_window :: "policy \<Rightarrow> time \<Rightarrow> int" where
  "fixed_window p t = t div p_period p"

definition fixed_count :: "policy \<Rightarrow> mstate \<Rightarrow> int \<Rightarrow> nat" where
  "fixed_count p st w = (if st_windowStart st = w * p_period p then unat (st_used st) else 0)"

lemma fixed_period: "fixed_policy p \<Longrightarrow> 0 < p_period p"
  using policy_wf_period(1) [of p] by (auto simp: fixed_policy_def duration_wf_def)

lemma admitFixed_law:
  assumes p: "fixed_inv (r_Policy r) st" and ok: "fixed_ok (r_Policy r) (r_Now r)"
    and adm: "admitFixed st r = (st', d, err)"
  defines "w \<equiv> fixed_window (r_Policy r) (r_Now r)"
  shows "fixed_inv (r_Policy r) st'"
    "err = None \<longleftrightarrow> fixed_count (r_Policy r) st w + unat (r_Cost r) \<le> unat (Limit (r_Policy r))"
    "fixed_count (r_Policy r) st' w = fixed_count (r_Policy r) st w + (if err = None then unat (r_Cost r) else 0)"
    "d_Allowed d \<longleftrightarrow> err = None" "d_Reset d = (w + 1) * p_period (r_Policy r)"
    "unat (d_Remaining d) = unat (Limit (r_Policy r)) - fixed_count (r_Policy r) st' w"
proof -
  let ?p = "r_Policy r" and ?start = "w * p_period (r_Policy r)"
  have fp: "fixed_policy ?p" and wf: "policy_wf ?p" and used: "unat (st_used st) \<le> unat (Limit ?p)"
    using p by (simp_all add: fixed_inv_def fixed_policy_def)
  have start: "floorBoundary (UnixNano (r_Now r)) (p_period ?p) = ?start"
    using ok fixed_period [OF fp] by (simp add: fixed_ok_def w_def fixed_window_def UnixNano_def floorBoundary_floor)
  define cur where "cur = (if st_windowStart st \<noteq> ?start then st\<lparr>st_windowStart := ?start, st_used := 0\<rparr> else st)"
  have range: "int64_range (?start + p_period ?p)" using ok by (simp add: fixed_ok_def w_def fixed_window_def)
  have con: "consumeWindow cur r (?start + p_period ?p) = (st', d, err)"
    using adm [unfolded admitFixed_def Let_def start, folded cur_def] range by (simp add: time_UnixNano_def)
  have cur: "unat (st_used cur) = fixed_count ?p st w" "st_windowStart cur = ?start"
    by (simp_all add: cur_def fixed_count_def)
  have le: "unat (st_used cur) \<le> unat (Limit ?p)" using used by (simp add: cur_def)
  note law = consumeWindow_law [OF wf le con]
  have ws: "st_windowStart st' = ?start" using law(2) cur by simp
  show "err = None \<longleftrightarrow> fixed_count ?p st w + unat (r_Cost r) \<le> unat (Limit ?p)" using law(1) cur by simp
  show "fixed_count ?p st' w = fixed_count ?p st w + (if err = None then unat (r_Cost r) else 0)"
    using law(3) cur ws by (simp add: fixed_count_def)
  show "fixed_inv ?p st'" using fp law(1,3) le by (auto simp: fixed_inv_def)
  show "d_Allowed d \<longleftrightarrow> err = None" by (rule law(4))
  show "d_Reset d = (w + 1) * p_period ?p" using law(5) by (simp add: distrib_right)
  show "unat (d_Remaining d) = unat (Limit ?p) - fixed_count ?p st' w" using law(7) ws by (simp add: fixed_count_def)
qed

definition window_request :: "policy \<Rightarrow> int \<Rightarrow> nat \<Rightarrow> request" where
  "window_request p t c = \<lparr>r_Policy = p, r_Key = zero_key, r_Cost = of_nat c, r_Now = t\<rparr>"

definition fixed_step :: "policy \<Rightarrow> int \<Rightarrow> nat \<Rightarrow> mstate \<Rightarrow> bool \<times> mstate" where
  "fixed_step p t c st = (case admitFixed st (window_request p t c) of (st', d, err) \<Rightarrow> (err = None, st'))"

abbreviation limit_of :: "policy \<Rightarrow> nat" where "limit_of p \<equiv> unat (Limit p)"

interpretation mem_fixed: window_counter fixed_step fixed_inv fixed_ok fixed_window fixed_count limit_of
proof
  show "fixed_inv p s \<Longrightarrow> fixed_count p s w \<le> limit_of p" for p s w
    by (simp add: fixed_inv_def fixed_count_def)
  show "fixed_inv p s \<Longrightarrow> t \<le> t' \<Longrightarrow> fixed_window p t \<le> fixed_window p t'" for p s t t'
    by (simp add: fixed_inv_def fixed_window_def fixed_period zdiv_mono1)
  fix p s t c b s'
  assume i: "fixed_inv p s" and ok: "fixed_ok p t" and c: "0 < c" "c \<le> limit_of p" and st: "fixed_step p t c s = (b, s')"
  let ?r = "window_request p t c"
  obtain d err where a: "admitFixed s ?r = (s', d, err)" and b: "b = (err = None)"
    using st by (auto simp: fixed_step_def split: prod.splits)
  have "policy_wf p" using i by (simp add: fixed_inv_def fixed_policy_def)
  then have "unat (of_nat c :: uint64) = c" using c policy_wf_Limit_bound [of p] by (intro u64_of_nat) simp
  then have r: "r_Policy ?r = p" "unat (r_Cost ?r) = c" "r_Now ?r = t" by (simp_all add: window_request_def)
  have pre: "fixed_inv (r_Policy ?r) s" "fixed_ok (r_Policy ?r) (r_Now ?r)" using i ok r by simp_all
  show "fixed_inv p s' \<and> (b \<longleftrightarrow> fixed_count p s (fixed_window p t) + c \<le> limit_of p) \<and>
    fixed_count p s' (fixed_window p t) = fixed_count p s (fixed_window p t) + (if b then c else 0)"
    using admitFixed_law [OF pre a, unfolded r] b by simp
qed

section \<open>Sliding windows\<close>

definition sliding_policy :: "policy \<Rightarrow> bool" where
  "sliding_policy p \<longleftrightarrow> policy_wf p \<and> p_algorithm p = SlidingWindow"

definition seg_width :: "policy \<Rightarrow> int" where
  "seg_width p = (p_period p + 15) div 16"

definition sliding_seg :: "policy \<Rightarrow> time \<Rightarrow> int" where
  "sliding_seg p t = t div seg_width p"

definition sliding_oldest :: "policy \<Rightarrow> time \<Rightarrow> int" where
  "sliding_oldest p t = (t - p_period p) div seg_width p"

text \<open>Instants at which the nanosecond arithmetic stays within \<open>int64\<close>.\<close>

definition sliding_ok :: "policy \<Rightarrow> time \<Rightarrow> bool" where
  "sliding_ok p t \<longleftrightarrow> int64_range t \<and> int64_range (t - p_period p) \<and>
     int64_range (sliding_seg p t * seg_width p) \<and> int64_range (sliding_oldest p t * seg_width p)"

lemma sliding_width:
  assumes "sliding_policy p"
  shows "segmentSize p = seg_width p" "0 < seg_width p" "p_period p \<le> 16 * seg_width p" "seg_width p \<le> p_period p"
proof -
  have per: "duration_wf (p_period p)" "p_period p = int (period_us p) * 1000" "period_us p \<le> 9007199254740991"
    using assms policy_wf_period [of p] by (simp_all add: sliding_policy_def)
  then have b: "1000 \<le> p_period p" "p_period p \<le> 9007199254740991000" by (simp_all add: duration_wf_def)
  then have r: "int64_range (p_period p + 15)" by (intro int64_rangeI) linarith+
  have e: "int slidingSegments = 16" "p_period p + 16 - 1 = p_period p + 15"
    by (simp_all add: slidingSegments_def)
  show "segmentSize p = seg_width p"
    unfolding segmentSize_def seg_width_def e i64_id [OF r] using b by (intro sdiv_nonneg) simp_all
  show "0 < seg_width p" "p_period p \<le> 16 * seg_width p" "seg_width p \<le> p_period p"
    using b unfolding seg_width_def by linarith+
qed

lemma sdiv_multiple: "0 < w \<Longrightarrow> (q * w) sdiv w = (q :: int)"
proof (cases "0 \<le> q")
  case True
  assume "0 < w"
  then show ?thesis using True by (simp add: sdiv_nonneg)
next
  case False
  assume w: "0 < w"
  then have "q * w < 0" using False by (simp add: mult_neg_pos)
  then show ?thesis using w by (simp add: sdiv_neg minus_mult_left del: minus_mult_left [symmetric])
qed

lemma sliding_index:
  assumes "sliding_policy p" "sliding_ok p t"
  shows "floorBoundary (UnixNano t) (segmentSize p) sdiv segmentSize p = sliding_seg p t"
    "floorBoundary (UnixNano (time_Add t (- p_period p))) (segmentSize p) sdiv segmentSize p = sliding_oldest p t"
  using assms sliding_width [OF assms(1)]
  by (simp_all add: sliding_ok_def UnixNano_def time_Add_def sliding_seg_def sliding_oldest_def floorBoundary_floor
      sdiv_multiple)

lemma sliding_span:
  assumes "sliding_policy p"
  shows "sliding_seg p t - 16 \<le> sliding_oldest p t" "sliding_oldest p t < sliding_seg p t"
proof -
  note w = sliding_width [OF assms]
  have "(t - 16 * seg_width p) div seg_width p \<le> sliding_oldest p t"
    unfolding sliding_oldest_def using w by (intro zdiv_mono1) linarith+
  moreover have "(t - 16 * seg_width p) div seg_width p = sliding_seg p t - 16"
    using w(2) by (simp add: sliding_seg_def diff_conv_add_uminus del: add_uminus_conv_diff
        flip: mult_minus_left)
  ultimately show "sliding_seg p t - 16 \<le> sliding_oldest p t" by simp
  have "sliding_oldest p t \<le> (t - 1 * seg_width p) div seg_width p"
    unfolding sliding_oldest_def using w by (intro zdiv_mono1) linarith+
  moreover have "(t - 1 * seg_width p) div seg_width p = sliding_seg p t - 1"
    using w(2) div_mult_self1 [of "seg_width p" t "- 1"] by (simp add: sliding_seg_def)
  ultimately show "sliding_oldest p t < sliding_seg p t" by simp
qed

definition seg_slot :: "int \<Rightarrow> nat" where
  "seg_slot i = nat (i mod 16)"

definition seg_count :: "segment list \<Rightarrow> int \<Rightarrow> nat" where
  "seg_count gs i = (if g_index (gs ! seg_slot i) = i then unat (g_used (gs ! seg_slot i)) else 0)"

definition segs_wf :: "nat \<Rightarrow> int \<Rightarrow> segment list \<Rightarrow> bool" where
  "segs_wf lim newest gs \<longleftrightarrow> length gs = 16 \<and>
     (\<forall>k < 16. unat (g_used (gs ! k)) \<le> lim \<and>
        (g_used (gs ! k) \<noteq> 0 \<longrightarrow> seg_slot (g_index (gs ! k)) = k \<and> g_index (gs ! k) \<le> newest))"

lemma seg_slot_less [simp]: "seg_slot i < 16"
  by (simp add: seg_slot_def nat_less_iff)

lemma seg_slot_eq: "seg_slot i = seg_slot j \<longleftrightarrow> i mod 16 = j mod 16"
  by (simp add: seg_slot_def nat_eq_iff)

lemma seg_slot_near:
  assumes "j - 16 < i" "i \<le> j"
  shows "seg_slot i = seg_slot j \<longleftrightarrow> i = j"
proof
  assume "seg_slot i = seg_slot j"
  then have "(16 :: int) dvd j - i" by (metis seg_slot_eq mod_eq_dvd_iff)
  then obtain k where "j - i = 16 * k" by (auto simp: dvd_def)
  then show "i = j" using assms by presburger
qed simp

text \<open>The scan of the segments.\<close>

definition live :: "int \<Rightarrow> segment \<Rightarrow> nat" where
  "live oldest g = (if g_index g \<le> oldest then 0 else unat (g_used g))"

lemma scanSegments_fst:
  "fst (scanSegments oldest gs u e) = map (\<lambda>g. if g_index g \<le> oldest then zero_segment else g) gs"
proof (induction gs arbitrary: u e)
  case (Cons g gs)
  show ?case
    by (simp add: Let_def case_prod_beta Cons.IH)
qed simp

lemma scanSegments_used:
  "unat u + sum_list (map (live oldest) gs) < 18446744073709551616 \<Longrightarrow>
   unat (fst (snd (scanSegments oldest gs u e))) = unat u + sum_list (map (live oldest) gs)"
proof (induction gs arbitrary: u e)
  case (Cons g gs)
  show ?case
  proof (cases "g_index g \<le> oldest")
    case True
    then show ?thesis using Cons.IH [of u e] Cons.prems by (simp add: live_def Let_def case_prod_beta)
  next
    case False
    then have "unat (u + g_used g) = unat u + unat (g_used g)" using Cons.prems by (intro u64_add) (simp add: live_def)
    then show ?thesis
      using False Cons.IH [of "u + g_used g"] Cons.prems by (simp add: live_def Let_def case_prod_beta)
  qed
qed simp

lemma live_sum_bound: "segs_wf lim n gs \<Longrightarrow> sum_list (map (live oldest) gs) \<le> 16 * lim"
proof -
  assume "segs_wf lim n gs"
  then have all: "\<forall>g \<in> set gs. live oldest g \<le> lim" and len: "length gs = 16"
    by (auto simp: segs_wf_def live_def in_set_conv_nth)
  have "\<forall>g \<in> set hs. live oldest g \<le> lim \<Longrightarrow> sum_list (map (live oldest) hs) \<le> length hs * lim" for hs
    by (induction hs) auto
  from this [OF all] show ?thesis using len by simp
qed

lemma live_sum:
  assumes wf: "segs_wf lim n gs" and top: "n \<le> newest"
  shows "sum_list (map (live oldest) gs) = (\<Sum>i\<in>{oldest + 1..newest}. seg_count gs i)"
proof -
  have len: "length gs = 16" using wf by (simp add: segs_wf_def)
  have used: "live oldest (gs ! k) \<noteq> 0 \<Longrightarrow> k < 16 \<Longrightarrow> seg_slot (g_index (gs ! k)) = k \<and> g_index (gs ! k) \<le> n \<and>
      oldest < g_index (gs ! k) \<and> live oldest (gs ! k) = unat (g_used (gs ! k))" for k
    using wf by (auto simp: segs_wf_def live_def split: if_splits)
  have "sum_list (map (live oldest) gs) = (\<Sum>k\<in>{0..<16}. live oldest (gs ! k))"
    using len by (simp add: sum_list_sum_nth)
  also have "\<dots> = (\<Sum>k\<in>{k \<in> {0..<16}. live oldest (gs ! k) \<noteq> 0}. live oldest (gs ! k))"
    by (rule sum.mono_neutral_right) auto
  also have "\<dots> = (\<Sum>i\<in>{i \<in> {oldest + 1..newest}. seg_count gs i \<noteq> 0}. seg_count gs i)"
  proof (rule sum.reindex_bij_witness [where i = seg_slot and j = "\<lambda>k. g_index (gs ! k)"])
    fix k assume "k \<in> {k \<in> {0..<16}. live oldest (gs ! k) \<noteq> 0}"
    then have k: "k < 16" "live oldest (gs ! k) \<noteq> 0" by auto
    note u = used [OF k(2,1)]
    show "seg_slot (g_index (gs ! k)) = k" using u by simp
    show c: "seg_count gs (g_index (gs ! k)) = live oldest (gs ! k)" using u by (simp add: seg_count_def)
    show "g_index (gs ! k) \<in> {i \<in> {oldest + 1..newest}. seg_count gs i \<noteq> 0}" using u k top c by simp
  next
    fix i assume "i \<in> {i \<in> {oldest + 1..newest}. seg_count gs i \<noteq> 0}"
    then have i: "oldest < i" "seg_count gs i \<noteq> 0" by auto
    show x: "g_index (gs ! seg_slot i) = i" using i(2) by (simp add: seg_count_def split: if_splits)
    show "seg_slot i \<in> {k \<in> {0..<16}. live oldest (gs ! k) \<noteq> 0}"
      using i x by (simp add: seg_count_def live_def)
  qed
  also have "\<dots> = (\<Sum>i\<in>{oldest + 1..newest}. seg_count gs i)"
    by (rule sum.mono_neutral_left) auto
  finally show ?thesis .
qed

text \<open>Clearing the old segments, opening the current one, and counting in it.\<close>

definition clear_old :: "int \<Rightarrow> segment list \<Rightarrow> segment list" where
  "clear_old oldest gs = map (\<lambda>g. if g_index g \<le> oldest then zero_segment else g) gs"

definition open_seg :: "int \<Rightarrow> segment list \<Rightarrow> segment list" where
  "open_seg i gs = (if g_index (gs ! seg_slot i) \<noteq> i then gs[seg_slot i := \<lparr>g_index = i, g_used = 0\<rparr>] else gs)"

definition add_seg :: "int \<Rightarrow> uint64 \<Rightarrow> segment list \<Rightarrow> segment list" where
  "add_seg i c gs = gs[seg_slot i := (gs ! seg_slot i)\<lparr>g_used := g_used (gs ! seg_slot i) + c\<rparr>]"

lemma clear_old_count:
  "length gs = 16 \<Longrightarrow> seg_count (clear_old oldest gs) i = (if i \<le> oldest then 0 else seg_count gs i)"
  by (auto simp: seg_count_def clear_old_def zero_segment_def)

lemma clear_old_wf: "segs_wf lim n gs \<Longrightarrow> segs_wf lim n (clear_old oldest gs)"
  by (auto simp: segs_wf_def clear_old_def zero_segment_def)

lemma open_seg_count:
  "length gs = 16 \<Longrightarrow> j - 16 < i \<Longrightarrow> i \<le> j \<Longrightarrow> seg_count (open_seg j gs) i = seg_count gs i"
  using seg_slot_near [of j i] by (auto simp: seg_count_def open_seg_def nth_list_update)

lemma open_seg_wf:
  assumes "segs_wf lim n gs" "n \<le> i"
  shows "segs_wf lim i (open_seg i gs)" "g_index (open_seg i gs ! seg_slot i) = i"
  using assms by (auto simp: segs_wf_def open_seg_def nth_list_update)

lemma add_seg_count:
  assumes "length gs = 16" "g_index (gs ! seg_slot j) = j" "seg_count gs j + unat c < 18446744073709551616"
    and "j - 16 < i" "i \<le> j"
  shows "seg_count (add_seg j c gs) i = seg_count gs i + (if i = j then unat c else 0)"
  using assms by (auto simp: seg_count_def add_seg_def nth_list_update seg_slot_near u64_add)

lemma add_seg_wf:
  assumes "segs_wf lim j gs" "g_index (gs ! seg_slot j) = j" "seg_count gs j + unat c \<le> lim" "lim < 18446744073709551616"
  shows "segs_wf lim j (add_seg j c gs)"
  using assms by (auto simp: segs_wf_def add_seg_def nth_list_update seg_count_def u64_add)

lemma admitSliding_unfold:
  assumes "sliding_policy (r_Policy r)" "sliding_ok (r_Policy r) (r_Now r)"
    and "admitSliding st r = (st', d, err)"
  defines "i \<equiv> sliding_seg (r_Policy r) (r_Now r)" and "oldest \<equiv> sliding_oldest (r_Policy r) (r_Now r)"
  obtains used reset st1 where "used = fst (snd (scanSegments oldest (st_segments st) 0 MaxInt64))"
    "consumeWindow (st\<lparr>st_segments := open_seg i (clear_old oldest (st_segments st)), st_used := used\<rparr>) r reset = (st1, d, err)"
    "st' = (if err = None then st1\<lparr>st_segments := add_seg i (r_Cost r) (st_segments st1)\<rparr> else st1)"
proof -
  have slot: "nat (positiveMod i (int slidingSegments)) = seg_slot i"
    by (simp add: slidingSegments_def positiveMod_mod seg_slot_def)
  obtain gs used e where sc: "scanSegments oldest (st_segments st) 0 MaxInt64 = (gs, used, e)" by (metis prod_cases3)
  have gs: "gs = clear_old oldest (st_segments st)"
    using scanSegments_fst [of oldest "st_segments st" 0 MaxInt64] sc by (simp add: clear_old_def)
  note ix = sliding_index [OF assms(1,2), folded i_def oldest_def]
  show ?thesis
    using assms(3) that [of used]
    unfolding admitSliding_def Let_def ix sc prod.case slot gs open_seg_def [symmetric] add_seg_def [symmetric]
    by (auto split: prod.splits if_splits)
qed

definition sliding_sum :: "policy \<Rightarrow> time \<Rightarrow> mstate \<Rightarrow> nat" where
  "sliding_sum p t st = (\<Sum>i\<in>{sliding_oldest p t + 1..sliding_seg p t}. seg_count (st_segments st) i)"

definition sliding_inv :: "policy \<Rightarrow> time \<Rightarrow> mstate \<Rightarrow> bool" where
  "sliding_inv p t st \<longleftrightarrow> sliding_policy p \<and> segs_wf (unat (Limit p)) (sliding_seg p t) (st_segments st) \<and>
     sliding_sum p t st \<le> unat (Limit p)"

lemma sliding_mono:
  assumes "sliding_policy p" "t1 \<le> t2"
  shows "sliding_seg p t1 \<le> sliding_seg p t2" "sliding_oldest p t1 \<le> sliding_oldest p t2"
  using assms sliding_width(2) [OF assms(1)] by (simp_all add: sliding_seg_def sliding_oldest_def zdiv_mono1)

lemma segs_no_future: "segs_wf lim n gs \<Longrightarrow> n < i \<Longrightarrow> seg_count gs i = 0"
proof -
  assume wf: "segs_wf lim n gs" and i: "n < i"
  have "g_used (gs ! seg_slot i) \<noteq> 0 \<longrightarrow> g_index (gs ! seg_slot i) \<le> n" using wf by (simp add: segs_wf_def)
  then show ?thesis using i by (auto simp: seg_count_def)
qed

lemma sliding_sum_later:
  assumes "sliding_inv p t0 st" "t0 \<le> t"
  shows "sliding_sum p t st \<le> unat (Limit p)"
proof -
  have p: "sliding_policy p" and wf: "segs_wf (unat (Limit p)) (sliding_seg p t0) (st_segments st)"
    using assms(1) by (simp_all add: sliding_inv_def)
  note m = sliding_mono [OF p assms(2)]
  let ?f = "seg_count (st_segments st)"
  have "sliding_sum p t st \<le> (\<Sum>i\<in>{sliding_oldest p t0 + 1..sliding_seg p t}. ?f i)"
    unfolding sliding_sum_def using m by (intro sum_mono2) auto
  also have "\<dots> = sliding_sum p t0 st"
    unfolding sliding_sum_def using m segs_no_future [OF wf] by (intro sum.mono_neutral_right) auto
  finally show ?thesis using assms(1) by (simp add: sliding_inv_def)
qed

lemma admitSliding_law:
  assumes inv: "sliding_inv (r_Policy r) t0 st" and t: "t0 \<le> r_Now r" "sliding_ok (r_Policy r) (r_Now r)"
    and adm: "admitSliding st r = (st', d, err)"
  defines "i \<equiv> sliding_seg (r_Policy r) (r_Now r)" and "oldest \<equiv> sliding_oldest (r_Policy r) (r_Now r)"
  shows "err = None \<longleftrightarrow> sliding_sum (r_Policy r) (r_Now r) st + unat (r_Cost r) \<le> unat (Limit (r_Policy r))"
    "segs_wf (unat (Limit (r_Policy r))) i (st_segments st')"
    "oldest < j \<Longrightarrow> j \<le> i \<Longrightarrow> seg_count (st_segments st') j =
       seg_count (st_segments st) j + (if err = None \<and> j = i then unat (r_Cost r) else 0)"
    "d_Allowed d \<longleftrightarrow> err = None"
proof -
  let ?p = "r_Policy r" and ?gs = "st_segments st"
  let ?lim = "unat (Limit ?p)"
  have p: "sliding_policy ?p" and wf0: "segs_wf ?lim (sliding_seg ?p t0) ?gs" and pw: "policy_wf ?p"
    using inv by (simp_all add: sliding_inv_def sliding_policy_def)
  have newer: "sliding_seg ?p t0 \<le> i" using sliding_mono(1) [OF p t(1)] by (simp add: i_def)
  have span: "i - 16 \<le> oldest" "oldest < i" using sliding_span [OF p] by (simp_all add: i_def oldest_def)
  note lim = policy_wf_Limit_bound [OF pw]
  obtain used reset st1 where used: "used = fst (snd (scanSegments oldest ?gs 0 MaxInt64))"
    and con: "consumeWindow (st\<lparr>st_segments := open_seg i (clear_old oldest ?gs), st_used := used\<rparr>) r reset = (st1, d, err)"
    and st': "st' = (if err = None then st1\<lparr>st_segments := add_seg i (r_Cost r) (st_segments st1)\<rparr> else st1)"
    using admitSliding_unfold [OF p t(2) adm, folded i_def oldest_def] by blast
  have "unat used = sliding_sum ?p (r_Now r) st"
    using scanSegments_used [of 0 oldest ?gs MaxInt64] live_sum_bound [OF wf0, of oldest] lim live_sum [OF wf0 newer, of oldest]
    by (simp add: used sliding_sum_def i_def oldest_def)
  moreover note sliding_sum_later [OF inv t(1)]
  ultimately have u: "unat used = sliding_sum ?p (r_Now r) st" "unat used \<le> ?lim" by simp_all
  note law = consumeWindow_law [OF pw _ con, simplified, OF u(2)]
  define gs where "gs = open_seg i (clear_old oldest ?gs)"
  have len: "length ?gs = 16" "length (clear_old oldest ?gs) = 16" "length gs = 16"
    using wf0 by (simp_all add: segs_wf_def clear_old_def gs_def open_seg_def)
  have gs: "segs_wf ?lim i gs" "g_index (gs ! seg_slot i) = i"
    using open_seg_wf [OF clear_old_wf [OF wf0] newer] by (simp_all add: gs_def)
  have same: "oldest < j \<Longrightarrow> j \<le> i \<Longrightarrow> seg_count gs j = seg_count ?gs j" for j
    using span len by (simp add: gs_def open_seg_count clear_old_count)
  have room: "err = None \<Longrightarrow> seg_count gs i + unat (r_Cost r) \<le> ?lim"
  proof -
    assume "err = None"
    moreover have "seg_count ?gs i \<le> sliding_sum ?p (r_Now r) st"
      unfolding sliding_sum_def using span by (intro member_le_sum) (auto simp: i_def oldest_def)
    ultimately show ?thesis using law(1) u same [of i] span by simp
  qed
  have segs: "st_segments st' = (if err = None then add_seg i (r_Cost r) gs else gs)"
    using st' law(2) by (auto simp: gs_def)
  show "err = None \<longleftrightarrow> sliding_sum ?p (r_Now r) st + unat (r_Cost r) \<le> ?lim" using law(1) u by simp
  show "segs_wf ?lim i (st_segments st')" using gs room lim by (auto simp: segs add_seg_wf)
  show "oldest < j \<Longrightarrow> j \<le> i \<Longrightarrow> seg_count (st_segments st') j =
      seg_count ?gs j + (if err = None \<and> j = i then unat (r_Cost r) else 0)"
    using same [of j] room lim span add_seg_count [OF len(3) gs(2), of "r_Cost r" j] by (auto simp: segs)
  show "d_Allowed d \<longleftrightarrow> err = None" by (rule law(4))
qed

lemma admitSliding_inv:
  assumes inv: "sliding_inv (r_Policy r) t0 st" and t: "t0 \<le> r_Now r" "sliding_ok (r_Policy r) (r_Now r)"
    and adm: "admitSliding st r = (st', d, err)"
  shows "sliding_inv (r_Policy r) (r_Now r) st'"
proof -
  let ?p = "r_Policy r" and ?i = "sliding_seg (r_Policy r) (r_Now r)" and ?o = "sliding_oldest (r_Policy r) (r_Now r)"
  note law = admitSliding_law [OF inv t adm]
  have p: "sliding_policy ?p" using inv by (simp add: sliding_inv_def)
  have "sliding_sum ?p (r_Now r) st' =
      (\<Sum>j\<in>{?o + 1..?i}. seg_count (st_segments st) j + (if err = None \<and> j = ?i then unat (r_Cost r) else 0))"
    unfolding sliding_sum_def using law(3) by (intro sum.cong) auto
  also have "\<dots> = sliding_sum ?p (r_Now r) st + (if err = None then unat (r_Cost r) else 0)"
    using sliding_span(2) [OF p, of "r_Now r"] by (cases err) (simp_all add: sum.distrib sliding_sum_def)
  finally have "sliding_sum ?p (r_Now r) st' \<le> unat (Limit ?p)"
    using law(1) sliding_sum_later [OF inv t(1)] by (cases err) simp_all
  then show ?thesis using p law(2) by (simp add: sliding_inv_def)
qed

definition sliding_step :: "policy \<Rightarrow> int \<Rightarrow> nat \<Rightarrow> mstate \<Rightarrow> bool \<times> mstate" where
  "sliding_step p t c st = (case admitSliding st (window_request p t c) of (st', d, err) \<Rightarrow> (err = None, st'))"

definition sliding_count :: "policy \<Rightarrow> mstate \<Rightarrow> int \<Rightarrow> nat" where
  "sliding_count p st i = seg_count (st_segments st) i"

interpretation mem_sliding:
  sliding_counter sliding_step sliding_inv sliding_ok sliding_seg sliding_oldest sliding_count limit_of
proof
  show "sliding_inv p t s \<Longrightarrow> t1 \<le> t2 \<Longrightarrow> sliding_seg p t1 \<le> sliding_seg p t2" for p t s t1 t2
    by (simp add: sliding_inv_def sliding_mono)
  show "sliding_inv p t s \<Longrightarrow> t1 \<le> t2 \<Longrightarrow> sliding_oldest p t1 \<le> sliding_oldest p t2" for p t s t1 t2
    by (simp add: sliding_inv_def sliding_mono)
  show "sliding_inv p t s \<Longrightarrow> sliding_oldest p t1 < sliding_seg p t1" for p t s t1
    by (simp add: sliding_inv_def sliding_span)
  show "sliding_inv p t s \<Longrightarrow> sliding_seg p t < i \<Longrightarrow> sliding_count p s i = 0" for p t s i
    by (auto simp: sliding_inv_def sliding_count_def intro: segs_no_future)
  fix p t0 s t c b s'
  assume i: "sliding_inv p t0 s" and t: "t0 \<le> t" "sliding_ok p t" and c: "0 < c" "c \<le> limit_of p"
    and st: "sliding_step p t c s = (b, s')"
  let ?r = "window_request p t c"
  obtain d err where a: "admitSliding s ?r = (s', d, err)" and b: "b = (err = None)"
    using st by (auto simp: sliding_step_def split: prod.splits)
  have "policy_wf p" using i by (simp add: sliding_inv_def sliding_policy_def)
  then have "unat (of_nat c :: uint64) = c" using c policy_wf_Limit_bound [of p] by (intro u64_of_nat) simp
  then have r: "r_Policy ?r = p" "unat (r_Cost ?r) = c" "r_Now ?r = t" by (simp_all add: window_request_def)
  have pre: "sliding_inv (r_Policy ?r) t0 s" "t0 \<le> r_Now ?r" "sliding_ok (r_Policy ?r) (r_Now ?r)" using i t r by simp_all
  show "sliding_inv p t s' \<and>
    (b \<longleftrightarrow> (\<Sum>i\<in>{sliding_oldest p t + 1..sliding_seg p t}. sliding_count p s i) + c \<le> limit_of p) \<and>
    (\<forall>i. sliding_oldest p t < i \<and> i \<le> sliding_seg p t \<longrightarrow>
       sliding_count p s' i = sliding_count p s i + (if b \<and> i = sliding_seg p t then c else 0))"
    using admitSliding_law [OF pre a, unfolded r] admitSliding_inv [OF pre a, unfolded r] b
    by (simp add: sliding_count_def sliding_sum_def)
qed

text \<open>A stretch one segment shorter than the period is narrow.\<close>

lemma sliding_narrow:
  assumes "sliding_policy p"
  shows "mem_sliding.narrow p a (a + p_period p - seg_width p)"
proof -
  have "sliding_oldest p t < sliding_seg p u" if "a \<le> u" "t \<le> a + p_period p - seg_width p" for u t
  proof -
    have "(t - p_period p) div seg_width p \<le> (u - 1 * seg_width p) div seg_width p"
      using that sliding_width(2) [OF assms] by (intro zdiv_mono1) linarith+
    also have "\<dots> = sliding_seg p u - 1"
      using sliding_width(2) [OF assms] div_mult_self1 [of "seg_width p" u "- 1"] by (simp add: sliding_seg_def)
    finally show ?thesis by (simp add: sliding_oldest_def)
  qed
  then show ?thesis by (simp add: mem_sliding.narrow_def)
qed

lemma new_state_sliding:
  assumes "sliding_policy (r_Policy r)"
  shows "mem_sliding.faithful (r_Policy r) (r_Now r) (new_state r) []" "mem_sliding.bounded (r_Policy r) []"
proof -
  have c: "seg_count (replicate 16 zero_segment) i = 0" for i
    by (simp add: seg_count_def zero_segment_def)
  have "segs_wf (limit_of (r_Policy r)) (sliding_seg (r_Policy r) (r_Now r)) (replicate 16 zero_segment)"
    by (simp add: segs_wf_def zero_segment_def)
  then show "mem_sliding.faithful (r_Policy r) (r_Now r) (new_state r) []"
    using assms c by (simp add: mem_sliding.faithful_def sliding_inv_def sliding_sum_def sliding_count_def new_state_def
        slidingSegments_def)
  show "mem_sliding.bounded (r_Policy r) []" by (simp add: mem_sliding.bounded_def)
qed

end
