(* ===== verification/Memory_Store.thy ===== *)
theory Memory_Store
  imports Memory_Token Memory_Window "HOL-Library.Product_Lexorder" "HOL-Library.List_Lexorder" "HOL-Library.Char_ord"
begin

unbundle bit_operations_syntax

text \<open>
  \<^verbatim>\<open>memory/store.go\<close>: shards of bounded cardinality with eviction, admission
  and leases under a shard lock, sweeping, and the store over its shards. A
  locked section is one step of the model. An operation takes what \<open>ctx.Err()\<close>
  returned where the code reads it.
\<close>

section \<open>Shards\<close>

record shard =
  sh_maxKeys :: nat
  sh_rejectOnCapacity :: bool
  sh_states :: "(string \<times> mstate) list"

definition hasActiveLease :: "(string \<times> leaseState) list \<Rightarrow> time \<Rightarrow> bool" where
  "hasActiveLease leases now \<longleftrightarrow> list_ex (\<lambda>(i, l). ls_expiresAt l > now) leases"

text \<open>
  \<open>sort.Slice\<close> with a strict total order on distinct keys: least recently seen
  first, ties by key.
\<close>

definition evictOldest :: "shard \<Rightarrow> time \<Rightarrow> bool \<times> shard" where
  "evictOldest target now =
     (let candidates = filter (\<lambda>(k, st). \<not> hasActiveLease (st_leases st) now) (sh_states target);
          keys = sort (map (\<lambda>(k, st). (st_lastSeen st, k)) candidates)
      in case keys of
           [] \<Rightarrow> (False, target)
         | (seen, k) # rest \<Rightarrow> (True, target\<lparr>sh_states := AList.delete k (sh_states target)\<rparr>))"

definition carryRevision :: "mstate \<Rightarrow> request \<Rightarrow> mstate" where
  "carryRevision current r =
     (let current = (case st_algorithm current of
            TokenBucket \<Rightarrow> current\<lparr>st_tokens := min (st_tokens current) (Limit (r_Policy r))\<rparr>
          | _ \<Rightarrow> current);
          current = current\<lparr>st_revision := p_revision (r_Policy r)\<rparr>;
          current = (if r_Now r > st_lastRefill current then current\<lparr>st_lastRefill := r_Now r\<rparr> else current)
      in current\<lparr>st_remainder := 0\<rparr>)"

definition getOrCreate :: "shard \<Rightarrow> string \<Rightarrow> request \<Rightarrow> (go_error + mstate) \<times> shard" where
  "getOrCreate target key r =
     (case map_of (sh_states target) key of
        Some current \<Rightarrow>
          let current = (if st_revision current \<noteq> p_revision (r_Policy r) then carryRevision current r else current)
          in (Inr current, target\<lparr>sh_states := AList.update key current (sh_states target)\<rparr>)
      | None \<Rightarrow>
          let full = length (sh_states target) = sh_maxKeys target;
              (evicted, target') = (if full \<and> \<not> sh_rejectOnCapacity target then evictOldest target (r_Now r)
                                    else (False, target))
          in if full \<and> \<not> evicted then (Inl ErrUnavailable, target')
             else (Inr (new_state r),
                   target'\<lparr>sh_states := AList.update key (new_state r) (sh_states target')\<rparr>))"

text \<open>The rest of \<open>admitLocked\<close> once the state is at hand.\<close>

definition admitState :: "mstate \<Rightarrow> request \<Rightarrow> mstate \<times> decision \<times> go_error option" where
  "admitState current r =
     (let r = (if r_Now r < st_lastSeen current then r\<lparr>r_Now := st_lastSeen current\<rparr> else r);
          current = current\<lparr>st_lastSeen := r_Now r\<rparr>
      in case p_algorithm (r_Policy r) of
           TokenBucket \<Rightarrow> admitToken current r
         | FixedWindow \<Rightarrow> admitFixed current r
         | _ \<Rightarrow> admitSliding current r)"

definition admitLocked :: "shard \<Rightarrow> string \<Rightarrow> request \<Rightarrow> decision \<times> go_error option \<times> shard" where
  "admitLocked target key r =
     (if (case map_of (sh_states target) key of
            Some existing \<Rightarrow> st_algorithm existing \<noteq> p_algorithm (r_Policy r) | None \<Rightarrow> False)
      then (zero_Decision, Some ErrCorrupt, target)
      else case getOrCreate target key r of
        (Inl err, target') \<Rightarrow> (zero_Decision, Some err, target')
      | (Inr current, target') \<Rightarrow>
          let (current', d, err) = admitState current r
          in (d, err, target'\<lparr>sh_states := AList.update key current' (sh_states target')\<rparr>))"

section \<open>Leases\<close>

definition makeLease :: "leaseRequest \<Rightarrow> time \<Rightarrow> lease" where
  "makeLease lr expiresAt =
     \<lparr>l_ID = lr_LeaseID lr, l_Key = r_Key (lr_Request lr), l_PolicyID = p_id (r_Policy (lr_Request lr)),
      l_PolicyRevision = p_revision (r_Policy (lr_Request lr)), l_Cost = r_Cost (lr_Request lr),
      l_ExpiresAt = expiresAt, l_Backend = ''memory''\<rparr>"

definition earliestLease :: "(string \<times> leaseState) list \<Rightarrow> time" where
  "earliestLease leases =
     foldl (\<lambda>earliest (i, l). if IsZero earliest \<or> ls_expiresAt l < earliest then ls_expiresAt l else earliest)
       zero_time leases"

definition activeLeases :: "(string \<times> leaseState) list \<Rightarrow> time \<Rightarrow> (string \<times> leaseState) list" where
  "activeLeases leases now = filter (\<lambda>(i, l). ls_expiresAt l > now) leases"

definition leasesUsed :: "(string \<times> leaseState) list \<Rightarrow> uint64" where
  "leasesUsed leases = foldl (\<lambda>used (i, l). used + ls_cost l) 0 leases"

definition acquireState :: "mstate \<Rightarrow> leaseRequest \<Rightarrow> mstate \<times> lease \<times> decision \<times> go_error option" where
  "acquireState current lr =
     (let r = lr_Request lr;
          now = (if r_Now r < st_lastSeen current then st_lastSeen current else r_Now r);
          leases = activeLeases (st_leases current) now;
          used = leasesUsed leases;
          current = current\<lparr>st_lastSeen := now, st_leases := leases\<rparr>;
          limit = Limit (r_Policy r);
          remaining = limit - min used limit
      in case map_of leases (lr_LeaseID lr) of
           Some existing \<Rightarrow>
             if ls_cost existing \<noteq> r_Cost r then (current, zero_Lease, zero_Decision, Some ErrLeaseNotOwned)
             else (current, makeLease lr (ls_expiresAt existing),
                   zero_Decision\<lparr>d_Allowed := True, d_Limit := limit, d_Remaining := remaining,
                     d_Reset := ls_expiresAt existing, d_Reason := ReasonAllowed\<rparr>, None)
         | None \<Rightarrow>
             if r_Cost r > remaining
             then let reset = earliestLease leases in
               (current, zero_Lease,
                zero_Decision\<lparr>d_Allowed := False, d_Limit := limit, d_Remaining := remaining, d_Reset := reset,
                  d_RetryAfter := nonnegative (time_Sub reset now), d_Reason := ReasonLimited\<rparr>, Some ErrRejected)
             else let expiresAt = time_Add now (p_lease (r_Policy r)) in
               (current\<lparr>st_leases := AList.update (lr_LeaseID lr)
                   \<lparr>ls_cost = r_Cost r, ls_expiresAt = expiresAt\<rparr> leases\<rparr>,
                makeLease lr expiresAt,
                zero_Decision\<lparr>d_Allowed := True, d_Limit := limit, d_Remaining := remaining - r_Cost r,
                  d_Reset := expiresAt, d_Reason := ReasonAllowed\<rparr>, None))"

definition acquireLocked :: "shard \<Rightarrow> string \<Rightarrow> leaseRequest \<Rightarrow> lease \<times> decision \<times> go_error option \<times> shard" where
  "acquireLocked target key lr =
     (if (case map_of (sh_states target) key of
            Some existing \<Rightarrow> st_algorithm existing \<noteq> p_algorithm (r_Policy (lr_Request lr)) | None \<Rightarrow> False)
      then (zero_Lease, zero_Decision, Some ErrCorrupt, target)
      else case getOrCreate target key (lr_Request lr) of
        (Inl err, target') \<Rightarrow> (zero_Lease, zero_Decision, Some err, target')
      | (Inr current, target') \<Rightarrow>
          let (current', l, d, err) = acquireState current lr
          in (l, d, err, target'\<lparr>sh_states := AList.update key current' (sh_states target')\<rparr>))"

definition releaseLocked :: "shard \<Rightarrow> lease \<Rightarrow> go_error option \<times> shard" where
  "releaseLocked target l =
     (let key = state_key (l_PolicyID l) (l_Key l) in
      case map_of (sh_states target) key of
        None \<Rightarrow> (Some ErrLeaseNotFound, target)
      | Some current \<Rightarrow>
        (case map_of (st_leases current) (l_ID l) of
           None \<Rightarrow> (Some ErrLeaseNotFound, target)
         | Some existing \<Rightarrow>
           if ls_cost existing \<noteq> l_Cost l \<or> ls_expiresAt existing \<noteq> l_ExpiresAt l
           then (Some ErrLeaseNotOwned, target)
           else (None, target\<lparr>sh_states := AList.update key
                   (current\<lparr>st_leases := AList.delete (l_ID l) (st_leases current)\<rparr>) (sh_states target)\<rparr>)))"

section \<open>The store\<close>

record store =
  so_shards :: "shard list"
  so_closed :: bool

record options =
  op_MaxKeys :: int
  op_Shards :: int
  op_RejectOnCapacity :: bool

definition MaxConfiguredKeys :: int where "MaxConfiguredKeys = 1000000"
definition MaxConfiguredShards :: int where "MaxConfiguredShards = 1024"

definition bounds_required :: go_error where
  "bounds_required = Wrapped ''positive cardinality and shard bounds are required'' ErrInvalidPolicy"

definition New :: "options \<Rightarrow> go_error + store" where
  "New options =
     (if op_MaxKeys options < 1 then Inl bounds_required
      else if op_MaxKeys options > MaxConfiguredKeys then Inl bounds_required
      else if op_Shards options \<le> 0 then Inl bounds_required
      else if op_Shards options > MaxConfiguredShards then Inl bounds_required
      else if op_Shards options > op_MaxKeys options then Inl bounds_required
      else let base = op_MaxKeys options sdiv op_Shards options;
               extra = op_MaxKeys options smod op_Shards options
      in Inr \<lparr>so_shards = map (\<lambda>index.
                 \<lparr>sh_maxKeys = nat (if int index < extra then base + 1 else base),
                  sh_rejectOnCapacity = op_RejectOnCapacity options, sh_states = []\<rparr>) [0..<nat (op_Shards options)],
               so_closed = False\<rparr>)"

text \<open>\<open>hash/fnv\<close>, FNV-1a on 64 bits.\<close>

definition fnv64a :: "string \<Rightarrow> uint64" where
  "fnv64a key = foldl (\<lambda>h c. (h XOR of_char c) * 1099511628211) 14695981039346656037 key"

definition shardFor :: "store \<Rightarrow> string \<Rightarrow> nat" where
  "shardFor store key = unat (fnv64a key mod of_nat (length (so_shards store)))"

definition stateKey :: "request \<Rightarrow> string" where
  "stateKey r = p_id (r_Policy r) @ NUL # key_String (r_Key r)"

definition with_shard :: "store \<Rightarrow> nat \<Rightarrow> shard \<Rightarrow> store" where
  "with_shard store i sh = store\<lparr>so_shards := (so_shards store)[i := sh]\<rparr>"

definition normalize_now :: "request \<Rightarrow> request" where
  "normalize_now r = r\<lparr>r_Now := time_UnixMicro (UnixMicro (r_Now r))\<rparr>"

definition Store_Admit :: "store \<Rightarrow> go_error option \<Rightarrow> request \<Rightarrow> decision \<times> go_error option \<times> store" where
  "Store_Admit store ctxErr r =
     (if so_closed store then (zero_Decision, Some ErrUnavailable, store)
      else if ctxErr \<noteq> None then (zero_Decision, ctxErr, store)
      else case Request_Validate r of
        Some err \<Rightarrow> (zero_Decision, Some err, store)
      | None \<Rightarrow>
        if p_algorithm (r_Policy r) = Concurrency then (zero_Decision, Some ErrUnsupported, store)
        else let r = normalize_now r; key = stateKey r; i = shardFor store key;
                 (d, err, sh) = admitLocked (so_shards store ! i) key r
             in (d, err, with_shard store i sh))"

definition Store_Acquire ::
  "store \<Rightarrow> go_error option \<Rightarrow> leaseRequest \<Rightarrow> lease \<times> decision \<times> go_error option \<times> store" where
  "Store_Acquire store ctxErr lr =
     (if so_closed store then (zero_Lease, zero_Decision, Some ErrUnavailable, store)
      else if ctxErr \<noteq> None then (zero_Lease, zero_Decision, ctxErr, store)
      else case LeaseRequest_Validate lr of
        Some err \<Rightarrow> (zero_Lease, zero_Decision, Some err, store)
      | None \<Rightarrow>
        let lr = lr\<lparr>lr_Request := normalize_now (lr_Request lr)\<rparr>; key = stateKey (lr_Request lr); i = shardFor store key;
            (l, d, err, sh) = acquireLocked (so_shards store ! i) key lr
        in (l, d, err, with_shard store i sh))"

definition Store_Release :: "store \<Rightarrow> go_error option \<Rightarrow> lease \<Rightarrow> go_error option \<times> store" where
  "Store_Release store ctxErr l =
     (if so_closed store then (Some ErrUnavailable, store)
      else if ctxErr \<noteq> None then (ctxErr, store)
      else let i = shardFor store (state_key (l_PolicyID l) (l_Key l));
               (err, sh) = releaseLocked (so_shards store ! i) l
           in (err, with_shard store i sh))"

definition Store_Len :: "store \<Rightarrow> nat" where
  "Store_Len store = sum_list (map (\<lambda>sh. length (sh_states sh)) (so_shards store))"

definition sweepState :: "time \<Rightarrow> duration \<Rightarrow> string \<times> mstate \<Rightarrow> (string \<times> mstate) option" where
  "sweepState now idleFor ks =
     (case ks of (k, current) \<Rightarrow>
        let leases = activeLeases (st_leases current) now;
            active = hasActiveLease (st_leases current) now
        in if \<not> active \<and> \<not> time_Add (st_lastSeen current) idleFor > now then None
           else Some (k, current\<lparr>st_leases := leases\<rparr>))"

definition sweepShard :: "time \<Rightarrow> duration \<Rightarrow> shard \<Rightarrow> shard" where
  "sweepShard now idleFor sh = sh\<lparr>sh_states := List.map_filter (sweepState now idleFor) (sh_states sh)\<rparr>"

definition Sweep :: "store \<Rightarrow> time \<Rightarrow> duration \<Rightarrow> (go_error + nat) \<times> store" where
  "Sweep store now idleFor =
     (if so_closed store then (Inl ErrUnavailable, store)
      else if IsZero now then (Inl ErrInvalidRequest, store)
      else if idleFor \<le> 0 then (Inl ErrInvalidRequest, store)
      else let swept = map (sweepShard now idleFor) (so_shards store);
               removed = sum_list (map2 (\<lambda>a b. length (sh_states a) - length (sh_states b)) (so_shards store) swept)
           in (Inr removed, store\<lparr>so_shards := swept\<rparr>))"

definition Close :: "store \<Rightarrow> store" where
  "Close store = store\<lparr>so_closed := True\<rparr>"

section \<open>Cardinality\<close>

definition shard_inv :: "shard \<Rightarrow> bool" where
  "shard_inv sh \<longleftrightarrow> distinct (keys (sh_states sh)) \<and> length (sh_states sh) \<le> sh_maxKeys sh"

lemma evictOldest_cases:
  assumes "evictOldest sh now = (b, sh')"
  obtains (none) "\<not> b" "sh' = sh" "\<forall>(k, st) \<in> set (sh_states sh). hasActiveLease (st_leases st) now"
  | (evicted) k st where "b" "(k, st) \<in> set (sh_states sh)" "\<not> hasActiveLease (st_leases st) now"
      "sh' = sh\<lparr>sh_states := AList.delete k (sh_states sh)\<rparr>"
      "\<forall>(k', st') \<in> set (sh_states sh). \<not> hasActiveLease (st_leases st') now \<longrightarrow>
         st_lastSeen st < st_lastSeen st' \<or> st_lastSeen st = st_lastSeen st' \<and> k \<le> k'"
proof -
  let ?cand = "filter (\<lambda>(k, st). \<not> hasActiveLease (st_leases st) now) (sh_states sh)"
  let ?keys = "map (\<lambda>(k, st). (st_lastSeen st, k)) ?cand"
  show thesis
  proof (cases "sort ?keys")
    case Nil
    then have "length ?cand = 0" using length_sort [of "\<lambda>x. x" ?keys] by simp
    then have "?cand = []" by simp
    then have "\<forall>(k, st) \<in> set (sh_states sh). hasActiveLease (st_leases st) now"
      by (simp only: filter_empty_conv) auto
    then show thesis using assms Nil by (intro none) (simp_all add: evictOldest_def)
  next
    case (Cons x rest)
    obtain seen k where x: "x = (seen, k)" by (cases x)
    have keys: "set ?keys = set (x # rest)" using set_sort [of "\<lambda>x. x" ?keys] unfolding Cons by simp
    have "sorted (x # rest)" using sorted_sort [of ?keys] unfolding Cons .
    then have least: "y \<in> set ?keys \<Longrightarrow> (seen, k) \<le> y" for y
      unfolding keys using x by auto
    have "(seen, k) \<in> set ?keys" unfolding keys using x by simp
    then obtain st where st: "(k, st) \<in> set (sh_states sh)" "\<not> hasActiveLease (st_leases st) now" "seen = st_lastSeen st"
      by (simp only: set_map set_filter) auto
    have first: "\<forall>(k', st') \<in> set (sh_states sh). \<not> hasActiveLease (st_leases st') now \<longrightarrow>
         st_lastSeen st < st_lastSeen st' \<or> st_lastSeen st = st_lastSeen st' \<and> k \<le> k'"
    proof clarify
      fix k' st'
      assume m: "(k', st') \<in> set (sh_states sh)" "\<not> hasActiveLease (st_leases st') now"
        and n: "\<not> (st_lastSeen st = st_lastSeen st' \<and> k \<le> k')"
      have "(st_lastSeen st', k') \<in> set ?keys" unfolding set_map set_filter using m by (intro image_eqI [of _ _ "(k', st')"]) auto
      then show "st_lastSeen st < st_lastSeen st'" using least [of "(st_lastSeen st', k')"] n st(3) by auto
    qed
    have "b" "sh' = sh\<lparr>sh_states := AList.delete k (sh_states sh)\<rparr>"
      using assms Cons x by (simp_all add: evictOldest_def)
    then show thesis using evicted [of k st] st first by blast
  qed
qed

lemma update_inv:
  assumes "distinct (keys m)" "k \<in> set (keys m)"
  shows "distinct (keys (AList.update k v m)) \<and> length (AList.update k v m) = length m"
  using assms by (simp add: distinct_update length_update_present)

lemma evict_length:
  assumes "shard_inv sh" "evictOldest sh now = (b, sh')"
  shows "distinct (keys (sh_states sh')) \<and> sh_maxKeys sh' = sh_maxKeys sh \<and>
    length (sh_states sh') + (if b then 1 else 0) = length (sh_states sh) \<and>
    set (keys (sh_states sh')) \<subseteq> set (keys (sh_states sh))"
  using assms(2)
proof (cases rule: evictOldest_cases)
  case (evicted k st)
  have d: "distinct (keys (sh_states sh))" using assms(1) by (simp add: shard_inv_def)
  have "k \<in> set (keys (sh_states sh))" using evicted(2) by (force)
  then have "Suc (length (AList.delete k (sh_states sh))) = length (sh_states sh)"
    using d by (simp add: length_delete_present)
  moreover have "set (keys (AList.delete k (sh_states sh))) \<subseteq> set (keys (sh_states sh))"
    unfolding keys_delete by blast
  ultimately show ?thesis using evicted d by (simp add: distinct_delete)
qed (use assms in \<open>simp add: shard_inv_def\<close>)

lemma getOrCreate_inv:
  assumes inv: "shard_inv sh" and g: "getOrCreate sh key r = (res, sh')"
  shows "shard_inv sh' \<and> sh_maxKeys sh' = sh_maxKeys sh \<and>
    (\<forall>st. res = Inr st \<longrightarrow> map_of (sh_states sh') key = Some st)"
proof (cases "map_of (sh_states sh) key")
  case (Some cur)
  then have "key \<in> set (keys (sh_states sh))" by (rule map_of_Some_key)
  then have "distinct (keys (AList.update key v (sh_states sh))) \<and> length (AList.update key v (sh_states sh)) = length (sh_states sh)" for v
    using inv by (intro update_inv) (simp_all add: shard_inv_def)
  then show ?thesis
    using inv g Some by (auto simp: getOrCreate_def shard_inv_def Let_def)
next
  case None
  then have key: "key \<notin> set (keys (sh_states sh))" by (simp add: map_of_None_key)
  define full where "full = (length (sh_states sh) = sh_maxKeys sh)"
  obtain ev sh1 where e: "(if full \<and> \<not> sh_rejectOnCapacity sh then evictOldest sh (r_Now r) else (False, sh)) = (ev, sh1)"
    by (metis surj_pair)
  have sh1: "distinct (keys (sh_states sh1))" "sh_maxKeys sh1 = sh_maxKeys sh"
      "length (sh_states sh1) + (if ev then 1 else 0) = length (sh_states sh)"
      "set (keys (sh_states sh1)) \<subseteq> set (keys (sh_states sh))"
    using e evict_length [OF inv, of "r_Now r" ev sh1] inv by (auto simp: shard_inv_def split: if_splits)
  have res: "res = (if full \<and> \<not> ev then Inl ErrUnavailable else Inr (new_state r))"
    "sh' = (if full \<and> \<not> ev then sh1 else sh1\<lparr>sh_states := AList.update key (new_state r) (sh_states sh1)\<rparr>)"
    using g None e by (auto simp: getOrCreate_def Let_def full_def split: if_splits)
  have new: "length (AList.update key (new_state r) (sh_states sh1)) = Suc (length (sh_states sh1))"
    using key sh1(4) by (intro length_update_absent) blast
  show ?thesis
  proof (cases "full \<and> \<not> ev")
    case True
    then show ?thesis using res sh1 inv by (simp add: shard_inv_def)
  next
    case False
    then have "Suc (length (sh_states sh1)) \<le> sh_maxKeys sh"
      using sh1(3) inv by (cases ev) (auto simp: full_def shard_inv_def)
    then show ?thesis using False res sh1 new by (simp add: shard_inv_def distinct_update del: map_of_eq_Some_iff)
  qed
qed

lemma put_state_inv:
  assumes "shard_inv sh" "map_of (sh_states sh) key = Some st"
  shows "shard_inv (sh\<lparr>sh_states := AList.update key st' (sh_states sh)\<rparr>)"
  using assms map_of_Some_key [OF assms(2)] by (simp add: shard_inv_def update_inv)

lemma admitLocked_inv:
  assumes "shard_inv sh" "admitLocked sh key r = (d, err, sh')"
  shows "shard_inv sh' \<and> sh_maxKeys sh' = sh_maxKeys sh"
proof -
  obtain res sh1 where g: "getOrCreate sh key r = (res, sh1)" by (cases "getOrCreate sh key r")
  note i = getOrCreate_inv [OF assms(1) g]
  show ?thesis
    using assms i g put_state_inv [of sh1 key]
    by (cases res) (auto simp: admitLocked_def Let_def split: if_splits option.splits prod.splits)
qed

lemma acquireLocked_inv:
  assumes "shard_inv sh" "acquireLocked sh key lr = (l, d, err, sh')"
  shows "shard_inv sh' \<and> sh_maxKeys sh' = sh_maxKeys sh"
proof -
  obtain res sh1 where g: "getOrCreate sh key (lr_Request lr) = (res, sh1)" by (cases "getOrCreate sh key (lr_Request lr)")
  note i = getOrCreate_inv [OF assms(1) g]
  show ?thesis
    using assms i g put_state_inv [of sh1 key]
    by (cases res) (auto simp: acquireLocked_def Let_def split: if_splits option.splits prod.splits)
qed

lemma releaseLocked_inv:
  assumes "shard_inv sh" "releaseLocked sh l = (err, sh')"
  shows "shard_inv sh' \<and> sh_maxKeys sh' = sh_maxKeys sh"
  using assms put_state_inv [OF assms(1)]
  by (auto simp: releaseLocked_def Let_def split: if_splits option.splits)

lemma map_filter_keys:
  "(\<And>k v k' v'. f (k, v) = Some (k', v') \<Longrightarrow> k' = k) \<Longrightarrow> distinct (keys m) \<Longrightarrow>
   distinct (keys (List.map_filter f m)) \<and> length (List.map_filter f m) \<le> length m \<and>
   set (keys (List.map_filter f m)) \<subseteq> set (keys m)"
proof (induction m)
  case (Cons x m)
  obtain k v where x: "x = (k, v)" by (cases x)
  show ?case
  proof (cases "f x")
    case None
    then show ?thesis using Cons by (auto simp: List.map_filter_simps)
  next
    case (Some y)
    then have "fst y = k" using Cons.prems(1) [of k v "fst y" "snd y"] x by simp
    then show ?thesis using Cons Some x by (auto simp: List.map_filter_simps)
  qed
qed (simp add: List.map_filter_simps)

lemma sweepShard_inv: "shard_inv sh \<Longrightarrow> shard_inv (sweepShard now idleFor sh) \<and> sh_maxKeys (sweepShard now idleFor sh) = sh_maxKeys sh"
proof -
  assume i: "shard_inv sh"
  have "sweepState now idleFor (k, v) = Some (k', v') \<Longrightarrow> k' = k" for k v k' v'
    by (simp add: sweepState_def Let_def split: if_splits)
  then show ?thesis
    using map_filter_keys [of "sweepState now idleFor" "sh_states sh"] i
    by (auto simp: shard_inv_def sweepShard_def)
qed

definition store_inv :: "store \<Rightarrow> bool" where
  "store_inv store \<longleftrightarrow> so_shards store \<noteq> [] \<and> list_all shard_inv (so_shards store)"

definition store_capacity :: "store \<Rightarrow> nat" where
  "store_capacity store = sum_list (map sh_maxKeys (so_shards store))"

lemma store_len_capacity: "store_inv store \<Longrightarrow> Store_Len store \<le> store_capacity store"
proof -
  have "list_all shard_inv shs \<Longrightarrow> sum_list (map (\<lambda>sh. length (sh_states sh)) shs) \<le> sum_list (map sh_maxKeys shs)" for shs
    by (induction shs) (auto simp: shard_inv_def)
  then show "store_inv store \<Longrightarrow> ?thesis" by (simp add: store_inv_def Store_Len_def store_capacity_def)
qed

lemma shardFor_less: "store_inv store \<Longrightarrow> length (so_shards store) \<le> 1024 \<Longrightarrow> shardFor store key < length (so_shards store)"
proof -
  assume s: "store_inv store" "length (so_shards store) \<le> 1024"
  then have "0 < length (so_shards store)" by (simp add: store_inv_def)
  moreover have "unat (of_nat (length (so_shards store)) :: uint64) = length (so_shards store)"
    using s by (intro u64_of_nat) simp
  ultimately show ?thesis by (simp add: shardFor_def unat_mod)
qed

lemma with_shard_inv:
  assumes "store_inv store" "i < length (so_shards store)" "shard_inv sh" "sh_maxKeys sh = sh_maxKeys (so_shards store ! i)"
  shows "store_inv (with_shard store i sh)" "store_capacity (with_shard store i sh) = store_capacity store"
    "length (so_shards (with_shard store i sh)) = length (so_shards store)"
proof -
  show "store_inv (with_shard store i sh)"
    using assms by (auto simp: store_inv_def with_shard_def list_all_iff dest: set_update_subset_insert [THEN subsetD])
  have "map sh_maxKeys ((so_shards store)[i := sh]) = map sh_maxKeys (so_shards store)"
    using assms by (simp add: map_update list_update_same_conv)
  then show "store_capacity (with_shard store i sh) = store_capacity store"
    by (simp add: store_capacity_def with_shard_def)
qed (simp add: with_shard_def)

text \<open>
  Every way a caller can change a store. An operation observes some \<open>ctx.Err()\<close>;
  a locked section is one step, so a sequence of steps is any interleaving of
  concurrent callers.
\<close>

inductive store_step :: "store \<Rightarrow> store \<Rightarrow> bool" where
  admit: "Store_Admit s c r = (d, err, s') \<Longrightarrow> store_step s s'"
| acquire: "Store_Acquire s c lr = (l, d, err, s') \<Longrightarrow> store_step s s'"
| release: "Store_Release s c l = (err, s') \<Longrightarrow> store_step s s'"
| sweep: "Sweep s now idleFor = (res, s') \<Longrightarrow> store_step s s'"
| close: "store_step s (Close s)"

definition store_ok :: "nat \<Rightarrow> store \<Rightarrow> bool" where
  "store_ok n s \<longleftrightarrow> store_inv s \<and> length (so_shards s) \<le> 1024 \<and> store_capacity s = n"

lemma store_ok_shard: "store_ok n s \<Longrightarrow> shardFor s key < length (so_shards s) \<and> shard_inv (so_shards s ! shardFor s key)"
  using shardFor_less [of s key] by (simp add: store_ok_def store_inv_def list_all_length)

lemma store_ok_with_shard:
  assumes "store_ok n s" "shard_inv sh \<and> sh_maxKeys sh = sh_maxKeys (so_shards s ! shardFor s key)"
  shows "store_ok n (with_shard s (shardFor s key) sh)"
  using with_shard_inv [of s "shardFor s key" sh] store_ok_shard [OF assms(1), of key] assms by (simp add: store_ok_def)

lemma Sweep_ok:
  assumes "store_ok n s" "Sweep s now idleFor = (res, s')"
  shows "store_ok n s'"
proof (cases "so_shards s' = so_shards s")
  case True
  then show ?thesis using assms by (simp add: store_ok_def store_inv_def store_capacity_def)
next
  case False
  then have s': "so_shards s' = map (sweepShard now idleFor) (so_shards s)"
    using assms(2) by (auto simp: Sweep_def Let_def split: if_splits)
  have "list_all shard_inv (map (sweepShard now idleFor) (so_shards s))"
    using assms(1) sweepShard_inv by (auto simp: store_ok_def store_inv_def list_all_iff)
  moreover have "sh_maxKeys \<circ> sweepShard now idleFor = sh_maxKeys"
    by (auto simp: sweepShard_def)
  ultimately show ?thesis using assms(1) by (simp add: store_ok_def store_inv_def store_capacity_def s')
qed

lemma store_ok_locked:
  assumes "store_ok n s"
  shows "admitLocked (so_shards s ! shardFor s key) key' r = (d, err, sh) \<Longrightarrow> store_ok n (with_shard s (shardFor s key) sh)"
    "acquireLocked (so_shards s ! shardFor s key) key' lr = (l, d, err, sh) \<Longrightarrow> store_ok n (with_shard s (shardFor s key) sh)"
    "releaseLocked (so_shards s ! shardFor s key) l = (err, sh) \<Longrightarrow> store_ok n (with_shard s (shardFor s key) sh)"
  using store_ok_shard [OF assms, of key] admitLocked_inv acquireLocked_inv releaseLocked_inv
  by (blast intro: store_ok_with_shard [OF assms])+

lemma store_step_ok: "store_step s s' \<Longrightarrow> store_ok n s \<Longrightarrow> store_ok n s'"
proof (induction rule: store_step.induct)
  case (admit s c r d err s')
  then show ?case
    by (auto simp: Store_Admit_def Let_def intro: store_ok_locked split: if_splits option.splits prod.splits)
next
  case (acquire s c lr l d err s')
  then show ?case
    by (auto simp: Store_Acquire_def Let_def intro: store_ok_locked split: if_splits option.splits prod.splits)
next
  case (release s c l err s')
  then show ?case
    by (auto simp: Store_Release_def Let_def intro: store_ok_locked split: if_splits prod.splits)
next
  case (sweep s now idleFor res s')
  then show ?case by (rule_tac Sweep_ok)
qed (simp add: Close_def store_ok_def store_inv_def store_capacity_def)

lemma New_ok:
  assumes "New opts = Inr s"
  shows "store_ok (nat (op_MaxKeys opts)) s" "Store_Len s = 0" "length (so_shards s) = nat (op_Shards opts)"
    "list_all (\<lambda>sh. 0 < sh_maxKeys sh) (so_shards s)"
proof -
  let ?m = "op_MaxKeys opts" and ?n = "op_Shards opts"
  have b: "1 \<le> ?m" "0 < ?n" "?n \<le> 1024" "?n \<le> ?m"
    using assms by (auto simp: New_def MaxConfiguredShards_def split: if_splits)
  define quota where "quota i = nat (if int i < ?m mod ?n then ?m div ?n + 1 else ?m div ?n)" for i
  have s: "so_shards s = map (\<lambda>i. \<lparr>sh_maxKeys = quota i, sh_rejectOnCapacity = op_RejectOnCapacity opts, sh_states = []\<rparr>)
      [0..<nat ?n]"
    using assms b by (auto simp: New_def Let_def quota_def sdiv_nonneg smod_eq minus_div_mult_eq_mod split: if_splits)
  have base: "1 \<le> ?m div ?n" using b by (simp add: int_one_le_iff_zero_less pos_imp_zdiv_pos_iff)
  then have pos: "0 < quota i" for i by (simp add: quota_def)
  have q: "int (quota i) = ?m div ?n + (if int i < ?m mod ?n then 1 else 0)" for i using base by (simp add: quota_def)
  have "{i. i < nat ?n \<and> int i < ?m mod ?n} = {..<nat (?m mod ?n)}"
    using less_trans [of _ "nat (?m mod ?n)" "nat ?n"] pos_mod_bound [OF b(2), of ?m] by (auto simp: nat_less_iff)
  then have "(\<Sum>i<nat ?n. if int i < ?m mod ?n then 1 else 0 :: int) = ?m mod ?n"
    using b by (simp add: sum.If_cases lessThan_def Int_def)
  then have "(\<Sum>i<nat ?n. int (quota i)) = ?n * (?m div ?n) + ?m mod ?n"
    using b by (simp add: q sum.distrib)
  then have "int (\<Sum>i<nat ?n. quota i) = ?m" by simp
  then have total: "(\<Sum>i<nat ?n. quota i) = nat ?m" by linarith
  have "store_capacity s = (\<Sum>i<nat ?n. quota i)"
    by (simp add: store_capacity_def s comp_def interv_sum_list_conv_sum_set_nat atLeast0LessThan)
  then show "store_ok (nat ?m) s"
    using b total by (auto simp: store_ok_def store_inv_def s list_all_iff shard_inv_def)
  show "Store_Len s = 0" by (simp add: Store_Len_def s comp_def)
  show "length (so_shards s) = nat ?n" by (simp add: s)
  show "list_all (\<lambda>sh. 0 < sh_maxKeys sh) (so_shards s)" using pos by (simp add: s list_all_iff)
qed

text \<open>
  C18. The store never holds more keys than configured. \<open>New\<close> divides \<open>MaxKeys\<close>
  over the shards without loss, every shard getting at least one; whatever
  sequence of admissions, acquisitions, releases, sweeps and closing follows,
  by any interleaving of callers, the number of keys stays within \<open>MaxKeys\<close> and
  the shards' quotas still add up to it.
\<close>

theorem memory_cardinality:
  assumes "New opts = Inr s" "store_step\<^sup>*\<^sup>* s s'"
  shows "int (Store_Len s') \<le> op_MaxKeys opts \<and> int (store_capacity s') = op_MaxKeys opts"
proof -
  have "store_ok (nat (op_MaxKeys opts)) s'"
    using assms(2) New_ok(1) [OF assms(1)] by (induction rule: rtranclp_induct) (auto intro: store_step_ok)
  moreover have "0 \<le> op_MaxKeys opts" using assms(1) by (simp add: New_def split: if_splits)
  ultimately show ?thesis using store_len_capacity [of s'] by (auto simp: store_ok_def)
qed

definition sample_options :: options where
  "sample_options = \<lparr>op_MaxKeys = 3, op_Shards = 2, op_RejectOnCapacity = False\<rparr>"

definition sample_store :: store where
  "sample_store = (case New sample_options of Inr s \<Rightarrow> s | Inl _ \<Rightarrow> \<lparr>so_shards = [], so_closed = True\<rparr>)"

lemma sample_store_new: "New sample_options = Inr sample_store"
  by code_simp

definition sample_concurrency :: policy where
  "sample_concurrency = sample_policy\<lparr>p_algorithm := Concurrency, p_lease := 1000000000, p_failureMode := FailClosed\<rparr>"

definition sample_acquire :: leaseRequest where
  "sample_acquire = \<lparr>lr_Request = sample_request\<lparr>r_Policy := sample_concurrency\<rparr>, lr_LeaseID = ''job''\<rparr>"

theorem memory_cardinality_witness:
  "\<exists>s'. store_step\<^sup>*\<^sup>* sample_store s' \<and> Store_Len s' = 1 \<and> int (Store_Len s') \<le> op_MaxKeys sample_options \<and>
     int (store_capacity s') = op_MaxKeys sample_options"
proof -
  define s' where "s' = snd (snd (snd (Store_Acquire sample_store None sample_acquire)))"
  obtain l d err where "Store_Acquire sample_store None sample_acquire = (l, d, err, s')"
    unfolding s'_def by (metis prod.collapse)
  then have "store_step sample_store s'" by (rule store_step.acquire)
  then have steps: "store_step\<^sup>*\<^sup>* sample_store s'" by (rule r_into_rtranclp)
  have "Store_Len s' = 1" unfolding s'_def by code_simp
  then show ?thesis using steps memory_cardinality [OF sample_store_new steps] by blast
qed

end
