(* ===== verification/Memory_Limits.thy ===== *)
theory Memory_Limits
  imports Memory_Store
begin

text \<open>
  What the memory backend enforces on one key: rates, window sums and lease
  capacity over arbitrary sequences of requests, with the clamping of backward
  clocks in \<open>admitLocked\<close>. Between two visits of a key its state changes only by
  the operations on that key, eviction and sweeping.
\<close>

section \<open>Sequences of requests to one key\<close>

text \<open>The admissions a sequence of requests achieves: effective instants and costs.\<close>

fun admit_run :: "mstate \<Rightarrow> request list \<Rightarrow> (time \<times> nat) list \<times> mstate" where
  "admit_run st [] = ([], st)"
| "admit_run st (r # rs) =
     (let (st1, d, err) = admitState st r; (log, st2) = admit_run st1 rs
      in ((if err = None then [(st_lastSeen st1, unat (r_Cost r))] else []) @ log, st2))"

definition total_cost :: "(time \<times> nat) list \<Rightarrow> nat" where
  "total_cost log = sum_list (map snd log)"

definition cost_in :: "(time \<Rightarrow> bool) \<Rightarrow> (time \<times> nat) list \<Rightarrow> nat" where
  "cost_in P log = sum_list (map snd (filter (\<lambda>x. P (fst x)) log))"

text \<open>Requests as a validated, normalised caller sends them under one policy.\<close>

definition sends :: "policy \<Rightarrow> request \<Rightarrow> bool" where
  "sends p r \<longleftrightarrow> r_Policy r = p \<and> 0 < unat (r_Cost r) \<and> unat (r_Cost r) \<le> unat (Limit p) \<and> on_micro (r_Now r)"

lemma key_irrelevant:
  "r_Policy (r\<lparr>r_Key := k\<rparr>) = r_Policy r" "r_Cost (r\<lparr>r_Key := k\<rparr>) = r_Cost r" "r_Now (r\<lparr>r_Key := k\<rparr>) = r_Now r"
  by simp_all

lemma admitToken_key: "admitToken st (r\<lparr>r_Key := k\<rparr>) = admitToken st r"
  unfolding admitToken_def refill_def key_irrelevant ..

lemma consumeWindow_key: "consumeWindow st (r\<lparr>r_Key := k\<rparr>) reset = consumeWindow st r reset"
  unfolding consumeWindow_def key_irrelevant ..

lemma admitFixed_key: "admitFixed st (r\<lparr>r_Key := k\<rparr>) = admitFixed st r"
  unfolding admitFixed_def key_irrelevant consumeWindow_key ..

lemma admitSliding_key: "admitSliding st (r\<lparr>r_Key := k\<rparr>) = admitSliding st r"
  unfolding admitSliding_def key_irrelevant consumeWindow_key ..

lemma lastSeen_kept:
  "admitToken st r = (st', d, err) \<Longrightarrow> st_lastSeen st' = st_lastSeen st"
  "admitFixed st r = (st', d, err) \<Longrightarrow> st_lastSeen st' = st_lastSeen st"
  "admitSliding st r = (st', d, err) \<Longrightarrow> st_lastSeen st' = st_lastSeen st"
  by (auto simp: admitToken_def refill_def admitFixed_def consumeWindow_def admitSliding_def Let_def
      split: if_splits prod.splits)

lemma admitState_lastSeen:
  assumes "admitState st r = (st', d, err)"
  shows "st_lastSeen st' = max (r_Now r) (st_lastSeen st)"
  using assms by (auto simp: admitState_def Let_def max_def dest!: lastSeen_kept split: algorithm.splits if_splits)

text \<open>The request as the algorithms see it: the later of its time and the last one.\<close>

definition effective_request :: "mstate \<Rightarrow> request \<Rightarrow> request" where
  "effective_request st r = window_request (r_Policy r) (max (r_Now r) (st_lastSeen st)) (unat (r_Cost r))"

lemma effective_eq:
  "effective_request st r = (if r_Now r < st_lastSeen st then r\<lparr>r_Now := st_lastSeen st\<rparr> else r)\<lparr>r_Key := zero_key\<rparr>"
  by (cases r) (auto simp: effective_request_def window_request_def max_def)

lemma admitState_effective:
  "admitState st r =
     (let st = st\<lparr>st_lastSeen := max (r_Now r) (st_lastSeen st)\<rparr>; r' = effective_request st r in
      case p_algorithm (r_Policy r) of
        TokenBucket \<Rightarrow> admitToken st r' | FixedWindow \<Rightarrow> admitFixed st r' | _ \<Rightarrow> admitSliding st r')"
  by (simp add: admitState_def effective_eq Let_def max_def admitToken_key admitFixed_key admitSliding_key
      split: algorithm.split)

definition state_step :: "policy \<Rightarrow> int \<Rightarrow> nat \<Rightarrow> mstate \<Rightarrow> bool \<times> mstate" where
  "state_step p t c st = (case admitState st (window_request p t c) of (st', d, err) \<Rightarrow> (err = None, st'))"

lemma state_step_algorithm:
  assumes "st_lastSeen st \<le> t"
  shows "p_algorithm p = TokenBucket \<Longrightarrow> state_step p t c st =
      (case admitToken (st\<lparr>st_lastSeen := t\<rparr>) (window_request p t c) of (st', d, err) \<Rightarrow> (err = None, st'))"
    "p_algorithm p = FixedWindow \<Longrightarrow> state_step p t c st = fixed_step p t c (st\<lparr>st_lastSeen := t\<rparr>)"
    "p_algorithm p = SlidingWindow \<Longrightarrow> state_step p t c st = sliding_step p t c (st\<lparr>st_lastSeen := t\<rparr>)"
proof -
  let ?r = "window_request p t c"
  have r: "r_Policy ?r = p" "r_Now ?r = t" "\<not> r_Now ?r < st_lastSeen st" using assms by (simp_all add: window_request_def)
  show "p_algorithm p = TokenBucket \<Longrightarrow> state_step p t c st =
      (case admitToken (st\<lparr>st_lastSeen := t\<rparr>) ?r of (st', d, err) \<Rightarrow> (err = None, st'))"
    "p_algorithm p = FixedWindow \<Longrightarrow> state_step p t c st = fixed_step p t c (st\<lparr>st_lastSeen := t\<rparr>)"
    "p_algorithm p = SlidingWindow \<Longrightarrow> state_step p t c st = sliding_step p t c (st\<lparr>st_lastSeen := t\<rparr>)"
    using r by (simp_all add: state_step_def fixed_step_def sliding_step_def admitState_def Let_def)
qed

lemma state_step_lastSeen: "state_step p t c st = (b, st') \<Longrightarrow> st_lastSeen st' = max t (st_lastSeen st)"
  by (auto simp: state_step_def window_request_def dest: admitState_lastSeen split: prod.splits)

text \<open>A request acts as a step at the effective instant.\<close>

lemma admitState_step:
  assumes "admitState st r = (st', d, err)"
  shows "state_step (r_Policy r) (max (r_Now r) (st_lastSeen st)) (unat (r_Cost r)) st = (err = None, st')"
proof -
  have n: "r_Now (effective_request st r) = max (r_Now r) (st_lastSeen st)" "r_Policy (effective_request st r) = r_Policy r"
    "max (max (r_Now r) (st_lastSeen st)) (st_lastSeen st) = max (r_Now r) (st_lastSeen st)"
    by (simp_all add: effective_request_def window_request_def)
  have "effective_request (st\<lparr>st_lastSeen := max (r_Now r) (st_lastSeen st)\<rparr>) (effective_request st r) =
      effective_request (st\<lparr>st_lastSeen := max (r_Now r) (st_lastSeen st)\<rparr>) r"
    by (simp add: effective_request_def window_request_def)
  then have "admitState st (effective_request st r) = admitState st r"
    unfolding admitState_effective [of st r] admitState_effective [of st "effective_request st r"] Let_def n
    by (simp only:)
  then show ?thesis using assms by (simp add: state_step_def effective_request_def)
qed

text \<open>The effective instants and costs of a sequence of requests.\<close>

fun clamped :: "time \<Rightarrow> request list \<Rightarrow> (time \<times> nat) list" where
  "clamped t [] = []"
| "clamped t (r # rs) = (max (r_Now r) t, unat (r_Cost r)) # clamped (max (r_Now r) t) rs"

section \<open>Token buckets\<close>

definition key_token_inv :: "policy \<Rightarrow> mstate \<Rightarrow> bool" where
  "key_token_inv p st \<longleftrightarrow> mem_inv p st \<and> st_lastSeen st = st_lastRefill st"

definition key_token_step :: "policy \<Rightarrow> int \<Rightarrow> nat \<Rightarrow> mstate \<Rightarrow> bool \<times> mstate" where
  "key_token_step p t c st = state_step p (time_UnixMicro t) c st"

lemma token_lastSeen [simp]:
  "mem_inv p (st\<lparr>st_lastSeen := t\<rparr>) = mem_inv p st" "token_level p (st\<lparr>st_lastSeen := t\<rparr>) = token_level p st"
  "mem_clock (st\<lparr>st_lastSeen := t\<rparr>) = mem_clock st"
  by (simp_all add: mem_inv_def token_inv_def token_level_def mem_clock_def)

interpretation key_bucket: token_bucket key_token_step key_token_inv token_level mem_clock "\<lambda>_ _. True" pol_cap period_us pol_lim
proof
  show "key_token_inv p s \<Longrightarrow> token_level p s \<le> pol_lim p * period_us p" for p s
    by (simp add: key_token_inv_def mem_bucket.level_bound)
  fix p s t c b s'
  assume i: "key_token_inv p s" and t: "mem_clock s \<le> t" and c: "0 < c" "c \<le> pol_lim p"
    and st: "key_token_step p t c s = (b, s')"
  have inv: "mem_inv p s" and seen: "st_lastSeen s = st_lastRefill s" and micro: "on_micro (st_lastRefill s)"
    and alg: "p_algorithm p = TokenBucket"
    using i by (simp_all add: key_token_inv_def mem_inv_def token_inv_def token_policy_def)
  have late: "st_lastSeen s \<le> time_UnixMicro t"
    using t seen on_micro_split [OF micro] by (simp add: mem_clock_def time_UnixMicro_def)
  let ?s = "s\<lparr>st_lastSeen := time_UnixMicro t\<rparr>"
  have step: "mem_step p t c ?s = (b, s')"
    using st state_step_algorithm(1) [OF late alg, of c]
    by (simp add: key_token_step_def mem_step_def token_request_def window_request_def)
  have pre: "mem_inv p ?s" "mem_clock ?s \<le> t" using inv t by simp_all
  note law = mem_bucket.step_law [OF pre(1) TrueI pre(2) c step]
  have "st_lastSeen s' = time_UnixMicro t"
    using state_step_lastSeen [of p "time_UnixMicro t" c s b s'] st late by (simp add: key_token_step_def)
  moreover have "st_lastRefill s' = time_UnixMicro t"
  proof -
    have "on_micro (st_lastRefill s')" "mem_clock s' = t" using law by (simp_all add: mem_inv_def token_inv_def)
    then show ?thesis using on_micro_split [of "st_lastRefill s'"] by (simp add: mem_clock_def time_UnixMicro_def)
  qed
  ultimately show "key_token_inv p s' \<and> mem_clock s' = t \<and>
    (b \<longleftrightarrow> c * period_us p \<le> min (pol_lim p * period_us p) (token_level p s + pol_cap p * nat (t - mem_clock s))) \<and>
    token_level p s' + (if b then c * period_us p else 0) =
      min (pol_lim p * period_us p) (token_level p s + pol_cap p * nat (t - mem_clock s))"
    using law [unfolded token_lastSeen] unfolding key_token_inv_def
    by (elim conjE, intro conjI) (assumption | simp only:)+
qed

text \<open>One request in front of a sequence, as the algorithms see it.\<close>

lemma admit_run_Cons:
  assumes "admit_run st (r # rs) = (log, st')" and "sends p r"
  obtains b st1 log1 where "state_step p (max (r_Now r) (st_lastSeen st)) (unat (r_Cost r)) st = (b, st1)"
    "st_lastSeen st1 = max (r_Now r) (st_lastSeen st)" "admit_run st1 rs = (log1, st')"
    "log = (if b then [(st_lastSeen st1, unat (r_Cost r))] else []) @ log1"
proof -
  obtain st1 d err where a: "admitState st r = (st1, d, err)" by (cases "admitState st r")
  obtain log1 where l: "admit_run st1 rs = (log1, st')"
    "log = (if err = None then [(st_lastSeen st1, unat (r_Cost r))] else []) @ log1"
    using assms(1) a by (auto simp: Let_def split: prod.splits)
  have "r_Policy r = p" using assms(2) by (simp add: sends_def)
  then show ?thesis using that admitState_step [OF a] admitState_lastSeen [OF a] l by simp
qed

lemma admit_run_token:
  "key_token_inv p st \<Longrightarrow> \<forall>r \<in> set rs. sends p r \<Longrightarrow> admit_run st rs = (log, st') \<Longrightarrow>
   \<exists>xs. key_bucket.timely p (mem_clock st) xs \<and> key_bucket.run p xs st = (total_cost log, st')"
proof (induction rs arbitrary: st log)
  case Nil
  have "key_bucket.timely p (mem_clock st) []" "key_bucket.run p [] st = (total_cost log, st')"
    using Nil by (simp_all add: total_cost_def)
  then show ?case by blast
next
  case (Cons r rs)
  let ?t = "max (r_Now r) (st_lastSeen st)" and ?c = "unat (r_Cost r)"
  have r: "sends p r" and inv: "key_token_inv p st" using Cons.prems by simp_all
  obtain b st1 log1 where step: "state_step p ?t ?c st = (b, st1)" and run: "admit_run st1 rs = (log1, st')"
    and log: "log = (if b then [(st_lastSeen st1, ?c)] else []) @ log1"
    using admit_run_Cons [OF Cons.prems(3) r] .
  have micro: "on_micro ?t" "st_lastSeen st = st_lastRefill st"
    using r inv by (auto simp: sends_def max_def key_token_inv_def mem_inv_def token_inv_def)
  have t: "mem_clock st \<le> ?t div 1000" unfolding mem_clock_def micro(2) [symmetric] by (rule zdiv_mono1) simp_all
  have c: "0 < ?c" "?c \<le> pol_lim p" using r by (simp_all add: sends_def)
  have kstep: "key_token_step p (?t div 1000) ?c st = (b, st1)"
    using step on_micro_split [OF micro(1)] by (simp add: key_token_step_def time_UnixMicro_def)
  have law: "key_token_inv p st1" "mem_clock st1 = ?t div 1000" using key_bucket.step_law [OF inv TrueI t c kstep] by simp_all
  obtain xs where xs: "key_bucket.timely p (mem_clock st1) xs" "key_bucket.run p xs st1 = (total_cost log1, st')"
    using Cons.IH [OF law(1) _ run] Cons.prems(2) by auto
  have "key_bucket.timely p (mem_clock st) ((?t div 1000, ?c) # xs)"
    using t c xs(1) law(2) by (simp add: key_bucket.timely.simps)
  moreover have "key_bucket.run p ((?t div 1000, ?c) # xs) st = (total_cost log, st')"
    using kstep xs(2) by (simp add: key_bucket.run.simps log total_cost_def)
  ultimately show ?case by blast
qed

text \<open>C1. The token bucket of the memory backend keeps its rate: over any sequence of
  requests to one key under one policy, whatever their clocks say, the admitted
  cost is at most the limit plus what refills, at \<open>capacity\<close> per \<open>period\<close>, between
  the first and the last effective instant. Fractional tokens are carried exactly,
  so no rounding accumulates.\<close>

theorem token_rate:
  assumes "key_token_inv p st" and "\<forall>r \<in> set rs. sends p r" and "admit_run st rs = (log, st')"
  shows "total_cost log * period_us p \<le>
    unat (Limit p) * period_us p + pol_cap p * nat ((st_lastSeen st' - st_lastSeen st) div 1000)"
proof -
  obtain xs where xs: "key_bucket.timely p (mem_clock st) xs" "key_bucket.run p xs st = (total_cost log, st')"
    using admit_run_token [OF assms] by blast
  have "key_token_inv p st'" using key_bucket.run_bound [OF assms(1) xs] by simp
  then have "mem_clock st' - mem_clock st = (st_lastSeen st' - st_lastSeen st) div 1000"
    using assms(1) by (auto simp: key_token_inv_def mem_inv_def token_inv_def mem_clock_def on_micro_def)
  then show ?thesis using key_bucket.run_rate [OF assms(1) xs] by simp
qed

lemma sample_token_key: "key_token_inv sample_policy sample_token" "sends sample_policy sample_request"
proof -
  show "key_token_inv sample_policy sample_token"
    using sample_token_facts by (simp add: key_token_inv_def mem_inv_def sample_token_def new_state_def)
  show "sends sample_policy sample_request"
    by (simp add: sends_def sample_request_def on_micro_def) (simp add: sample_policy_def Limit_def)
qed

theorem token_rate_witness:
  "\<exists>log st'. admit_run sample_token [sample_request, sample_request\<lparr>r_Now := 1700000002000000000\<rparr>] = (log, st') \<and>
     total_cost log * period_us sample_policy \<le> unat (Limit sample_policy) * period_us sample_policy +
       pol_cap sample_policy * nat ((st_lastSeen st' - st_lastSeen sample_token) div 1000)"
proof -
  let ?rs = "[sample_request, sample_request\<lparr>r_Now := 1700000002000000000\<rparr>]"
  obtain log st' where run: "admit_run sample_token ?rs = (log, st')" by (cases "admit_run sample_token ?rs")
  have "\<forall>r \<in> set ?rs. sends sample_policy r" using sample_token_key(2) by (simp add: sends_def on_micro_def)
  then show ?thesis using token_rate [OF sample_token_key(1) _ run] run by blast
qed

section \<open>Windows\<close>

text \<open>Instants at which a policy's window arithmetic stays within \<open>int64\<close> nanoseconds.\<close>

definition instant_ok :: "policy \<Rightarrow> time \<Rightarrow> bool" where
  "instant_ok p t \<longleftrightarrow> p_period p \<le> t \<and> t + p_period p < 2 ^ 63"

lemma floor_multiple_bounds: "0 < w \<Longrightarrow> t - w < t div w * w \<and> t div w * w \<le> (t :: int)"
  using minus_mod_eq_div_mult [of t w, symmetric] pos_mod_bound [of w t] pos_mod_sign [of w t] by linarith

lemma instant_ok_range:
  assumes "instant_ok p t" "policy_wf p" "p_algorithm p \<noteq> Concurrency"
  shows "fixed_ok p t" "p_algorithm p = SlidingWindow \<Longrightarrow> sliding_ok p t"
proof -
  have p: "0 < p_period p" using policy_wf_period(1) [OF assms(2,3)] by (simp add: duration_wf_def)
  have t: "p_period p \<le> t" "t + p_period p < 9223372036854775808"
    using assms(1) by (simp_all add: instant_ok_def)
  show "fixed_ok p t" using floor_multiple_bounds [OF p, of t] t p by (auto simp: fixed_ok_def int64_range_def)
  assume "p_algorithm p = SlidingWindow"
  then have w: "0 < seg_width p" "seg_width p \<le> p_period p"
    using sliding_width [of p] assms(2) by (simp_all add: sliding_policy_def)
  show "sliding_ok p t"
    using floor_multiple_bounds [OF w(1), of t] floor_multiple_bounds [OF w(1), of "t - p_period p"] t p w
    by (auto simp: sliding_ok_def int64_range_def sliding_seg_def sliding_oldest_def)
qed

lemma instant_ok_max: "instant_ok p t \<Longrightarrow> instant_ok p u \<Longrightarrow> instant_ok p (max t u)"
  by (simp add: max_def)

definition seen :: "time \<Rightarrow> mstate \<Rightarrow> mstate" where
  "seen t st = st\<lparr>st_lastSeen := t\<rparr>"

lemma seen_irrelevant [simp]:
  "fixed_inv p (seen t st) = fixed_inv p st" "fixed_count p (seen t st) = fixed_count p st"
  "sliding_inv p u (seen t st) = sliding_inv p u st" "sliding_count p (seen t st) = sliding_count p st"
  "sliding_sum p u (seen t st) = sliding_sum p u st"
  by (auto simp: seen_def fixed_inv_def fixed_count_def sliding_inv_def sliding_count_def sliding_sum_def)

definition key_fixed_step :: "policy \<Rightarrow> int \<Rightarrow> nat \<Rightarrow> mstate \<Rightarrow> bool \<times> mstate" where
  "key_fixed_step p t c st = fixed_step p t c (seen t st)"

definition key_sliding_step :: "policy \<Rightarrow> int \<Rightarrow> nat \<Rightarrow> mstate \<Rightarrow> bool \<times> mstate" where
  "key_sliding_step p t c st = sliding_step p t c (seen t st)"

interpretation key_fixed: window_counter key_fixed_step fixed_inv fixed_ok fixed_window fixed_count limit_of
proof
  show "fixed_inv p s \<Longrightarrow> fixed_count p s w \<le> limit_of p" for p s w by (rule mem_fixed.count_bound)
  show "fixed_inv p s \<Longrightarrow> t \<le> t' \<Longrightarrow> fixed_window p t \<le> fixed_window p t'" for p s t t'
    by (rule mem_fixed.window_mono)
  show "fixed_inv p s' \<and> (b = (fixed_count p s (fixed_window p t) + c \<le> limit_of p)) \<and>
      fixed_count p s' (fixed_window p t) = fixed_count p s (fixed_window p t) + (if b then c else 0)"
    if "fixed_inv p s" "fixed_ok p t" "0 < c" "c \<le> limit_of p" "key_fixed_step p t c s = (b, s')" for p s t c b s'
    using mem_fixed.step_law [of p "seen t s" t c b s'] that by (simp add: key_fixed_step_def)
qed

interpretation key_sliding:
  sliding_counter key_sliding_step sliding_inv sliding_ok sliding_seg sliding_oldest sliding_count limit_of
proof
  show "sliding_inv p t s' \<and>
      (b = ((\<Sum>i\<in>{sliding_oldest p t + 1..sliding_seg p t}. sliding_count p s i) + c \<le> limit_of p)) \<and>
      (\<forall>i. sliding_oldest p t < i \<and> i \<le> sliding_seg p t \<longrightarrow>
         sliding_count p s' i = sliding_count p s i + (if b \<and> i = sliding_seg p t then c else 0))"
    if "sliding_inv p t0 s" "t0 \<le> t" "sliding_ok p t" "0 < c" "c \<le> limit_of p" "key_sliding_step p t c s = (b, s')"
    for p t0 s t c b s'
    using mem_sliding.step_law [of p t0 "seen t s" t c b s'] that by (simp add: key_sliding_step_def)
qed (rule mem_sliding.seg_mono mem_sliding.oldest_mono mem_sliding.oldest_less mem_sliding.no_future; assumption)+

text \<open>The requests a sequence may hold for the window theorems.\<close>

definition sends_ok :: "policy \<Rightarrow> request \<Rightarrow> bool" where
  "sends_ok p r \<longleftrightarrow> sends p r \<and> instant_ok p (r_Now r)"

lemma cost_in_simps [simp]:
  "cost_in P [] = 0" "cost_in P (x # log) = (if P (fst x) then snd x else 0) + cost_in P log"
  by (simp_all add: cost_in_def)

lemma admit_run_fixed:
  "fixed_inv p st \<Longrightarrow> instant_ok p (st_lastSeen st) \<Longrightarrow> \<forall>r \<in> set rs. sends_ok p r \<Longrightarrow> admit_run st rs = (log, st') \<Longrightarrow>
   key_fixed.timely p (st_lastSeen st) (clamped (st_lastSeen st) rs) \<and>
   key_fixed.admitted p w (clamped (st_lastSeen st) rs) st = cost_in (\<lambda>t. fixed_window p t = w) log"
proof (induction rs arbitrary: st log)
  case Nil
  then show ?case by (simp add: key_fixed.timely.simps key_fixed.admitted.simps)
next
  case (Cons r rs)
  let ?t = "max (r_Now r) (st_lastSeen st)" and ?c = "unat (r_Cost r)"
  have r: "sends p r" and inv: "fixed_inv p st" and t: "instant_ok p ?t"
    using Cons.prems by (simp_all add: sends_ok_def instant_ok_max)
  obtain b st1 log1 where step: "state_step p ?t ?c st = (b, st1)" and seen: "st_lastSeen st1 = ?t"
    and run: "admit_run st1 rs = (log1, st')" and log: "log = (if b then [(st_lastSeen st1, ?c)] else []) @ log1"
    using admit_run_Cons [OF Cons.prems(4) r] .
  have p: "policy_wf p" "p_algorithm p = FixedWindow" using inv by (simp_all add: fixed_inv_def fixed_policy_def)
  have ok: "fixed_ok p ?t" "0 < ?c" "?c \<le> limit_of p"
    using instant_ok_range(1) [OF t p(1)] p(2) r by (simp_all add: sends_def)
  have kstep: "key_fixed_step p ?t ?c st = (b, st1)"
    using step state_step_algorithm(2) [of st ?t p ?c] p(2) by (simp add: key_fixed_step_def seen_def)
  have "fixed_inv p st1" using key_fixed.step_law [OF inv ok kstep] by simp
  then show ?case
    using Cons.IH [OF _ _ _ run] Cons.prems(3) t ok kstep
    by (simp add: seen log key_fixed.timely.simps key_fixed.admitted.simps)
qed

text \<open>C12. A fixed window of the memory backend never admits more than the policy's
  limit: over any sequence of requests to one key, with clocks that may go
  backwards, the costs admitted at effective instants in one aligned window add up
  to at most the limit.\<close>

theorem fixed_window_limit:
  assumes "fixed_inv p st" and "instant_ok p (st_lastSeen st)" and "\<forall>r \<in> set rs. sends_ok p r"
    and "admit_run st rs = (log, st')"
  shows "cost_in (\<lambda>t. t div p_period p = w) log \<le> unat (Limit p)"
proof -
  note run = admit_run_fixed [OF assms, of w]
  have "key_fixed.admitted p w (clamped (st_lastSeen st) rs) st \<le> limit_of p"
    by (rule key_fixed.window_limit [OF assms(1) conjunct1 [OF run]])
  then show ?thesis using conjunct2 [OF run] by (simp add: fixed_window_def)
qed

definition sample_window :: "algorithm \<Rightarrow> policy" where
  "sample_window a = sample_policy\<lparr>p_algorithm := a, p_burst := 0, p_maxCost := 10\<rparr>"

definition sample_window_request :: "algorithm \<Rightarrow> request" where
  "sample_window_request a = sample_request\<lparr>r_Policy := sample_window a\<rparr>"

lemma sample_window_facts:
  assumes "a = FixedWindow \<or> a = SlidingWindow"
  shows "policy_wf (sample_window a)" "instant_ok (sample_window a) 1700000000000000000"
    "sends_ok (sample_window a) (sample_window_request a)"
proof -
  show "policy_wf (sample_window a)"
    using sample_policy_wf assms by (auto simp: policy_wf_def sample_window_def sample_policy_def period_us_def)
  show i: "instant_ok (sample_window a) 1700000000000000000"
    by (simp add: instant_ok_def sample_window_def sample_policy_def)
  show "sends_ok (sample_window a) (sample_window_request a)"
    using i by (simp add: sends_ok_def sends_def sample_window_request_def sample_request_def on_micro_def)
      (simp add: sample_window_def sample_policy_def Limit_def)
qed

theorem fixed_window_limit_witness:
  "\<exists>log st'. admit_run (new_state (sample_window_request FixedWindow))
       [sample_window_request FixedWindow, sample_window_request FixedWindow] = (log, st') \<and>
     cost_in (\<lambda>t. t div p_period (sample_window FixedWindow) = 1700000000) log \<le> unat (Limit (sample_window FixedWindow))"
proof -
  let ?r = "sample_window_request FixedWindow" and ?p = "sample_window FixedWindow"
  obtain log st' where run: "admit_run (new_state ?r) [?r, ?r] = (log, st')"
    by (cases "admit_run (new_state ?r) [?r, ?r]")
  have "fixed_inv ?p (new_state ?r)"
    using sample_window_facts(1) [of FixedWindow] by (simp add: fixed_inv_def fixed_policy_def new_state_def)
      (simp add: sample_window_def)
  moreover have "instant_ok ?p (st_lastSeen (new_state ?r))" "\<forall>r \<in> set [?r, ?r]. sends_ok ?p r"
    using sample_window_facts [of FixedWindow] by (simp_all add: new_state_def sample_window_request_def sample_request_def)
  ultimately show ?thesis using fixed_window_limit [OF _ _ _ run, of ?p 1700000000] run by blast
qed

lemma admit_run_sliding:
  "sliding_inv p (st_lastSeen st) st \<Longrightarrow> instant_ok p (st_lastSeen st) \<Longrightarrow> \<forall>r \<in> set rs. sends_ok p r \<Longrightarrow>
   admit_run st rs = (log, st') \<Longrightarrow>
   key_sliding.timely p (st_lastSeen st) (clamped (st_lastSeen st) rs) \<and>
   key_sliding.run p (clamped (st_lastSeen st) rs) (st, log0) = (st', rev log @ log0)"
proof (induction rs arbitrary: st log log0)
  case Nil
  then show ?case by (simp add: key_sliding.timely.simps key_sliding.run.simps)
next
  case (Cons r rs)
  let ?t = "max (r_Now r) (st_lastSeen st)" and ?c = "unat (r_Cost r)"
  have r: "sends p r" and inv: "sliding_inv p (st_lastSeen st) st" and t: "instant_ok p ?t"
    using Cons.prems by (simp_all add: sends_ok_def instant_ok_max)
  obtain b st1 log1 where step: "state_step p ?t ?c st = (b, st1)" and seen: "st_lastSeen st1 = ?t"
    and run: "admit_run st1 rs = (log1, st')" and log: "log = (if b then [(st_lastSeen st1, ?c)] else []) @ log1"
    using admit_run_Cons [OF Cons.prems(4) r] .
  have p: "policy_wf p" "p_algorithm p = SlidingWindow" using inv by (simp_all add: sliding_inv_def sliding_policy_def)
  have ok: "sliding_ok p ?t" "0 < ?c" "?c \<le> limit_of p"
    using instant_ok_range(2) [OF t p(1)] p(2) r by (simp_all add: sends_def)
  have kstep: "key_sliding_step p ?t ?c st = (b, st1)"
    using step state_step_algorithm(3) [of st ?t p ?c] p(2) by (simp add: key_sliding_step_def seen_def)
  have "sliding_inv p (st_lastSeen st1) st1" using key_sliding.step_law [OF inv _ ok kstep] seen by simp
  then show ?case
    using Cons.IH [OF _ _ _ run, of "if b then (?t, ?c) # log0 else log0"] Cons.prems(3) t ok kstep
    by (simp add: seen log key_sliding.timely.simps key_sliding.run.simps)
qed

text \<open>C13. The sliding window of the memory backend, started on a new key: over any
  sequence of requests, with clocks that may go backwards, the costs admitted in any
  stretch of one period less one segment (a sixteenth of the period, rounded up)
  add up to at most the policy's limit.\<close>

theorem sliding_window_limit:
  assumes "policy_wf p" and "p_algorithm p = SlidingWindow" and "\<forall>r \<in> set (r0 # rs). sends_ok p r"
    and "admit_run (new_state r0) rs = (log, st')"
  shows "cost_in (\<lambda>t. a \<le> t \<and> t \<le> a + p_period p - (p_period p + 15) div 16) log \<le> unat (Limit p)"
proof -
  let ?st = "new_state r0" and ?xs = "clamped (r_Now r0) rs"
  have r0: "r_Policy r0 = p" "instant_ok p (r_Now r0)" "st_lastSeen ?st = r_Now r0"
    using assms(3) by (simp_all add: sends_ok_def sends_def new_state_def)
  have sp: "sliding_policy p" using assms(1,2) by (simp add: sliding_policy_def)
  have f: "mem_sliding.faithful p (r_Now r0) ?st []" using new_state_sliding(1) [of r0] r0 sp by simp
  then have inv: "sliding_inv p (st_lastSeen ?st) ?st" by (simp add: mem_sliding.faithful_def r0)
  have run: "key_sliding.timely p (r_Now r0) ?xs" "key_sliding.run p ?xs (?st, []) = (st', rev log)"
    using admit_run_sliding [OF inv _ _ assms(4), of "[]"] r0 assms(3) by simp_all
  have "key_sliding.faithful p (r_Now r0) ?st []" "key_sliding.bounded p []"
    using f by (simp_all add: mem_sliding.faithful_def key_sliding.faithful_def key_sliding.bounded_def
      mem_sliding.logged_simps key_sliding.logged_simps)
  then have "key_sliding.bounded p (rev log)" by (rule key_sliding.run_bounded) (rule run)+
  moreover have "key_sliding.narrow p a (a + p_period p - seg_width p)"
    using sliding_narrow [OF sp, of a] by (simp add: mem_sliding.narrow_def key_sliding.narrow_def)
  ultimately have "key_sliding.logged (\<lambda>u. a \<le> u \<and> u \<le> a + p_period p - seg_width p) (rev log) \<le> limit_of p"
    unfolding key_sliding.bounded_def by blast
  then show ?thesis
    by (simp add: key_sliding.logged_def cost_in_def case_prod_unfold seg_width_def rev_filter [symmetric]
        rev_map [symmetric] sum_list_rev)
qed

theorem sliding_window_limit_witness:
  "\<exists>log st'. admit_run (new_state (sample_window_request SlidingWindow))
       [sample_window_request SlidingWindow, sample_window_request SlidingWindow] = (log, st') \<and>
     cost_in (\<lambda>t. 1700000000000000000 \<le> t \<and> t \<le> 1700000000000000000 + p_period (sample_window SlidingWindow) -
         (p_period (sample_window SlidingWindow) + 15) div 16) log \<le> unat (Limit (sample_window SlidingWindow))"
proof -
  let ?r = "sample_window_request SlidingWindow" and ?p = "sample_window SlidingWindow"
  obtain log st' where run: "admit_run (new_state ?r) [?r, ?r] = (log, st')"
    by (cases "admit_run (new_state ?r) [?r, ?r]")
  have "p_algorithm ?p = SlidingWindow" "policy_wf ?p" "\<forall>r \<in> set [?r, ?r, ?r]. sends_ok ?p r"
    using sample_window_facts [of SlidingWindow] by (simp_all add: sample_window_def)
  then show ?thesis
    using sliding_window_limit [OF _ _ _ run, of ?p 1700000000000000000] run by blast
qed

definition late_request :: request where
  "late_request = (sample_window_request SlidingWindow)\<lparr>r_Cost := 10, r_Now := 1700000000062499000\<rparr>"

definition early_request :: request where
  "early_request = late_request\<lparr>r_Now := 1700000001000000000\<rparr>"

text \<open>C37. The bound on the sliding window cannot be widened to the period: a segment
  leaves the sum one segment width before the \<open>Reset\<close> that the decision announces.
  Under a limit of 10 per second, 10 units late in a segment and 10 more 938
  milliseconds later are both admitted; a request 30 milliseconds before the second
  is refused with a retry hint past it.\<close>

theorem sliding_window_early:
  "policy_wf (r_Policy late_request) \<and> Request_Validate late_request = None \<and> Request_Validate early_request = None \<and>
   unat (Limit (r_Policy late_request)) = 10 \<and> p_period (r_Policy late_request) = 1000000000 \<and>
   fst (admit_run (new_state late_request) [late_request, early_request]) =
     [(1700000000062499000, 10), (1700000001000000000, 10)] \<and>
   d_RetryAfter (fst (snd (admitState (fst (admitState (new_state late_request) late_request))
     (early_request\<lparr>r_Now := 1700000000970000000\<rparr>)))) = 92500000"
proof (intro conjI)
  show "fst (admit_run (new_state late_request) [late_request, early_request]) =
     [(1700000000062499000, 10), (1700000001000000000, 10)]" by code_simp
  show "policy_wf (r_Policy late_request)"
    using sample_window_facts(1) [of SlidingWindow] by (simp add: late_request_def sample_window_request_def)
qed code_simp+

end
