(* ===== verification/Postgres_State.thy ===== *)
theory Postgres_State
  imports Memory_Limits
begin

text \<open>
  \<^verbatim>\<open>postgres/state.go\<close>: the state a row holds and the pure transitions on it. A
  pointer to a state is an option; a failed transition returns no state. The map of
  leases is an association list, and a nil map is an empty one. A row's \<open>jsonb\<close>
  document is represented by what its fields decode from: numbers of any size,
  segments of any number, and whether it has fields the struct lacks or trailing data.
\<close>

section \<open>Data\<close>

record persistedSegment =
  sg_Index :: int
  sg_Used :: uint64

record persistedLease =
  pl_Cost :: uint64
  pl_ExpiresMicros :: int

record persistedState =
  ps_Schema :: int
  ps_PolicyID :: string
  ps_Revision :: string
  ps_Algorithm :: algorithm
  ps_Tokens :: uint64
  ps_Remainder :: uint64
  ps_LastMicros :: int
  ps_ObservedMicros :: int
  ps_Window :: int
  ps_Used :: uint64
  ps_PeriodMicros :: int
  ps_Carried :: bool
  ps_Segments :: "persistedSegment list"
  ps_Leases :: "(string \<times> persistedLease) list"

definition stateSchema :: int where "stateSchema = 1"
definition stateSegments :: nat where "stateSegments = 16"

definition maxExactMicros :: int where "maxExactMicros = 9007199254740991"

definition zero_persistedSegment :: persistedSegment where
  "zero_persistedSegment = \<lparr>sg_Index = 0, sg_Used = 0\<rparr>"

definition zero_persistedState :: persistedState where
  "zero_persistedState =
     \<lparr>ps_Schema = 0, ps_PolicyID = '''', ps_Revision = '''', ps_Algorithm = UnknownAlgorithm '''', ps_Tokens = 0,
      ps_Remainder = 0, ps_LastMicros = 0, ps_ObservedMicros = 0, ps_Window = 0, ps_Used = 0, ps_PeriodMicros = 0,
      ps_Carried = False, ps_Segments = replicate stateSegments zero_persistedSegment, ps_Leases = []\<rparr>"

section \<open>Arithmetic\<close>

definition pg_floor :: "int \<Rightarrow> int \<Rightarrow> int" where
  "pg_floor value width =
     (let quotient = value sdiv width in
      if value smod width = 0 then i64 (quotient * width)
      else let quotient = (if value div 2 ^ 63 = - 1 then quotient - 1 else quotient)
      in i64 (quotient * width))"

definition positiveRemainder :: "int \<Rightarrow> int \<Rightarrow> nat" where
  "positiveRemainder value modulus =
     (let result = value smod modulus in nat (if result div 2 ^ 63 = - 1 then result + modulus else result))"

definition validPersistedMicros :: "int \<Rightarrow> bool" where
  "validPersistedMicros value \<longleftrightarrow> value \<ge> - maxExactMicros \<and> value \<le> maxExactMicros"

definition usageExceedsLimit :: "uint64 \<Rightarrow> uint64 \<Rightarrow> bool" where
  "usageExceedsLimit used limit \<longleftrightarrow> used > limit"

definition usesWindowMetadata :: "algorithm \<Rightarrow> bool" where
  "usesWindowMetadata a \<longleftrightarrow> a = FixedWindow \<or> a = SlidingWindow"

definition validateServerClockRange :: "time \<Rightarrow> duration \<Rightarrow> go_error option" where
  "validateServerClockRange now duration =
     (let micros = UnixMicro now; durationMicros = Microseconds duration in
      if micros < - maxExactMicros \<or> durationMicros \<le> 0 \<or> micros > i64 (maxExactMicros - durationMicros)
      then Some ErrOverflow else None)"

definition recordWindowPeriod :: "persistedState \<Rightarrow> policy \<Rightarrow> persistedState" where
  "recordWindowPeriod st p =
     (if usesWindowMetadata (p_algorithm p) then st\<lparr>ps_PeriodMicros := Microseconds (p_period p)\<rparr> else st)"

section \<open>Token bucket\<close>

definition tokenDuration :: "uint64 \<Rightarrow> uint64 \<Rightarrow> policy \<Rightarrow> duration" where
  "tokenDuration tokens remainder p =
     (if tokens = 0 then 0
      else let period = uint64_of (Microseconds (p_period p));
               (high, low) = dword_sub (bits_Mul64 tokens period) remainder
      in
      if high \<ge> p_capacity p then MaxInt64
      else let (micros, rest) = bits_Div64 high low (p_capacity p);
               micros = (if rest \<noteq> 0 then micros + 1 else micros)
      in
      if micros > uint64_of (MaxInt64 div Microsecond) then MaxInt64
      else int64_of (micros * 1000))"

definition replenish :: "persistedState \<Rightarrow> request \<Rightarrow> persistedState" where
  "replenish current r =
     (let p = r_Policy r; now = UnixMicro (r_Now r);
          period = uint64_of (Microseconds (p_period p));
          elapsedDuration = time_Sub (time_UnixMicro now) (time_UnixMicro (ps_LastMicros current))
      in
      if elapsedDuration \<ge> Microsecond
      then let current =
             (if ps_Tokens current < Limit p
              then let elapsed = uint64_of (Microseconds elapsedDuration);
                       (high, low) = dword_add (bits_Mul64 elapsed (p_capacity p)) (ps_Remainder current)
                   in
                   if high \<ge> period then current\<lparr>ps_Tokens := Limit p, ps_Remainder := 0\<rparr>
                   else let (added, remainder) = bits_Div64 high low period; gap = Limit p - ps_Tokens current in
                   if added \<ge> gap then current\<lparr>ps_Tokens := Limit p, ps_Remainder := 0\<rparr>
                   else current\<lparr>ps_Tokens := ps_Tokens current + added, ps_Remainder := remainder\<rparr>
              else current)
           in current\<lparr>ps_LastMicros := now\<rparr>
      else current)"

definition mutateToken :: "persistedState \<Rightarrow> request \<Rightarrow> persistedState \<times> decision \<times> go_error option" where
  "mutateToken current0 r =
     (let p = r_Policy r; current = replenish current0 r; limit = Limit p in
      if ps_Tokens current < r_Cost r
      then let retry = tokenDuration (r_Cost r - ps_Tokens current) (ps_Remainder current) p;
               reset = tokenDuration (limit - ps_Tokens current) (ps_Remainder current) p
           in (current,
               zero_Decision\<lparr>d_Allowed := False, d_Limit := limit, d_Remaining := ps_Tokens current,
                 d_Reset := time_Add (r_Now r) reset, d_RetryAfter := retry, d_Reason := ReasonLimited\<rparr>,
               Some ErrRejected)
      else let current = current\<lparr>ps_Tokens := ps_Tokens current - r_Cost r\<rparr>;
               reset = tokenDuration (limit - ps_Tokens current) (ps_Remainder current) p
           in (current,
               zero_Decision\<lparr>d_Allowed := True, d_Limit := limit, d_Remaining := ps_Tokens current,
                 d_Reset := time_Add (r_Now r) reset, d_Reason := ReasonAllowed\<rparr>,
               None))"

section \<open>Windows\<close>

definition consume :: "persistedState \<Rightarrow> request \<Rightarrow> time \<Rightarrow> persistedState \<times> decision \<times> go_error option" where
  "consume current r reset =
     (let limit = Limit (r_Policy r); used = min (ps_Used current) limit; remaining = limit - used in
      if r_Cost r > remaining
      then (current,
            zero_Decision\<lparr>d_Allowed := False, d_Limit := limit, d_Remaining := remaining, d_Reset := reset,
              d_RetryAfter := max (time_Sub reset (r_Now r)) 0, d_Reason := ReasonLimited\<rparr>,
            Some ErrRejected)
      else let current = current\<lparr>ps_Used := ps_Used current + r_Cost r\<rparr> in
           (current,
            zero_Decision\<lparr>d_Allowed := True, d_Limit := limit, d_Remaining := limit - ps_Used current,
              d_Reset := reset, d_Reason := ReasonAllowed\<rparr>,
            None))"

definition mutateFixed :: "persistedState \<Rightarrow> request \<Rightarrow> persistedState \<times> decision \<times> go_error option" where
  "mutateFixed current r =
     (let period = Microseconds (p_period (r_Policy r));
          window = pg_floor (UnixMicro (r_Now r)) period;
          current = (if ps_Window current \<noteq> window then current\<lparr>ps_Window := window, ps_Used := 0\<rparr> else current);
          (current, d, err) = consume current r (time_UnixMicro (i64 (window + period)))
      in (current\<lparr>ps_Carried := usageExceedsLimit (ps_Used current) (Limit (r_Policy r))\<rparr>, d, err))"

definition sliding_width_us :: "policy \<Rightarrow> int" where
  "sliding_width_us p = i64 (Microseconds (p_period p) + int stateSegments - 1) sdiv int stateSegments"

definition sliding_index_us :: "request \<Rightarrow> int" where
  "sliding_index_us r = pg_floor (UnixMicro (r_Now r)) (sliding_width_us (r_Policy r)) sdiv sliding_width_us (r_Policy r)"

definition sliding_oldest_us :: "request \<Rightarrow> int" where
  "sliding_oldest_us r =
     pg_floor (UnixMicro (time_Add (r_Now r) (- p_period (r_Policy r)))) (sliding_width_us (r_Policy r))
       sdiv sliding_width_us (r_Policy r)"

text \<open>The first loop of \<open>mutateSliding\<close>: the sum in use and the earliest index in use.\<close>

fun sumSegments :: "int \<Rightarrow> persistedSegment list \<Rightarrow> uint64 \<Rightarrow> int \<Rightarrow> uint64 \<times> int" where
  "sumSegments oldest [] used earliest = (used, earliest)"
| "sumSegments oldest (g # gs) used earliest =
     (if sg_Index g > oldest
      then sumSegments oldest gs (used + sg_Used g) (if sg_Used g \<noteq> 0 then min earliest (sg_Index g) else earliest)
      else sumSegments oldest gs used earliest)"

text \<open>The second loop: expired segments are cleared.\<close>

definition clearSegments :: "int \<Rightarrow> persistedSegment list \<Rightarrow> persistedSegment list" where
  "clearSegments oldest = map (\<lambda>g. if sg_Index g \<le> oldest then zero_persistedSegment else g)"

definition sliding_reset :: "request \<Rightarrow> int \<Rightarrow> time" where
  "sliding_reset r earliest =
     (if earliest \<noteq> MaxInt64
      then time_Add (time_UnixMicro (i64 (i64 (earliest + 1) * sliding_width_us (r_Policy r)))) (p_period (r_Policy r))
      else time_Add (r_Now r) (p_period (r_Policy r)))"

definition bump_segment :: "nat \<Rightarrow> uint64 \<Rightarrow> persistedState \<Rightarrow> persistedState" where
  "bump_segment slot cost st =
     st\<lparr>ps_Segments := (ps_Segments st)[slot := (ps_Segments st ! slot)\<lparr>sg_Used := sg_Used (ps_Segments st ! slot) + cost\<rparr>]\<rparr>"

definition open_slot :: "nat \<Rightarrow> int \<Rightarrow> persistedSegment list \<Rightarrow> persistedSegment list" where
  "open_slot slot index gs =
     (if sg_Index (gs ! slot) \<noteq> index then gs[slot := \<lparr>sg_Index = index, sg_Used = 0\<rparr>] else gs)"

definition mutateSliding :: "persistedState \<Rightarrow> request \<Rightarrow> persistedState \<times> decision \<times> go_error option" where
  "mutateSliding current r =
     (let index = sliding_index_us r; oldest = sliding_oldest_us r;
          (used, earliest) = sumSegments oldest (ps_Segments current) 0 MaxInt64;
          segments = clearSegments oldest (ps_Segments current);
          slot = positiveRemainder index (int stateSegments);
          current = current\<lparr>ps_Used := used, ps_Carried := usageExceedsLimit used (Limit (r_Policy r)),
                            ps_Segments := open_slot slot index segments\<rparr>;
          (current, d, err) = consume current r (sliding_reset r earliest)
      in (if err = None then bump_segment slot (r_Cost r) current else current, d, err))"

text \<open>The loop of \<open>mutateSlidingLegacy\<close> clears and sums in one pass and keeps \<open>Carried\<close>.\<close>

fun scanSegmentsLegacy :: "int \<Rightarrow> persistedSegment list \<Rightarrow> uint64 \<Rightarrow> int \<Rightarrow> persistedSegment list \<times> uint64 \<times> int" where
  "scanSegmentsLegacy oldest [] used earliest = ([], used, earliest)"
| "scanSegmentsLegacy oldest (g # gs) used earliest =
     (if sg_Index g \<le> oldest
      then let (gs', u, e) = scanSegmentsLegacy oldest gs used earliest in (zero_persistedSegment # gs', u, e)
      else let (gs', u, e) = scanSegmentsLegacy oldest gs (used + sg_Used g)
             (if sg_Used g \<noteq> 0 then min earliest (sg_Index g) else earliest)
           in (g # gs', u, e))"

definition mutateSlidingLegacy :: "persistedState \<Rightarrow> request \<Rightarrow> persistedState \<times> decision \<times> go_error option" where
  "mutateSlidingLegacy current r =
     (let index = sliding_index_us r; oldest = sliding_oldest_us r;
          (segments, used, earliest) = scanSegmentsLegacy oldest (ps_Segments current) 0 MaxInt64;
          slot = positiveRemainder index (int stateSegments);
          current = current\<lparr>ps_Used := used, ps_Segments := open_slot slot index segments\<rparr>;
          (current, d, err) = consume current r (sliding_reset r earliest)
      in (if err = None then bump_segment slot (r_Cost r) current else current, d, err))"

section \<open>Strict validation\<close>

fun strictSlidingLoop :: "int \<Rightarrow> persistedSegment list \<Rightarrow> uint64 \<Rightarrow> uint64 \<times> bool" where
  "strictSlidingLoop oldest [] used = (used, False)"
| "strictSlidingLoop oldest (g # gs) used =
     (if sg_Index g \<le> oldest then strictSlidingLoop oldest gs used
      else if sg_Used g > uint64_of maxExactMicros - used then (0, True)
      else strictSlidingLoop oldest gs (used + sg_Used g))"

definition strictSlidingUsage :: "persistedState \<Rightarrow> request \<Rightarrow> uint64 \<times> bool" where
  "strictSlidingUsage current r = strictSlidingLoop (sliding_oldest_us r) (ps_Segments current) 0"

fun slidingPositionsLoop :: "int \<Rightarrow> int \<Rightarrow> nat \<Rightarrow> persistedSegment list \<Rightarrow> bool" where
  "slidingPositionsLoop currentIndex oldest slot [] = True"
| "slidingPositionsLoop currentIndex oldest slot (g # gs) =
     (if sg_Used g = 0 \<or> sg_Index g \<le> oldest then slidingPositionsLoop currentIndex oldest (Suc slot) gs
      else if sg_Index g > currentIndex \<or> positiveRemainder (sg_Index g) (int stateSegments) \<noteq> slot then False
      else slidingPositionsLoop currentIndex oldest (Suc slot) gs)"

definition validateSlidingPositions :: "persistedState \<Rightarrow> request \<Rightarrow> go_error option" where
  "validateSlidingPositions current r =
     (if slidingPositionsLoop (sliding_index_us r) (sliding_oldest_us r) 0 (ps_Segments current)
      then None else Some ErrCorrupt)"

text \<open>The integrity checks of a loaded state in strict mode, after its identity.\<close>

definition strictStateCheck :: "persistedState \<Rightarrow> request \<Rightarrow> bool" where
  "strictStateCheck current r =
     (let p = r_Policy r; same = (ps_Revision current = p_revision p) in
      if \<not> validPersistedMicros (ps_ObservedMicros current) then False
      else case ps_Algorithm current of
        TokenBucket \<Rightarrow>
          if \<not> validPersistedMicros (ps_LastMicros current) \<or> ps_Remainder current > uint64_of maxExactMicros \<or>
             same \<and> ps_Remainder current \<ge> uint64_of (Microseconds (p_period p)) then False
          else if same \<and> ps_Tokens current > Limit p then False
          else True
      | FixedWindow \<Rightarrow>
          \<not> (\<not> validPersistedMicros (ps_Window current) \<or> ps_Used current > uint64_of maxExactMicros \<or>
             same \<and> ps_Used current > Limit p \<and> \<not> ps_Carried current)
      | SlidingWindow \<Rightarrow>
          list_all (\<lambda>g. \<not> (\<not> validPersistedMicros (sg_Index g) \<or> sg_Used g > uint64_of maxExactMicros)) (ps_Segments current)
      | _ \<Rightarrow> True)"

section \<open>Admission\<close>

definition fresh_state :: "request \<Rightarrow> bool \<Rightarrow> persistedState" where
  "fresh_state r strict =
     (let p = r_Policy r;
          st = zero_persistedState\<lparr>ps_Schema := stateSchema, ps_PolicyID := p_id p, ps_Revision := p_revision p,
                 ps_Algorithm := p_algorithm p, ps_Tokens := Limit p, ps_LastMicros := UnixMicro (r_Now r),
                 ps_ObservedMicros := UnixMicro (r_Now r)\<rparr>
      in if strict then recordWindowPeriod st p else st)"

text \<open>The state to work on: a fresh one, or the loaded one if it passes the checks.\<close>

definition state_for :: "persistedState option \<Rightarrow> request \<Rightarrow> bool \<Rightarrow> go_error + persistedState" where
  "state_for current r strict =
     (case current of
        None \<Rightarrow> Inr (fresh_state r strict)
      | Some st \<Rightarrow>
        if ps_Schema st \<noteq> stateSchema then Inl ErrCorrupt
        else if ps_PolicyID st \<noteq> p_id (r_Policy r) then Inl ErrCorrupt
        else if ps_Algorithm st \<noteq> p_algorithm (r_Policy r) then Inl ErrCorrupt
        else if strict \<and> \<not> strictStateCheck st r then Inl ErrCorrupt
        else Inr st)"

text \<open>The strict checks and the revision carry once the effective time is known.\<close>

definition strict_prepare :: "persistedState \<Rightarrow> request \<Rightarrow> go_error + persistedState" where
  "strict_prepare current r =
     (let p = r_Policy r in
      case validateServerClockRange (r_Now r) (p_period p) of
        Some err \<Rightarrow> Inl err
      | None \<Rightarrow>
        if usesWindowMetadata (p_algorithm p) \<and> ps_PeriodMicros current \<noteq> 0 \<and>
           ps_PeriodMicros current \<noteq> Microseconds (p_period p) then Inl ErrCorrupt
        else case (if p_algorithm p = SlidingWindow then validateSlidingPositions current r else None) of
          Some err \<Rightarrow> Inl err
        | None \<Rightarrow>
          let (used, overflow) = strictSlidingUsage current r in
          if p_algorithm p = SlidingWindow \<and>
             (overflow \<or> ps_Revision current = p_revision p \<and> usageExceedsLimit used (Limit p) \<and> \<not> ps_Carried current)
          then Inl ErrCorrupt
          else let current =
            (if p_algorithm p = TokenBucket \<and> ps_Revision current \<noteq> p_revision p
             then current\<lparr>ps_Tokens := min (ps_Tokens current) (Limit p), ps_Remainder := 0,
                          ps_LastMicros := max (ps_LastMicros current) (UnixMicro (r_Now r))\<rparr>
             else current)
          in Inr (recordWindowPeriod current p))"

definition clamp_now :: "request \<Rightarrow> int \<Rightarrow> request" where
  "clamp_now r observed =
     (let requested = UnixMicro (r_Now r); effective = max requested observed in
      if effective \<noteq> requested then r\<lparr>r_Now := time_UnixMicro effective\<rparr> else r)"

definition mutateStateMode ::
  "persistedState option \<Rightarrow> request \<Rightarrow> bool \<Rightarrow> persistedState option \<times> decision \<times> go_error option" where
  "mutateStateMode current0 r0 strict =
     (if strict \<and> p_algorithm (r_Policy r0) = FixedWindow \<and>
         \<not> validPersistedMicros (pg_floor (UnixMicro (r_Now r0)) (Microseconds (p_period (r_Policy r0))))
      then (None, zero_Decision, Some ErrOverflow)
      else case state_for current0 r0 strict of
        Inl err \<Rightarrow> (None, zero_Decision, Some err)
      | Inr current \<Rightarrow>
        let r = clamp_now r0 (ps_ObservedMicros current) in
        (case (if strict then strict_prepare current r else Inr current) of
           Inl err \<Rightarrow> (None, zero_Decision, Some err)
         | Inr current \<Rightarrow>
           let current = current\<lparr>ps_ObservedMicros := UnixMicro (r_Now r), ps_Revision := p_revision (r_Policy r)\<rparr>;
               (next, d, err) =
                 (case p_algorithm (r_Policy r) of
                    TokenBucket \<Rightarrow> mutateToken current r
                  | FixedWindow \<Rightarrow> mutateFixed current r
                  | _ \<Rightarrow> if \<not> strict then mutateSlidingLegacy current r else mutateSliding current r)
           in (Some next, d, err)))"

definition mutateState :: "persistedState option \<Rightarrow> request \<Rightarrow> persistedState option \<times> decision \<times> go_error option" where
  "mutateState current r = mutateStateMode current r True"

definition mutateStateLegacy :: "persistedState option \<Rightarrow> request \<Rightarrow> persistedState option \<times> decision \<times> go_error option" where
  "mutateStateLegacy current r = mutateStateMode current r False"

section \<open>Leases\<close>

definition validLeaseDigest :: "string \<Rightarrow> bool" where
  "validLeaseDigest digest =
     (if length digest \<noteq> 64 then False
      else list_all (\<lambda>c. \<not> ((c < CHR ''0'' \<or> c > CHR ''9'') \<and> (c < CHR ''a'' \<or> c > CHR ''f''))) digest)"

fun concurrencyLoop :: "(string \<times> persistedLease) list \<Rightarrow> uint64 \<Rightarrow> bool" where
  "concurrencyLoop [] acc = True"
| "concurrencyLoop ((digest, l) # ls) acc =
     (if \<not> validLeaseDigest digest then False
      else if pl_Cost l = 0 then False
      else if pl_Cost l > MaxConcurrencyLeases then False
      else if pl_Cost l > MaxConcurrencyLeases - acc then False
      else if \<not> validPersistedMicros (pl_ExpiresMicros l) then False
      else concurrencyLoop ls (acc + pl_Cost l))"

definition validateConcurrencyState :: "persistedState \<Rightarrow> string \<Rightarrow> go_error option" where
  "validateConcurrencyState current policyID =
     (if ps_Schema current \<noteq> stateSchema then Some ErrCorrupt
      else if ps_PolicyID current \<noteq> policyID then Some ErrCorrupt
      else if ps_Algorithm current \<noteq> Concurrency then Some ErrCorrupt
      else if \<not> validPersistedMicros (ps_ObservedMicros current) then Some ErrCorrupt
      else if concurrencyLoop (ps_Leases current) 0 then None else Some ErrCorrupt)"

definition postgresLease :: "leaseRequest \<Rightarrow> time \<Rightarrow> lease" where
  "postgresLease lr expiresAt =
     \<lparr>l_ID = lr_LeaseID lr, l_Key = r_Key (lr_Request lr), l_PolicyID = p_id (r_Policy (lr_Request lr)),
      l_PolicyRevision = p_revision (r_Policy (lr_Request lr)), l_Cost = r_Cost (lr_Request lr),
      l_ExpiresAt = expiresAt, l_Backend = ''postgres''\<rparr>"

text \<open>The loop over the leases: the live ones, their cost, the earliest expiry; \<open>None\<close> for corrupt.\<close>

fun pruneLeases :: "int \<Rightarrow> (string \<times> persistedLease) list \<Rightarrow> uint64 \<Rightarrow> int \<Rightarrow>
    ((string \<times> persistedLease) list \<times> uint64 \<times> int) option" where
  "pruneLeases now [] used earliest = Some ([], used, earliest)"
| "pruneLeases now ((k, l) # ls) used earliest =
     (if pl_ExpiresMicros l \<le> now then pruneLeases now ls used earliest
      else if pl_Cost l = 0 then None
      else if pl_Cost l > MaxConcurrencyLeases then None
      else if used > MaxConcurrencyLeases - pl_Cost l then None
      else map_option (\<lambda>(ls', u, e). ((k, l) # ls', u, e))
             (pruneLeases now ls (used + pl_Cost l) (min earliest (pl_ExpiresMicros l))))"

definition lease_state_for :: "persistedState option \<Rightarrow> request \<Rightarrow> bool \<Rightarrow> go_error + persistedState" where
  "lease_state_for current r strict =
     (case current of
        None \<Rightarrow> Inr (zero_persistedState\<lparr>ps_Schema := stateSchema, ps_PolicyID := p_id (r_Policy r),
                  ps_Revision := p_revision (r_Policy r), ps_Algorithm := Concurrency\<rparr>)
      | Some st \<Rightarrow>
        if ps_Schema st \<noteq> stateSchema then Inl ErrCorrupt
        else if ps_PolicyID st \<noteq> p_id (r_Policy r) then Inl ErrCorrupt
        else if ps_Algorithm st \<noteq> Concurrency then Inl ErrCorrupt
        else case (if strict then validateConcurrencyState st (p_id (r_Policy r)) else None) of
          Some err \<Rightarrow> Inl err
        | None \<Rightarrow> Inr st)"

text \<open>The decision on a pruned state.\<close>

definition decideLease ::
  "persistedState \<Rightarrow> leaseRequest \<Rightarrow> string \<Rightarrow> uint64 \<Rightarrow> int \<Rightarrow> persistedState \<times> lease \<times> decision \<times> go_error option" where
  "decideLease current lr digest used earliest =
     (let r = lr_Request lr; limit = Limit (r_Policy r); remaining = limit - min used limit in
      case map_of (ps_Leases current) digest of
        Some existing \<Rightarrow>
          if pl_Cost existing \<noteq> r_Cost r then (current, zero_Lease, zero_Decision, Some ErrLeaseNotOwned)
          else let l = postgresLease lr (time_UnixMicro (pl_ExpiresMicros existing)) in
            (current, l,
             zero_Decision\<lparr>d_Allowed := True, d_Limit := limit, d_Remaining := remaining, d_Reset := l_ExpiresAt l,
               d_Reason := ReasonAllowed\<rparr>, None)
      | None \<Rightarrow>
          if r_Cost r > remaining
          then let reset = time_UnixMicro earliest in
            (current, zero_Lease,
             zero_Decision\<lparr>d_Allowed := False, d_Limit := limit, d_Remaining := remaining, d_Reset := reset,
               d_RetryAfter := max (time_Sub reset (r_Now r)) 0, d_Reason := ReasonLimited\<rparr>, Some ErrRejected)
          else let expiresAt = time_Add (r_Now r) (p_lease (r_Policy r)) in
            (current\<lparr>ps_Leases := AList.update digest
               \<lparr>pl_Cost = r_Cost r, pl_ExpiresMicros = UnixMicro expiresAt\<rparr> (ps_Leases current)\<rparr>,
             postgresLease lr expiresAt,
             zero_Decision\<lparr>d_Allowed := True, d_Limit := limit, d_Remaining := remaining - r_Cost r,
               d_Reset := expiresAt, d_Reason := ReasonAllowed\<rparr>, None))"

definition mutateLeaseMode ::
  "persistedState option \<Rightarrow> leaseRequest \<Rightarrow> string \<Rightarrow> bool \<Rightarrow> persistedState option \<times> lease \<times> decision \<times> go_error option" where
  "mutateLeaseMode current0 lr0 digest strict =
     (case lease_state_for current0 (lr_Request lr0) strict of
        Inl err \<Rightarrow> (None, zero_Lease, zero_Decision, Some err)
      | Inr current \<Rightarrow>
        let lr = lr0\<lparr>lr_Request := clamp_now (lr_Request lr0) (ps_ObservedMicros current)\<rparr>;
            r = lr_Request lr; now = max (UnixMicro (r_Now (lr_Request lr0))) (ps_ObservedMicros current)
        in case (if strict then validateServerClockRange (r_Now r) (p_lease (r_Policy r)) else None) of
             Some err \<Rightarrow> (None, zero_Lease, zero_Decision, Some err)
           | None \<Rightarrow>
             let current = current\<lparr>ps_Revision := p_revision (r_Policy r), ps_ObservedMicros := now\<rparr> in
             (case pruneLeases now (ps_Leases current) 0 MaxInt64 of
                None \<Rightarrow> (None, zero_Lease, zero_Decision, Some ErrCorrupt)
              | Some (ls, used, earliest) \<Rightarrow>
                let (next, l, d, err) = decideLease (current\<lparr>ps_Leases := ls\<rparr>) lr digest used earliest
                in (Some next, l, d, err)))"

definition mutateLease :: "persistedState option \<Rightarrow> leaseRequest \<Rightarrow> string \<Rightarrow> persistedState option \<times> lease \<times> decision \<times> go_error option" where
  "mutateLease current lr digest = mutateLeaseMode current lr digest True"

definition mutateLeaseLegacy :: "persistedState option \<Rightarrow> leaseRequest \<Rightarrow> string \<Rightarrow> persistedState option \<times> lease \<times> decision \<times> go_error option" where
  "mutateLeaseLegacy current lr digest = mutateLeaseMode current lr digest False"

section \<open>The stored document\<close>

record wireState =
  wi_Schema :: int
  wi_PolicyID :: string
  wi_Revision :: string
  wi_Algorithm :: algorithm
  wi_Tokens :: int
  wi_Remainder :: int
  wi_LastMicros :: int
  wi_ObservedMicros :: int
  wi_Window :: int
  wi_Used :: int
  wi_Segments :: "(int \<times> int) list"
  wi_Leases :: "(string \<times> int \<times> int) list"
  wi_Unknown :: bool
  wi_Trailing :: bool

datatype document = NotJSON | Document wireState

definition encodeState :: "persistedState \<Rightarrow> document" where
  "encodeState st =
     (let wire = (if usesWindowMetadata (ps_Algorithm st) \<and> ps_PeriodMicros st \<noteq> 0
                  then st\<lparr>ps_Remainder := uint64_of (ps_PeriodMicros st),
                          ps_LastMicros := (if ps_Carried st then 1 else 0)\<rparr>
                  else st)
      in Document
        \<lparr>wi_Schema = ps_Schema wire, wi_PolicyID = ps_PolicyID wire, wi_Revision = ps_Revision wire,
         wi_Algorithm = ps_Algorithm wire, wi_Tokens = uint (ps_Tokens wire),
         wi_Remainder = uint (ps_Remainder wire), wi_LastMicros = ps_LastMicros wire,
         wi_ObservedMicros = ps_ObservedMicros wire, wi_Window = ps_Window wire, wi_Used = uint (ps_Used wire),
         wi_Segments = map (\<lambda>g. (sg_Index g, uint (sg_Used g))) (ps_Segments wire),
         wi_Leases = map (\<lambda>(k, l). (k, uint (pl_Cost l), pl_ExpiresMicros l)) (ps_Leases wire),
         wi_Unknown = False, wi_Trailing = False\<rparr>)"

definition stateDecodeError :: "bool \<Rightarrow> go_error \<Rightarrow> go_error" where
  "stateDecodeError strict err = (if strict then PersistedStateError err else err)"

definition uint64_number :: "int \<Rightarrow> bool" where
  "uint64_number n \<longleftrightarrow> 0 \<le> n \<and> n < 18446744073709551616"

text \<open>Every number fits the field it is decoded into.\<close>

definition numbers_fit :: "wireState \<Rightarrow> bool" where
  "numbers_fit w \<longleftrightarrow>
     int64_range (wi_Schema w) \<and> uint64_number (wi_Tokens w) \<and> uint64_number (wi_Remainder w) \<and>
     int64_range (wi_LastMicros w) \<and> int64_range (wi_ObservedMicros w) \<and> int64_range (wi_Window w) \<and>
     uint64_number (wi_Used w) \<and> list_all (\<lambda>(i, u). int64_range i \<and> uint64_number u) (take stateSegments (wi_Segments w)) \<and>
     list_all (\<lambda>(k, c, e). uint64_number c \<and> int64_range e) (wi_Leases w)"

text \<open>
  \<open>encoding/json\<close> into the struct: an array shorter than sixteen segments is padded
  with zero values and a longer one cut off.
\<close>

definition unmarshal :: "wireState \<Rightarrow> persistedState" where
  "unmarshal w =
     \<lparr>ps_Schema = wi_Schema w, ps_PolicyID = wi_PolicyID w, ps_Revision = wi_Revision w, ps_Algorithm = wi_Algorithm w,
      ps_Tokens = uint64_of (wi_Tokens w), ps_Remainder = uint64_of (wi_Remainder w), ps_LastMicros = wi_LastMicros w,
      ps_ObservedMicros = wi_ObservedMicros w, ps_Window = wi_Window w, ps_Used = uint64_of (wi_Used w),
      ps_PeriodMicros = 0, ps_Carried = False,
      ps_Segments = take stateSegments
        (map (\<lambda>(i, u). \<lparr>sg_Index = i, sg_Used = uint64_of u\<rparr>) (wi_Segments w) @
         replicate stateSegments zero_persistedSegment),
      ps_Leases = map (\<lambda>(k, c, e). (k, \<lparr>pl_Cost = uint64_of c, pl_ExpiresMicros = e\<rparr>)) (wi_Leases w)\<rparr>"

definition corrupt :: "bool \<Rightarrow> string \<Rightarrow> go_error + persistedState" where
  "corrupt strict what = Inl (stateDecodeError strict (Wrapped what ErrCorrupt))"

definition decodeStateMode :: "document \<Rightarrow> bool \<Rightarrow> go_error + persistedState" where
  "decodeStateMode encoded strict =
     (case encoded of
        NotJSON \<Rightarrow> corrupt strict ''decode state''
      | Document w \<Rightarrow>
        if strict \<and> wi_Trailing w then corrupt strict ''decode state''
        else if strict \<and> length (wi_Segments w) \<noteq> stateSegments then corrupt strict ''invalid segment shape''
        else if wi_Unknown w \<or> \<not> numbers_fit w then corrupt strict ''decode state''
        else if wi_Trailing w then corrupt strict ''trailing state data''
        else let st = unmarshal w in
        if ps_Schema st \<noteq> stateSchema then corrupt strict ''invalid state identity''
        else if ps_PolicyID st = '''' then corrupt strict ''invalid state identity''
        else if ps_Algorithm st = UnknownAlgorithm '''' then corrupt strict ''invalid state identity''
        else if strict \<and> usesWindowMetadata (ps_Algorithm st) \<and> ps_Remainder st \<noteq> 0
        then (if ps_Remainder st > uint64_of maxExactMicros \<or> (ps_LastMicros st \<noteq> 0 \<and> ps_LastMicros st \<noteq> 1)
              then corrupt strict ''invalid window metadata''
              else Inr (st\<lparr>ps_PeriodMicros := int64_of (ps_Remainder st), ps_Carried := (ps_LastMicros st = 1)\<rparr>))
        else Inr st)"

definition decodeState :: "document \<Rightarrow> go_error + persistedState" where
  "decodeState encoded = decodeStateMode encoded True"

definition decodeStateLegacy :: "document \<Rightarrow> go_error + persistedState" where
  "decodeStateLegacy encoded = decodeStateMode encoded False"

end
