(* ===== verification/Postgres_Token.thy ===== *)
theory Postgres_Token
  imports Postgres_State
begin

text \<open>
  The token bucket of \<^verbatim>\<open>postgres/state.go\<close> meets the contract of theory
  \<open>Token_Bucket\<close>. It compares the refilled tokens with the gap before it adds, so it
  needs no bound on the rate, unlike the memory backend.
\<close>

definition pg_token_inv :: "policy \<Rightarrow> persistedState \<Rightarrow> bool" where
  "pg_token_inv p st \<longleftrightarrow> token_policy p \<and> unat (ps_Tokens st) \<le> unat (Limit p) \<and>
     unat (ps_Remainder st) < period_us p \<and> (ps_Tokens st = Limit p \<longrightarrow> ps_Remainder st = 0)"

definition pg_level :: "policy \<Rightarrow> persistedState \<Rightarrow> nat" where
  "pg_level p st = unat (ps_Tokens st) * period_us p + unat (ps_Remainder st)"

lemma pg_level_bound: "pg_token_inv p st \<Longrightarrow> pg_level p st \<le> unat (Limit p) * period_us p"
proof (cases "ps_Tokens st = Limit p")
  case True
  assume "pg_token_inv p st"
  then show ?thesis using True by (simp add: pg_token_inv_def pg_level_def)
next
  case False
  assume i: "pg_token_inv p st"
  then have "Suc (unat (ps_Tokens st)) \<le> unat (Limit p)" using False by (simp add: pg_token_inv_def u64_eq)
  then have "Suc (unat (ps_Tokens st)) * period_us p \<le> unat (Limit p) * period_us p" by (rule mult_le_mono1)
  then show ?thesis using i by (simp add: pg_token_inv_def pg_level_def)
qed

lemma elapsed_test: "time_Sub (time_UnixMicro t) (time_UnixMicro l) \<ge> Microsecond \<longleftrightarrow> l < t"
  by (auto simp: time_Sub_def time_UnixMicro_def)

text \<open>The branches of \<open>replenish\<close> on naturals.\<close>

lemma replenish_more:
  assumes inv: "pg_token_inv (r_Policy r) st" and later: "ps_LastMicros st < UnixMicro (r_Now r)"
    and not_full: "ps_Tokens st \<noteq> Limit (r_Policy r)"
  defines "es \<equiv> min 9223372036854775 (nat (UnixMicro (r_Now r) - ps_LastMicros st))"
  shows "pg_level (r_Policy r) (replenish st r) = min (unat (Limit (r_Policy r)) * period_us (r_Policy r))
      (pg_level (r_Policy r) st + es * unat (p_capacity (r_Policy r)))"
    "pg_token_inv (r_Policy r) (replenish st r)" "ps_LastMicros (replenish st r) = UnixMicro (r_Now r)"
proof -
  let ?p = "r_Policy r" and ?lim = "unat (Limit (r_Policy r))" and ?per = "period_us (r_Policy r)"
  have p: "token_policy ?p" and t: "unat (ps_Tokens st) \<le> ?lim" using inv by (simp_all add: pg_token_inv_def)
  note pf = token_policy_facts [OF p]
  define period where "period = uint64_of (Microseconds (p_period ?p))"
  define elapsed where
    "elapsed = uint64_of (Microseconds (time_Sub (time_UnixMicro (UnixMicro (r_Now r))) (time_UnixMicro (ps_LastMicros st))))"
  obtain high low where d: "dword_add (bits_Mul64 elapsed (p_capacity ?p)) (ps_Remainder st) = (high, low)"
    by (cases "dword_add (bits_Mul64 elapsed (p_capacity ?p)) (ps_Remainder st)")
  have per: "unat period = ?per" using pf(7) by (simp add: period_def)
  have "time_UnixMicro (ps_LastMicros st) < time_UnixMicro (UnixMicro (r_Now r))" using later by (simp add: time_UnixMicro_def)
  note el0 = elapsed_us [OF this, folded elapsed_def]
  have "(time_UnixMicro a - time_UnixMicro b) div 1000 = a - b" for a b
    unfolding time_UnixMicro_def left_diff_distrib [symmetric] by simp
  then have el: "unat elapsed = es" using el0 by (simp add: es_def)
  define n where "n = es * unat (p_capacity ?p) + unat (ps_Remainder st)"
  have n: "dword high low = n" using dword_refill [OF _ _ d] el pf by (simp add: n_def es_def)
  obtain added remainder where dv: "bits_Div64 high low period = (added, remainder)" by (cases "bits_Div64 high low period")
  have less: "ps_Tokens st < Limit ?p" using t not_full by (simp add: u64_less u64_eq)
  have r: "replenish st r = (if high \<ge> period \<or> added \<ge> Limit ?p - ps_Tokens st
      then st\<lparr>ps_Tokens := Limit ?p, ps_Remainder := 0, ps_LastMicros := UnixMicro (r_Now r)\<rparr>
      else st\<lparr>ps_Tokens := ps_Tokens st + added, ps_Remainder := remainder, ps_LastMicros := UnixMicro (r_Now r)\<rparr>)"
    unfolding replenish_def Let_def elapsed_test using later less d dv by (simp add: period_def elapsed_def)
  have gap: "unat (Limit ?p - ps_Tokens st) = ?lim - unat (ps_Tokens st)" using t by (rule u64_sub)
  have arith: "min (?lim * ?per) (pg_level ?p st + es * unat (p_capacity ?p)) =
      (if unat (ps_Tokens st) + n div ?per \<ge> ?lim then ?lim * ?per
       else (unat (ps_Tokens st) + n div ?per) * ?per + n mod ?per)"
    unfolding n_def pg_level_def by (rule refill_arith [OF pf(1), symmetric])
  have full: "high \<ge> period \<or> added \<ge> Limit ?p - ps_Tokens st \<longleftrightarrow> unat (ps_Tokens st) + n div ?per \<ge> ?lim"
    and small: "\<not> high \<ge> period \<Longrightarrow> unat added = n div ?per \<and> unat remainder = n mod ?per"
  proof -
    show s: "\<not> high \<ge> period \<Longrightarrow> unat added = n div ?per \<and> unat remainder = n mod ?per"
      using dword_high_ge [of period high low] Div64_fst [of high low period] Div64_snd [of period high low] dv n per pf
      by (simp add: u64_le)
    show "high \<ge> period \<or> added \<ge> Limit ?p - ps_Tokens st \<longleftrightarrow> unat (ps_Tokens st) + n div ?per \<ge> ?lim"
    proof (cases "high \<ge> period")
      case True
      then have "?per * 2 ^ 64 \<le> n" using dword_high_ge [of period high low] n per by (simp add: u64_le)
      then have "?per * 2 ^ 64 div ?per \<le> n div ?per" by (rule div_le_mono)
      then have "2 ^ 64 \<le> n div ?per" using pf(1) by (simp only: nonzero_mult_div_cancel_left neq0_conv)
      then have "?lim \<le> unat (ps_Tokens st) + n div ?per" using pf(6) by simp
      then show ?thesis using True by blast
    next
      case False
      then show ?thesis using s gap by (auto simp: u64_le)
    qed
  qed
  show "ps_LastMicros (replenish st r) = UnixMicro (r_Now r)" using r by simp
  have "pg_level ?p (replenish st r) = min (?lim * ?per) (pg_level ?p st + es * unat (p_capacity ?p)) \<and>
    pg_token_inv ?p (replenish st r)"
  proof (cases "unat (ps_Tokens st) + n div ?per \<ge> ?lim")
    case True
    then have e: "replenish st r = st\<lparr>ps_Tokens := Limit ?p, ps_Remainder := 0, ps_LastMicros := UnixMicro (r_Now r)\<rparr>"
      using r full by simp
    show ?thesis unfolding arith using True p pf by (simp add: e pg_level_def pg_token_inv_def)
  next
    case False
    then have h: "\<not> high \<ge> period" and e: "replenish st r =
        st\<lparr>ps_Tokens := ps_Tokens st + added, ps_Remainder := remainder, ps_LastMicros := UnixMicro (r_Now r)\<rparr>"
      using r full by auto
    note small = small [OF h]
    have sum: "unat (ps_Tokens st + added) = unat (ps_Tokens st) + n div ?per"
      using small False pf(6) by (subst u64_add) simp_all
    show ?thesis
      unfolding arith using p pf small sum False by (auto simp: e pg_level_def pg_token_inv_def u64_eq)
  qed
  then show "pg_level ?p (replenish st r) = min (?lim * ?per) (pg_level ?p st + es * unat (p_capacity ?p))"
    "pg_token_inv ?p (replenish st r)" by blast+
qed

lemma replenish_level:
  assumes inv: "pg_token_inv (r_Policy r) st" and now: "ps_LastMicros st \<le> UnixMicro (r_Now r)"
  shows "pg_token_inv (r_Policy r) (replenish st r)" "ps_LastMicros (replenish st r) = UnixMicro (r_Now r)"
    "pg_level (r_Policy r) (replenish st r) = min (unat (Limit (r_Policy r)) * period_us (r_Policy r))
      (pg_level (r_Policy r) st + unat (p_capacity (r_Policy r)) * nat (UnixMicro (r_Now r) - ps_LastMicros st))"
proof -
  let ?p = "r_Policy r"
  have p: "token_policy ?p" using inv by (simp add: pg_token_inv_def)
  note pf = token_policy_facts [OF p]
  have "pg_token_inv ?p (replenish st r) \<and> ps_LastMicros (replenish st r) = UnixMicro (r_Now r) \<and>
    pg_level ?p (replenish st r) = min (unat (Limit ?p) * period_us ?p)
      (pg_level ?p st + unat (p_capacity ?p) * nat (UnixMicro (r_Now r) - ps_LastMicros st))"
  proof (cases "ps_LastMicros st < UnixMicro (r_Now r) \<and> ps_Tokens st \<noteq> Limit ?p")
    case True
    then show ?thesis
      using replenish_more [OF inv] saturated_elapsed [OF pf(2,4), of "pg_level ?p st"] by (simp add: mult.commute)
  next
    case False
    then have e: "replenish st r = (if ps_LastMicros st < UnixMicro (r_Now r) then st\<lparr>ps_LastMicros := UnixMicro (r_Now r)\<rparr> else st)"
      by (auto simp: replenish_def Let_def elapsed_test)
    show ?thesis
    proof (cases "ps_LastMicros st < UnixMicro (r_Now r)")
      case True
      then have "ps_Tokens st = Limit ?p" "ps_Remainder st = 0" using False inv by (auto simp: pg_token_inv_def)
      then show ?thesis using True e inv by (simp add: pg_token_inv_def pg_level_def)
    next
      case False
      then show ?thesis using e now inv pg_level_bound [OF inv] by simp
    qed
  qed
  then show "pg_token_inv ?p (replenish st r)" "ps_LastMicros (replenish st r) = UnixMicro (r_Now r)"
    "pg_level ?p (replenish st r) = min (unat (Limit ?p) * period_us ?p)
      (pg_level ?p st + unat (p_capacity ?p) * nat (UnixMicro (r_Now r) - ps_LastMicros st))" by blast+
qed

lemma mutateToken_law:
  assumes inv: "pg_token_inv (r_Policy r) st" and now: "ps_LastMicros st \<le> UnixMicro (r_Now r)"
    and cost: "0 < unat (r_Cost r)" and adm: "mutateToken st r = (st', d, err)"
  defines "refilled \<equiv> min (unat (Limit (r_Policy r)) * period_us (r_Policy r))
      (pg_level (r_Policy r) st + unat (p_capacity (r_Policy r)) * nat (UnixMicro (r_Now r) - ps_LastMicros st))"
  shows "pg_token_inv (r_Policy r) st'" "ps_LastMicros st' = UnixMicro (r_Now r)"
    "err = None \<longleftrightarrow> unat (r_Cost r) * period_us (r_Policy r) \<le> refilled"
    "pg_level (r_Policy r) st' + (if err = None then unat (r_Cost r) * period_us (r_Policy r) else 0) = refilled"
proof -
  let ?p = "r_Policy r" and ?s = "replenish st r" and ?c = "unat (r_Cost r)"
  note rl = replenish_level [OF inv now, folded refilled_def]
  have rem: "unat (ps_Remainder ?s) < period_us ?p" using rl by (simp add: pg_token_inv_def)
  have err: "err = None \<longleftrightarrow> ?c \<le> unat (ps_Tokens ?s)"
    using adm by (auto simp: mutateToken_def Let_def u64_less split: if_splits)
  have st': "st' = (if err = None then ?s\<lparr>ps_Tokens := ps_Tokens ?s - r_Cost r\<rparr> else ?s)"
    using adm by (auto simp: mutateToken_def Let_def split: if_splits)
  have sub: "err = None \<Longrightarrow> unat (ps_Tokens ?s - r_Cost r) = unat (ps_Tokens ?s) - ?c"
    using err by (simp add: u64_sub)
  show "ps_LastMicros st' = UnixMicro (r_Now r)" using st' rl by simp
  show "err = None \<longleftrightarrow> ?c * period_us ?p \<le> refilled"
    using level_covers [OF rem, of ?c "unat (ps_Tokens ?s)"] rl err by (simp add: pg_level_def)
  show "pg_token_inv ?p st'"
    using rl st' err sub cost by (auto simp: pg_token_inv_def u64_eq)
  show "pg_level ?p st' + (if err = None then ?c * period_us ?p else 0) = refilled"
  proof (cases "err = None")
    case True
    then have "?c * period_us ?p \<le> unat (ps_Tokens ?s) * period_us ?p" using err by (intro mult_le_mono1) simp
    moreover have "pg_level ?p st' = unat (ps_Tokens ?s) * period_us ?p - ?c * period_us ?p + unat (ps_Remainder ?s)"
      using st' True sub by (simp add: pg_level_def diff_mult_distrib)
    moreover have "unat (ps_Tokens ?s) * period_us ?p + unat (ps_Remainder ?s) = refilled"
      using rl by (simp add: pg_level_def)
    ultimately show ?thesis unfolding if_P [OF True] by linarith
  qed (use rl st' in auto)
qed

definition pg_token_step :: "policy \<Rightarrow> int \<Rightarrow> nat \<Rightarrow> persistedState \<Rightarrow> bool \<times> persistedState" where
  "pg_token_step p t c st = (case mutateToken st (token_request p t c) of (st', d, err) \<Rightarrow> (err = None, st'))"

interpretation pg_bucket:
  token_bucket pg_token_step pg_token_inv pg_level ps_LastMicros "\<lambda>p t. int64_range t" pol_cap period_us pol_lim
proof
  show "pg_token_inv p s \<Longrightarrow> pg_level p s \<le> pol_lim p * period_us p" for p s by (rule pg_level_bound)
next
  fix p s t c b s'
  assume i: "pg_token_inv p s" and t: "int64_range t" "ps_LastMicros s \<le> t" and c: "0 < c" "c \<le> pol_lim p"
    and st: "pg_token_step p t c s = (b, s')"
  let ?r = "token_request p t c"
  obtain d err where a: "mutateToken s ?r = (s', d, err)" and b: "b = (err = None)"
    using st by (auto simp: pg_token_step_def split: prod.splits)
  have "token_policy p" using i by (simp add: pg_token_inv_def)
  then have "unat (of_nat c :: uint64) = c" using c token_policy_facts(6) by (intro u64_of_nat) fastforce
  then have r: "r_Policy ?r = p" "unat (r_Cost ?r) = c" "UnixMicro (r_Now ?r) = t"
    using t by (simp_all add: token_request_def UnixMicro_def time_UnixMicro_def)
  have pre: "pg_token_inv (r_Policy ?r) s" "ps_LastMicros s \<le> UnixMicro (r_Now ?r)" "0 < unat (r_Cost ?r)"
    using i t c r by simp_all
  show "pg_token_inv p s' \<and> ps_LastMicros s' = t \<and>
    (b \<longleftrightarrow> c * period_us p \<le> min (pol_lim p * period_us p) (pg_level p s + pol_cap p * nat (t - ps_LastMicros s))) \<and>
    pg_level p s' + (if b then c * period_us p else 0) =
      min (pol_lim p * period_us p) (pg_level p s + pol_cap p * nat (t - ps_LastMicros s))"
    using mutateToken_law [OF pre a, unfolded r] b by simp
qed

end
