(* ===== verification/Postgres_Window.thy ===== *)
theory Postgres_Window
  imports Postgres_Token
begin

text \<open>
  The fixed and sliding windows of \<^verbatim>\<open>postgres/state.go\<close> on microseconds:
  \<open>mutateFixed\<close>, \<open>mutateSliding\<close> and \<open>mutateSlidingLegacy\<close>. A state may hold more
  than the limit of the policy in use, after a revision lowered it.
\<close>

section \<open>Arithmetic\<close>

lemma pg_floor_i64:
  assumes "0 < width" "int64_range v"
  shows "pg_floor v width = i64 (v div width * width)"
proof (cases "v smod width = 0")
  case True
  then show ?thesis using assms by (simp add: pg_floor_def sdiv_exact Let_def)
next
  case False
  show ?thesis
  proof (cases "v < 0")
    case True
    then have "v sdiv width - 1 = v div width" using assms False by (intro sdiv_neg_inexact)
    then show ?thesis using False True shift63 [OF assms(2)] by (simp add: pg_floor_def Let_def)
  next
    case nn: False
    then have "v sdiv width = v div width" using assms by (simp add: sdiv_nonneg)
    then show ?thesis using False nn shift63 [OF assms(2)] by (simp add: pg_floor_def Let_def)
  qed
qed

lemma pg_floor_floor:
  "0 < width \<Longrightarrow> int64_range v \<Longrightarrow> int64_range (v div width * width) \<Longrightarrow> pg_floor v width = v div width * width"
  by (simp add: pg_floor_i64)

lemma positiveRemainder_slot: "positiveRemainder i (int stateSegments) = seg_slot i"
proof -
  have "i smod 16 \<in> {- 16 + 1..16 - 1}" using smod_int_range [of 16 i] by simp
  then have "i smod 16 div 2 ^ 63 = - 1 \<longleftrightarrow> i smod 16 < 0"
    by (intro shift63 int64_rangeI) auto
  then show ?thesis
    using positiveMod_mod [of 16 i]
    by (simp add: positiveRemainder_def positiveMod_def stateSegments_def seg_slot_def Let_def)
qed

text \<open>Policies with a window, and the server instants in microseconds they allow.\<close>

definition windowed :: "policy \<Rightarrow> bool" where
  "windowed p \<longleftrightarrow> policy_wf p \<and> usesWindowMetadata (p_algorithm p)"

definition server_range :: "policy \<Rightarrow> int \<Rightarrow> bool" where
  "server_range p t \<longleftrightarrow> - maxExactMicros \<le> t \<and> t + int (period_us p) \<le> maxExactMicros"

lemma windowed_period:
  assumes "policy_wf p" "p_algorithm p \<noteq> Concurrency"
  shows "Microseconds (p_period p) = int (period_us p)" "0 < int (period_us p)" "int (period_us p) \<le> maxExactMicros"
    "p_period p = int (period_us p) * 1000"
  using policy_wf_period [OF assms] by (simp_all add: maxExactMicros_def)

lemma windowed_facts:
  assumes "windowed p"
  shows "policy_wf p" "p_algorithm p \<noteq> Concurrency"
  using assms by (auto simp: windowed_def usesWindowMetadata_def)

lemma server_range_check:
  assumes "policy_wf p" "p_algorithm p \<noteq> Concurrency"
  shows "validateServerClockRange now (p_period p) = None \<longleftrightarrow> server_range p (UnixMicro now)"
proof -
  note w = windowed_period [OF assms]
  have "int64_range (maxExactMicros - int (period_us p))" using w by (intro int64_rangeI) (simp_all add: maxExactMicros_def)
  then show ?thesis using w by (auto simp: validateServerClockRange_def server_range_def Let_def)
qed

section \<open>Consumption\<close>

lemma consume_law:
  assumes "policy_wf (r_Policy r)" "0 < unat (r_Cost r)" and "consume st r reset = (st', d, err)"
  shows "err = None \<longleftrightarrow> unat (ps_Used st) + unat (r_Cost r) \<le> unat (Limit (r_Policy r))"
    "st' = (if err = None then st\<lparr>ps_Used := ps_Used st + r_Cost r\<rparr> else st)"
    "unat (ps_Used st') = unat (ps_Used st) + (if err = None then unat (r_Cost r) else 0)"
    "err = None \<or> err = Some ErrRejected"
proof -
  note lim = policy_wf_Limit_bound [OF assms(1)]
  have rem: "unat (Limit (r_Policy r) - min (ps_Used st) (Limit (r_Policy r))) = unat (Limit (r_Policy r)) - unat (ps_Used st)"
    by (subst u64_sub) (simp_all add: u64_min)
  show c: "err = None \<longleftrightarrow> unat (ps_Used st) + unat (r_Cost r) \<le> unat (Limit (r_Policy r))"
    using assms rem by (auto simp: consume_def Let_def u64_less split: if_splits)
  show st': "st' = (if err = None then st\<lparr>ps_Used := ps_Used st + r_Cost r\<rparr> else st)"
    using assms(3) by (auto simp: consume_def Let_def split: if_splits)
  show "unat (ps_Used st') = unat (ps_Used st) + (if err = None then unat (r_Cost r) else 0)"
    using c lim by (auto simp: st' u64_add)
  show "err = None \<or> err = Some ErrRejected" using assms(3) by (auto simp: consume_def Let_def split: if_splits)
qed

section \<open>Fixed windows\<close>

definition pg_window :: "policy \<Rightarrow> int \<Rightarrow> int" where
  "pg_window p t = t div int (period_us p)"

definition pg_fixed_count :: "policy \<Rightarrow> persistedState \<Rightarrow> int \<Rightarrow> nat" where
  "pg_fixed_count p st w = (if ps_Window st = w * int (period_us p) then unat (ps_Used st) else 0)"

lemma pg_window_range:
  assumes "windowed p" "server_range p t"
  shows "pg_floor t (Microseconds (p_period p)) = pg_window p t * int (period_us p)"
    "int64_range (pg_window p t * int (period_us p) + int (period_us p))"
    "pg_window p t * int (period_us p) \<le> maxExactMicros"
proof -
  note w = windowed_period [OF windowed_facts [OF assms(1)]]
  have t: "- 9007199254740991 \<le> t" "t + int (period_us p) \<le> 9007199254740991"
    using assms(2) by (simp_all add: server_range_def maxExactMicros_def)
  have m: "t - int (period_us p) < pg_window p t * int (period_us p) \<and> pg_window p t * int (period_us p) \<le> t"
    unfolding pg_window_def by (rule floor_multiple_bounds [OF w(2)])
  have per: "int (period_us p) \<le> 9007199254740991" using w by (simp add: maxExactMicros_def)
  have r: "int64_range t" "int64_range (pg_window p t * int (period_us p))"
    "int64_range (pg_window p t * int (period_us p) + int (period_us p))"
    using t m per w(2) by (intro int64_rangeI; linarith)+
  show "pg_floor t (Microseconds (p_period p)) = pg_window p t * int (period_us p)"
    using pg_floor_floor [OF w(2) r(1)] r(2) w(1) by (simp add: pg_window_def)
  show "int64_range (pg_window p t * int (period_us p) + int (period_us p))" by (rule r)
  show "pg_window p t * int (period_us p) \<le> maxExactMicros" using m t w(2) by (simp add: maxExactMicros_def)
qed

lemma mutateFixed_law:
  assumes p: "windowed (r_Policy r)" and t: "server_range (r_Policy r) (UnixMicro (r_Now r))"
    and c: "0 < unat (r_Cost r)" and adm: "mutateFixed st r = (st', d, err)"
  defines "w \<equiv> pg_window (r_Policy r) (UnixMicro (r_Now r))"
  shows "err = None \<longleftrightarrow> pg_fixed_count (r_Policy r) st w + unat (r_Cost r) \<le> unat (Limit (r_Policy r))"
    "pg_fixed_count (r_Policy r) st' w = pg_fixed_count (r_Policy r) st w + (if err = None then unat (r_Cost r) else 0)"
    "\<exists>u. st' = st\<lparr>ps_Window := w * int (period_us (r_Policy r)), ps_Used := u,
       ps_Carried := unat u > unat (Limit (r_Policy r))\<rparr> \<and> unat u = pg_fixed_count (r_Policy r) st' w"
    "err = None \<or> err = Some ErrRejected"
proof -
  let ?p = "r_Policy r" and ?start = "w * int (period_us (r_Policy r))"
  note wf = windowed_facts(1) [OF p] and win = pg_window_range [OF p t, folded w_def]
  define cur where "cur = (if ps_Window st \<noteq> ?start then st\<lparr>ps_Window := ?start, ps_Used := 0\<rparr> else st)"
  obtain reset st1 where con: "consume cur r reset = (st1, d, err)"
    and st': "st' = st1\<lparr>ps_Carried := usageExceedsLimit (ps_Used st1) (Limit ?p)\<rparr>"
    using adm [unfolded mutateFixed_def Let_def win(1), folded cur_def] by (auto split: prod.splits)
  have cur: "unat (ps_Used cur) = pg_fixed_count ?p st w" "ps_Window cur = ?start"
    by (simp_all add: cur_def pg_fixed_count_def)
  note law = consume_law [OF wf c con]
  have st1: "ps_Window st1 = ?start" "ps_Window st' = ?start" using law(2) cur by (auto simp: st')
  show "err = None \<longleftrightarrow> pg_fixed_count ?p st w + unat (r_Cost r) \<le> unat (Limit ?p)" using law(1) cur by simp
  show cnt: "pg_fixed_count ?p st' w = pg_fixed_count ?p st w + (if err = None then unat (r_Cost r) else 0)"
    using law(3) cur st1 unfolding pg_fixed_count_def [of _ st'] by (simp add: st')
  have "st' = st\<lparr>ps_Window := ?start, ps_Used := ps_Used st1, ps_Carried := unat (ps_Used st1) > unat (Limit ?p)\<rparr>"
    using law(2) by (simp add: st' cur_def usageExceedsLimit_def u64_less split: if_splits)
  moreover have "unat (ps_Used st1) = pg_fixed_count ?p st' w" using st1 by (simp add: pg_fixed_count_def st')
  ultimately show "\<exists>u. st' = st\<lparr>ps_Window := ?start, ps_Used := u, ps_Carried := unat u > unat (Limit ?p)\<rparr> \<and>
      unat u = pg_fixed_count ?p st' w" by blast
  show "err = None \<or> err = Some ErrRejected" by (rule law(4))
qed

section \<open>Sliding windows\<close>

definition pg_width :: "policy \<Rightarrow> int" where
  "pg_width p = (int (period_us p) + 15) div 16"

definition pg_seg :: "policy \<Rightarrow> int \<Rightarrow> int" where
  "pg_seg p t = t div pg_width p"

definition pg_oldest :: "policy \<Rightarrow> int \<Rightarrow> int" where
  "pg_oldest p t = (t - int (period_us p)) div pg_width p"

lemma pg_width_facts:
  assumes "windowed p"
  shows "sliding_width_us p = pg_width p" "0 < pg_width p" "int (period_us p) \<le> 16 * pg_width p"
    "pg_width p \<le> int (period_us p)"
proof -
  note w = windowed_period [OF windowed_facts [OF assms]]
  have b: "1 \<le> int (period_us p)" "int (period_us p) \<le> 9007199254740991" using w by (simp_all add: maxExactMicros_def)
  have e: "int stateSegments = 16" "Microseconds (p_period p) + 16 - 1 = int (period_us p) + 15"
    using w(1) by (simp_all add: stateSegments_def)
  have r: "int64_range (int (period_us p) + 15)" using b by (intro int64_rangeI) linarith+
  show "sliding_width_us p = pg_width p"
    unfolding sliding_width_us_def pg_width_def e i64_id [OF r] using b by (intro sdiv_nonneg) simp_all
  show "0 < pg_width p" "int (period_us p) \<le> 16 * pg_width p" "pg_width p \<le> int (period_us p)"
    using b unfolding pg_width_def by linarith+
qed

lemma pg_floor_index:
  assumes "0 < w" "w \<le> 9007199254740991" "- 18014398509481982 \<le> t" "t \<le> 9007199254740991"
  shows "pg_floor t w sdiv w = t div w"
proof -
  have m: "t - w < t div w * w \<and> t div w * w \<le> t" by (rule floor_multiple_bounds [OF assms(1)])
  have "int64_range t" "int64_range (t div w * w)" using m assms by (intro int64_rangeI; linarith)+
  then show ?thesis using assms(1) by (simp add: pg_floor_floor sdiv_multiple)
qed

lemma pg_index:
  assumes "windowed (r_Policy r)" "server_range (r_Policy r) (UnixMicro (r_Now r))" "micro_range (r_Now r)"
  shows "sliding_index_us r = pg_seg (r_Policy r) (UnixMicro (r_Now r))"
    "sliding_oldest_us r = pg_oldest (r_Policy r) (UnixMicro (r_Now r))"
proof -
  let ?p = "r_Policy r" and ?t = "UnixMicro (r_Now r)"
  note w = pg_width_facts [OF assms(1)] and per = windowed_period [OF windowed_facts [OF assms(1)]]
  have t: "- 9007199254740991 \<le> ?t" "?t + int (period_us ?p) \<le> 9007199254740991" "int (period_us ?p) \<le> 9007199254740991"
    using assms(2) per by (simp_all add: server_range_def maxExactMicros_def)
  have u: "?t = r_Now r div 1000" using assms(3) by (simp add: UnixMicro_def micro_range_def)
  have "(r_Now r - p_period ?p) div 1000 = ?t - int (period_us ?p)"
    unfolding u per(4) using div_mult_self1 [of 1000 "r_Now r" "- int (period_us ?p)"] by simp
  moreover have "int64_range (?t - int (period_us ?p))" using t by (intro int64_rangeI) linarith+
  ultimately have old: "UnixMicro (time_Add (r_Now r) (- p_period ?p)) = ?t - int (period_us ?p)"
    by (simp add: UnixMicro_def time_Add_def)
  show "sliding_index_us r = pg_seg ?p ?t" "sliding_oldest_us r = pg_oldest ?p ?t"
    unfolding sliding_index_us_def sliding_oldest_us_def old w(1) pg_seg_def pg_oldest_def
    using t w per by (intro pg_floor_index; linarith)+
qed

lemma pg_span:
  assumes "windowed p"
  shows "pg_seg p t - 16 \<le> pg_oldest p t" "pg_oldest p t < pg_seg p t"
proof -
  note w = pg_width_facts [OF assms]
  have s: "(t - k * pg_width p) div pg_width p = pg_seg p t - k" for k
    using w(2) div_mult_self1 [of "pg_width p" t "- k"] by (simp add: pg_seg_def)
  have "(t - 16 * pg_width p) div pg_width p \<le> pg_oldest p t"
    unfolding pg_oldest_def using w by (intro zdiv_mono1) linarith+
  then show "pg_seg p t - 16 \<le> pg_oldest p t" by (simp only: s)
  have "pg_oldest p t \<le> (t - 1 * pg_width p) div pg_width p"
    unfolding pg_oldest_def using w by (intro zdiv_mono1) linarith+
  then show "pg_oldest p t < pg_seg p t" by (simp only: s)
qed

text \<open>The segments of a row, in the form of the memory backend.\<close>

definition seg_of :: "persistedSegment \<Rightarrow> segment" where
  "seg_of g = \<lparr>g_index = sg_Index g, g_used = sg_Used g\<rparr>"

abbreviation segs :: "persistedState \<Rightarrow> segment list" where
  "segs st \<equiv> map seg_of (ps_Segments st)"

lemma seg_of_simps [simp]: "g_index (seg_of g) = sg_Index g" "g_used (seg_of g) = sg_Used g"
  by (simp_all add: seg_of_def)

lemma sumSegments_used:
  "unat u + sum_list (map (live oldest) (map seg_of gs)) < 18446744073709551616 \<Longrightarrow>
   unat (fst (sumSegments oldest gs u e)) = unat u + sum_list (map (live oldest) (map seg_of gs))"
proof (induction gs arbitrary: u e)
  case (Cons g gs)
  show ?case
  proof (cases "sg_Index g > oldest")
    case True
    then have "unat (u + sg_Used g) = unat u + unat (sg_Used g)" using Cons.prems by (intro u64_add) (simp add: live_def)
    then show ?thesis using True Cons.IH [of "u + sg_Used g"] Cons.prems by (simp add: live_def)
  next
    case False
    then show ?thesis using Cons.IH [of u e] Cons.prems by (simp add: live_def)
  qed
qed simp

lemma segs_clear: "map seg_of (clearSegments oldest gs) = clear_old oldest (map seg_of gs)"
  by (auto simp: clearSegments_def clear_old_def zero_persistedSegment_def zero_segment_def seg_of_def)

lemma segs_open:
  "length gs = 16 \<Longrightarrow> map seg_of (open_slot (seg_slot i) i gs) = open_seg i (map seg_of gs)"
  by (auto simp: open_slot_def open_seg_def map_update seg_of_def)

lemma segs_bump:
  "length (ps_Segments st) = 16 \<Longrightarrow> segs (bump_segment (seg_slot i) c st) = add_seg i c (segs st)"
  by (simp add: bump_segment_def add_seg_def map_update seg_of_def)

lemma segs_length [simp]:
  "length (clearSegments oldest gs) = length gs" "length (open_slot k i gs) = length gs"
  by (simp_all add: clearSegments_def open_slot_def)

definition pg_sum :: "policy \<Rightarrow> int \<Rightarrow> persistedState \<Rightarrow> nat" where
  "pg_sum p t st = (\<Sum>i\<in>{pg_oldest p t + 1..pg_seg p t}. seg_count (segs st) i)"

lemma mutateSliding_unfold:
  assumes "mutateSliding st r = (st', d, err)" "length (ps_Segments st) = 16"
  defines "i \<equiv> sliding_index_us r" and "oldest \<equiv> sliding_oldest_us r"
  obtains used reset st1 where "used = fst (sumSegments oldest (ps_Segments st) 0 MaxInt64)"
    "consume (st\<lparr>ps_Used := used, ps_Carried := usageExceedsLimit used (Limit (r_Policy r)),
       ps_Segments := open_slot (seg_slot i) i (clearSegments oldest (ps_Segments st))\<rparr>) r reset = (st1, d, err)"
    "st' = (if err = None then bump_segment (seg_slot i) (r_Cost r) st1 else st1)"
proof -
  obtain used e where sc: "sumSegments oldest (ps_Segments st) 0 MaxInt64 = (used, e)"
    by (cases "sumSegments oldest (ps_Segments st) 0 MaxInt64")
  show ?thesis
    using assms(1) that [of used "sliding_reset r e"] sc
    unfolding mutateSliding_def Let_def i_def [symmetric] oldest_def [symmetric] positiveRemainder_slot
    by (auto split: prod.splits)
qed

lemma mutateSliding_law:
  assumes p: "windowed (r_Policy r)" and t: "server_range (r_Policy r) (UnixMicro (r_Now r))" "micro_range (r_Now r)"
    and c: "0 < unat (r_Cost r)" and wf0: "segs_wf L n (segs st)" and n: "n \<le> pg_seg (r_Policy r) (UnixMicro (r_Now r))"
    and L: "unat (Limit (r_Policy r)) \<le> L" "L \<le> 9007199254740991" and adm: "mutateSliding st r = (st', d, err)"
  defines "i \<equiv> pg_seg (r_Policy r) (UnixMicro (r_Now r))" and "oldest \<equiv> pg_oldest (r_Policy r) (UnixMicro (r_Now r))"
    and "usage \<equiv> pg_sum (r_Policy r) (UnixMicro (r_Now r)) st"
  shows "err = None \<longleftrightarrow> usage + unat (r_Cost r) \<le> unat (Limit (r_Policy r))"
    "segs_wf L i (segs st')"
    "oldest < j \<Longrightarrow> j \<le> i \<Longrightarrow> seg_count (segs st') j =
       seg_count (segs st) j + (if err = None \<and> j = i then unat (r_Cost r) else 0)"
    "\<exists>u gs. st' = st\<lparr>ps_Used := u, ps_Carried := usage > unat (Limit (r_Policy r)), ps_Segments := gs\<rparr>"
    "err = None \<or> err = Some ErrRejected"
proof -
  let ?p = "r_Policy r" and ?gs = "segs st"
  let ?lim = "unat (Limit ?p)"
  note pw = windowed_facts(1) [OF p] and ix = pg_index [OF p t, folded i_def oldest_def]
  have span: "i - 16 \<le> oldest" "oldest < i" using pg_span [OF p] by (simp_all add: i_def oldest_def)
  have len0: "length (ps_Segments st) = 16" using wf0 by (simp add: segs_wf_def)
  obtain used reset st1 where used: "used = fst (sumSegments oldest (ps_Segments st) 0 MaxInt64)"
    and con: "consume (st\<lparr>ps_Used := used, ps_Carried := usageExceedsLimit used (Limit ?p),
       ps_Segments := open_slot (seg_slot i) i (clearSegments oldest (ps_Segments st))\<rparr>) r reset = (st1, d, err)"
    and st': "st' = (if err = None then bump_segment (seg_slot i) (r_Cost r) st1 else st1)"
    using mutateSliding_unfold [OF adm len0, unfolded ix] by blast
  have u: "unat used = usage"
    using sumSegments_used [of 0 oldest "ps_Segments st" MaxInt64] live_sum_bound [OF wf0, of oldest] L
      live_sum [OF wf0 n [folded i_def], of oldest]
    by (simp add: used usage_def pg_sum_def i_def oldest_def)
  note law = consume_law [OF pw c con, simplified, unfolded u]
  define gs where "gs = open_seg i (clear_old oldest ?gs)"
  have len: "length ?gs = 16" "length (clear_old oldest ?gs) = 16" "length gs = 16"
    using len0 by (simp_all add: clear_old_def gs_def open_seg_def)
  have gs: "segs_wf L i gs" "g_index (gs ! seg_slot i) = i"
    using open_seg_wf [OF clear_old_wf [OF wf0] n [folded i_def]] by (simp_all add: gs_def)
  have same: "oldest < j \<Longrightarrow> j \<le> i \<Longrightarrow> seg_count gs j = seg_count ?gs j" for j
    using span len by (simp add: gs_def open_seg_count clear_old_count)
  have room: "err = None \<Longrightarrow> seg_count gs i + unat (r_Cost r) \<le> L"
  proof -
    assume "err = None"
    moreover have "seg_count ?gs i \<le> usage"
      unfolding usage_def pg_sum_def using span by (intro member_le_sum) (auto simp: i_def oldest_def)
    ultimately show ?thesis using law(1) same [of i] span L by simp
  qed
  have "segs st1 = gs" "length (ps_Segments st1) = 16"
    using law(2) len0 by (auto simp: gs_def segs_open segs_clear)
  then have segs: "segs st' = (if err = None then add_seg i (r_Cost r) gs else gs)" by (simp add: st' segs_bump)
  show "err = None \<longleftrightarrow> usage + unat (r_Cost r) \<le> ?lim" using law(1) by simp
  show "segs_wf L i (segs st')" using gs room L by (auto simp: segs add_seg_wf)
  show "oldest < j \<Longrightarrow> j \<le> i \<Longrightarrow> seg_count (segs st') j =
      seg_count ?gs j + (if err = None \<and> j = i then unat (r_Cost r) else 0)"
    using same [of j] room L span add_seg_count [OF len(3) gs(2), of "r_Cost r" j] by (auto simp: segs)
  show "\<exists>u gs. st' = st\<lparr>ps_Used := u, ps_Carried := usage > ?lim, ps_Segments := gs\<rparr>"
  proof -
    have "st' = st\<lparr>ps_Used := ps_Used st', ps_Carried := usage > ?lim, ps_Segments := ps_Segments st'\<rparr>"
      using law(2) u by (simp add: st' bump_segment_def usageExceedsLimit_def u64_less)
    then show ?thesis by blast
  qed
  show "err = None \<or> err = Some ErrRejected" by (rule law(4))
qed

lemma pg_mono:
  assumes "windowed p" "t1 \<le> t2"
  shows "pg_seg p t1 \<le> pg_seg p t2" "pg_oldest p t1 \<le> pg_oldest p t2"
  using assms pg_width_facts(2) [OF assms(1)] by (simp_all add: pg_seg_def pg_oldest_def zdiv_mono1)

lemma pg_sum_later:
  assumes "windowed p" "segs_wf L (pg_seg p t0) (segs st)" "t0 \<le> t"
  shows "pg_sum p t st \<le> pg_sum p t0 st"
proof -
  note m = pg_mono [OF assms(1,3)]
  let ?f = "seg_count (segs st)"
  have "pg_sum p t st \<le> (\<Sum>i\<in>{pg_oldest p t0 + 1..pg_seg p t}. ?f i)"
    unfolding pg_sum_def using m by (intro sum_mono2) auto
  also have "\<dots> = pg_sum p t0 st"
    unfolding pg_sum_def using m segs_no_future [OF assms(2)] by (intro sum.mono_neutral_right) auto
  finally show ?thesis .
qed

lemma mutateSliding_sum:
  assumes p: "windowed (r_Policy r)" and t: "server_range (r_Policy r) (UnixMicro (r_Now r))" "micro_range (r_Now r)"
    and c: "0 < unat (r_Cost r)" and wf0: "segs_wf L n (segs st)" and n: "n \<le> pg_seg (r_Policy r) (UnixMicro (r_Now r))"
    and L: "unat (Limit (r_Policy r)) \<le> L" "L \<le> 9007199254740991" and adm: "mutateSliding st r = (st', d, err)"
  shows "pg_sum (r_Policy r) (UnixMicro (r_Now r)) st' =
    pg_sum (r_Policy r) (UnixMicro (r_Now r)) st + (if err = None then unat (r_Cost r) else 0)"
proof -
  let ?p = "r_Policy r" and ?t = "UnixMicro (r_Now r)"
  note law = mutateSliding_law(3) [OF p t c wf0 n L adm]
  have "pg_sum ?p ?t st' = (\<Sum>j\<in>{pg_oldest ?p ?t + 1..pg_seg ?p ?t}.
      seg_count (segs st) j + (if err = None \<and> j = pg_seg ?p ?t then unat (r_Cost r) else 0))"
    unfolding pg_sum_def using law by (intro sum.cong) auto
  then show ?thesis
    using pg_span(2) [OF p, of ?t] by (cases err) (simp_all add: sum.distrib pg_sum_def)
qed

text \<open>The released loop decides as the strict one; only the carried flag is left alone.\<close>

lemma scanSegmentsLegacy_sum:
  "scanSegmentsLegacy oldest gs u e = (clearSegments oldest gs, sumSegments oldest gs u e)"
  by (induction gs arbitrary: u e) (auto simp: clearSegments_def Let_def split: prod.splits)

lemma consume_carried:
  "consume (st\<lparr>ps_Carried := b\<rparr>) r reset =
     (case consume st r reset of (st', d, err) \<Rightarrow> (st'\<lparr>ps_Carried := b\<rparr>, d, err))"
  by (simp add: consume_def Let_def)

lemma mutateSlidingLegacy_carried:
  "mutateSlidingLegacy st r = (case mutateSliding st r of (st', d, err) \<Rightarrow> (st'\<lparr>ps_Carried := ps_Carried st\<rparr>, d, err))"
proof -
  let ?u = "fst (sumSegments (sliding_oldest_us r) (ps_Segments st) 0 MaxInt64)"
  let ?st = "st\<lparr>ps_Used := ?u, ps_Segments := open_slot (positiveRemainder (sliding_index_us r) (int stateSegments))
    (sliding_index_us r) (clearSegments (sliding_oldest_us r) (ps_Segments st))\<rparr>"
  let ?reset = "sliding_reset r (snd (sumSegments (sliding_oldest_us r) (ps_Segments st) 0 MaxInt64))"
  obtain st1 d err where c: "consume ?st r ?reset = (st1, d, err)" by (metis prod_cases3)
  have carried: "ps_Carried st1 = ps_Carried st" using c by (auto simp: consume_def Let_def split: if_splits)
  have upd: "st\<lparr>ps_Used := ?u, ps_Carried := b, ps_Segments := gs\<rparr> = (st\<lparr>ps_Used := ?u, ps_Segments := gs\<rparr>)\<lparr>ps_Carried := b\<rparr>"
    for b gs by simp
  show ?thesis
    unfolding mutateSlidingLegacy_def mutateSliding_def Let_def scanSegmentsLegacy_sum case_prod_unfold fst_conv snd_conv upd
    using c carried by (simp add: consume_carried bump_segment_def)
qed

end
