(* ===== verification/Postgres_Rows.thy ===== *)
theory Postgres_Rows
  imports Postgres_Window
begin

text \<open>
  Rows over time: what \<open>encodeState\<close> writes is read back, by the strict and by the
  released reader; and the states that \<open>mutateState\<close> writes pass its own checks, also
  when revisions of the policy change its capacity.
\<close>

section \<open>Writing and reading back\<close>

definition state_typed :: "persistedState \<Rightarrow> bool" where
  "state_typed st \<longleftrightarrow> int64_range (ps_Schema st) \<and> int64_range (ps_LastMicros st) \<and> int64_range (ps_ObservedMicros st) \<and>
     int64_range (ps_Window st) \<and> length (ps_Segments st) = stateSegments \<and>
     (\<forall>g \<in> set (ps_Segments st). int64_range (sg_Index g)) \<and> (\<forall>l \<in> set (ps_Leases st). int64_range (pl_ExpiresMicros (snd l)))"

text \<open>States with an identity, and window metadata only where the algorithm has a window.\<close>

definition storable :: "persistedState \<Rightarrow> bool" where
  "storable st \<longleftrightarrow> state_typed st \<and> ps_Schema st = stateSchema \<and> ps_PolicyID st \<noteq> '''' \<and>
     ps_Algorithm st \<noteq> UnknownAlgorithm '''' \<and>
     (if usesWindowMetadata (ps_Algorithm st) then 0 < ps_PeriodMicros st \<and> ps_PeriodMicros st \<le> maxExactMicros
      else ps_PeriodMicros st = 0 \<and> \<not> ps_Carried st)"

text \<open>The unused fields of a window state after it was read back.\<close>

definition stored_form :: "persistedState \<Rightarrow> persistedState" where
  "stored_form st =
     (if usesWindowMetadata (ps_Algorithm st) \<and> ps_PeriodMicros st \<noteq> 0
      then st\<lparr>ps_Remainder := uint64_of (ps_PeriodMicros st), ps_LastMicros := (if ps_Carried st then 1 else 0)\<rparr>
      else st)"

lemma uint64_of_uint [simp]: "uint64_of (uint x) = x"
  by (simp add: uint64_of_def)

lemma uint64_number_uint [simp]: "uint64_number (uint (x :: uint64))"
  using uint_bounded [of x] by (simp add: uint64_number_def)

text \<open>The document of a state in stored form, read by \<open>encoding/json\<close>.\<close>

definition wire_of :: "persistedState \<Rightarrow> wireState" where
  "wire_of st =
     \<lparr>wi_Schema = ps_Schema st, wi_PolicyID = ps_PolicyID st, wi_Revision = ps_Revision st,
      wi_Algorithm = ps_Algorithm st, wi_Tokens = uint (ps_Tokens st),
      wi_Remainder = uint (ps_Remainder st), wi_LastMicros = ps_LastMicros st,
      wi_ObservedMicros = ps_ObservedMicros st, wi_Window = ps_Window st, wi_Used = uint (ps_Used st),
      wi_Segments = map (\<lambda>g. (sg_Index g, uint (sg_Used g))) (ps_Segments st),
      wi_Leases = map (\<lambda>(k, l). (k, uint (pl_Cost l), pl_ExpiresMicros l)) (ps_Leases st),
      wi_Unknown = False, wi_Trailing = False\<rparr>"

lemma encodeState_wire: "encodeState st = Document (wire_of (stored_form st))"
  by (simp add: encodeState_def stored_form_def wire_of_def Let_def)

lemma unmarshal_wire:
  assumes "state_typed st"
  shows "unmarshal (wire_of st) = st\<lparr>ps_PeriodMicros := 0, ps_Carried := False\<rparr>" "numbers_fit (wire_of st)"
proof -
  have "map (\<lambda>(i, u). \<lparr>sg_Index = i, sg_Used = uint64_of u\<rparr>) (map (\<lambda>g. (sg_Index g, uint (sg_Used g))) gs) = gs" for gs
    by (induction gs) simp_all
  moreover have "map (\<lambda>(k, c, e). (k, \<lparr>pl_Cost = uint64_of c, pl_ExpiresMicros = e\<rparr>))
      (map (\<lambda>(k, l). (k, uint (pl_Cost l), pl_ExpiresMicros l)) ls) = ls" for ls :: "(string \<times> persistedLease) list"
    by (induction ls) auto
  ultimately show "unmarshal (wire_of st) = st\<lparr>ps_PeriodMicros := 0, ps_Carried := False\<rparr>"
    using assms unfolding unmarshal_def wire_of_def by (simp add: state_typed_def)
  show "numbers_fit (wire_of st)"
    using assms by (auto simp: numbers_fit_def wire_of_def state_typed_def list_all_iff dest: in_set_takeD)
qed

lemma stored_form_typed: "state_typed st \<Longrightarrow> state_typed (stored_form st)"
  by (simp add: state_typed_def stored_form_def int64_range_def)

lemma period_word:
  assumes "0 < m" "m \<le> maxExactMicros"
  shows "uint64_of m \<noteq> 0" "\<not> uint64_of m > uint64_of maxExactMicros" "int64_of (uint64_of m) = m"
proof -
  have u: "unat (uint64_of m) = nat m" "unat (uint64_of maxExactMicros) = 9007199254740991"
    using assms unat_uint64_of [of m] unat_uint64_of [of maxExactMicros] by (simp_all add: maxExactMicros_def)
  show "uint64_of m \<noteq> 0" "\<not> uint64_of m > uint64_of maxExactMicros"
    using assms u by (auto simp: u64_less u64_eq maxExactMicros_def)
  show "int64_of (uint64_of m) = m" using assms u int64_of_small [of "uint64_of m"] by (simp add: maxExactMicros_def)
qed

lemma decode_encode:
  assumes "storable st"
  shows "decodeState (encodeState st) = Inr (stored_form st)"
    "decodeStateLegacy (encodeState st) = Inr ((stored_form st)\<lparr>ps_PeriodMicros := 0, ps_Carried := False\<rparr>)"
proof -
  have t: "state_typed (stored_form st)" using assms stored_form_typed by (simp add: storable_def)
  note um = unmarshal_wire [OF t]
  have w: "\<not> wi_Unknown (wire_of s)" "\<not> wi_Trailing (wire_of s)" "wi_Segments (wire_of s) = map (\<lambda>g. (sg_Index g, uint (sg_Used g))) (ps_Segments s)"
    for s by (simp_all add: wire_of_def)
  have len: "length (ps_Segments (stored_form st)) = stateSegments" using t by (simp add: state_typed_def)
  have id: "ps_Schema (stored_form st) = stateSchema" "ps_PolicyID (stored_form st) \<noteq> ''''"
    "ps_Algorithm (stored_form st) = ps_Algorithm st" "ps_Algorithm st \<noteq> UnknownAlgorithm ''''"
    using assms by (simp_all add: storable_def stored_form_def)
  show "decodeStateLegacy (encodeState st) = Inr ((stored_form st)\<lparr>ps_PeriodMicros := 0, ps_Carried := False\<rparr>)"
    using um w id by (simp add: decodeStateLegacy_def decodeStateMode_def encodeState_wire Let_def)
  show "decodeState (encodeState st) = Inr (stored_form st)"
  proof (cases "usesWindowMetadata (ps_Algorithm st)")
    case True
    then have "0 < ps_PeriodMicros st" "ps_PeriodMicros st \<le> maxExactMicros" using assms by (simp_all add: storable_def)
    then show ?thesis
      using um w id len True period_word [of "ps_PeriodMicros st"]
      by (simp add: decodeState_def decodeStateMode_def encodeState_wire Let_def) (simp add: stored_form_def)
  next
    case False
    then have "(stored_form st)\<lparr>ps_PeriodMicros := 0, ps_Carried := False\<rparr> = stored_form st"
      using assms by (simp add: storable_def stored_form_def)
    then show ?thesis
      using um w id len False by (simp add: decodeState_def decodeStateMode_def encodeState_wire Let_def)
  qed
qed

text \<open>C19. A row reads back as it was written. For a storable state, decoding its
  document strictly gives the state again, up to two fields that its algorithm does
  not use and in which a window's period and carried flag are stored; and a released
  reader decodes it too and writes back the same document, so that it preserves the
  metadata that it does not know.\<close>

theorem row_roundtrip:
  assumes "storable st"
  shows "decodeState (encodeState st) = Inr (stored_form st) \<and> encodeState (stored_form st) = encodeState st \<and>
    (\<exists>released. decodeStateLegacy (encodeState st) = Inr released \<and> encodeState released = encodeState st)"
proof -
  have wire: "wire_of (s\<lparr>ps_PeriodMicros := 0, ps_Carried := False\<rparr>) = wire_of s" for s by (simp add: wire_of_def)
  have "stored_form (stored_form st) = stored_form st"
    "stored_form ((stored_form st)\<lparr>ps_PeriodMicros := 0, ps_Carried := False\<rparr>) = (stored_form st)\<lparr>ps_PeriodMicros := 0, ps_Carried := False\<rparr>"
    by (simp_all add: stored_form_def)
  then have "encodeState (stored_form st) = encodeState st"
    "encodeState ((stored_form st)\<lparr>ps_PeriodMicros := 0, ps_Carried := False\<rparr>) = encodeState st"
    by (simp_all add: encodeState_wire wire)
  then show ?thesis using decode_encode [OF assms] by blast
qed

section \<open>Rows of a family of policies\<close>

text \<open>
  The policies that share a row: one identity and algorithm, one period where it is
  recorded, and one policy per revision.
\<close>

definition family :: "policy list \<Rightarrow> bool" where
  "family ps \<longleftrightarrow> (\<forall>p \<in> set ps. policy_wf p \<and> p_algorithm p \<noteq> Concurrency) \<and>
     (\<forall>p \<in> set ps. \<forall>q \<in> set ps. p_id p = p_id q \<and> p_algorithm p = p_algorithm q \<and>
        (usesWindowMetadata (p_algorithm p) \<longrightarrow> p_period p = p_period q) \<and> (p_revision p = p_revision q \<longrightarrow> p = q))"

definition row_base :: "policy \<Rightarrow> persistedState \<Rightarrow> bool" where
  "row_base p st \<longleftrightarrow> ps_Schema st = stateSchema \<and> ps_PolicyID st = p_id p \<and> ps_Revision st = p_revision p \<and>
     ps_Algorithm st = p_algorithm p \<and> validPersistedMicros (ps_ObservedMicros st) \<and> int64_range (ps_LastMicros st) \<and>
     int64_range (ps_Window st) \<and> length (ps_Segments st) = 16 \<and>
     (\<forall>g \<in> set (ps_Segments st). validPersistedMicros (sg_Index g)) \<and> ps_Leases st = []"

definition row_body :: "policy \<Rightarrow> persistedState \<Rightarrow> bool" where
  "row_body p st \<longleftrightarrow>
     (case p_algorithm p of
        TokenBucket \<Rightarrow> pg_token_inv p st \<and> ps_PeriodMicros st = 0 \<and> \<not> ps_Carried st \<and>
          validPersistedMicros (ps_LastMicros st) \<and> ps_LastMicros st \<le> ps_ObservedMicros st
      | FixedWindow \<Rightarrow> validPersistedMicros (ps_Window st) \<and> unat (ps_Used st) \<le> 9007199254740991 \<and>
          (unat (ps_Used st) > unat (Limit p) \<longrightarrow> ps_Carried st) \<and> ps_PeriodMicros st = int (period_us p) \<and>
          (ps_ObservedMicros st < ps_Window st \<longrightarrow> ps_Used st = 0)
      | SlidingWindow \<Rightarrow> segs_wf 9007199254740991 (pg_seg p (ps_ObservedMicros st)) (segs st) \<and>
          pg_sum p (ps_ObservedMicros st) st \<le> 9007199254740991 \<and>
          (pg_sum p (ps_ObservedMicros st) st > unat (Limit p) \<longrightarrow> ps_Carried st) \<and> ps_PeriodMicros st = int (period_us p)
      | _ \<Rightarrow> False)"

definition row_wf :: "policy \<Rightarrow> persistedState \<Rightarrow> bool" where
  "row_wf p st \<longleftrightarrow> row_base p st \<and> row_body p st"

lemma valid_int64: "validPersistedMicros t \<Longrightarrow> int64_range t"
  by (auto simp: validPersistedMicros_def maxExactMicros_def int64_range_def)

lemma row_wf_storable:
  assumes "row_wf p st" "policy_wf p"
  shows "storable st"
proof -
  have b: "row_base p st" "row_body p st" using assms by (simp_all add: row_wf_def)
  have alg: "p_algorithm p \<in> {TokenBucket, FixedWindow, SlidingWindow}" using b(2) by (auto simp: row_body_def split: algorithm.splits)
  have per: "0 < int (period_us p)" "int (period_us p) \<le> maxExactMicros"
    using windowed_period [OF assms(2)] alg by auto
  have "state_typed st"
    using b(1) by (auto simp: row_base_def state_typed_def stateSchema_def stateSegments_def int64_range_def valid_int64
        dest!: valid_int64)
  then show ?thesis
    using b alg per policy_wf_id [OF assms(2)]
    by (auto simp: storable_def row_base_def row_body_def usesWindowMetadata_def)
qed

text \<open>Reading a row back keeps the invariant.\<close>

lemma row_wf_stored:
  assumes "row_wf p st" "policy_wf p"
  shows "row_wf p (stored_form st)"
proof -
  have b: "row_base p st" "row_body p st" using assms by (simp_all add: row_wf_def)
  have "row_base p (stored_form st)" using b(1) by (simp add: row_base_def stored_form_def int64_range_def)
  moreover have "row_body p (stored_form st)"
    using b by (auto simp: row_body_def row_base_def stored_form_def usesWindowMetadata_def pg_sum_def split: algorithm.splits)
  ultimately show ?thesis by (simp add: row_wf_def)
qed

section \<open>The checks of a strict transition\<close>

lemma UnixMicro_clamp:
  assumes "int64_range observed"
  shows "UnixMicro (r_Now (clamp_now r observed)) = max (UnixMicro (r_Now r)) observed"
    "r_Policy (clamp_now r observed) = r_Policy r" "r_Cost (clamp_now r observed) = r_Cost r"
    "micro_range (r_Now r) \<Longrightarrow> micro_range (r_Now (clamp_now r observed))"
proof -
  have u: "UnixMicro (time_UnixMicro observed) = observed" "micro_range (time_UnixMicro observed)"
    using assms by (simp_all add: UnixMicro_def time_UnixMicro_def micro_range_def)
  show "UnixMicro (r_Now (clamp_now r observed)) = max (UnixMicro (r_Now r)) observed"
    "r_Policy (clamp_now r observed) = r_Policy r" "r_Cost (clamp_now r observed) = r_Cost r"
    "micro_range (r_Now r) \<Longrightarrow> micro_range (r_Now (clamp_now r observed))"
    using u by (auto simp: clamp_now_def Let_def max_def)
qed

lemma slidingPositionsLoop_ok:
  "(\<forall>k < length gs. sg_Used (gs ! k) \<noteq> 0 \<longrightarrow> seg_slot (sg_Index (gs ! k)) = slot + k \<and> sg_Index (gs ! k) \<le> i) \<Longrightarrow>
   slidingPositionsLoop i oldest slot gs"
proof (induction gs arbitrary: slot)
  case (Cons g gs)
  have "slidingPositionsLoop i oldest (Suc slot) gs"
  proof (rule Cons.IH, intro allI impI)
    fix k assume "k < length gs" "sg_Used (gs ! k) \<noteq> 0"
    then show "seg_slot (sg_Index (gs ! k)) = Suc slot + k \<and> sg_Index (gs ! k) \<le> i"
      using Cons.prems [rule_format, of "Suc k"] by simp
  qed
  moreover have "sg_Used g \<noteq> 0 \<Longrightarrow> seg_slot (sg_Index g) = slot \<and> sg_Index g \<le> i"
    using Cons.prems [rule_format, of 0] by simp
  ultimately show ?case by (cases "sg_Used g = 0") (simp_all add: positiveRemainder_slot)
qed simp

lemma strictSlidingLoop_ok:
  "unat u + sum_list (map (live oldest) (map seg_of gs)) \<le> 9007199254740991 \<Longrightarrow>
   \<exists>used. strictSlidingLoop oldest gs u = (used, False) \<and> unat used = unat u + sum_list (map (live oldest) (map seg_of gs))"
proof (induction gs arbitrary: u)
  case (Cons g gs)
  have m: "unat (uint64_of maxExactMicros) = 9007199254740991"
    using unat_uint64_of [of maxExactMicros] by (simp add: maxExactMicros_def)
  show ?case
  proof (cases "sg_Index g \<le> oldest")
    case True
    then show ?thesis using Cons.IH [of u] Cons.prems by (simp add: live_def)
  next
    case False
    then have b: "unat u + unat (sg_Used g) \<le> 9007199254740991" using Cons.prems by (simp add: live_def)
    then have add: "unat (u + sg_Used g) = unat u + unat (sg_Used g)" by (intro u64_add) simp
    have "\<not> sg_Used g > uint64_of maxExactMicros - u" using b m by (simp add: u64_less u64_sub)
    then show ?thesis using False Cons.IH [of "u + sg_Used g"] Cons.prems add by (simp add: live_def add.assoc)
  qed
qed simp

lemma maxExact_word: "unat (uint64_of maxExactMicros) = 9007199254740991"
  using unat_uint64_of [of maxExactMicros] by (simp add: maxExactMicros_def)

lemma familyD:
  assumes "family ps" "p \<in> set ps" "q \<in> set ps"
  shows "policy_wf p" "p_algorithm p \<noteq> Concurrency" "p_id p = p_id q" "p_algorithm p = p_algorithm q"
    "usesWindowMetadata (p_algorithm p) \<Longrightarrow> p_period p = p_period q" "p_revision p = p_revision q \<Longrightarrow> p = q"
  using assms unfolding family_def by blast+

lemma family_window:
  assumes "family ps" "p \<in> set ps" "q \<in> set ps" "usesWindowMetadata (p_algorithm p)"
  shows "windowed p" "period_us q = period_us p" "pg_seg q = pg_seg p" "pg_sum q = pg_sum p"
proof -
  show "windowed p" using familyD [OF assms(1-3)] assms(4) by (simp add: windowed_def)
  show e: "period_us q = period_us p" using familyD(5) [OF assms(1-4)] by (simp add: period_us_def)
  then have "pg_width q = pg_width p" by (simp add: pg_width_def)
  then show "pg_seg q = pg_seg p" "pg_sum q = pg_sum p"
    using e by (simp_all add: pg_seg_def pg_sum_def pg_oldest_def fun_eq_iff)
qed

lemma period_word_us: "policy_wf p \<Longrightarrow> p_algorithm p \<noteq> Concurrency \<Longrightarrow> unat (uint64_of (Microseconds (p_period p))) = period_us p"
  using windowed_period [of p] unat_uint64_of [of "int (period_us p)"] by (simp add: maxExactMicros_def)

lemma strictStateCheck_row:
  assumes f: "family ps" "r_Policy r \<in> set ps" "q \<in> set ps" and row: "row_wf q st"
  shows "strictStateCheck st r"
proof -
  let ?p = "r_Policy r"
  note fd = familyD [OF f] and fq = familyD [OF f(1,3,2)]
  have b: "row_base q st" "row_body q st" using row by (simp_all add: row_wf_def)
  have same: "ps_Revision st = p_revision ?p \<Longrightarrow> q = ?p" using fq(6) b(1) by (simp add: row_base_def)
  have obs: "validPersistedMicros (ps_ObservedMicros st)" "ps_Algorithm st = p_algorithm q" using b(1) by (simp_all add: row_base_def)
  consider "p_algorithm q = TokenBucket" | "p_algorithm q = FixedWindow" | "p_algorithm q = SlidingWindow"
    using b(2) by (auto simp: row_body_def split: algorithm.splits)
  then show ?thesis
  proof cases
    case 1
    then have t: "pg_token_inv q st" "validPersistedMicros (ps_LastMicros st)" using b(2) by (simp_all add: row_body_def)
    have "unat (ps_Remainder st) \<le> 9007199254740991"
      using t(1) windowed_period(3) [OF fq(1,2)] by (simp add: pg_token_inv_def maxExactMicros_def)
    then show ?thesis
      using 1 obs t same period_word_us [OF fd(1,2)]
      by (auto simp: strictStateCheck_def Let_def u64_less u64_le maxExact_word pg_token_inv_def)
  next
    case 2
    then show ?thesis
      using obs b(2) same by (auto simp: strictStateCheck_def row_body_def Let_def u64_less maxExact_word)
  next
    case 3
    then have "segs_wf 9007199254740991 (pg_seg q (ps_ObservedMicros st)) (segs st)" using b(2) by (simp add: row_body_def)
    then have "\<forall>g \<in> set (ps_Segments st). unat (sg_Used g) \<le> 9007199254740991"
      by (auto simp: segs_wf_def in_set_conv_nth)
    then show ?thesis
      using 3 obs b(1) by (auto simp: strictStateCheck_def row_base_def Let_def list_all_iff u64_less maxExact_word)
  qed
qed

lemma state_for_row:
  assumes "family ps" "r_Policy r \<in> set ps" "q \<in> set ps" "row_wf q st"
  shows "state_for (Some st) r True = Inr st"
  using strictStateCheck_row [OF assms] familyD [OF assms(1-3)] assms(4)
  by (simp add: state_for_def row_wf_def row_base_def)

text \<open>A strict sliding row passes the two checks on its segments at any later instant.\<close>

lemma sliding_checks_row:
  assumes p: "windowed (r_Policy r)" and t: "server_range (r_Policy r) (UnixMicro (r_Now r))" "micro_range (r_Now r)"
    and wf: "segs_wf 9007199254740991 (pg_seg (r_Policy r) t0) (segs st)" and t0: "t0 \<le> UnixMicro (r_Now r)"
    and sum: "pg_sum (r_Policy r) t0 st \<le> 9007199254740991"
  shows "validateSlidingPositions st r = None"
    "\<exists>used. strictSlidingUsage st r = (used, False) \<and> unat used = pg_sum (r_Policy r) (UnixMicro (r_Now r)) st"
proof -
  let ?p = "r_Policy r" and ?t = "UnixMicro (r_Now r)"
  note ix = pg_index [OF p t] and newer = pg_mono(1) [OF p t0]
  have "slidingPositionsLoop (pg_seg ?p ?t) (pg_oldest ?p ?t) 0 (ps_Segments st)"
    using wf newer by (intro slidingPositionsLoop_ok) (fastforce simp: segs_wf_def)
  then show "validateSlidingPositions st r = None" by (simp add: validateSlidingPositions_def ix)
  have live: "sum_list (map (live (pg_oldest ?p ?t)) (segs st)) = pg_sum ?p ?t st"
    unfolding pg_sum_def by (rule live_sum [OF wf newer])
  then show "\<exists>used. strictSlidingUsage st r = (used, False) \<and> unat used = pg_sum ?p ?t st"
    using strictSlidingLoop_ok [of 0 "pg_oldest ?p ?t" "ps_Segments st"] pg_sum_later [OF p wf t0] sum
    by (simp add: strictSlidingUsage_def ix)
qed

text \<open>The state a strict transition works on: a new revision caps the tokens and drops the fraction.\<close>

definition carried_state :: "persistedState \<Rightarrow> request \<Rightarrow> persistedState" where
  "carried_state st r =
     recordWindowPeriod
       (if p_algorithm (r_Policy r) = TokenBucket \<and> ps_Revision st \<noteq> p_revision (r_Policy r)
        then st\<lparr>ps_Tokens := min (ps_Tokens st) (Limit (r_Policy r)), ps_Remainder := 0,
                ps_LastMicros := max (ps_LastMicros st) (UnixMicro (r_Now r))\<rparr>
        else st) (r_Policy r)"

lemma strict_prepare_row:
  assumes f: "family ps" "r_Policy r \<in> set ps" "q \<in> set ps" and row: "row_wf q st"
    and t: "ps_ObservedMicros st \<le> UnixMicro (r_Now r)" "micro_range (r_Now r)"
  shows "strict_prepare st r =
    (if server_range (r_Policy r) (UnixMicro (r_Now r)) then Inr (carried_state st r) else Inl ErrOverflow)"
proof -
  let ?p = "r_Policy r"
  note fd = familyD [OF f]
  have b: "row_base q st" "row_body q st" using row by (simp_all add: row_wf_def)
  have same: "ps_Revision st = p_revision ?p \<Longrightarrow> q = ?p" using familyD(6) [OF f(1,3,2)] b(1) by (simp add: row_base_def)
  have range: "validateServerClockRange (r_Now r) (p_period ?p) =
      (if server_range ?p (UnixMicro (r_Now r)) then None else Some ErrOverflow)"
    using server_range_check [OF fd(1,2), of "r_Now r"] by (auto simp: validateServerClockRange_def Let_def split: if_splits)
  have period: "usesWindowMetadata (p_algorithm ?p) \<Longrightarrow> ps_PeriodMicros st = Microseconds (p_period ?p)"
    using b(2) family_window(2) [OF f] windowed_period(1) [OF fd(1,2)] fd(4)
    by (auto simp: row_body_def usesWindowMetadata_def)
  show ?thesis
  proof (cases "server_range ?p (UnixMicro (r_Now r))")
    case False
    then show ?thesis using range by (simp add: strict_prepare_def Let_def)
  next
    case True
    show ?thesis
    proof (cases "p_algorithm ?p = SlidingWindow")
      case False
      then show ?thesis using True range period by (simp add: strict_prepare_def carried_state_def Let_def case_prod_unfold)
    next
      case sliding: True
      then have u: "usesWindowMetadata (p_algorithm ?p)" by (simp add: usesWindowMetadata_def)
      note fw = family_window [OF f u]
      have body: "segs_wf 9007199254740991 (pg_seg ?p (ps_ObservedMicros st)) (segs st)"
        "pg_sum ?p (ps_ObservedMicros st) st \<le> 9007199254740991"
        "pg_sum ?p (ps_ObservedMicros st) st > unat (Limit q) \<longrightarrow> ps_Carried st"
        using b(2) sliding fd(4) fw by (simp_all add: row_body_def)
      obtain used where us: "strictSlidingUsage st r = (used, False)" "unat used = pg_sum ?p (UnixMicro (r_Now r)) st"
        and pos: "validateSlidingPositions st r = None"
        using sliding_checks_row [OF fw(1) True t(2) body(1) t(1) body(2)] by blast
      have "ps_Revision st = p_revision ?p \<Longrightarrow> usageExceedsLimit used (Limit ?p) \<Longrightarrow> ps_Carried st"
        using same us(2) body(3) pg_sum_later [OF fw(1) body(1) t(1)] by (auto simp: usageExceedsLimit_def u64_less)
      then show ?thesis using True range period sliding us pos u by (auto simp: strict_prepare_def carried_state_def Let_def)
    qed
  qed
qed

section \<open>Strict transitions\<close>

definition strict_dispatch :: "persistedState \<Rightarrow> request \<Rightarrow> persistedState \<times> decision \<times> go_error option" where
  "strict_dispatch st r =
     (case p_algorithm (r_Policy r) of
        TokenBucket \<Rightarrow> mutateToken st r | FixedWindow \<Rightarrow> mutateFixed st r | _ \<Rightarrow> mutateSliding st r)"

text \<open>The state with the observed instant and the revision of the request.\<close>

definition observed_state :: "persistedState \<Rightarrow> request \<Rightarrow> persistedState" where
  "observed_state st r = (carried_state st r)\<lparr>ps_ObservedMicros := UnixMicro (r_Now r), ps_Revision := p_revision (r_Policy r)\<rparr>"

lemma mutateState_form:
  assumes "state_for cur r True = Inr st"
  defines "r' \<equiv> clamp_now r (ps_ObservedMicros st)"
  assumes prep: "strict_prepare st r' = (if ok then Inr (carried_state st r') else Inl ErrOverflow)"
  shows "mutateState cur r =
    (if ok \<and> (p_algorithm (r_Policy r) = FixedWindow \<longrightarrow>
               validPersistedMicros (pg_floor (UnixMicro (r_Now r)) (Microseconds (p_period (r_Policy r)))))
     then (case strict_dispatch (observed_state st r') r' of (st', d, err) \<Rightarrow> (Some st', d, err))
     else (None, zero_Decision, Some ErrOverflow))"
proof -
  have "r_Policy r' = r_Policy r" by (simp add: r'_def clamp_now_def Let_def)
  then show ?thesis
    using assms(1) prep
    by (cases ok) (auto simp: mutateState_def mutateStateMode_def Let_def r'_def [symmetric] strict_dispatch_def
        observed_state_def split: algorithm.split)
qed

lemma mutateToken_fields:
  assumes "mutateToken st r = (st', d, err)"
  shows "\<exists>k m l. st' = st\<lparr>ps_Tokens := k, ps_Remainder := m, ps_LastMicros := l\<rparr>" "err = None \<or> err = Some ErrRejected"
proof -
  have "\<exists>k m l. replenish st r = st\<lparr>ps_Tokens := k, ps_Remainder := m, ps_LastMicros := l\<rparr>"
  proof -
    have "replenish st r = st\<lparr>ps_Tokens := ps_Tokens (replenish st r), ps_Remainder := ps_Remainder (replenish st r),
        ps_LastMicros := ps_LastMicros (replenish st r)\<rparr>"
      by (simp add: replenish_def Let_def split: prod.split)
    then show ?thesis by blast
  qed
  then obtain k m l where rep: "replenish st r = st\<lparr>ps_Tokens := k, ps_Remainder := m, ps_LastMicros := l\<rparr>" by blast
  have "st' = (if err = None then (replenish st r)\<lparr>ps_Tokens := ps_Tokens (replenish st r) - r_Cost r\<rparr> else replenish st r)"
    using assms by (auto simp: mutateToken_def Let_def split: if_splits)
  then have "st' = st\<lparr>ps_Tokens := ps_Tokens st', ps_Remainder := ps_Remainder st', ps_LastMicros := ps_LastMicros st'\<rparr>"
    by (simp add: rep)
  then show "\<exists>k m l. st' = st\<lparr>ps_Tokens := k, ps_Remainder := m, ps_LastMicros := l\<rparr>" by blast
  show "err = None \<or> err = Some ErrRejected" using assms by (auto simp: mutateToken_def Let_def split: if_splits)
qed

lemma row_token:
  assumes f: "family ps" "r_Policy r \<in> set ps" "q \<in> set ps" and row: "row_wf q st"
    and t: "ps_ObservedMicros st \<le> UnixMicro (r_Now r)" "server_range (r_Policy r) (UnixMicro (r_Now r))"
    and c: "0 < unat (r_Cost r)" and alg: "p_algorithm (r_Policy r) = TokenBucket"
    and adm: "mutateToken (observed_state st r) r = (st', d, err)"
  shows "row_wf (r_Policy r) st'" "ps_ObservedMicros st' = UnixMicro (r_Now r)"
proof -
  let ?p = "r_Policy r" and ?s = "observed_state st r" and ?t = "UnixMicro (r_Now r)"
  note fd = familyD [OF f]
  have b: "row_base q st" "row_body q st" using row by (simp_all add: row_wf_def)
  have body: "pg_token_inv q st" "ps_LastMicros st \<le> ps_ObservedMicros st" "ps_PeriodMicros st = 0" "\<not> ps_Carried st"
    using b(2) alg fd(4) by (simp_all add: row_body_def)
  have valid: "validPersistedMicros ?t" using t(2) by (auto simp: server_range_def validPersistedMicros_def)
  have same: "ps_Revision st = p_revision ?p \<Longrightarrow> q = ?p" using familyD(6) [OF f(1,3,2)] b(1) by (simp add: row_base_def)
  have tp: "token_policy ?p" using fd(1) alg by (simp add: token_policy_def)
  have s: "pg_token_inv ?p ?s" "ps_LastMicros ?s \<le> ?t"
    using body t(1) same tp token_policy_facts(1) [OF tp]
    by (auto simp: observed_state_def carried_state_def recordWindowPeriod_def usesWindowMetadata_def alg pg_token_inv_def
        u64_min)
  note law = mutateToken_law [OF s c adm]
  obtain k m l where st': "st' = ?s\<lparr>ps_Tokens := k, ps_Remainder := m, ps_LastMicros := l\<rparr>"
    using mutateToken_fields(1) [OF adm] by blast
  show "ps_ObservedMicros st' = ?t" by (simp add: st' observed_state_def)
  have keep: "ps_Schema ?s = ps_Schema st" "ps_PolicyID ?s = ps_PolicyID st" "ps_Algorithm ?s = ps_Algorithm st"
    "ps_Window ?s = ps_Window st" "ps_Segments ?s = ps_Segments st" "ps_Leases ?s = ps_Leases st"
    "ps_PeriodMicros ?s = ps_PeriodMicros st" "ps_Carried ?s = ps_Carried st"
    "ps_ObservedMicros ?s = ?t" "ps_Revision ?s = p_revision ?p"
    by (simp_all add: observed_state_def carried_state_def recordWindowPeriod_def usesWindowMetadata_def alg)
  have last: "l = ?t" using law(2) by (simp add: st')
  have "row_base ?p st'"
    using b(1) fd(3,4) valid valid_int64 [OF valid] keep by (simp add: row_base_def st' last)
  moreover have "row_body ?p st'"
    using law(1) valid body keep alg by (simp add: row_body_def st' last)
  ultimately show "row_wf ?p st'" by (simp add: row_wf_def)
qed

lemma observed_window:
  assumes "usesWindowMetadata (p_algorithm (r_Policy r))"
  shows "observed_state st r = st\<lparr>ps_PeriodMicros := Microseconds (p_period (r_Policy r)),
    ps_ObservedMicros := UnixMicro (r_Now r), ps_Revision := p_revision (r_Policy r)\<rparr>"
  using assms by (auto simp: observed_state_def carried_state_def recordWindowPeriod_def usesWindowMetadata_def)

lemma row_fixed:
  assumes f: "family ps" "r_Policy r \<in> set ps" "q \<in> set ps" and row: "row_wf q st"
    and t: "server_range (r_Policy r) (UnixMicro (r_Now r))"
      "- maxExactMicros \<le> pg_window (r_Policy r) (UnixMicro (r_Now r)) * int (period_us (r_Policy r))"
    and c: "0 < unat (r_Cost r)" and alg: "p_algorithm (r_Policy r) = FixedWindow"
    and adm: "mutateFixed (observed_state st r) r = (st', d, err)"
  shows "row_wf (r_Policy r) st'" "ps_ObservedMicros st' = UnixMicro (r_Now r)" "err = None \<or> err = Some ErrRejected"
proof -
  let ?p = "r_Policy r" and ?s = "observed_state st r" and ?t = "UnixMicro (r_Now r)"
  let ?w = "pg_window ?p ?t"
  note fd = familyD [OF f]
  have u: "usesWindowMetadata (p_algorithm ?p)" using alg by (simp add: usesWindowMetadata_def)
  note fw = family_window [OF f u] and s = observed_window [OF u, of st]
  have b: "row_base q st" "row_body q st" using row by (simp_all add: row_wf_def)
  have body: "unat (ps_Used st) \<le> 9007199254740991" using b(2) alg fd(4) by (simp add: row_body_def)
  have valid: "validPersistedMicros ?t" "validPersistedMicros (?w * int (period_us ?p))"
    using t pg_window_range(3) [OF fw(1) t(1)] by (auto simp: server_range_def validPersistedMicros_def)
  note law = mutateFixed_law [OF fw(1) t(1) c adm]
  obtain k where st': "st' = ?s\<lparr>ps_Window := ?w * int (period_us ?p), ps_Used := k, ps_Carried := unat k > unat (Limit ?p)\<rparr>"
    "unat k = pg_fixed_count ?p st' ?w" using law(3) by blast
  have "pg_fixed_count ?p ?s ?w \<le> 9007199254740991" using body by (simp add: pg_fixed_count_def s)
  then have k: "unat k \<le> 9007199254740991"
    using st'(2) law(1,2) policy_wf_Limit_bound [OF fd(1)] by (cases "err = None") simp_all
  show "ps_ObservedMicros st' = ?t" by (simp add: st'(1) s)
  have "row_base ?p st'" using b(1) fd(3,4) valid by (simp add: row_base_def st'(1) s valid_int64)
  moreover have "?w * int (period_us ?p) \<le> ?t"
    using floor_multiple_bounds [OF windowed_period(2) [OF fd(1,2)], of ?t] by (simp add: pg_window_def)
  then have "row_body ?p st'"
    using valid k alg windowed_period(1) [OF fd(1,2)] by (simp add: row_body_def st'(1) s)
  ultimately show "row_wf ?p st'" by (simp add: row_wf_def)
  show "err = None \<or> err = Some ErrRejected" by (rule law(4))
qed

lemma mutateSliding_indices:
  assumes "mutateSliding st r = (st', d, err)" "length (ps_Segments st) = 16"
    and "\<forall>g \<in> set (ps_Segments st). P (sg_Index g)" "P 0" "P (sliding_index_us r)"
  shows "\<forall>g \<in> set (ps_Segments st'). P (sg_Index g)" "length (ps_Segments st') = 16"
proof -
  let ?i = "sliding_index_us r"
  let ?gs = "open_slot (seg_slot ?i) ?i (clearSegments (sliding_oldest_us r) (ps_Segments st))"
  have clear: "\<forall>g \<in> set (clearSegments (sliding_oldest_us r) (ps_Segments st)). P (sg_Index g)"
    using assms(3,4) by (auto simp: clearSegments_def zero_persistedSegment_def)
  have upd: "\<forall>g \<in> set gs. P (sg_Index g) \<Longrightarrow> P (sg_Index x) \<Longrightarrow> \<forall>g \<in> set (gs[k := x]). P (sg_Index g)" for gs k x
    using set_update_subset_insert [of gs k x] by blast
  have gs: "\<forall>g \<in> set ?gs. P (sg_Index g)" "length ?gs = 16"
    using assms(2,5) upd [OF clear, of "\<lparr>sg_Index = ?i, sg_Used = 0\<rparr>"] clear by (simp_all add: open_slot_def)
  obtain used reset st1 where
    con: "consume (st\<lparr>ps_Used := used, ps_Carried := usageExceedsLimit used (Limit (r_Policy r)), ps_Segments := ?gs\<rparr>) r reset = (st1, d, err)"
    and st': "st' = (if err = None then bump_segment (seg_slot ?i) (r_Cost r) st1 else st1)"
    using mutateSliding_unfold [OF assms(1,2)] by blast
  have "ps_Segments st1 = ?gs" using con by (auto simp: consume_def Let_def split: if_splits)
  then show "\<forall>g \<in> set (ps_Segments st'). P (sg_Index g)" "length (ps_Segments st') = 16"
    using gs upd [OF gs(1), of "(?gs ! seg_slot ?i)\<lparr>sg_Used := sg_Used (?gs ! seg_slot ?i) + r_Cost r\<rparr>" "seg_slot ?i"]
    by (simp_all add: st' bump_segment_def)
qed

lemma pg_seg_valid:
  assumes "windowed p" "validPersistedMicros t"
  shows "validPersistedMicros (pg_seg p t)"
proof -
  note w = pg_width_facts(2) [OF assms(1)]
  have t: "- maxExactMicros \<le> t" "t \<le> maxExactMicros" using assms(2) by (simp_all add: validPersistedMicros_def)
  have "t div pg_width p \<le> max t 0 \<and> min t 0 \<le> t div pg_width p"
    using w zdiv_mono2 [of t 1 "pg_width p"] zdiv_mono2_neg [of t 1 "pg_width p"] div_neg_pos_less0 [of t "pg_width p"]
    by (cases "0 \<le> t") (simp_all add: pos_imp_zdiv_nonneg_iff)
  then show ?thesis using t by (auto simp: validPersistedMicros_def pg_seg_def maxExactMicros_def)
qed

lemma row_sliding:
  assumes f: "family ps" "r_Policy r \<in> set ps" "q \<in> set ps" and row: "row_wf q st"
    and t: "ps_ObservedMicros st \<le> UnixMicro (r_Now r)" "server_range (r_Policy r) (UnixMicro (r_Now r))" "micro_range (r_Now r)"
    and c: "0 < unat (r_Cost r)" and alg: "p_algorithm (r_Policy r) = SlidingWindow"
    and adm: "mutateSliding (observed_state st r) r = (st', d, err)"
  shows "row_wf (r_Policy r) st'" "ps_ObservedMicros st' = UnixMicro (r_Now r)" "err = None \<or> err = Some ErrRejected"
proof -
  let ?p = "r_Policy r" and ?s = "observed_state st r" and ?t = "UnixMicro (r_Now r)"
  note fd = familyD [OF f] and lim = policy_wf_Limit_bound [OF familyD(1) [OF f]]
  have u: "usesWindowMetadata (p_algorithm ?p)" using alg by (simp add: usesWindowMetadata_def)
  note fw = family_window [OF f u] and s = observed_window [OF u, of st]
  have b: "row_base q st" "row_body q st" using row by (simp_all add: row_wf_def)
  have wf: "segs_wf 9007199254740991 (pg_seg ?p (ps_ObservedMicros st)) (segs ?s)" and sum: "pg_sum ?p (ps_ObservedMicros st) ?s \<le> 9007199254740991"
    using b(2) alg fd(4) fw by (simp_all add: row_body_def s pg_sum_def)
  note newer = pg_mono(1) [OF fw(1) t(1)]
  note law = mutateSliding_law [OF fw(1) t(2,3) c wf newer lim order.refl adm]
    and sum' = mutateSliding_sum [OF fw(1) t(2,3) c wf newer lim order.refl adm]
  have later: "pg_sum ?p ?t ?s \<le> 9007199254740991" using pg_sum_later [OF fw(1) wf t(1)] sum by simp
  obtain k gs where st': "st' = ?s\<lparr>ps_Used := k, ps_Carried := pg_sum ?p ?t ?s > unat (Limit ?p), ps_Segments := gs\<rparr>"
    using law(4) by blast
  have valid: "validPersistedMicros ?t" using t(2) by (auto simp: server_range_def validPersistedMicros_def)
  have idx: "validPersistedMicros (sliding_index_us r)" "validPersistedMicros 0"
    using pg_index(1) [OF fw(1) t(2,3)] pg_seg_valid [OF fw(1) valid] by (simp_all add: validPersistedMicros_def maxExactMicros_def)
  have ind: "\<forall>g \<in> set (ps_Segments st'). validPersistedMicros (sg_Index g)" "length (ps_Segments st') = 16"
    by (rule mutateSliding_indices [OF adm]; use b(1) idx in \<open>simp add: row_base_def s\<close>)+
  show obs: "ps_ObservedMicros st' = ?t" by (simp add: st' s)
  have "row_base ?p st'" using b(1) fd(3,4) valid ind by (simp add: row_base_def st' s)
  moreover have "pg_sum ?p ?t st' \<le> 9007199254740991 \<and> (pg_sum ?p ?t st' > unat (Limit ?p) \<longrightarrow> ps_Carried st')"
    using sum' law(1) later lim by (cases "err = None") (simp_all add: st')
  then have "row_body ?p st'"
    using law(2) alg windowed_period(1) [OF fd(1,2)] obs by (simp add: row_body_def) (simp add: st' s)
  ultimately show "row_wf ?p st'" by (simp add: row_wf_def)
  show "err = None \<or> err = Some ErrRejected" by (rule law(5))
qed

lemma window_start_bound:
  assumes p: "windowed p" and u: "int64_range u" "u \<le> t" and v: "validPersistedMicros (pg_floor u (Microseconds (p_period p)))"
  shows "- maxExactMicros \<le> pg_window p t * int (period_us p)"
proof -
  note w = windowed_period [OF windowed_facts [OF p]]
  let ?s = "u div int (period_us p) * int (period_us p)"
  have b: "u - int (period_us p) < ?s \<and> ?s \<le> u" by (rule floor_multiple_bounds [OF w(2)])
  have "validPersistedMicros (i64 ?s)" using v pg_floor_i64 [OF w(2) u(1)] w(1) by simp
  moreover have "\<not> int64_range ?s \<Longrightarrow> i64 ?s = ?s + 18446744073709551616"
  proof -
    assume "\<not> int64_range ?s"
    then have "?s < - 9223372036854775808" using b u(1) by (auto simp: int64_range_def)
    then have "(?s + 9223372036854775808) mod 18446744073709551616 = ?s + 9223372036854775808 + 18446744073709551616"
      using b u(1) w(3) by (subst mod_add_self2 [symmetric], subst mod_pos_pos_trivial) (auto simp: int64_range_def maxExactMicros_def)
    then show ?thesis by (simp add: i64_def)
  qed
  ultimately have "- maxExactMicros \<le> ?s"
    using b u(1) w(3) by (cases "int64_range ?s") (auto simp: validPersistedMicros_def maxExactMicros_def int64_range_def)
  moreover have "?s \<le> pg_window p t * int (period_us p)"
    unfolding pg_window_def using u(2) w(2) by (intro mult_right_mono zdiv_mono1) simp_all
  ultimately show ?thesis by linarith
qed

lemma mutateState_row:
  assumes f: "family ps" "r_Policy r \<in> set ps" "q \<in> set ps" and row: "row_wf q st"
    and c: "0 < unat (r_Cost r)" and now: "micro_range (r_Now r)" and m: "mutateState (Some st) r = (next, d, err)"
  defines "t \<equiv> max (UnixMicro (r_Now r)) (ps_ObservedMicros st)"
  shows "next = None \<and> err = Some ErrOverflow \<or>
    (\<exists>st'. next = Some st' \<and> row_wf (r_Policy r) st' \<and> ps_ObservedMicros st' = t \<and> (err = None \<or> err = Some ErrRejected))"
proof -
  let ?r = "clamp_now r (ps_ObservedMicros st)" and ?p = "r_Policy r"
  have base: "row_base q st" using row by (simp add: row_wf_def)
  then have obs: "int64_range (ps_ObservedMicros st)" by (simp add: row_base_def valid_int64)
  note cl = UnixMicro_clamp [OF obs, of r]
  have f': "family ps" "r_Policy ?r \<in> set ps" "q \<in> set ps" using f cl by simp_all
  have t: "ps_ObservedMicros st \<le> UnixMicro (r_Now ?r)" "micro_range (r_Now ?r)" "UnixMicro (r_Now ?r) = t"
    using cl now by (simp_all add: t_def)
  have c': "0 < unat (r_Cost ?r)" using c cl by simp
  note form = mutateState_form [OF state_for_row [OF f row] strict_prepare_row [OF f' row t(1,2)]]
  show ?thesis
  proof (cases "next = None")
    case True
    then show ?thesis using form m by (auto split: if_splits prod.splits)
  next
    case False
    then have range: "server_range ?p t" and start: "p_algorithm ?p = FixedWindow \<Longrightarrow>
          validPersistedMicros (pg_floor (UnixMicro (r_Now r)) (Microseconds (p_period ?p)))"
      and disp: "\<exists>st'. next = Some st' \<and> strict_dispatch (observed_state st ?r) ?r = (st', d, err)"
      using form m t(3) cl(2) by (auto split: if_splits prod.splits)
    obtain st' where st': "next = Some st'" "strict_dispatch (observed_state st ?r) ?r = (st', d, err)" using disp by blast
    have range': "server_range (r_Policy ?r) (UnixMicro (r_Now ?r))" using range t(3) cl(2) by simp
    have "p_algorithm ?p \<in> {TokenBucket, FixedWindow, SlidingWindow}"
      using row familyD(4) [OF f] by (auto simp: row_wf_def row_body_def split: algorithm.splits)
    then consider "p_algorithm ?p = TokenBucket" | "p_algorithm ?p = FixedWindow" | "p_algorithm ?p = SlidingWindow" by blast
    then have "row_wf (r_Policy ?r) st' \<and> ps_ObservedMicros st' = UnixMicro (r_Now ?r) \<and> (err = None \<or> err = Some ErrRejected)"
    proof cases
      case 1
      then have a: "p_algorithm (r_Policy ?r) = TokenBucket" "mutateToken (observed_state st ?r) ?r = (st', d, err)"
        using st' cl by (simp_all add: strict_dispatch_def)
      show ?thesis using row_token [OF f' row t(1) range' c' a] mutateToken_fields(2) [OF a(2)] by simp
    next
      case 2
      then have a: "p_algorithm (r_Policy ?r) = FixedWindow" "mutateFixed (observed_state st ?r) ?r = (st', d, err)"
        using st' cl by (simp_all add: strict_dispatch_def)
      have "windowed ?p" using family_window(1) [OF f] 2 by (simp add: usesWindowMetadata_def)
      then have "- maxExactMicros \<le> pg_window (r_Policy ?r) (UnixMicro (r_Now ?r)) * int (period_us (r_Policy ?r))"
        using window_start_bound [of ?p "UnixMicro (r_Now r)" t] start [OF 2] now t(3) cl(2)
        by (simp add: t_def micro_range_def)
      then show ?thesis using row_fixed [OF f' row range' _ c' a] by simp
    next
      case 3
      then have a: "p_algorithm (r_Policy ?r) = SlidingWindow" "mutateSliding (observed_state st ?r) ?r = (st', d, err)"
        using st' cl by (simp_all add: strict_dispatch_def)
      show ?thesis using row_sliding [OF f' row t(1) range' t(2) c' a] by simp
    qed
    then show ?thesis using st'(1) t(3) cl(2) by simp
  qed
qed

text \<open>A new row behaves as the fresh state.\<close>

lemma fresh_row:
  assumes "policy_wf (r_Policy r)" "p_algorithm (r_Policy r) \<noteq> Concurrency" "validPersistedMicros (UnixMicro (r_Now r))"
  shows "row_wf (r_Policy r) (fresh_state r True)"
proof -
  let ?p = "r_Policy r" and ?st = "fresh_state r True"
  have alg: "p_algorithm ?p \<in> {TokenBucket, FixedWindow, SlidingWindow}" using assms(1,2) by (auto simp: policy_wf_def)
  have zero: "validPersistedMicros 0" "int64_range 0" by (simp_all add: validPersistedMicros_def maxExactMicros_def int64_range_def)
  have segs: "segs ?st = replicate 16 zero_segment"
    by (simp add: fresh_state_def recordWindowPeriod_def zero_persistedState_def stateSegments_def Let_def
        zero_persistedSegment_def zero_segment_def seg_of_def)
  have "row_base ?p ?st"
    using assms(3) valid_int64 [OF assms(3)] zero
    by (auto simp: row_base_def fresh_state_def recordWindowPeriod_def zero_persistedState_def stateSegments_def Let_def
        zero_persistedSegment_def)
  moreover have "row_body ?p ?st"
  proof -
    have per: "0 < period_us ?p" using policy_wf_period [OF assms(1,2)] by simp
    have "segs_wf 9007199254740991 n (segs ?st)" "pg_sum ?p t ?st = 0" for n t
      unfolding segs by (simp_all add: segs_wf_def zero_segment_def pg_sum_def seg_count_def segs)
    then show ?thesis
      using alg per assms zero windowed_period(1) [OF assms(1,2)]
      by (auto simp: row_body_def pg_token_inv_def token_policy_def)
        (simp_all add: fresh_state_def recordWindowPeriod_def zero_persistedState_def usesWindowMetadata_def Let_def)
  qed
  ultimately show ?thesis by (simp add: row_wf_def)
qed

lemma mutateState_new:
  assumes f: "family ps" "r_Policy r \<in> set ps"
  shows "mutateState None r =
    (if validPersistedMicros (UnixMicro (r_Now r)) then mutateState (Some (fresh_state r True)) r
     else (None, zero_Decision, Some ErrOverflow))"
proof -
  let ?p = "r_Policy r" and ?st = "fresh_state r True"
  note fd = familyD [OF f f(2)]
  have obs: "ps_ObservedMicros ?st = UnixMicro (r_Now r)" by (simp add: fresh_state_def recordWindowPeriod_def Let_def)
  show ?thesis
  proof (cases "validPersistedMicros (UnixMicro (r_Now r))")
    case True
    then have "state_for (Some ?st) r True = state_for None r True"
      using state_for_row [OF f f(2) fresh_row [OF fd(1,2)]] by (simp add: state_for_def)
    then show ?thesis using True by (simp add: mutateState_def mutateStateMode_def)
  next
    case False
    then have "\<not> server_range ?p (UnixMicro (r_Now r))"
      by (auto simp: server_range_def validPersistedMicros_def)
    then have "strict_prepare ?st (clamp_now r (ps_ObservedMicros ?st)) = Inl ErrOverflow"
      using server_range_check [OF fd(1,2), of "r_Now r"] obs
      by (auto simp: clamp_now_def strict_prepare_def validateServerClockRange_def Let_def split: if_splits)
    then show ?thesis
      using False by (simp add: mutateState_def mutateStateMode_def state_for_def Let_def)
  qed
qed

section \<open>A row never corrupts itself\<close>

text \<open>Reading a row: absent, or its document decoded strictly.\<close>

definition read_row :: "document option \<Rightarrow> go_error + persistedState option" where
  "read_row row =
     (case row of None \<Rightarrow> Inr None
      | Some doc \<Rightarrow> (case decodeState doc of Inl err \<Rightarrow> Inl err | Inr st \<Rightarrow> Inr (Some st)))"

text \<open>What happens to a row: strict admissions under policies of the family, and expiry.\<close>

inductive row_step :: "policy list \<Rightarrow> document option \<Rightarrow> document option \<Rightarrow> bool" for ps where
  row_admit: "r_Policy r \<in> set ps \<Longrightarrow> 0 < unat (r_Cost r) \<Longrightarrow> micro_range (r_Now r) \<Longrightarrow> read_row row = Inr cur \<Longrightarrow>
    mutateState cur r = (Some st, d, err) \<Longrightarrow> row_step ps row (Some (encodeState st))"
| row_expire: "row_step ps row None"

definition row_ok :: "policy list \<Rightarrow> document option \<Rightarrow> bool" where
  "row_ok ps row \<longleftrightarrow> (\<forall>doc. row = Some doc \<longrightarrow> (\<exists>q \<in> set ps. \<exists>st. row_wf q st \<and> doc = encodeState st))"

lemma read_row_ok:
  assumes "family ps" "row_ok ps row"
  obtains "read_row row = Inr None" | q st where "read_row row = Inr (Some st)" "q \<in> set ps" "row_wf q st"
proof (cases row)
  case None
  then show ?thesis using that(1) by (simp add: read_row_def)
next
  case (Some doc)
  then obtain q st where q: "q \<in> set ps" "row_wf q st" "doc = encodeState st" using assms(2) by (auto simp: row_ok_def)
  have "policy_wf q" using familyD(1) [OF assms(1) q(1) q(1)] .
  then show ?thesis
    using that(2) [of "stored_form st" q] row_wf_stored [OF q(2)] decode_encode(1) [OF row_wf_storable [OF q(2)]] q Some
    by (simp add: read_row_def)
qed

text \<open>One transition on whatever was read.\<close>

lemma mutate_row:
  assumes f: "family ps" "r_Policy r \<in> set ps" and c: "0 < unat (r_Cost r)" and now: "micro_range (r_Now r)"
    and row: "row_ok ps row" and rd: "read_row row = Inr cur" and m: "mutateState cur r = (next, d, err)"
  shows "next = None \<and> err = Some ErrOverflow \<or>
    (\<exists>st'. next = Some st' \<and> row_wf (r_Policy r) st' \<and> (err = None \<or> err = Some ErrRejected))"
proof (cases rule: read_row_ok [OF f(1) row])
  case 1
  then have m': "mutateState None r = (next, d, err)" using rd m by simp
  note fd = familyD [OF f f(2)]
  show ?thesis
  proof (cases "validPersistedMicros (UnixMicro (r_Now r))")
    case True
    have "mutateState (Some (fresh_state r True)) r = (next, d, err)"
      using m' mutateState_new [OF f] True by simp
    then show ?thesis using mutateState_row [OF f f(2) fresh_row [OF fd(1,2) True] c now] by blast
  next
    case False
    then show ?thesis using m' mutateState_new [OF f] by simp
  qed
next
  case (2 q st)
  then have "mutateState (Some st) r = (next, d, err)" using rd m by simp
  then show ?thesis using mutateState_row [OF f 2(2,3) c now] by blast
qed

lemma row_step_ok:
  assumes "row_step ps row row'" "family ps" "row_ok ps row"
  shows "row_ok ps row'"
  using assms(1)
proof cases
  case (row_admit r cur st d err)
  then show ?thesis
    using mutate_row [OF assms(2) row_admit(2-4) assms(3) row_admit(5,6)] by (auto simp: row_ok_def)
qed (simp add: row_ok_def)


section \<open>Samples\<close>

text \<open>A fixed window of ten units, its revision of two, and a request of three units under the first.\<close>

definition wide :: policy where "wide = sample_window FixedWindow"

definition narrowed :: policy where
  "narrowed = wide\<lparr>p_revision := ''v2'', p_capacity := 2, p_maxCost := 2\<rparr>"

definition first_request :: request where "first_request = sample_window_request FixedWindow"

definition second_request :: request where
  "second_request = first_request\<lparr>r_Policy := narrowed, r_Cost := 1\<rparr>"

definition first_state :: persistedState where
  "first_state = the (fst (mutateState None first_request))"

lemma sample_family: "family [wide, narrowed]" "r_Policy first_request = wide" "r_Policy second_request = narrowed"
proof -
  have "policy_wf wide" using sample_window_facts(1) [of FixedWindow] by (simp add: wide_def)
  moreover have "validPolicyIdentifier ''v2'' MaxPolicyRevisionBytes" by code_simp
  moreover have "period_us wide = 1000000" "p_algorithm wide = FixedWindow" "p_burst wide = 0"
    by (simp_all add: wide_def sample_window_def sample_policy_def period_us_def)
  ultimately have "policy_wf wide" "policy_wf narrowed" by (simp_all add: policy_wf_def narrowed_def period_us_def)
  moreover have "p_revision wide \<noteq> p_revision narrowed" by (simp add: narrowed_def wide_def sample_window_def sample_policy_def)
  ultimately show "family [wide, narrowed]"
    by (auto simp: family_def) (simp_all add: narrowed_def wide_def sample_window_def)
  show "r_Policy first_request = wide" "r_Policy second_request = narrowed"
    by (simp_all add: first_request_def second_request_def sample_window_request_def wide_def)
qed

lemma sample_first: "mutateState None first_request = (Some first_state, fst (snd (mutateState None first_request)), None)"
proof -
  have "snd (snd (mutateState None first_request)) = None" "fst (mutateState None first_request) \<noteq> None" by code_simp+
  then show ?thesis by (simp add: first_state_def prod_eq_iff)
qed

lemma sample_costs:
  "0 < unat (r_Cost first_request)" "0 < unat (r_Cost second_request)"
  "micro_range (r_Now first_request)" "micro_range (r_Now second_request)"
  by (simp_all add: first_request_def second_request_def sample_window_request_def sample_request_def micro_range_def
      int64_range_def)

theorem row_roundtrip_witness:
  "storable first_state \<and> ps_PeriodMicros first_state = 1000000 \<and> decodeState (encodeState first_state) = Inr (stored_form first_state)"
proof -
  have "row_ok [wide, narrowed] None" by (simp add: row_ok_def)
  then have "row_wf wide first_state"
    using mutate_row [of "[wide, narrowed]" first_request None None "Some first_state" _ None] sample_family sample_costs sample_first
    by (auto simp: read_row_def)
  then have "storable first_state" using row_wf_storable sample_family(1) by (auto simp: family_def)
  moreover have "ps_PeriodMicros first_state = 1000000" by code_simp
  ultimately show ?thesis using row_roundtrip [of first_state] by simp
qed


section \<open>Released writers\<close>

text \<open>One admission through the released interface on a stored row.\<close>

definition released_write :: "document \<Rightarrow> request \<Rightarrow> document option" where
  "released_write doc r =
     (case decodeStateLegacy doc of Inl err \<Rightarrow> None
      | Inr st \<Rightarrow> (case mutateStateLegacy (Some st) r of (next, d, err) \<Rightarrow>
          if err = None \<or> err = Some ErrRejected then map_option encodeState next else None))"

text \<open>The row of the first request, as written under a revision, and read strictly.\<close>

definition sample_document :: "string \<Rightarrow> document" where
  "sample_document revision = Document
     \<lparr>wi_Schema = 1, wi_PolicyID = ''api'', wi_Revision = revision, wi_Algorithm = FixedWindow, wi_Tokens = 10,
      wi_Remainder = 1000000, wi_LastMicros = 0, wi_ObservedMicros = 1700000000000000, wi_Window = 1700000000000000,
      wi_Used = 3, wi_Segments = replicate 16 (0, 0), wi_Leases = [], wi_Unknown = False, wi_Trailing = False\<rparr>"

definition sample_read :: persistedState where
  "sample_read = zero_persistedState
     \<lparr>ps_Schema := 1, ps_PolicyID := ''api'', ps_Revision := ''v2'', ps_Algorithm := FixedWindow, ps_Tokens := 10,
      ps_Remainder := 1000000, ps_ObservedMicros := 1700000000000000, ps_Window := 1700000000000000,
      ps_Used := 3, ps_PeriodMicros := 1000000\<rparr>"

lemma released_run:
  "encodeState first_state = sample_document ''v1''"
  "released_write (sample_document ''v1'') second_request = Some (sample_document ''v2'')"
  "decodeState (sample_document ''v2'') = Inr sample_read"
  "snd (snd (mutateState (Some sample_read) second_request)) = Some ErrCorrupt"
  "snd (snd (mutateState (Some sample_read) (second_request\<lparr>r_Now := 1700000001500000000\<rparr>))) = Some ErrCorrupt"
  by code_simp+


end
