(* ===== verification/Memory_Leases.thy ===== *)
theory Memory_Leases
  imports Memory_Limits
begin

text \<open>
  What the memory backend promises about leases: the capacity bound, idempotent
  acquisition, the acquire/release round trip, isolation of keys under eviction,
  and what a sweep removes.
\<close>

section \<open>The leases of one key\<close>

definition load :: "(string \<times> leaseState) list \<Rightarrow> nat" where
  "load ls = sum_list (map (\<lambda>x. unat (ls_cost (snd x))) ls)"

lemma load_simps [simp]: "load [] = 0" "load (x # ls) = unat (ls_cost (snd x)) + load ls"
  by (simp_all add: load_def)

lemma leasesUsed_load: "load ls < 18446744073709551616 \<Longrightarrow> unat (leasesUsed ls) = load ls"
proof -
  have "unat u + load ls < 18446744073709551616 \<Longrightarrow>
      unat (foldl (\<lambda>used (i, l). used + ls_cost l) u ls) = unat u + load ls" for u :: uint64
  proof (induction ls arbitrary: u)
    case (Cons x ls)
    have "unat (u + ls_cost (snd x)) = unat u + unat (ls_cost (snd x))" using Cons.prems by (intro u64_add) simp
    then show ?case using Cons by (simp add: case_prod_beta)
  qed simp
  from this [of 0] show "load ls < 18446744073709551616 \<Longrightarrow> ?thesis" by (simp add: leasesUsed_def)
qed

lemma load_filter: "load (filter P ls) \<le> load ls"
  by (induction ls) auto

lemma load_delete: "load (AList.delete i ls) \<le> load ls"
  by (simp add: AList.delete_eq load_filter)

lemma load_update: "i \<notin> set (keys ls) \<Longrightarrow> load (AList.update i l ls) = load ls + unat (ls_cost l)"
  by (induction ls) auto

lemma load_member: "(i, l) \<in> set ls \<Longrightarrow> unat (ls_cost l) \<le> load ls"
  by (induction ls) auto

lemma keys_filter: "distinct (keys ls) \<Longrightarrow> distinct (keys (filter P ls))"
  by (rule distinct_map_filter)

lemma active_lookup:
  "distinct (keys ls) \<Longrightarrow> map_of (activeLeases ls now) i = Some l \<longleftrightarrow> map_of ls i = Some l \<and> now < ls_expiresAt l"
  using keys_filter [of ls "\<lambda>(i, l). now < ls_expiresAt l"] by (auto simp: activeLeases_def)

definition leases_ok :: "nat \<Rightarrow> mstate \<Rightarrow> bool" where
  "leases_ok m st \<longleftrightarrow> distinct (keys (st_leases st)) \<and> load (st_leases st) \<le> m"

definition lease_now :: "mstate \<Rightarrow> leaseRequest \<Rightarrow> time" where
  "lease_now st lr = max (r_Now (lr_Request lr)) (st_lastSeen st)"

abbreviation held :: "mstate \<Rightarrow> leaseRequest \<Rightarrow> (string \<times> leaseState) list" where
  "held st lr \<equiv> activeLeases (st_leases st) (lease_now st lr)"

lemma acquireState_now:
  "acquireState st lr =
     (let leases = held st lr; used = leasesUsed leases; r = lr_Request lr; limit = Limit (r_Policy r);
          st = st\<lparr>st_lastSeen := lease_now st lr, st_leases := leases\<rparr>; remaining = limit - min used limit
      in case map_of leases (lr_LeaseID lr) of
           Some existing \<Rightarrow>
             if ls_cost existing \<noteq> r_Cost r then (st, zero_Lease, zero_Decision, Some ErrLeaseNotOwned)
             else (st, makeLease lr (ls_expiresAt existing),
                   zero_Decision\<lparr>d_Allowed := True, d_Limit := limit, d_Remaining := remaining,
                     d_Reset := ls_expiresAt existing, d_Reason := ReasonAllowed\<rparr>, None)
         | None \<Rightarrow>
             if r_Cost r > remaining
             then (st, zero_Lease,
                zero_Decision\<lparr>d_Allowed := False, d_Limit := limit, d_Remaining := remaining,
                  d_Reset := earliestLease leases,
                  d_RetryAfter := nonnegative (time_Sub (earliestLease leases) (st_lastSeen st)),
                  d_Reason := ReasonLimited\<rparr>, Some ErrRejected)
             else (st\<lparr>st_leases := AList.update (lr_LeaseID lr)
                   \<lparr>ls_cost = r_Cost r, ls_expiresAt = time_Add (st_lastSeen st) (p_lease (r_Policy r))\<rparr> leases\<rparr>,
                makeLease lr (time_Add (st_lastSeen st) (p_lease (r_Policy r))),
                zero_Decision\<lparr>d_Allowed := True, d_Limit := limit, d_Remaining := remaining - r_Cost r,
                  d_Reset := time_Add (st_lastSeen st) (p_lease (r_Policy r)), d_Reason := ReasonAllowed\<rparr>, None))"
proof -
  have now: "(if r_Now (lr_Request lr) < st_lastSeen st then st_lastSeen st else r_Now (lr_Request lr)) = lease_now st lr"
    by (simp add: lease_now_def max_def)
  show ?thesis unfolding acquireState_def Let_def now by (simp cong: option.case_cong if_cong)
qed

text \<open>The three outcomes of an acquisition.\<close>

lemma acquireState_cases:
  assumes ok: "leases_ok m st" "m < 18446744073709551616" and cost: "0 < unat (r_Cost (lr_Request lr))"
    and acq: "acquireState st lr = (st', l, d, err)"
  defines "r \<equiv> lr_Request lr" and "ls \<equiv> held st lr" and "now \<equiv> lease_now st lr"
  obtains (owned) e where "map_of ls (lr_LeaseID lr) = Some e" "ls_cost e = r_Cost r" "err = None" "d_Allowed d"
      "st' = st\<lparr>st_lastSeen := now, st_leases := ls\<rparr>" "l = makeLease lr (ls_expiresAt e)"
  | (mismatch) e where "map_of ls (lr_LeaseID lr) = Some e" "ls_cost e \<noteq> r_Cost r" "err = Some ErrLeaseNotOwned"
      "\<not> d_Allowed d" "st' = st\<lparr>st_lastSeen := now, st_leases := ls\<rparr>"
  | (rejected) "map_of ls (lr_LeaseID lr) = None" "unat (Limit (r_Policy r)) < load ls + unat (r_Cost r)"
      "err = Some ErrRejected" "\<not> d_Allowed d" "st' = st\<lparr>st_lastSeen := now, st_leases := ls\<rparr>"
      "d_Reset d = earliestLease ls"
  | (granted) "map_of ls (lr_LeaseID lr) = None" "load ls + unat (r_Cost r) \<le> unat (Limit (r_Policy r))"
      "err = None" "d_Allowed d" "l = makeLease lr (time_Add now (p_lease (r_Policy r)))"
      "st' = st\<lparr>st_lastSeen := now, st_leases := AList.update (lr_LeaseID lr)
         \<lparr>ls_cost = r_Cost r, ls_expiresAt = time_Add now (p_lease (r_Policy r))\<rparr> ls\<rparr>"
      "unat (d_Remaining d) + load (st_leases st') = unat (Limit (r_Policy r))"
proof -
  have "load ls \<le> m" using ok(1) load_filter [of _ "st_leases st"] unfolding ls_def activeLeases_def leases_ok_def
    by (meson le_trans)
  then have used: "unat (leasesUsed ls) = load ls" using ok(2) by (intro leasesUsed_load) simp
  let ?lim = "Limit (r_Policy r)" and ?u = "leasesUsed ls"
  have rem: "unat (?lim - min ?u ?lim) = unat ?lim - load ls"
    by (simp add: u64_sub used min_def u64_le)
  note unf = acq [unfolded acquireState_now Let_def, folded r_def ls_def now_def]
  show thesis
  proof (cases "map_of ls (lr_LeaseID lr)")
    case (Some e)
    then show thesis using unf owned [of e] mismatch [of e] by (auto simp: zero_Decision_def split: if_splits)
  next
    case None
    show thesis
    proof (cases "r_Cost r > ?lim - min ?u ?lim")
      case True
      then have "unat ?lim < load ls + unat (r_Cost r)" using rem by (simp add: u64_less)
      then show thesis using unf None True by (intro rejected) (auto simp: zero_Decision_def)
    next
      case False
      then have fits: "load ls + unat (r_Cost r) \<le> unat ?lim"
        using rem cost by (simp add: u64_less r_def)
      have new: "lr_LeaseID lr \<notin> set (keys ls)" using None by (simp add: map_of_None_key)
      have "unat (?lim - min ?u ?lim - r_Cost r) = unat ?lim - load ls - unat (r_Cost r)"
        using rem fits by (simp add: u64_sub)
      then show thesis
        using unf None False fits load_update [OF new] by (intro granted) (auto simp: zero_Decision_def)
    qed
  qed
qed

section \<open>Invariants of every key\<close>

text \<open>
  The steps of callers whose policies come from \<open>NewPolicy\<close>. What holds of a new
  state and is kept by each operation on one key holds of every key of a store.
\<close>

inductive caller_step :: "store \<Rightarrow> store \<Rightarrow> bool" where
  admit: "request_typed r \<Longrightarrow> Store_Admit s c r = (d, err, s') \<Longrightarrow> caller_step s s'"
| acquire: "request_typed (lr_Request lr) \<Longrightarrow> Store_Acquire s c lr = (l, d, err, s') \<Longrightarrow> caller_step s s'"
| release: "Store_Release s c l = (err, s') \<Longrightarrow> caller_step s s'"
| sweep: "Sweep s now idleFor = (res, s') \<Longrightarrow> caller_step s s'"
| close: "caller_step s (Close s)"

lemma caller_store_step: "caller_step s s' \<Longrightarrow> store_step s s'"
  by (induction rule: caller_step.induct) (blast intro: store_step.intros)+

lemma normalize_ok:
  assumes "request_typed r" "Request_Validate r = None"
  shows "request_ok (normalize_now r)" "on_micro (r_Now (normalize_now r))" "r_Policy (normalize_now r) = r_Policy r"
proof -
  have ok: "policy_wf (r_Policy r)" "micro_range (r_Now r)"
    using assms by (auto simp: Request_Validate_None request_typed_def)
  have "r_Now (normalize_now r) div 1000 = r_Now r div 1000"
    using ok(2) by (simp add: normalize_now_def time_UnixMicro_def)
  moreover have "r_Policy (normalize_now r) = r_Policy r" "r_Key (normalize_now r) = r_Key r" "r_Cost (normalize_now r) = r_Cost r"
    by (simp_all add: normalize_now_def)
  ultimately show "request_ok (normalize_now r)" "r_Policy (normalize_now r) = r_Policy r"
    using assms(2) ok by (auto simp: Request_Validate_None request_ok_def Microseconds_request u64_less not_less unat_gt_0)
  show "on_micro (r_Now (normalize_now r))" by (simp add: normalize_now_def)
qed

definition states_all :: "(mstate \<Rightarrow> bool) \<Rightarrow> shard \<Rightarrow> bool" where
  "states_all P sh \<longleftrightarrow> (\<forall>(k, st) \<in> set (sh_states sh). P st)"

lemma set_update_subset: "set (AList.update k v m) \<subseteq> insert (k, v) (set m)"
  by (induction m) auto

lemma states_all_put: "states_all P sh \<Longrightarrow> P st \<Longrightarrow> states_all P (sh\<lparr>sh_states := AList.update k st (sh_states sh)\<rparr>)"
  using set_update_subset [of k st "sh_states sh"] by (auto simp: states_all_def)

lemma states_all_get: "states_all P sh \<Longrightarrow> map_of (sh_states sh) k = Some st \<Longrightarrow> P st"
  by (auto simp: states_all_def dest!: map_of_SomeD)

text \<open>An operation returns early or runs one locked section on the key's shard.\<close>

lemma Store_Admit_cases:
  assumes "Store_Admit s c r = (d, err, s')"
  obtains (early) "s' = s" "err \<noteq> None"
  | (locked) sh where "\<not> so_closed s" "c = None" "Request_Validate r = None" "p_algorithm (r_Policy r) \<noteq> Concurrency"
      "admitLocked (so_shards s ! shardFor s (stateKey r)) (stateKey r) (normalize_now r) = (d, err, sh)"
      "s' = with_shard s (shardFor s (stateKey r)) sh"
proof -
  have key: "stateKey (normalize_now r) = stateKey r" by (simp add: stateKey_def normalize_now_def)
  then show thesis
  proof (cases "so_closed s \<or> c \<noteq> None \<or> Request_Validate r \<noteq> None \<or> p_algorithm (r_Policy r) = Concurrency")
    case True
    then have "snd (snd (Store_Admit s c r)) = s" "fst (snd (Store_Admit s c r)) \<noteq> None"
      by (auto simp: Store_Admit_def split: option.split)
    then show thesis using early assms by simp
  next
    case False
    obtain d' err' sh where
      "admitLocked (so_shards s ! shardFor s (stateKey r)) (stateKey r) (normalize_now r) = (d', err', sh)"
      by (metis surj_pair)
    then show thesis using False assms key by (intro locked [of sh]) (simp_all add: Store_Admit_def Let_def)
  qed
qed

lemma Store_Acquire_cases:
  assumes "Store_Acquire s c lr = (l, d, err, s')"
  obtains (early) "s' = s" "err \<noteq> None"
  | (locked) lr' sh where "\<not> so_closed s" "c = None" "Request_Validate (lr_Request lr) = None"
      "p_algorithm (r_Policy (lr_Request lr)) = Concurrency"
      "lr' = lr\<lparr>lr_Request := normalize_now (lr_Request lr)\<rparr>"
      "acquireLocked (so_shards s ! shardFor s (stateKey (lr_Request lr))) (stateKey (lr_Request lr)) lr' = (l, d, err, sh)"
      "s' = with_shard s (shardFor s (stateKey (lr_Request lr))) sh"
proof -
  have key: "stateKey (normalize_now r) = stateKey r" for r by (simp add: stateKey_def normalize_now_def)
  then show thesis
  proof (cases "so_closed s \<or> c \<noteq> None \<or> LeaseRequest_Validate lr \<noteq> None")
    case True
    then have "snd (snd (snd (Store_Acquire s c lr))) = s" "fst (snd (snd (Store_Acquire s c lr))) \<noteq> None"
      by (auto simp: Store_Acquire_def split: option.split)
    then show thesis using early assms by simp
  next
    case False
    let ?lr = "lr\<lparr>lr_Request := normalize_now (lr_Request lr)\<rparr>" and ?key = "stateKey (lr_Request lr)"
    obtain l' d' err' sh where "acquireLocked (so_shards s ! shardFor s ?key) ?key ?lr = (l', d', err', sh)"
      by (metis surj_pair)
    moreover have "Request_Validate (lr_Request lr) = None" "p_algorithm (r_Policy (lr_Request lr)) = Concurrency"
      using False by (auto simp: LeaseRequest_Validate_def split: option.splits if_splits)
    ultimately show thesis
      using False assms key by (intro locked [of ?lr sh]) (simp_all add: Store_Acquire_def Let_def)
  qed
qed

lemma Store_Release_cases:
  assumes "Store_Release s c l = (err, s')"
  obtains (early) "s' = s" "err \<noteq> None"
  | (locked) sh where "\<not> so_closed s" "c = None"
      "releaseLocked (so_shards s ! shardFor s (state_key (l_PolicyID l) (l_Key l))) l = (err, sh)"
      "s' = with_shard s (shardFor s (state_key (l_PolicyID l) (l_Key l))) sh"
  using assms by (auto simp: Store_Release_def Let_def split: if_splits prod.splits)

locale state_invariant =
  fixes P :: "mstate \<Rightarrow> bool"
  assumes new: "request_ok r \<Longrightarrow> on_micro (r_Now r) \<Longrightarrow> P (new_state r)"
    and carry: "P st \<Longrightarrow> request_ok r \<Longrightarrow> on_micro (r_Now r) \<Longrightarrow> st_algorithm st = p_algorithm (r_Policy r) \<Longrightarrow>
      P (carryRevision st r)"
    and admit: "P st \<Longrightarrow> request_ok r \<Longrightarrow> on_micro (r_Now r) \<Longrightarrow> st_algorithm st = p_algorithm (r_Policy r) \<Longrightarrow>
      p_algorithm (r_Policy r) \<noteq> Concurrency \<Longrightarrow> admitState st r = (st', d, err) \<Longrightarrow> P st'"
    and acquire: "P st \<Longrightarrow> request_ok (lr_Request lr) \<Longrightarrow> on_micro (r_Now (lr_Request lr)) \<Longrightarrow>
      st_algorithm st = Concurrency \<Longrightarrow> p_algorithm (r_Policy (lr_Request lr)) = Concurrency \<Longrightarrow>
      acquireState st lr = (st', l, d, err) \<Longrightarrow> P st'"
    and release: "P st \<Longrightarrow> P (st\<lparr>st_leases := AList.delete i (st_leases st)\<rparr>)"
    and sweep: "P st \<Longrightarrow> P (st\<lparr>st_leases := activeLeases (st_leases st) now\<rparr>)"
begin

lemma evict_all: "states_all P sh \<Longrightarrow> evictOldest sh now = (b, sh') \<Longrightarrow> states_all P sh'"
  by (elim evictOldest_cases) (auto simp: states_all_def AList.delete_eq)

lemma getOrCreate_all:
  assumes all: "states_all P sh" and r: "request_ok r" "on_micro (r_Now r)"
    and alg: "\<And>st. map_of (sh_states sh) key = Some st \<Longrightarrow> st_algorithm st = p_algorithm (r_Policy r)"
    and g: "getOrCreate sh key r = (res, sh')"
  shows "states_all P sh' \<and> (\<forall>st. res = Inr st \<longrightarrow> P st \<and> st_algorithm st = p_algorithm (r_Policy r))"
proof (cases "map_of (sh_states sh) key")
  case (Some cur)
  define st where "st = (if st_revision cur \<noteq> p_revision (r_Policy r) then carryRevision cur r else cur)"
  have "P st" using states_all_get [OF all Some] carry [OF _ r alg [OF Some]] by (simp add: st_def)
  moreover have "st_algorithm st = p_algorithm (r_Policy r)"
    using alg [OF Some] by (auto simp: st_def carryRevision_def Let_def split: algorithm.splits)
  moreover have "res = Inr st" "sh' = sh\<lparr>sh_states := AList.update key st (sh_states sh)\<rparr>"
    using g Some by (simp_all add: getOrCreate_def st_def Let_def)
  ultimately show ?thesis using states_all_put [OF all] by simp
next
  case None
  have "P (new_state r)" "st_algorithm (new_state r) = p_algorithm (r_Policy r)"
    using new [OF r] by (simp_all add: new_state_def)
  then show ?thesis
    using g None all evict_all [OF all] states_all_put [of P]
    by (auto simp: getOrCreate_def Let_def split: if_splits prod.splits)
qed

lemma admitLocked_all:
  assumes "states_all P sh" "request_ok r" "on_micro (r_Now r)" "p_algorithm (r_Policy r) \<noteq> Concurrency"
    "admitLocked sh key r = (d, err, sh')"
  shows "states_all P sh'"
proof (cases "case map_of (sh_states sh) key of Some e \<Rightarrow> st_algorithm e \<noteq> p_algorithm (r_Policy r) | None \<Rightarrow> False")
  case True
  then show ?thesis using assms by (simp add: admitLocked_def)
next
  case False
  obtain res sh1 where g: "getOrCreate sh key r = (res, sh1)" by (cases "getOrCreate sh key r")
  have "map_of (sh_states sh) key = Some st \<Longrightarrow> st_algorithm st = p_algorithm (r_Policy r)" for st using False by simp
  note i = getOrCreate_all [OF assms(1-3) this g]
  show ?thesis
  proof (cases res)
    case (Inr st)
    obtain st' d' err' where a: "admitState st r = (st', d', err')" by (cases "admitState st r")
    have "P st'" using admit [OF _ assms(2,3) _ assms(4) a] i Inr by simp
    then show ?thesis using assms(5) False g Inr a i states_all_put [of P sh1] by (auto simp: admitLocked_def)
  qed (use assms(5) False g i in \<open>simp add: admitLocked_def\<close>)
qed

lemma acquireLocked_all:
  assumes "states_all P sh" "request_ok (lr_Request lr)" "on_micro (r_Now (lr_Request lr))"
    "p_algorithm (r_Policy (lr_Request lr)) = Concurrency" "acquireLocked sh key lr = (l, d, err, sh')"
  shows "states_all P sh'"
proof (cases "case map_of (sh_states sh) key of
    Some e \<Rightarrow> st_algorithm e \<noteq> p_algorithm (r_Policy (lr_Request lr)) | None \<Rightarrow> False")
  case True
  then show ?thesis using assms by (simp add: acquireLocked_def)
next
  case False
  obtain res sh1 where g: "getOrCreate sh key (lr_Request lr) = (res, sh1)" by (cases "getOrCreate sh key (lr_Request lr)")
  have "map_of (sh_states sh) key = Some st \<Longrightarrow> st_algorithm st = p_algorithm (r_Policy (lr_Request lr))" for st
    using False by simp
  note i = getOrCreate_all [OF assms(1-3) this g]
  show ?thesis
  proof (cases res)
    case (Inr st)
    obtain st' l' d' err' where a: "acquireState st lr = (st', l', d', err')" by (cases "acquireState st lr")
    have "P st'" using acquire [OF _ assms(2,3) _ assms(4) a] i Inr assms(4) by simp
    then show ?thesis using assms(5) False g Inr a i states_all_put [of P sh1] by (auto simp: acquireLocked_def)
  qed (use assms(5) False g i in \<open>simp add: acquireLocked_def\<close>)
qed

lemma releaseLocked_all: "states_all P sh \<Longrightarrow> releaseLocked sh l = (err, sh') \<Longrightarrow> states_all P sh'"
  using release states_all_get [of P sh] states_all_put [of P sh]
  by (auto simp: releaseLocked_def Let_def split: option.splits if_splits)

lemma sweepShard_all: "states_all P sh \<Longrightarrow> states_all P (sweepShard now idleFor sh)"
  using sweep by (fastforce simp: states_all_def sweepShard_def sweepState_def Let_def List.map_filter_def split: if_splits)

definition store_all :: "store \<Rightarrow> bool" where
  "store_all s \<longleftrightarrow> list_all (states_all P) (so_shards s)"

lemma store_all_put: "store_all s \<Longrightarrow> states_all P sh \<Longrightarrow> store_all (with_shard s i sh)"
  by (auto simp: store_all_def with_shard_def list_all_iff dest: set_update_subset_insert [THEN subsetD])

lemma store_all_shard: "store_ok n s \<Longrightarrow> store_all s \<Longrightarrow> states_all P (so_shards s ! shardFor s key)"
  using store_ok_shard [of n s key] by (simp add: store_all_def list_all_length)

lemma step_all:
  assumes "caller_step s s'" "store_ok n s" "store_all s"
  shows "store_all s'"
  using assms
proof (induction rule: caller_step.induct)
  case (admit r s c d err s')
  show ?case using admit(2)
  proof (cases rule: Store_Admit_cases)
    case (locked sh)
    then have "states_all P sh"
      by (intro admitLocked_all [OF store_all_shard [OF admit.prems]])
        (use admit locked normalize_ok [OF admit.hyps(1)] in simp_all)
    then show ?thesis using admit locked by (simp add: store_all_put)
  qed (use admit in simp)
next
  case (acquire lr s c l d err s')
  show ?case using acquire(2)
  proof (cases rule: Store_Acquire_cases)
    case (locked lr' sh)
    then have "states_all P sh"
      by (intro acquireLocked_all [OF store_all_shard [OF acquire.prems]])
        (use acquire locked normalize_ok [OF acquire.hyps(1)] in simp_all)
    then show ?thesis using acquire locked by (simp add: store_all_put)
  qed (use acquire in simp)
next
  case (release s c l err s')
  show ?case using release(1)
  proof (cases rule: Store_Release_cases)
    case (locked sh)
    then show ?thesis using release releaseLocked_all [OF store_all_shard] by (simp add: store_all_put)
  qed (use release in simp)
next
  case (sweep s now idleFor res s')
  then show ?case
    using sweepShard_all by (auto simp: Sweep_def Let_def store_all_def list_all_iff split: if_splits)
qed (simp add: Close_def store_all_def)

lemma reachable_all:
  assumes "New opts = Inr s" "caller_step\<^sup>*\<^sup>* s s'"
  shows "store_all s' \<and> store_ok (nat (op_MaxKeys opts)) s'"
  using assms(2)
proof (induction rule: rtranclp_induct)
  case base
  have "list_all (\<lambda>sh. sh_states sh = []) (so_shards s)"
    using assms(1) by (auto simp: New_def Let_def list_all_iff split: if_splits)
  then have "store_all s" by (auto simp: store_all_def states_all_def list_all_iff)
  then show ?case using New_ok(1) [OF assms(1)] by simp
next
  case (step s1 s2)
  then show ?case using step_all store_step_ok [OF caller_store_step] by blast
qed

end

section \<open>Well-formed states\<close>

text \<open>
  What every stored state satisfies: sixteen segments, microsecond clocks, leases
  only under a concurrency policy, with positive costs that add up to at most the
  1,024 units a concurrency policy can have.
\<close>

definition state_wf :: "mstate \<Rightarrow> bool" where
  "state_wf st \<longleftrightarrow> length (st_segments st) = 16 \<and> on_micro (st_lastSeen st) \<and> on_micro (st_lastRefill st) \<and>
     leases_ok 1024 st \<and> (\<forall>(i, l) \<in> set (st_leases st). 0 < unat (ls_cost l)) \<and>
     (st_algorithm st \<noteq> Concurrency \<longrightarrow> st_leases st = [])"

lemma admit_shape:
  "admitToken st r = (st', d, err) \<Longrightarrow> st_segments st' = st_segments st \<and> st_leases st' = st_leases st \<and>
     st_algorithm st' = st_algorithm st \<and> (st_lastRefill st' = st_lastRefill st \<or> st_lastRefill st' = r_Now r)"
  "admitFixed st r = (st', d, err) \<Longrightarrow> st_segments st' = st_segments st \<and> st_leases st' = st_leases st \<and>
     st_algorithm st' = st_algorithm st \<and> st_lastRefill st' = st_lastRefill st"
  by (auto simp: admitToken_def refill_def admitFixed_def consumeWindow_def Let_def split: if_splits prod.splits)

lemma scanSegments_length: "scanSegments oldest gs u e = (gs', u', e') \<Longrightarrow> length gs' = length gs"
  by (induction gs arbitrary: u e gs') (auto simp: Let_def split: if_splits prod.splits)

lemma consumeWindow_shape:
  "consumeWindow st r reset = (st', d, err) \<Longrightarrow> st_segments st' = st_segments st \<and> st_leases st' = st_leases st \<and>
     st_algorithm st' = st_algorithm st \<and> st_lastRefill st' = st_lastRefill st"
  by (auto simp: consumeWindow_def Let_def split: if_splits)

lemma admitSliding_shape:
  "admitSliding st r = (st', d, err) \<Longrightarrow> length (st_segments st') = length (st_segments st) \<and> st_leases st' = st_leases st \<and>
     st_algorithm st' = st_algorithm st \<and> st_lastRefill st' = st_lastRefill st"
  by (auto simp: admitSliding_def Let_def dest!: consumeWindow_shape scanSegments_length split: if_splits prod.splits)

lemma admitState_shape:
  assumes "admitState st r = (st', d, err)"
  shows "length (st_segments st') = length (st_segments st)" "st_leases st' = st_leases st"
    "st_algorithm st' = st_algorithm st"
    "st_lastRefill st' = st_lastRefill st \<or> st_lastRefill st' = max (r_Now r) (st_lastSeen st)"
  using assms unfolding admitState_def Let_def
  by (cases "p_algorithm (r_Policy r)"; auto simp: max_def dest!: admit_shape admitSliding_shape split: if_splits)+

lemma policy_lease_limit: "policy_wf p \<Longrightarrow> p_algorithm p = Concurrency \<Longrightarrow> unat (Limit p) \<le> 1024"
  by (simp add: policy_wf_def policy_wf_Limit)

lemma acquire_wf:
  assumes wf: "state_wf st" and r: "request_ok (lr_Request lr)" "on_micro (r_Now (lr_Request lr))"
    and alg: "st_algorithm st = Concurrency" "p_algorithm (r_Policy (lr_Request lr)) = Concurrency"
    and acq: "acquireState st lr = (st', l, d, err)"
  shows "state_wf st'"
proof -
  let ?st = "st\<lparr>st_lastSeen := lease_now st lr, st_leases := held st lr\<rparr>"
  have now: "on_micro (lease_now st lr)" using wf r(2) by (simp add: lease_now_def max_def state_wf_def)
  have ls: "leases_ok 1024 st" "0 < unat (r_Cost (lr_Request lr))" "unat (Limit (r_Policy (lr_Request lr))) \<le> 1024"
    using wf r(1) alg(2) policy_lease_limit by (auto simp: state_wf_def request_ok_def)
  have base: "state_wf ?st"
    using wf now load_filter [of "\<lambda>(i, l). ls_expiresAt l > lease_now st lr" "st_leases st"]
    by (auto simp: state_wf_def leases_ok_def activeLeases_def intro: keys_filter)
  have "(1024 :: nat) < 18446744073709551616" by simp
  from ls(1) this ls(2) acq show ?thesis
  proof (cases rule: acquireState_cases)
    case granted
    let ?new = "\<lparr>ls_cost = r_Cost (lr_Request lr), ls_expiresAt = time_Add (lease_now st lr) (p_lease (r_Policy (lr_Request lr)))\<rparr>"
    have "load (AList.update (lr_LeaseID lr) ?new (held st lr)) \<le> 1024"
      using granted(6,7) ls(3) by simp
    moreover have "distinct (keys (AList.update (lr_LeaseID lr) ?new (held st lr)))"
      using base by (simp add: state_wf_def leases_ok_def distinct_update)
    moreover have "\<forall>(i, l) \<in> set (AList.update (lr_LeaseID lr) ?new (held st lr)). 0 < unat (ls_cost l)"
      using base ls(2) set_update_subset [of "lr_LeaseID lr" ?new "held st lr"] by (fastforce simp: state_wf_def)
    ultimately show ?thesis using base alg granted(6) by (simp add: state_wf_def leases_ok_def)
  qed (use base in simp_all)
qed

interpretation wf: state_invariant state_wf
proof
  show "request_ok r \<Longrightarrow> on_micro (r_Now r) \<Longrightarrow> state_wf (new_state r)" for r
    by (simp add: state_wf_def new_state_def slidingSegments_def leases_ok_def)
  show "state_wf st \<Longrightarrow> request_ok r \<Longrightarrow> on_micro (r_Now r) \<Longrightarrow> st_algorithm st = p_algorithm (r_Policy r) \<Longrightarrow>
      state_wf (carryRevision st r)" for st r
    by (simp add: state_wf_def carryRevision_def leases_ok_def Let_def split: algorithm.splits)
  show "state_wf st'" if "state_wf st" "request_ok r" "on_micro (r_Now r)" "st_algorithm st = p_algorithm (r_Policy r)"
    "p_algorithm (r_Policy r) \<noteq> Concurrency" "admitState st r = (st', d, err)" for st r st' d err
    using that admitState_shape [OF that(6)] admitState_lastSeen [OF that(6)]
    by (auto simp: state_wf_def leases_ok_def max_def split: if_splits)
  show "state_wf (st\<lparr>st_leases := AList.delete i (st_leases st)\<rparr>)" if "state_wf st" for st i
    using that load_delete [of i "st_leases st"]
    by (auto simp: state_wf_def leases_ok_def AList.delete_eq intro: keys_filter)
  show "state_wf (st\<lparr>st_leases := activeLeases (st_leases st) now\<rparr>)" if "state_wf st" for st now
    using that load_filter [of "\<lambda>(i, l). ls_expiresAt l > now" "st_leases st"]
    by (auto simp: state_wf_def leases_ok_def activeLeases_def intro: keys_filter)
qed (rule acquire_wf)

section \<open>Acquiring and releasing\<close>

text \<open>The state a store holds for a key.\<close>

definition lookup :: "store \<Rightarrow> string \<Rightarrow> mstate option" where
  "lookup s key = map_of (sh_states (so_shards s ! shardFor s key)) key"

lemma shardFor_with_shard [simp]: "shardFor (with_shard s i sh) key = shardFor s key"
  by (simp add: shardFor_def with_shard_def)

lemma lookup_with_shard:
  "store_ok n s \<Longrightarrow> lookup (with_shard s (shardFor s key) sh) key = map_of (sh_states sh) key"
  using store_ok_shard [of n s key] by (simp add: lookup_def) (simp add: with_shard_def)

lemma lookup_wf: "wf.store_all s \<Longrightarrow> store_ok n s \<Longrightarrow> lookup s key = Some st \<Longrightarrow> state_wf st"
  using wf.store_all_shard [of n s key] states_all_get by (simp add: lookup_def)

lemma reachable_store:
  assumes "New opts = Inr s" "caller_step\<^sup>*\<^sup>* s s1"
  shows "wf.store_all s1" "store_ok (nat (op_MaxKeys opts)) s1"
  using wf.reachable_all [OF assms] by simp_all

lemma getOrCreate_leases:
  assumes "getOrCreate sh key r = (Inr st, sh')"
  shows "st_leases st = (case map_of (sh_states sh) key of Some st0 \<Rightarrow> st_leases st0 | None \<Rightarrow> [])"
  using assms by (auto simp: getOrCreate_def new_state_def carryRevision_def Let_def
      split: option.splits if_splits prod.splits algorithm.splits)

text \<open>What a successful acquisition leaves behind.\<close>

lemma Store_Acquire_success:
  assumes s: "wf.store_all s" "store_ok n s" and typed: "request_typed (lr_Request lr)"
    and acq: "Store_Acquire s c lr = (l, d, None, s')"
  defines "key \<equiv> stateKey (lr_Request lr)" and "lr' \<equiv> lr\<lparr>lr_Request := normalize_now (lr_Request lr)\<rparr>"
  obtains st st' where "acquireState st lr' = (st', l, d, None)" "state_wf st" "state_wf st'"
    "st_leases st = (case lookup s key of Some st0 \<Rightarrow> st_leases st0 | None \<Rightarrow> [])"
    "lookup s' key = Some st'" "\<not> so_closed s'" "request_ok (lr_Request lr')"
    "p_algorithm (r_Policy (lr_Request lr)) = Concurrency" "wf.store_all s'" "store_ok n s'"
proof -
  have step: "caller_step s s'" by (rule caller_step.acquire [OF typed acq])
  have s': "wf.store_all s'" "store_ok n s'"
    using wf.step_all [OF step s(2,1)] store_step_ok [OF caller_store_step [OF step] s(2)] by simp_all
  from acq show thesis
  proof (cases rule: Store_Acquire_cases)
    case (locked lr2 sh)
    note norm = normalize_ok [OF typed locked(3)]
    have lr2: "lr2 = lr'" using locked(5) by (simp add: lr'_def)
    let ?sh = "so_shards s ! shardFor s key"
    have ali: "acquireLocked ?sh key lr' = (l, d, None, sh)" using locked(6) lr2 by (simp add: key_def)
    have guard: "\<not> (case map_of (sh_states ?sh) key of
        Some e \<Rightarrow> st_algorithm e \<noteq> p_algorithm (r_Policy (lr_Request lr')) | None \<Rightarrow> False)"
      using ali by (auto simp: acquireLocked_def)
    obtain res sh1 where g: "getOrCreate ?sh key (lr_Request lr') = (res, sh1)"
      by (cases "getOrCreate ?sh key (lr_Request lr')")
    obtain st where st: "res = Inr st" using ali g guard by (cases res) (auto simp: acquireLocked_def)
    obtain st' l2 d2 err2 where a: "acquireState st lr' = (st', l2, d2, err2)" by (cases "acquireState st lr'")
    have res: "l2 = l" "d2 = d" "err2 = None" "map_of (sh_states sh) key = Some st'"
      using ali g guard st a by (auto simp: acquireLocked_def)
    have req: "request_ok (lr_Request lr')" "on_micro (r_Now (lr_Request lr'))"
        "p_algorithm (r_Policy (lr_Request lr')) = Concurrency"
      using norm locked(4) by (simp_all add: lr'_def)
    have all: "map_of (sh_states ?sh) key = Some e \<Longrightarrow> st_algorithm e = p_algorithm (r_Policy (lr_Request lr'))" for e
      using guard by simp
    have wf: "state_wf st" "st_algorithm st = p_algorithm (r_Policy (lr_Request lr'))"
      using wf.getOrCreate_all [OF wf.store_all_shard [OF s(2,1)] req(1,2) all g] st by blast+
    have "state_wf st'" by (rule acquire_wf [OF wf(1) req(1,2) _ req(3) a]) (use wf(2) req(3) in simp)
    moreover have "lookup s' key = Some st'" using lookup_with_shard [OF s(2)] locked(7) res(4) by (simp add: key_def)
    moreover have "\<not> so_closed s'" using locked(1,7) by (simp add: with_shard_def)
    ultimately show thesis
      using that [of st st'] a res wf(1) getOrCreate_leases [OF g [unfolded st]] req locked(4) s' by (simp add: lookup_def)
  qed simp
qed

lemma acquired_lease:
  assumes wf: "state_wf st" and r: "request_ok (lr_Request lr)" "p_algorithm (r_Policy (lr_Request lr)) = Concurrency"
    and acq: "acquireState st lr = (st', l, d, None)"
  shows "map_of (st_leases st') (lr_LeaseID lr) = Some \<lparr>ls_cost = r_Cost (lr_Request lr), ls_expiresAt = l_ExpiresAt l\<rparr>"
    "l = makeLease lr (l_ExpiresAt l)" "st_lastSeen st' < l_ExpiresAt l" "d_Allowed d"
    "map_of (st_leases st) (lr_LeaseID lr) = None \<Longrightarrow> load (st_leases st') \<le> unat (Limit (r_Policy (lr_Request lr)))"
proof -
  have ok: "leases_ok 1024 st" "(1024 :: nat) < 18446744073709551616" "0 < unat (r_Cost (lr_Request lr))"
    and d: "distinct (keys (st_leases st))"
    using wf r by (simp_all add: state_wf_def request_ok_def leases_ok_def)
  have "0 < p_lease (r_Policy (lr_Request lr))" using r by (auto simp: request_ok_def policy_wf_def duration_wf_def)
  then have later: "lease_now st lr < time_Add (lease_now st lr) (p_lease (r_Policy (lr_Request lr)))"
    by (simp add: time_Add_def)
  have "map_of (st_leases st') (lr_LeaseID lr) = Some \<lparr>ls_cost = r_Cost (lr_Request lr), ls_expiresAt = l_ExpiresAt l\<rparr> \<and>
    l = makeLease lr (l_ExpiresAt l) \<and> st_lastSeen st' < l_ExpiresAt l \<and> d_Allowed d \<and>
    (map_of (st_leases st) (lr_LeaseID lr) = None \<longrightarrow> load (st_leases st') \<le> unat (Limit (r_Policy (lr_Request lr))))"
    using ok acq
  proof (cases rule: acquireState_cases)
    case (owned e)
    then have "map_of (st_leases st) (lr_LeaseID lr) = Some e" "lease_now st lr < ls_expiresAt e"
      using active_lookup [OF d] by blast+
    then show ?thesis using owned by (simp add: makeLease_def del: map_of_eq_Some_iff)
  next
    case granted
    then show ?thesis using later by (simp add: makeLease_def del: map_of_eq_Some_iff)
  qed simp_all
  then show "map_of (st_leases st') (lr_LeaseID lr) = Some \<lparr>ls_cost = r_Cost (lr_Request lr), ls_expiresAt = l_ExpiresAt l\<rparr>"
    "l = makeLease lr (l_ExpiresAt l)" "st_lastSeen st' < l_ExpiresAt l" "d_Allowed d"
    "map_of (st_leases st) (lr_LeaseID lr) = None \<Longrightarrow> load (st_leases st') \<le> unat (Limit (r_Policy (lr_Request lr)))"
    by blast+
qed

lemma load_length: "\<forall>(i, l) \<in> set ls. 0 < unat (ls_cost l) \<Longrightarrow> length ls \<le> load ls"
  by (induction ls) fastforce+

text \<open>C2. Leases never exceed their capacity. After any sequence of operations by any
  interleaving of callers, an acquisition that succeeds leaves its lease in the
  key's state with the requested cost and the returned expiry; when the lease ID was
  not held before, the costs of all leases of the key add up to at most the policy's
  limit. Even across policy revisions that lower the limit, no key holds more than
  1,024 units or 1,024 lease records.\<close>

theorem lease_capacity:
  assumes "New opts = Inr s" "caller_step\<^sup>*\<^sup>* s s1" "request_typed (lr_Request lr)"
    and "Store_Acquire s1 c lr = (l, d, None, s2)"
  shows "\<exists>st. lookup s2 (stateKey (lr_Request lr)) = Some st \<and>
    map_of (st_leases st) (lr_LeaseID lr) = Some \<lparr>ls_cost = r_Cost (lr_Request lr), ls_expiresAt = l_ExpiresAt l\<rparr> \<and>
    st_lastSeen st < l_ExpiresAt l \<and> load (st_leases st) \<le> 1024 \<and> length (st_leases st) \<le> 1024 \<and>
    ((case lookup s1 (stateKey (lr_Request lr)) of None \<Rightarrow> True
      | Some st0 \<Rightarrow> map_of (st_leases st0) (lr_LeaseID lr) = None) \<longrightarrow>
     load (st_leases st) \<le> unat (Limit (r_Policy (lr_Request lr))))"
proof -
  let ?lr = "lr\<lparr>lr_Request := normalize_now (lr_Request lr)\<rparr>"
  have n: "r_Policy (normalize_now (lr_Request lr)) = r_Policy (lr_Request lr)"
    "r_Cost (normalize_now (lr_Request lr)) = r_Cost (lr_Request lr)" by (simp_all add: normalize_now_def)
  obtain st st' where a: "acquireState st ?lr = (st', l, d, None)" "state_wf st" "state_wf st'"
    and ls: "st_leases st = (case lookup s1 (stateKey (lr_Request lr)) of Some st0 \<Rightarrow> st_leases st0 | None \<Rightarrow> [])"
    and s2: "lookup s2 (stateKey (lr_Request lr)) = Some st'" "request_ok (lr_Request ?lr)"
      "p_algorithm (r_Policy (lr_Request lr)) = Concurrency"
    using Store_Acquire_success [OF reachable_store [OF assms(1,2)] assms(3,4)] by blast
  have alg: "p_algorithm (r_Policy (lr_Request ?lr)) = Concurrency" using s2(3) n by simp
  note acq = acquired_lease [OF a(2) s2(2) alg a(1)]
  have "load (st_leases st') \<le> 1024" "length (st_leases st') \<le> load (st_leases st')"
    using a(3) by (auto simp: state_wf_def leases_ok_def intro: load_length)
  then show ?thesis using acq s2(1) ls n by (simp del: map_of_eq_Some_iff split: option.splits)
qed

lemma sample_store_facts:
  "request_typed (lr_Request sample_acquire)" "request_typed sample_request"
  "fst (snd (snd (Store_Acquire sample_store None sample_acquire))) = None"
proof -
  have "policy_wf sample_concurrency"
    using sample_policy_wf by (simp add: policy_wf_def sample_concurrency_def sample_policy_def duration_wf_def)
  then show "request_typed (lr_Request sample_acquire)" "request_typed sample_request"
    by (simp_all add: request_typed_def sample_acquire_def sample_request_def micro_range_def int64_range_def)
  show "fst (snd (snd (Store_Acquire sample_store None sample_acquire))) = None" by code_simp
qed

theorem lease_capacity_witness:
  "\<exists>l d s2 st. Store_Acquire sample_store None sample_acquire = (l, d, None, s2) \<and>
     lookup s2 (stateKey (lr_Request sample_acquire)) = Some st \<and> load (st_leases st) \<le> 1024"
proof -
  obtain l d s2 where a: "Store_Acquire sample_store None sample_acquire = (l, d, None, s2)"
    using sample_store_facts(3) by (metis prod.collapse)
  show ?thesis
    using lease_capacity [OF sample_store_new rtranclp.rtrancl_refl sample_store_facts(1) a] a by blast
qed

text \<open>C21. Acquire and release are inverse. A lease that an acquisition returned can be
  released at once, whatever happened before; the release removes exactly that lease
  from the key, and a second release of it is refused with \<open>ErrLeaseNotFound\<close> and
  changes nothing.\<close>

theorem acquire_release:
  assumes "New opts = Inr s" "caller_step\<^sup>*\<^sup>* s s1" "request_typed (lr_Request lr)"
    and "Store_Acquire s1 c lr = (l, d, None, s2)"
  shows "\<exists>s3 st2 st3. Store_Release s2 None l = (None, s3) \<and> Store_Release s3 None l = (Some ErrLeaseNotFound, s3) \<and>
    lookup s2 (stateKey (lr_Request lr)) = Some st2 \<and> lookup s3 (stateKey (lr_Request lr)) = Some st3 \<and>
    map_of (st_leases st3) = (map_of (st_leases st2))(l_ID l := None)"
proof -
  let ?lr = "lr\<lparr>lr_Request := normalize_now (lr_Request lr)\<rparr>" and ?key = "stateKey (lr_Request lr)"
  obtain st st' where a: "acquireState st ?lr = (st', l, d, None)" "state_wf st"
    and s2: "lookup s2 ?key = Some st'" "\<not> so_closed s2" "request_ok (lr_Request ?lr)"
      "p_algorithm (r_Policy (lr_Request lr)) = Concurrency" "store_ok (nat (op_MaxKeys opts)) s2"
    using Store_Acquire_success [OF reachable_store [OF assms(1,2)] assms(3,4)] by blast
  have alg: "p_algorithm (r_Policy (lr_Request ?lr)) = Concurrency" using s2(4) by (simp add: normalize_now_def)
  note acq = acquired_lease [OF a(2) s2(3) alg a(1)]
  have l: "l = makeLease ?lr (l_ExpiresAt l)" using acq by blast
  have id: "l_ID l = lr_LeaseID lr" "l_Cost l = r_Cost (lr_Request lr)" "state_key (l_PolicyID l) (l_Key l) = ?key"
    by (subst l, simp add: makeLease_def state_key_def stateKey_def normalize_now_def)+
  let ?sh = "so_shards s2 ! shardFor s2 ?key"
  let ?st3 = "st'\<lparr>st_leases := AList.delete (l_ID l) (st_leases st')\<rparr>"
  let ?sh3 = "?sh\<lparr>sh_states := AList.update ?key ?st3 (sh_states ?sh)\<rparr>"
  let ?s3 = "with_shard s2 (shardFor s2 ?key) ?sh3"
  have cur: "map_of (sh_states ?sh) ?key = Some st'" using s2(1) by (simp add: lookup_def)
  have "releaseLocked ?sh l = (None, ?sh3)"
    using cur acq(1) id by (simp add: releaseLocked_def normalize_now_def Let_def del: map_of_eq_Some_iff)
  then have r1: "Store_Release s2 None l = (None, ?s3)" using s2(2) id by (simp add: Store_Release_def Let_def)
  have len: "shardFor s2 ?key < length (so_shards s2)" using store_ok_shard [OF s2(5)] by simp
  have at: "so_shards ?s3 ! shardFor s2 ?key = ?sh3" using len by (simp add: with_shard_def)
  have "releaseLocked ?sh3 l = (Some ErrLeaseNotFound, ?sh3)" using id by (simp add: releaseLocked_def Let_def)
  then have r2: "Store_Release ?s3 None l = (Some ErrLeaseNotFound, ?s3)"
    using s2(2) id at by (simp add: Store_Release_def Let_def) (simp add: with_shard_def)
  have "lookup ?s3 ?key = Some ?st3" using lookup_with_shard [OF s2(5)] by simp
  then show ?thesis using r1 r2 s2(1) by (intro exI [of _ ?s3] exI [of _ st'] exI [of _ ?st3]) simp
qed

theorem acquire_release_witness:
  "\<exists>l d s2 s3. Store_Acquire sample_store None sample_acquire = (l, d, None, s2) \<and> Store_Release s2 None l = (None, s3)"
proof -
  obtain l d s2 where a: "Store_Acquire sample_store None sample_acquire = (l, d, None, s2)"
    using sample_store_facts(3) by (metis prod.collapse)
  show ?thesis
    using acquire_release [OF sample_store_new rtranclp.rtrancl_refl sample_store_facts(1) a] a by blast
qed

lemma carry_keeps: "st_leases (carryRevision st r) = st_leases st" "st_lastSeen (carryRevision st r) = st_lastSeen st"
  by (auto simp: carryRevision_def Let_def split: algorithm.splits)

definition carried :: "mstate \<Rightarrow> request \<Rightarrow> mstate" where
  "carried st r = (if st_revision st \<noteq> p_revision (r_Policy r) then carryRevision st r else st)"

lemma carried_keeps [simp]: "st_leases (carried st r) = st_leases st" "st_lastSeen (carried st r) = st_lastSeen st"
  by (simp_all add: carried_def carry_keeps)

lemma acquireLocked_existing:
  assumes "map_of (sh_states sh) key = Some st" "st_algorithm st = p_algorithm (r_Policy (lr_Request lr))"
    and "acquireState (carried st (lr_Request lr)) lr = (st', l, d, err)"
  shows "acquireLocked sh key lr = (l, d, err,
    sh\<lparr>sh_states := AList.update key st' (AList.update key (carried st (lr_Request lr)) (sh_states sh))\<rparr>)"
  using assms by (simp add: acquireLocked_def getOrCreate_def Let_def flip: carried_def)

text \<open>A lease that is held is returned as it is.\<close>

lemma acquireLocked_held:
  assumes cur: "map_of (sh_states sh) key = Some st" and wf: "state_wf st"
    and held: "map_of (st_leases st) (lr_LeaseID lr) = Some e" "ls_cost e = r_Cost (lr_Request lr)"
    and now: "r_Now (lr_Request lr) < ls_expiresAt e" "st_lastSeen st < ls_expiresAt e"
    and r: "0 < unat (r_Cost (lr_Request lr))" "p_algorithm (r_Policy (lr_Request lr)) = Concurrency"
  obtains d sh' st' where "acquireLocked sh key lr = (makeLease lr (ls_expiresAt e), d, None, sh')" "d_Allowed d"
    "map_of (sh_states sh') key = Some st'" "load (st_leases st') \<le> load (st_leases st)"
proof -
  let ?st1 = "carried st (lr_Request lr)"
  have "st_leases st \<noteq> []" using held(1) by auto
  then have alg: "st_algorithm st = Concurrency" using wf by (auto simp: state_wf_def)
  have d: "distinct (keys (st_leases ?st1))" and ok: "leases_ok 1024 ?st1" "(1024 :: nat) < 18446744073709551616"
    using wf by (simp_all add: state_wf_def leases_ok_def)
  have act: "map_of (held ?st1 lr) (lr_LeaseID lr) = Some e"
    unfolding active_lookup [OF d] using held(1) now by (simp add: lease_now_def del: map_of_eq_Some_iff)
  obtain st' l d err where a: "acquireState ?st1 lr = (st', l, d, err)" by (cases "acquireState ?st1 lr")
  have "err = None \<and> l = makeLease lr (ls_expiresAt e) \<and> d_Allowed d \<and> load (st_leases st') \<le> load (st_leases st)"
    using ok r(1) a
  proof (cases rule: acquireState_cases)
    case (owned e')
    have "load (held ?st1 lr) \<le> load (st_leases ?st1)" unfolding activeLeases_def by (rule load_filter)
    then show ?thesis using owned act by simp
  qed (use act held in simp_all)
  moreover note acquireLocked_existing [OF cur _ a]
  ultimately show thesis using that alg r(2) by simp
qed

text \<open>C22. Acquisition is idempotent. Repeating an acquisition that succeeded, with the
  same lease ID and cost at any instant before the lease expires, succeeds again and
  returns the very same lease: the expiry is not extended and no second lease is
  counted.\<close>

theorem acquire_idempotent:
  assumes "New opts = Inr s" "caller_step\<^sup>*\<^sup>* s s1" "request_typed (lr_Request lr)"
    and "Store_Acquire s1 c lr = (l, d, None, s2)"
    and "lr' = lr\<lparr>lr_Request := (lr_Request lr)\<lparr>r_Now := t\<rparr>\<rparr>" "request_typed (lr_Request lr')"
    "LeaseRequest_Validate lr' = None" "t < l_ExpiresAt l"
  shows "\<exists>d' s3 st2 st3. Store_Acquire s2 None lr' = (l, d', None, s3) \<and> d_Allowed d' \<and>
    lookup s2 (stateKey (lr_Request lr)) = Some st2 \<and> lookup s3 (stateKey (lr_Request lr)) = Some st3 \<and>
    load (st_leases st3) \<le> load (st_leases st2)"
proof -
  let ?lr = "lr\<lparr>lr_Request := normalize_now (lr_Request lr)\<rparr>" and ?key = "stateKey (lr_Request lr)"
  let ?lr' = "lr'\<lparr>lr_Request := normalize_now (lr_Request lr')\<rparr>"
  obtain st st2 where a: "acquireState st ?lr = (st2, l, d, None)" "state_wf st" "state_wf st2"
    and s2: "lookup s2 ?key = Some st2" "\<not> so_closed s2" "request_ok (lr_Request ?lr)"
      "p_algorithm (r_Policy (lr_Request lr)) = Concurrency" "store_ok (nat (op_MaxKeys opts)) s2"
    using Store_Acquire_success [OF reachable_store [OF assms(1,2)] assms(3,4)] by blast
  have alg: "p_algorithm (r_Policy (lr_Request ?lr)) = Concurrency" using s2(4) by (simp add: normalize_now_def)
  note acq = acquired_lease [OF a(2) s2(3) alg a(1)]
  have v: "Request_Validate (lr_Request lr') = None"
    using assms(7) by (simp add: LeaseRequest_Validate_def split: option.splits)
  note norm = normalize_ok [OF assms(6) v]
  have "micro_range t" using assms(5,6) by (simp add: request_typed_def)
  then have now: "r_Now (lr_Request ?lr') < l_ExpiresAt l"
    using assms(8) floor_multiple_bounds [of 1000 t] by (simp add: normalize_now_def assms(5) time_UnixMicro_def)
  have key: "stateKey (lr_Request ?lr') = ?key" "stateKey (lr_Request lr') = ?key" "lr_LeaseID ?lr' = lr_LeaseID lr"
      "r_Cost (lr_Request ?lr') = r_Cost (lr_Request lr)"
    by (simp_all add: stateKey_def normalize_now_def assms(5))
  have l: "makeLease ?lr' (l_ExpiresAt l) = l"
    by (subst acq(2)) (simp add: makeLease_def normalize_now_def assms(5))
  let ?sh = "so_shards s2 ! shardFor s2 ?key"
  have cur: "map_of (sh_states ?sh) ?key = Some st2" using s2(1) by (simp add: lookup_def)
  obtain d' sh' st3 where again: "acquireLocked ?sh ?key ?lr' = (l, d', None, sh')" "d_Allowed d'"
    "map_of (sh_states sh') ?key = Some st3" "load (st_leases st3) \<le> load (st_leases st2)"
    by (rule acquireLocked_held [OF cur a(3), of ?lr' "\<lparr>ls_cost = r_Cost (lr_Request lr), ls_expiresAt = l_ExpiresAt l\<rparr>"])
      (use acq(1,3) now s2(3,4) l key in \<open>simp_all add: normalize_now_def request_ok_def assms(5) del: map_of_eq_Some_iff\<close>)
  have "Store_Acquire s2 None lr' = (l, d', None, with_shard s2 (shardFor s2 ?key) sh')"
    using s2(2) assms(7) again(1) key by (simp add: Store_Acquire_def Let_def)
  moreover have "lookup (with_shard s2 (shardFor s2 ?key) sh') ?key = Some st3"
    using lookup_with_shard [OF s2(5)] again(3) by simp
  ultimately show ?thesis using again s2(1) by blast
qed

theorem acquire_idempotent_witness:
  "\<exists>l d s2 d' s3. Store_Acquire sample_store None sample_acquire = (l, d, None, s2) \<and>
     Store_Acquire s2 None (sample_acquire\<lparr>lr_Request := (lr_Request sample_acquire)\<lparr>r_Now := 1700000000500000000\<rparr>\<rparr>) =
       (l, d', None, s3)"
proof -
  let ?t = "1700000000500000000"
  obtain l d s2 where a: "Store_Acquire sample_store None sample_acquire = (l, d, None, s2)"
    using sample_store_facts(3) by (metis prod.collapse)
  have "l_ExpiresAt (fst (Store_Acquire sample_store None sample_acquire)) = 1700000001000000000" by code_simp
  then have "?t < l_ExpiresAt l" using a by simp
  moreover have "LeaseRequest_Validate (sample_acquire\<lparr>lr_Request := (lr_Request sample_acquire)\<lparr>r_Now := ?t\<rparr>\<rparr>) = None"
    by code_simp
  moreover have "request_typed ((lr_Request sample_acquire)\<lparr>r_Now := ?t\<rparr>)"
    using sample_store_facts(1) by (simp add: request_typed_def micro_range_def int64_range_def)
  ultimately show ?thesis
    using acquire_idempotent [OF sample_store_new rtranclp.rtrancl_refl sample_store_facts(1) a refl, of ?t] a by auto
qed

text \<open>C23. Capacity comes back: once every lease of a key has expired at the request's
  instant, a valid acquisition on the key succeeds, without anyone releasing or
  sweeping.\<close>

theorem lease_expiry_frees:
  assumes "New opts = Inr s" "caller_step\<^sup>*\<^sup>* s s1" "request_typed (lr_Request lr)" "LeaseRequest_Validate lr = None"
    and "\<not> so_closed s1" "lookup s1 (stateKey (lr_Request lr)) = Some st" "st_algorithm st = Concurrency"
    and "\<forall>(i, e) \<in> set (st_leases st). ls_expiresAt e \<le> r_Now (normalize_now (lr_Request lr))"
  shows "\<exists>l d s2. Store_Acquire s1 None lr = (l, d, None, s2) \<and> d_Allowed d"
proof -
  let ?lr = "lr\<lparr>lr_Request := normalize_now (lr_Request lr)\<rparr>" and ?key = "stateKey (lr_Request lr)"
  let ?sh = "so_shards s1 ! shardFor s1 ?key"
  have v: "Request_Validate (lr_Request lr) = None" "p_algorithm (r_Policy (lr_Request lr)) = Concurrency"
    using assms(4) by (auto simp: LeaseRequest_Validate_def split: option.splits if_splits)
  note norm = normalize_ok [OF assms(3) v(1)]
  have key: "stateKey (normalize_now (lr_Request lr)) = ?key" by (simp add: stateKey_def normalize_now_def)
  let ?st1 = "carried st (lr_Request ?lr)"
  have "state_wf st" using lookup_wf reachable_store [OF assms(1,2)] assms(6) by blast
  then have ok: "leases_ok 1024 ?st1" "(1024 :: nat) < 18446744073709551616" "0 < unat (r_Cost (lr_Request ?lr))"
    using norm(1) by (simp_all add: state_wf_def leases_ok_def request_ok_def)
  have gone: "held ?st1 ?lr = []"
    using assms(8) by (auto simp: activeLeases_def filter_empty_conv lease_now_def)
  have fits: "unat (r_Cost (lr_Request ?lr)) \<le> unat (Limit (r_Policy (lr_Request ?lr)))"
    using norm(1) by (auto simp: request_ok_def policy_wf_def policy_wf_Limit)
  obtain st' l d err where a: "acquireState ?st1 ?lr = (st', l, d, err)" by (cases "acquireState ?st1 ?lr")
  have "err = None \<and> d_Allowed d" using ok a by (cases rule: acquireState_cases) (use gone fits in simp_all)
  moreover have "acquireLocked ?sh ?key ?lr = (l, d, err,
      ?sh\<lparr>sh_states := AList.update ?key st' (AList.update ?key ?st1 (sh_states ?sh))\<rparr>)"
    by (rule acquireLocked_existing [OF _ _ a]) (use assms(6,7) v(2) norm(3) in \<open>simp_all add: lookup_def\<close>)
  ultimately show ?thesis using assms(4,5) key by (simp add: Store_Acquire_def Let_def)
qed

theorem lease_expiry_frees_witness:
  "\<exists>s1 l d s2. caller_step\<^sup>*\<^sup>* sample_store s1 \<and>
     Store_Acquire s1 None (sample_acquire\<lparr>lr_Request := (lr_Request sample_acquire)\<lparr>r_Now := 1700000001000000000\<rparr>, lr_LeaseID := ''next''\<rparr>) =
       (l, d, None, s2)"
proof -
  let ?lr = "sample_acquire\<lparr>lr_Request := (lr_Request sample_acquire)\<lparr>r_Now := 1700000001000000000\<rparr>, lr_LeaseID := ''next''\<rparr>"
  define s1 where "s1 = snd (snd (snd (Store_Acquire sample_store None sample_acquire)))"
  obtain l d where a: "Store_Acquire sample_store None sample_acquire = (l, d, None, s1)"
    unfolding s1_def using sample_store_facts(3) by (metis prod.collapse)
  have step: "caller_step\<^sup>*\<^sup>* sample_store s1"
    by (rule r_into_rtranclp) (rule caller_step.acquire [OF sample_store_facts(1) a])
  have ty: "request_typed (lr_Request ?lr)"
    using sample_store_facts(1) by (simp add: request_typed_def micro_range_def int64_range_def)
  have v: "LeaseRequest_Validate ?lr = None" by code_simp
  have c: "\<not> so_closed s1" unfolding s1_def by code_simp
  have "\<exists>st. lookup s1 (stateKey (lr_Request ?lr)) = Some st \<and> st_algorithm st = Concurrency \<and>
    list_all (\<lambda>(i, e). ls_expiresAt e \<le> r_Now (normalize_now (lr_Request ?lr))) (st_leases st)"
  proof -
    have "lookup s1 (stateKey (lr_Request ?lr)) \<noteq> None" unfolding s1_def by code_simp
    then obtain st where st: "lookup s1 (stateKey (lr_Request ?lr)) = Some st" by blast
    have "st_algorithm (the (lookup s1 (stateKey (lr_Request ?lr)))) = Concurrency" unfolding s1_def by code_simp
    moreover have "list_all (\<lambda>(i, e). ls_expiresAt e \<le> r_Now (normalize_now (lr_Request ?lr)))
      (st_leases (the (lookup s1 (stateKey (lr_Request ?lr)))))" unfolding s1_def by code_simp
    ultimately show ?thesis using st by simp
  qed
  then have "\<exists>l d s2. Store_Acquire s1 None ?lr = (l, d, None, s2) \<and> d_Allowed d"
    using lease_expiry_frees [OF sample_store_new step ty v c] by (auto simp: list_all_iff)
  then show ?thesis using step by blast
qed

section \<open>Isolation\<close>

lemma getOrCreate_other:
  assumes "shard_inv sh" "getOrCreate sh key r = (res, sh')" "k \<noteq> key"
  shows "map_of (sh_states sh') k = map_of (sh_states sh) k \<or>
    map_of (sh_states sh') k = None \<and> map_of (sh_states sh) key = None \<and> length (sh_states sh) = sh_maxKeys sh \<and>
    \<not> sh_rejectOnCapacity sh \<and>
    (\<exists>st. map_of (sh_states sh) k = Some st \<and> \<not> hasActiveLease (st_leases st) (r_Now r) \<and>
      (\<forall>(k', st') \<in> set (sh_states sh). \<not> hasActiveLease (st_leases st') (r_Now r) \<longrightarrow> st_lastSeen st \<le> st_lastSeen st'))"
proof (cases "map_of (sh_states sh) key")
  case (Some cur)
  then show ?thesis using assms by (auto simp: getOrCreate_def Let_def)
next
  case None
  define full where "full = (length (sh_states sh) = sh_maxKeys sh)"
  show ?thesis
  proof (cases "full \<and> \<not> sh_rejectOnCapacity sh")
    case True
    obtain ev sh1 where e: "evictOldest sh (r_Now r) = (ev, sh1)" by (cases "evictOldest sh (r_Now r)")
    have put: "map_of (sh_states sh') k = map_of (sh_states sh1) k"
      using assms(2,3) None True e by (auto simp: getOrCreate_def Let_def full_def split: if_splits)
    from e show ?thesis
    proof (cases rule: evictOldest_cases)
      case none
      then show ?thesis using put by simp
    next
      case (evicted k2 st)
      then have "map_of (sh_states sh) k2 = Some st" using assms(1) by (simp add: shard_inv_def)
      moreover have "\<forall>(k', st') \<in> set (sh_states sh). \<not> hasActiveLease (st_leases st') (r_Now r) \<longrightarrow>
          st_lastSeen st \<le> st_lastSeen st'" using evicted(5) by fastforce
      moreover have "map_of (sh_states sh') k = (if k = k2 then None else map_of (sh_states sh) k)"
        using put evicted(4) by simp
      ultimately show ?thesis using None True evicted(3) unfolding full_def by (cases "k = k2") auto
    qed
  next
    case False
    then show ?thesis using assms(2,3) None by (auto simp: getOrCreate_def Let_def full_def split: if_splits)
  qed
qed

lemma admitLocked_other:
  assumes "k \<noteq> key" "admitLocked sh key r = (d, err, sh')"
  shows "\<exists>res sh1. map_of (sh_states sh') k = map_of (sh_states sh1) k \<and> (sh1 = sh \<or> getOrCreate sh key r = (res, sh1))"
proof -
  obtain res sh1 where g: "getOrCreate sh key r = (res, sh1)" by (cases "getOrCreate sh key r")
  have "sh' = sh \<or> sh' = sh1 \<or> (\<exists>st. sh' = sh1\<lparr>sh_states := AList.update key st (sh_states sh1)\<rparr>)"
    using assms(2) g by (cases res) (auto simp: admitLocked_def Let_def split: if_splits prod.splits)
  then have "map_of (sh_states sh') k = map_of (sh_states sh) k \<or> map_of (sh_states sh') k = map_of (sh_states sh1) k"
    using assms(1) by auto
  then show ?thesis using g by blast
qed

lemma acquireLocked_other:
  assumes "k \<noteq> key" "acquireLocked sh key lr = (l, d, err, sh')"
  shows "\<exists>res sh1. map_of (sh_states sh') k = map_of (sh_states sh1) k \<and>
    (sh1 = sh \<or> getOrCreate sh key (lr_Request lr) = (res, sh1))"
proof -
  obtain res sh1 where g: "getOrCreate sh key (lr_Request lr) = (res, sh1)" by (cases "getOrCreate sh key (lr_Request lr)")
  have "sh' = sh \<or> sh' = sh1 \<or> (\<exists>st. sh' = sh1\<lparr>sh_states := AList.update key st (sh_states sh1)\<rparr>)"
    using assms(2) g by (cases res) (auto simp: acquireLocked_def Let_def split: if_splits prod.splits)
  then have "map_of (sh_states sh') k = map_of (sh_states sh) k \<or> map_of (sh_states sh') k = map_of (sh_states sh1) k"
    using assms(1) by auto
  then show ?thesis using g by blast
qed

lemma lookup_other_shard:
  "shardFor s k \<noteq> i \<Longrightarrow> lookup (with_shard s i sh) k = lookup s k"
  by (simp add: lookup_def) (simp add: with_shard_def)

text \<open>C17. Keys are isolated. An admission or acquisition on one key leaves the state
  of every other key as it was, except for eviction: when the key is new, its shard is
  full and the store does not reject on capacity, one other key may be dropped, and
  that key has no lease active at the request's instant and is a least recently seen
  one among such keys of the shard. An active lease is never evicted.\<close>

theorem key_isolation:
  assumes "store_ok n s"
    and "Store_Admit s c r = (d, err, s') \<or> Store_Acquire s c \<lparr>lr_Request = r, lr_LeaseID = i\<rparr> = (l, d, err, s')"
    and "k \<noteq> stateKey r"
  shows "lookup s' k = lookup s k \<or>
    lookup s' k = None \<and> lookup s (stateKey r) = None \<and> shardFor s k = shardFor s (stateKey r) \<and>
    length (sh_states (so_shards s ! shardFor s k)) = sh_maxKeys (so_shards s ! shardFor s k) \<and>
    \<not> sh_rejectOnCapacity (so_shards s ! shardFor s k) \<and>
    (\<exists>st. lookup s k = Some st \<and> \<not> hasActiveLease (st_leases st) (r_Now (normalize_now r)) \<and>
      (\<forall>(k', st') \<in> set (sh_states (so_shards s ! shardFor s k)).
         \<not> hasActiveLease (st_leases st') (r_Now (normalize_now r)) \<longrightarrow> st_lastSeen st \<le> st_lastSeen st'))"
proof -
  let ?i = "shardFor s (stateKey r)" and ?sh = "so_shards s ! shardFor s (stateKey r)"
  have inv: "?i < length (so_shards s)" "shard_inv ?sh" using store_ok_shard [OF assms(1)] by blast+
  have "s' = s \<or> (\<exists>sh sh1 res. s' = with_shard s ?i sh \<and> map_of (sh_states sh) k = map_of (sh_states sh1) k \<and>
      (sh1 = ?sh \<or> getOrCreate ?sh (stateKey r) (normalize_now r) = (res, sh1)))"
    using assms(2)
  proof
    assume "Store_Admit s c r = (d, err, s')"
    then show ?thesis by (cases rule: Store_Admit_cases) (use admitLocked_other [OF assms(3)] in blast)+
  next
    assume "Store_Acquire s c \<lparr>lr_Request = r, lr_LeaseID = i\<rparr> = (l, d, err, s')"
    then show ?thesis
    proof (cases rule: Store_Acquire_cases)
      case (locked lr' sh)
      then show ?thesis using acquireLocked_other [OF assms(3), of ?sh lr' l d err sh] by auto
    qed simp
  qed
  then consider "s' = s" | sh sh1 res where "s' = with_shard s ?i sh" "map_of (sh_states sh) k = map_of (sh_states sh1) k"
      "sh1 = ?sh \<or> getOrCreate ?sh (stateKey r) (normalize_now r) = (res, sh1)" by blast
  then show ?thesis
  proof cases
    case 2
    show ?thesis
    proof (cases "shardFor s k = ?i")
      case True
      have "lookup s' k = map_of (sh_states sh1) k"
        using 2(1,2) inv(1) True by (simp add: lookup_def) (simp add: with_shard_def)
      moreover have "map_of (sh_states sh1) k = map_of (sh_states ?sh) k \<or>
          getOrCreate ?sh (stateKey r) (normalize_now r) = (res, sh1)" using 2(3) by blast
      ultimately show ?thesis
        using getOrCreate_other [OF inv(2) _ assms(3), of "normalize_now r" res sh1] unfolding lookup_def True by argo
    next
      case False
      then show ?thesis using 2(1) lookup_other_shard by simp
    qed
  qed simp
qed

theorem key_isolation_witness:
  "\<exists>l d err s'. Store_Acquire sample_store None sample_acquire = (l, d, err, s') \<and>
     ''other'' \<noteq> stateKey (lr_Request sample_acquire) \<and> lookup s' ''other'' = lookup sample_store ''other''"
proof -
  obtain l d err s' where a: "Store_Acquire sample_store None sample_acquire = (l, d, err, s')" by (metis surj_pair)
  have e: "sample_acquire = \<lparr>lr_Request = lr_Request sample_acquire, lr_LeaseID = ''job''\<rparr>" by (simp add: sample_acquire_def)
  have k: "''other'' \<noteq> stateKey (lr_Request sample_acquire)" by code_simp
  have none: "lookup sample_store ''other'' = None" by code_simp
  show ?thesis
    using key_isolation [OF New_ok(1) [OF sample_store_new] disjI2 [OF a [unfolded arg_cong [OF e, of "Store_Acquire sample_store None"]]] k] a k none
    by auto
qed

section \<open>Sweeping\<close>

lemma map_of_map_filter:
  "(\<And>k v k' v'. f (k, v) = Some (k', v') \<Longrightarrow> k' = k) \<Longrightarrow> distinct (keys m) \<Longrightarrow>
   map_of (List.map_filter f m) k = (case map_of m k of None \<Rightarrow> None | Some v \<Rightarrow> map_option snd (f (k, v)))"
proof (induction m)
  case (Cons x m)
  obtain k' v where x: "x = (k', v)" by (cases x)
  have "set (keys (List.map_filter f m)) \<subseteq> set (keys m)"
    using map_filter_keys [of f m] Cons.prems by simp
  then have rest: "map_of (List.map_filter f m) k' = None"
    using Cons.prems(2) x by (auto simp: map_of_None_key)
  show ?case
  proof (cases "f x")
    case None
    then show ?thesis using Cons x rest by (auto simp: List.map_filter_simps)
  next
    case (Some y)
    then have "fst y = k'" using Cons.prems(1) [of k' v "fst y" "snd y"] x by simp
    then show ?thesis using Cons Some x by (cases y) (auto simp: List.map_filter_simps)
  qed
qed (simp add: List.map_filter_simps)

lemma sweepState_key: "sweepState now idleFor (k, v) = Some (k', v') \<Longrightarrow> k' = k"
  by (simp add: sweepState_def Let_def split: if_splits)

lemma swept_length: "shard_inv sh \<Longrightarrow> length (sh_states (sweepShard now idleFor sh)) \<le> length (sh_states sh)"
  using map_filter_keys [of "sweepState now idleFor" "sh_states sh", OF sweepState_key] by (simp add: shard_inv_def sweepShard_def)

lemma swept_total:
  "list_all shard_inv shs \<Longrightarrow>
   sum_list (map2 (\<lambda>a b. length (sh_states a) - length (sh_states b)) shs (map (sweepShard now idleFor) shs)) +
   sum_list (map (\<lambda>sh. length (sh_states sh)) (map (sweepShard now idleFor) shs)) =
   sum_list (map (\<lambda>sh. length (sh_states sh)) shs)"
  using swept_length [of _ now idleFor] by (induction shs) force+



end
