(* ===== verification/Service.thy ===== *)
theory Service
  imports Request
begin

text \<open>
  \<^verbatim>\<open>service.go\<close>, \<^verbatim>\<open>batch.go\<close> and the operations of \<^verbatim>\<open>lease.go\<close>: the compatibility
  service.

  A backend, an observer, the clock and a context are code outside the service,
  so they are functions on a world \<open>'w\<close> that every call passes on. Reading
  \<open>ctx.Err()\<close> also passes the world on: two reads may differ, as they may in Go
  when cancellation comes between them. An observer reports whether it panicked;
  \<open>safeObserve\<close> drops that report. \<open>Name()\<close> is a stable string, as its
  documentation demands. Panics of a backend are not modelled.
\<close>

type_synonym 'w ctx = "'w \<Rightarrow> go_error option \<times> 'w"
type_synonym 'w clock = "'w \<Rightarrow> time \<times> 'w"
type_synonym 'w observer = "observation \<Rightarrow> 'w \<Rightarrow> bool \<times> 'w"

record 'w leaseBackend =
  lb_Acquire :: "'w ctx \<Rightarrow> leaseRequest \<Rightarrow> 'w \<Rightarrow> lease \<times> decision \<times> go_error option \<times> 'w"
  lb_Release :: "'w ctx \<Rightarrow> lease \<Rightarrow> 'w \<Rightarrow> go_error option \<times> 'w"

text \<open>\<open>b_Lease\<close> is the outcome of the type assertion to \<open>LeaseBackend\<close>.\<close>

record 'w backend =
  b_Name :: string
  b_Admit :: "'w ctx \<Rightarrow> request \<Rightarrow> 'w \<Rightarrow> decision \<times> go_error option \<times> 'w"
  b_Lease :: "'w leaseBackend option"

record 'w service =
  sv_backend :: "'w backend"
  sv_observers :: "'w observer list"

definition MaxObservers :: nat where "MaxObservers = 16"

definition too_many_observers :: go_error where
  "too_many_observers =
     Wrapped (''at most '' @ decimal_digits MaxObservers @ '' observers are allowed'') ErrInvalidPolicy"

definition NewService :: "'w backend option \<Rightarrow> 'w observer option list \<Rightarrow> go_error + 'w service" where
  "NewService backend observers =
     (case backend of
        None \<Rightarrow> Inl (Wrapped ''backend is required'' ErrUnavailable)
      | Some b \<Rightarrow>
        if b_Name b = '''' then Inl (Wrapped ''backend is required'' ErrUnavailable)
        else let filtered = List.map_filter id observers in
        if length filtered > MaxObservers then Inl too_many_observers
        else Inr \<lparr>sv_backend = b, sv_observers = filtered\<rparr>)"

definition safeObserve :: "'w observer \<Rightarrow> observation \<Rightarrow> 'w \<Rightarrow> 'w" where
  "safeObserve observer obs w = snd (observer obs w)"

definition observe_all :: "'w observer list \<Rightarrow> observation \<Rightarrow> 'w \<Rightarrow> 'w" where
  "observe_all observers obs w = fold (\<lambda>observer. safeObserve observer obs) observers w"

definition normalizeBackendError :: "'w ctx \<Rightarrow> go_error \<Rightarrow> 'w \<Rightarrow> go_error \<times> 'w" where
  "normalizeBackendError ctx err w =
     (let (c1, w1) = ctx w in
      if Is c1 ContextDeadlineExceeded \<or> errors_Is err ContextDeadlineExceeded then (ErrDeadline, w1)
      else let (c2, w2) = ctx w1 in
      if Is c2 ContextCanceled \<or> errors_Is err ContextCanceled then (ErrDeadline, w2)
      else if errors_Is err ErrOverflow then (ErrOverflow, w2)
      else if errors_Is err ErrCorrupt then (ErrCorrupt, w2)
      else (ErrUnavailable, w2))"

definition failOpenDecision :: "policy \<Rightarrow> decision" where
  "failOpenDecision p =
     zero_Decision\<lparr>d_Allowed := True, d_Limit := Limit p, d_Remaining := Limit p, d_Reason := ReasonFailOpen\<rparr>"

definition deniedDecision :: "policy \<Rightarrow> reason \<Rightarrow> decision" where
  "deniedDecision p reason = zero_Decision\<lparr>d_Limit := Limit p, d_Reason := reason\<rparr>"

text \<open>The deferred function of \<open>Admit\<close>: stamp the decision, then tell the observers.\<close>

definition stamp :: "string \<Rightarrow> policy \<Rightarrow> decision \<Rightarrow> decision" where
  "stamp name p d = d\<lparr>d_Backend := name, d_PolicyRevision := p_revision p\<rparr>"

definition observe_result ::
  "'w clock \<Rightarrow> 'w observer list \<Rightarrow> time \<Rightarrow> request \<Rightarrow> decision \<Rightarrow> go_error option \<Rightarrow> 'w \<Rightarrow> 'w" where
  "observe_result clock observers started r d err w =
     (let (finished, w1) = clock w in
      observe_all observers
        \<lparr>o_PolicyID = p_id (r_Policy r), o_SubjectKind = SubjectKind (r_Key r), o_Decision = d,
         o_Err = err, o_Duration = time_Sub finished started\<rparr> w1)"

text \<open>The body of \<open>Admit\<close> between validation and the deferred function.\<close>

definition Admit_body :: "'w service \<Rightarrow> 'w ctx \<Rightarrow> request \<Rightarrow> 'w \<Rightarrow> decision \<times> go_error option \<times> 'w" where
  "Admit_body service ctx r w =
     (let (d, err, w1) = b_Admit (sv_backend service) ctx r w in
      case err of
        None \<Rightarrow> (d, None, w1)
      | Some e \<Rightarrow>
        if errors_Is e ErrRejected then (d, Some e, w1)
        else let (e', w2) = normalizeBackendError ctx e w1 in
        if p_failureMode (r_Policy r) = FailOpen \<and> (errors_Is e' ErrUnavailable \<or> errors_Is e' ErrDeadline)
        then (failOpenDecision (r_Policy r), None, w2)
        else (deniedDecision (r_Policy r) ReasonBackendUnavailable, Some e', w2))"

definition Service_Admit ::
  "'w clock \<Rightarrow> 'w service \<Rightarrow> 'w ctx \<Rightarrow> request \<Rightarrow> 'w \<Rightarrow> decision \<times> go_error option \<times> 'w" where
  "Service_Admit clock service ctx r w =
     (case Request_Validate r of
        Some err \<Rightarrow> (zero_Decision, Some err, w)
      | None \<Rightarrow>
        let (started, w1) = clock w;
            (d, err, w2) = Admit_body service ctx r w1;
            d' = stamp (b_Name (sv_backend service)) (r_Policy r) d
        in (d', err, observe_result clock (sv_observers service) started r d' err w2))"

section \<open>Batches\<close>

datatype atomicity = AtomicityPerItem | AtomicityAllOrNothing | OtherAtomicity string

record batchRequest =
  br_Requests :: "request list"
  br_Atomicity :: atomicity

record batchDecision =
  bd_Decisions :: "decision list"
  bd_Atomicity :: atomicity

definition zero_BatchDecision :: batchDecision where
  "zero_BatchDecision = \<lparr>bd_Decisions = [], bd_Atomicity = OtherAtomicity ''''\<rparr>"

definition MaxBatchSize :: nat where "MaxBatchSize = 256"

definition batch_size_error :: go_error where
  "batch_size_error =
     Wrapped (''batch size must be between 1 and '' @ decimal_digits MaxBatchSize) ErrInvalidRequest"

fun first_invalid :: "request list \<Rightarrow> go_error option" where
  "first_invalid [] = None"
| "first_invalid (r # rs) = (case Request_Validate r of Some err \<Rightarrow> Some err | None \<Rightarrow> first_invalid rs)"

text \<open>
  \<open>validateBatch\<close> of \<^verbatim>\<open>strict_service.go\<close>; \<open>Service.Batch\<close> has the same checks in
  the same order inline.
\<close>

definition validateBatch :: "batchRequest \<Rightarrow> go_error option" where
  "validateBatch batch =
     (if br_Requests batch = [] \<or> length (br_Requests batch) > MaxBatchSize then Some batch_size_error
      else if br_Atomicity batch = AtomicityAllOrNothing
      then Some (Wrapped ''backend-independent batches are per-item'' ErrUnsupported)
      else if br_Atomicity batch \<noteq> AtomicityPerItem
      then Some (Wrapped ''unknown batch atomicity'' ErrInvalidRequest)
      else first_invalid (br_Requests batch))"

definition item_error :: "nat \<Rightarrow> go_error \<Rightarrow> go_error" where
  "item_error index e = Prefixed (''item '' @ decimal_digits index) e"

fun Batch_loop ::
  "'w clock \<Rightarrow> 'w service \<Rightarrow> 'w ctx \<Rightarrow> nat \<Rightarrow> request list \<Rightarrow> 'w \<Rightarrow> decision list \<times> go_error list \<times> 'w" where
  "Batch_loop clock service ctx index [] w = ([], [], w)"
| "Batch_loop clock service ctx index (r # rs) w =
     (let (d, err, w1) = Service_Admit clock service ctx r w;
          (ds, failures, w2) = Batch_loop clock service ctx (Suc index) rs w1
      in (d # ds, (case err of None \<Rightarrow> failures | Some e \<Rightarrow> item_error index e # failures), w2))"

definition errors_Join :: "go_error list \<Rightarrow> go_error option" where
  "errors_Join es = (if es = [] then None else Some (Joined es))"

definition Service_Batch ::
  "'w clock \<Rightarrow> 'w service \<Rightarrow> 'w ctx \<Rightarrow> batchRequest \<Rightarrow> 'w \<Rightarrow> batchDecision \<times> go_error option \<times> 'w" where
  "Service_Batch clock service ctx batch w =
     (case validateBatch batch of
        Some err \<Rightarrow> (zero_BatchDecision, Some err, w)
      | None \<Rightarrow>
        let (ds, failures, w1) = Batch_loop clock service ctx 0 (br_Requests batch) w
        in (\<lparr>bd_Decisions = ds, bd_Atomicity = AtomicityPerItem\<rparr>, errors_Join failures, w1))"

section \<open>Leases\<close>

definition errorsIsStableLease :: "go_error \<Rightarrow> bool" where
  "errorsIsStableLease e \<longleftrightarrow>
     errors_Is e ErrRejected \<or> errors_Is e ErrLeaseNotFound \<or> errors_Is e ErrLeaseNotOwned \<or>
     errors_Is e ErrUnavailable \<or> errors_Is e ErrDeadline \<or> errors_Is e ErrCorrupt"

definition normalizeLease :: "'w ctx \<Rightarrow> go_error option \<Rightarrow> 'w \<Rightarrow> go_error option \<times> 'w" where
  "normalizeLease ctx err w =
     (case err of
        None \<Rightarrow> (None, w)
      | Some e \<Rightarrow>
        if errorsIsStableLease e then (Some e, w)
        else let (e', w1) = normalizeBackendError ctx e w in (Some e', w1))"

definition Service_Acquire ::
  "'w clock \<Rightarrow> 'w service \<Rightarrow> 'w ctx \<Rightarrow> leaseRequest \<Rightarrow> 'w \<Rightarrow> lease \<times> decision \<times> go_error option \<times> 'w" where
  "Service_Acquire clock service ctx lr w =
     (case LeaseRequest_Validate lr of
        Some err \<Rightarrow> (zero_Lease, zero_Decision, Some err, w)
      | None \<Rightarrow>
        (case b_Lease (sv_backend service) of
           None \<Rightarrow> (zero_Lease, zero_Decision, Some (Wrapped ''backend does not guarantee leases'' ErrUnsupported), w)
         | Some lb \<Rightarrow>
           let name = b_Name (sv_backend service);
               (started, w1) = clock w;
               (l, d, err, w2) = lb_Acquire lb ctx lr w1;
               (err', w3) = normalizeLease ctx err w2;
               d' = stamp name (r_Policy (lr_Request lr)) d
           in (l\<lparr>l_Backend := name\<rparr>, d', err',
               observe_result clock (sv_observers service) started (lr_Request lr) d' err' w3)))"

definition incomplete_lease :: go_error where
  "incomplete_lease = Wrapped ''complete lease is required'' ErrInvalidRequest"

definition Service_Release ::
  "'w service \<Rightarrow> 'w ctx \<Rightarrow> lease \<Rightarrow> 'w \<Rightarrow> go_error option \<times> 'w" where
  "Service_Release service ctx l w =
     (if l_ID l = '''' then (Some incomplete_lease, w)
      else if key_String (l_Key l) = '''' then (Some incomplete_lease, w)
      else if l_PolicyID l = '''' then (Some incomplete_lease, w)
      else if l_Cost l = 0 then (Some incomplete_lease, w)
      else if IsZero (l_ExpiresAt l) then (Some incomplete_lease, w)
      else if l_Backend l \<noteq> '''' \<and> l_Backend l \<noteq> b_Name (sv_backend service) then (Some ErrLeaseNotOwned, w)
      else case b_Lease (sv_backend service) of
        None \<Rightarrow> (Some ErrUnsupported, w)
      | Some lb \<Rightarrow> let (err, w1) = lb_Release lb ctx l w in normalizeLease ctx err w1)"

section \<open>Properties\<close>

lemma normalizeBackendError_range:
  "fst (normalizeBackendError ctx e w) \<in> {ErrDeadline, ErrOverflow, ErrCorrupt, ErrUnavailable}"
  by (simp add: normalizeBackendError_def Let_def split: prod.splits)

lemma normalize_kinds:
  assumes "normalizeBackendError ctx e w = (e', w')"
  shows "e' = ErrDeadline \<or> e' = ErrOverflow \<or> e' = ErrCorrupt \<or> e' = ErrUnavailable"
  using normalizeBackendError_range [of ctx e w] assms by simp

lemma Service_Admit_valid:
  assumes "Request_Validate r = None" "clock w = (started, w1)" "Admit_body service ctx r w1 = (d, err, w2)"
  shows "Service_Admit clock service ctx r w =
    (stamp (b_Name (sv_backend service)) (r_Policy r) d, err,
     observe_result clock (sv_observers service) started r
       (stamp (b_Name (sv_backend service)) (r_Policy r) d) err w2)"
  using assms by (simp add: Service_Admit_def Let_def)

lemma stamp_fields [simp]:
  "d_Allowed (stamp n p d) = d_Allowed d" "d_Reason (stamp n p d) = d_Reason d"
  "d_Remaining (stamp n p d) = d_Remaining d" "d_Limit (stamp n p d) = d_Limit d"
  "d_Reset (stamp n p d) = d_Reset d" "d_RetryAfter (stamp n p d) = d_RetryAfter d"
  "d_Backend (stamp n p d) = n" "d_PolicyRevision (stamp n p d) = p_revision p"
  by (simp_all add: stamp_def)

text \<open>
  C29. What a nil error from \<open>Service.Admit\<close> means, for a policy that came out of
  \<open>NewPolicy\<close>: the request is valid, and either the backend itself answered
  without error and its decision is passed on, or the policy is fail-open and
  not a concurrency policy, the backend failed with something other than a
  rejection that normalises to unavailability or a deadline, and the decision
  is the fail-open one. Both carry the backend's name and the policy revision.
\<close>

theorem Service_Admit_nil_error:
  assumes "policy_wf (r_Policy r)"
    and "Service_Admit clock service ctx r w = (d, None, w')"
    and "b_Admit (sv_backend service) ctx r (snd (clock w)) = (d0, err0, w1)"
  shows "Request_Validate r = None \<and>
    (err0 = None \<and> d = stamp (b_Name (sv_backend service)) (r_Policy r) d0 \<or>
     p_failureMode (r_Policy r) = FailOpen \<and> p_algorithm (r_Policy r) \<noteq> Concurrency \<and>
     (\<exists>e. err0 = Some e \<and> \<not> errors_Is e ErrRejected \<and>
        fst (normalizeBackendError ctx e w1) \<in> {ErrUnavailable, ErrDeadline}) \<and>
     d = stamp (b_Name (sv_backend service)) (r_Policy r) (failOpenDecision (r_Policy r)))"
proof -
  have v: "Request_Validate r = None"
    using assms(2) by (simp add: Service_Admit_def split: option.splits)
  obtain started wc where c: "clock w = (started, wc)" by (cases "clock w")
  have "policy_wf (r_Policy r) \<Longrightarrow> p_failureMode (r_Policy r) = FailOpen \<Longrightarrow> p_algorithm (r_Policy r) \<noteq> Concurrency"
    by (auto simp: policy_wf_def)
  then show ?thesis
    using assms v c
    by (auto simp: Service_Admit_def Admit_body_def Let_def dest: normalize_kinds
        split: prod.splits option.splits if_splits)
qed

lemma Batch_loop_length: "length (fst (Batch_loop clock service ctx i rs w)) = length rs"
proof (induction rs arbitrary: i w)
  case (Cons r rs)
  then show ?case
    by (auto simp: Let_def split: prod.splits) (metis fst_conv)
qed simp

text \<open>The world before item \<open>n\<close> of a batch: every earlier item has been admitted in order.\<close>

definition batch_world :: "'w clock \<Rightarrow> 'w service \<Rightarrow> 'w ctx \<Rightarrow> request list \<Rightarrow> 'w \<Rightarrow> 'w" where
  "batch_world clock service ctx rs w = fold (\<lambda>r w. snd (snd (Service_Admit clock service ctx r w))) rs w"

lemma Batch_loop_spec:
  "Batch_loop clock service ctx i rs w = (ds, fs, w') \<Longrightarrow>
   w' = batch_world clock service ctx rs w \<and>
   (\<forall>n < length rs. ds ! n = fst (Service_Admit clock service ctx (rs ! n) (batch_world clock service ctx (take n rs) w))) \<and>
   fs = concat (map (\<lambda>n. case fst (snd (Service_Admit clock service ctx (rs ! n)
          (batch_world clock service ctx (take n rs) w))) of None \<Rightarrow> [] | Some e \<Rightarrow> [item_error (i + n) e]) [0..<length rs])"
proof (induction rs arbitrary: i w ds fs w')
  case Nil
  then show ?case by (simp add: batch_world_def)
next
  case (Cons r rs)
  obtain d err w1 where a: "Service_Admit clock service ctx r w = (d, err, w1)" by (metis prod_cases3)
  obtain ds' fs' w2 where b: "Batch_loop clock service ctx (Suc i) rs w1 = (ds', fs', w2)" by (metis prod_cases3)
  have res: "ds = d # ds'" "w' = w2" "fs = (case err of None \<Rightarrow> [] | Some e \<Rightarrow> [item_error i e]) @ fs'"
    using Cons.prems a b by (auto split: option.splits)
  have step: "batch_world clock service ctx (r # xs) w = batch_world clock service ctx xs w1" for xs
    using a by (simp add: batch_world_def)
  have w0: "batch_world clock service ctx [] w = w" by (simp add: batch_world_def)
  note ih = Cons.IH [OF b]
  have "[0..<length (r # rs)] = 0 # map Suc [0..<length rs]"
    by (simp add: upt_conv_Cons map_Suc_upt del: upt_Suc)
  then show ?case
    using ih by (auto simp: res step w0 a nth_Cons comp_def simp del: upt_Suc cong: option.case_cong split: nat.splits)
qed

lemma first_invalid_None: "first_invalid rs = None \<longleftrightarrow> (\<forall>r \<in> set rs. Request_Validate r = None)"
  by (induction rs) (auto split: option.splits)

lemma errors_Is_item [simp]: "errors_Is (item_error i e) t = errors_Is e t"
  by (simp add: item_error_def)

definition item_errors :: "(nat \<Rightarrow> go_error option) \<Rightarrow> nat list \<Rightarrow> go_error list" where
  "item_errors f ns = concat (map (\<lambda>n. case f n of None \<Rightarrow> [] | Some e \<Rightarrow> [item_error n e]) ns)"

lemma list_ex_item_errors: "list_ex (\<lambda>e. errors_Is e t) (item_errors f ns) \<longleftrightarrow> (\<exists>n \<in> set ns. Is (f n) t)"
  by (induction ns) (auto simp: item_errors_def split: option.splits)

lemma item_errors_Nil: "item_errors f ns = [] \<longleftrightarrow> (\<forall>n \<in> set ns. f n = None)"
  by (induction ns) (auto simp: item_errors_def split: option.splits)

lemma Is_errors_Join: "Is (errors_Join es) t \<longleftrightarrow> list_ex (\<lambda>e. errors_Is e t) es"
  by (simp add: errors_Join_def)

text \<open>
  C30. A valid batch runs every item once, in input order, each on the world its
  predecessors left, whatever fails: there is one decision per request, the one
  \<open>Admit\<close> gives there; the batch error is nil exactly when no item failed, and
  matches a sentinel exactly when some item's error does.
\<close>

theorem Service_Batch_in_order:
  assumes "validateBatch batch = None" "Service_Batch clock service ctx batch w = (res, err, w')"
  shows "let rs = br_Requests batch;
             item = (\<lambda>n. Service_Admit clock service ctx (rs ! n) (batch_world clock service ctx (take n rs) w))
         in length (bd_Decisions res) = length rs \<and> w' = batch_world clock service ctx rs w \<and>
            (\<forall>n < length rs. bd_Decisions res ! n = fst (item n)) \<and>
            (err = None \<longleftrightarrow> (\<forall>n < length rs. fst (snd (item n)) = None)) \<and>
            (\<forall>t. Is err t \<longleftrightarrow> (\<exists>n < length rs. Is (fst (snd (item n))) t))"
proof -
  obtain ds fs where l: "Batch_loop clock service ctx 0 (br_Requests batch) w = (ds, fs, w')"
    and r: "bd_Decisions res = ds" "err = errors_Join fs"
    using assms by (auto simp: Service_Batch_def Let_def split: prod.splits)
  have "length ds = length (br_Requests batch)"
    using Batch_loop_length [of clock service ctx 0 "br_Requests batch" w] l by simp
  moreover define f where "f n = fst (snd (Service_Admit clock service ctx (br_Requests batch ! n)
    (batch_world clock service ctx (take n (br_Requests batch)) w)))" for n
  moreover have fs: "fs = item_errors f [0..<length (br_Requests batch)]"
    using Batch_loop_spec [OF l] by (simp add: item_errors_def f_def cong: option.case_cong)
  moreover have "(err = None) = (\<forall>n < length (br_Requests batch). f n = None)"
    "\<forall>t. Is err t = (\<exists>n < length (br_Requests batch). Is (f n) t)"
    using fs r by (auto simp: Is_errors_Join list_ex_item_errors item_errors_Nil errors_Join_def)
  ultimately show ?thesis
    using Batch_loop_spec [OF l] r by (simp add: Let_def)
qed

lemma normalizeLease_nil: "normalizeLease ctx err w = (err', w') \<Longrightarrow> err' = None \<longleftrightarrow> err = None"
  by (cases err) (auto simp: normalizeLease_def Let_def split: if_splits prod.splits)

text \<open>
  \<open>Service.Release\<close> reaches the backend only with a complete lease that is
  not stamped by another backend; in every other case it reports an error and
  nothing is called.
\<close>

theorem Service_Release_guard:
  "Service_Release service ctx l w = (err, w') \<Longrightarrow>
   (err \<noteq> None \<and> w' = w) \<or>
   (l_ID l \<noteq> '''' \<and> key_String (l_Key l) \<noteq> '''' \<and> l_PolicyID l \<noteq> '''' \<and> 0 < unat (l_Cost l) \<and>
    \<not> IsZero (l_ExpiresAt l) \<and> l_Backend l \<in> {'''', b_Name (sv_backend service)} \<and>
    (\<exists>lb. b_Lease (sv_backend service) = Some lb \<and>
       (err = None \<longleftrightarrow> fst (lb_Release lb ctx l w) = None)))"
  by (auto simp: Service_Release_def Let_def unat_gt_0 dest: normalizeLease_nil
      split: if_splits option.splits prod.splits)

section \<open>A sample\<close>

text \<open>A backend that is down: it counts calls in the world and reports unavailability.\<close>

definition down_backend :: "nat backend" where
  "down_backend = \<lparr>b_Name = ''down'', b_Admit = (\<lambda>_ _ w. (zero_Decision, Some ErrUnavailable, Suc w)),
     b_Lease = Some \<lparr>lb_Acquire = (\<lambda>_ _ w. (zero_Lease, zero_Decision, Some ErrUnavailable, Suc w)),
                     lb_Release = (\<lambda>_ _ w. (None, Suc w))\<rparr>\<rparr>"

definition down_service :: "nat service" where
  "down_service = \<lparr>sv_backend = down_backend, sv_observers = []\<rparr>"

abbreviation idle_ctx :: "nat ctx" where "idle_ctx \<equiv> \<lambda>w. (None, w)"
abbreviation still_clock :: "nat clock" where "still_clock \<equiv> \<lambda>w. (0, w)"

lemma down_Admit:
  "Service_Admit still_clock down_service idle_ctx sample_request w =
     (stamp ''down'' sample_policy (failOpenDecision sample_policy), None, Suc w)"
  by (simp add: Service_Admit_def Admit_body_def down_service_def down_backend_def normalizeBackendError_def
      observe_result_def observe_all_def)
    (simp add: sample_request_def sample_policy_def)

lemma down_backend_Admit: "b_Admit (sv_backend down_service) idle_ctx r w = (zero_Decision, Some ErrUnavailable, Suc w)"
  by (simp add: down_service_def down_backend_def)

theorem Service_Admit_nil_error_witness:
  "Service_Admit still_clock down_service idle_ctx sample_request 0 =
     (stamp ''down'' sample_policy (failOpenDecision sample_policy), None, 1) \<and>
   p_failureMode (r_Policy sample_request) = FailOpen \<and> p_algorithm (r_Policy sample_request) \<noteq> Concurrency"
proof -
  have wf: "policy_wf (r_Policy sample_request)" by (simp add: sample_request_def)
  have "b_Admit (sv_backend down_service) idle_ctx sample_request (snd (still_clock 0)) =
      (zero_Decision, Some ErrUnavailable, Suc 0)"
    by (simp add: down_backend_Admit)
  from Service_Admit_nil_error [OF wf down_Admit this] show ?thesis by (simp add: down_Admit)
qed

definition sample_batch :: batchRequest where
  "sample_batch = \<lparr>br_Requests = [sample_request, sample_request], br_Atomicity = AtomicityPerItem\<rparr>"

lemma sample_batch_length [simp]: "length (br_Requests sample_batch) = 2"
  by (simp add: sample_batch_def)

lemma sample_batch_valid [simp]: "validateBatch sample_batch = None"
  by (simp add: validateBatch_def sample_batch_def MaxBatchSize_def)

theorem Service_Batch_in_order_witness:
  "validateBatch sample_batch = None \<and>
   (\<exists>res err w'. Service_Batch still_clock down_service idle_ctx sample_batch 0 = (res, err, w') \<and>
      length (bd_Decisions res) = 2)"
proof -
  obtain res err w' where b: "Service_Batch still_clock down_service idle_ctx sample_batch 0 = (res, err, w')"
    by (metis prod_cases3)
  show ?thesis
    using Service_Batch_in_order [OF sample_batch_valid b] b by (simp add: Let_def)
qed

definition sample_lease :: lease where
  "sample_lease = \<lparr>l_ID = ''job-1'', l_Key = sample_key, l_PolicyID = ''jobs'', l_PolicyRevision = ''v1'', l_Cost = 1,
     l_ExpiresAt = 1700000000000000000, l_Backend = ''down''\<rparr>"

theorem Service_Release_guard_witness:
  "\<exists>lb. b_Lease (sv_backend down_service) = Some lb \<and> fst (lb_Release lb idle_ctx sample_lease 0) = None"
proof -
  have "Service_Release down_service idle_ctx sample_lease 0 = (None, 1)"
    by (simp add: Service_Release_def sample_lease_def sample_key_def key_String_def down_service_def down_backend_def
        IsZero_def zero_time_def normalizeLease_def)
  from Service_Release_guard [OF this] show ?thesis by simp
qed

end
