(* ===== verification/Strict_Service.thy ===== *)
theory Strict_Service
  imports Service
begin

text \<open>
  \<^verbatim>\<open>strict_service.go\<close>: the service that checks what a backend returns and fails
  closed on everything it cannot establish. The world, contexts and observers
  are those of theory \<open>Service\<close>. A nil service, a nil backend and a nil context
  are \<open>None\<close>; \<open>isNilInterface\<close> does not tell a nil interface from a typed nil,
  and neither does the model. Two times are equal when their instants are.
\<close>

section \<open>Construction\<close>

record atomicBatchRequest =
  ab_CommandID :: string
  ab_Requests :: "request list"

record atomicBatchDecision =
  ad_CommandID :: string
  ad_Allowed :: bool
  ad_Decisions :: "decision list"

record 'w strictLeaseBackend =
  slb_AcquireStrict :: "'w ctx \<Rightarrow> leaseRequest \<Rightarrow> 'w \<Rightarrow> lease \<times> decision \<times> go_error option \<times> 'w"
  slb_ReleaseStrict :: "'w ctx \<Rightarrow> lease \<Rightarrow> 'w \<Rightarrow> go_error option \<times> 'w"

text \<open>
  \<open>sb_Lease\<close> and \<open>sb_Atomic\<close> are the outcomes of the type assertions to
  \<open>StrictLeaseBackend\<close> and \<open>StrictAtomicBatchBackend\<close>. The latter's method may
  panic, which \<open>AdmitAtomicBatch\<close> recovers from: then the result is \<open>None\<close>.
\<close>

record 'w strictBackend =
  sb_Name :: string
  sb_AdmitStrict :: "'w ctx \<Rightarrow> request \<Rightarrow> 'w \<Rightarrow> decision \<times> go_error option \<times> 'w"
  sb_Lease :: "'w strictLeaseBackend option"
  sb_Atomic :: "('w ctx \<Rightarrow> atomicBatchRequest \<Rightarrow> 'w \<Rightarrow> (atomicBatchDecision \<times> go_error option) option \<times> 'w) option"

record 'w strictService =
  ss_backend :: "'w strictBackend option"
  ss_observers :: "'w observer list"
  ss_name :: string

datatype 'w observerArg = NilObserver | TypedNilObserver | LiveObserver "'w observer"

text \<open>The loop over bytes in \<open>validBackendName\<close>, with \<open>previousHyphen\<close> as its state.\<close>

fun backendNameBytes :: "bool \<Rightarrow> string \<Rightarrow> bool" where
  "backendNameBytes previousHyphen [] = (\<not> previousHyphen)"
| "backendNameBytes previousHyphen (c # cs) =
     (if c = CHR ''-'' then (if previousHyphen then False else backendNameBytes True cs)
      else if \<not> lower c \<and> \<not> digit c then False
      else backendNameBytes False cs)"

definition validBackendName :: "string \<Rightarrow> bool" where
  "validBackendName name =
     (if name = [] \<or> length name > MaxBackendNameBytes \<or> \<not> lower (hd name) then False
      else backendNameBytes False name)"

fun filterObservers :: "nat \<Rightarrow> 'w observerArg list \<Rightarrow> go_error + 'w observer list" where
  "filterObservers index [] = Inr []"
| "filterObservers index (NilObserver # xs) = filterObservers (Suc index) xs"
| "filterObservers index (TypedNilObserver # xs) =
     Inl (Wrapped (''observer at index '' @ decimal_digits index @ '' is nil'') ErrInvalidPolicy)"
| "filterObservers index (LiveObserver f # xs) =
     (case filterObservers (Suc index) xs of Inl e \<Rightarrow> Inl e | Inr fs \<Rightarrow> Inr (f # fs))"

definition NewStrictService ::
  "'w strictBackend option \<Rightarrow> 'w observerArg list \<Rightarrow> go_error + 'w strictService" where
  "NewStrictService backend observers =
     (case backend of
        None \<Rightarrow> Inl (Wrapped ''backend is required'' ErrInvalidPolicy)
      | Some b \<Rightarrow>
        (case filterObservers 0 observers of
           Inl e \<Rightarrow> Inl e
         | Inr filtered \<Rightarrow>
           if length filtered > MaxObservers then Inl too_many_observers
           else if \<not> validBackendName (sb_Name b)
           then Inl (Wrapped (''backend name must be 1 to 64 lowercase ASCII bytes using '' @
                  ''letters, digits, and single hyphens'') ErrInvalidPolicy)
           else Inr \<lparr>ss_backend = Some b, ss_observers = filtered, ss_name = sb_Name b\<rparr>))"

section \<open>Result checks\<close>

definition completeAllowed :: "decision \<Rightarrow> request \<Rightarrow> bool" where
  "completeAllowed d r \<longleftrightarrow>
     d_Allowed d \<and> d_Reason d = ReasonAllowed \<and> d_Limit d = Limit (r_Policy r) \<and>
     d_Remaining d \<le> Limit (r_Policy r) - r_Cost r \<and> \<not> IsZero (d_Reset d) \<and> d_RetryAfter d = 0"

definition completeRejected :: "decision \<Rightarrow> request \<Rightarrow> bool" where
  "completeRejected d r \<longleftrightarrow>
     \<not> d_Allowed d \<and> d_Reason d = ReasonLimited \<and> d_Limit d = Limit (r_Policy r) \<and>
     d_Remaining d < r_Cost r \<and> \<not> IsZero (d_Reset d) \<and> d_RetryAfter d \<ge> 0"

definition zeroDecision :: "decision \<Rightarrow> bool" where
  "zeroDecision d \<longleftrightarrow> d = zero_Decision"

datatype declarationKind = declarationUnsafe | declarationSafe | declarationOutcome

definition strictDeclaration :: "go_error option \<Rightarrow> declarationKind \<times> go_error option" where
  "strictDeclaration err =
     (case err of
        None \<Rightarrow> (declarationUnsafe, None)
      | Some (StrictOutcome k c) \<Rightarrow> (declarationOutcome, err)
      | Some e \<Rightarrow>
        if safeBackendCategory err then (declarationSafe, err)
        else (case e of
            BackendError category \<Rightarrow>
              if safeBackendCategory category then (declarationSafe, category) else (declarationUnsafe, None)
          | _ \<Rightarrow> (declarationUnsafe, None)))"

datatype strictMethod = strictMethodAdmit | strictMethodAcquire | strictMethodRelease

definition applicableCategory :: "go_error option \<Rightarrow> strictMethod \<Rightarrow> bool" where
  "applicableCategory category method =
     (case method of
        strictMethodAdmit \<Rightarrow>
          directError category (Some ErrRejected) \<or> directError category (Some ErrUnavailable) \<or>
          directError category (Some ErrOverflow) \<or> directError category (Some ErrCorrupt) \<or>
          directError category (Some ErrUnsupported)
      | strictMethodAcquire \<Rightarrow>
          directError category (Some ErrRejected) \<or> directError category (Some ErrUnavailable) \<or>
          directError category (Some ErrOverflow) \<or> directError category (Some ErrCorrupt) \<or>
          directError category (Some ErrLeaseNotOwned)
      | strictMethodRelease \<Rightarrow>
          directError category (Some ErrUnavailable) \<or> directError category (Some ErrCorrupt) \<or>
          directError category (Some ErrLeaseNotFound) \<or> directError category (Some ErrLeaseNotOwned))"

definition strictCallerContext :: "'w ctx \<Rightarrow> 'w \<Rightarrow> go_error option \<times> 'w" where
  "strictCallerContext ctx w =
     (let (e, w1) = ctx w in
      (if e = Some ContextCanceled then Some CanceledOutcome
       else if e = Some ContextDeadlineExceeded then Some DeadlineOutcome
       else None, w1))"

definition contextReason :: "go_error \<Rightarrow> reason" where
  "contextReason err =
     (case err of StrictOutcome strictOutcomeCanceled c \<Rightarrow> ReasonCanceled | _ \<Rightarrow> ReasonDeadline)"

definition failsOpen :: "policy \<Rightarrow> bool" where
  "failsOpen p \<longleftrightarrow> p_failureMode p = FailOpen \<and> p_algorithm p \<noteq> Concurrency"

definition strictDeadlineFailOpen :: "request \<Rightarrow> go_error \<Rightarrow> bool" where
  "strictDeadlineFailOpen r err =
     (case err of StrictOutcome strictOutcomeDeadline c \<Rightarrow> failsOpen (r_Policy r) | _ \<Rightarrow> False)"

definition reconstructUnknown :: "strictOutcomeKind option \<Rightarrow> go_error" where
  "reconstructUnknown ctxKind =
     (if ctxKind = Some strictOutcomeCanceled then UnknownOutcome (Some ContextCanceled)
      else if ctxKind = Some strictOutcomeDeadline then UnknownOutcome (Some ContextDeadlineExceeded)
      else UnknownOutcome None)"

section \<open>Admission\<close>

definition strictFailOpen :: "request \<Rightarrow> decision" where
  "strictFailOpen r =
     zero_Decision\<lparr>d_Allowed := True, d_Limit := Limit (r_Policy r), d_Remaining := Limit (r_Policy r),
                   d_Reason := ReasonFailOpen\<rparr>"

definition strictDenied :: "request \<Rightarrow> reason \<Rightarrow> decision" where
  "strictDenied r reason = zero_Decision\<lparr>d_Allowed := False, d_Limit := Limit (r_Policy r), d_Reason := reason\<rparr>"

definition stampDecision :: "string \<Rightarrow> decision \<Rightarrow> request \<Rightarrow> decision" where
  "stampDecision name d r = d\<lparr>d_Backend := name, d_PolicyRevision := p_revision (r_Policy r)\<rparr>"

definition unknownDecision :: "string \<Rightarrow> 'w ctx \<Rightarrow> request \<Rightarrow> 'w \<Rightarrow> decision \<times> go_error option \<times> 'w" where
  "unknownDecision name ctx r w =
     (let (e, w1) = ctx w in
      (stampDecision name (strictDenied r ReasonOutcomeUnknown) r, Some (UnknownOutcome e), w1))"

definition normalizeAdmit ::
  "string \<Rightarrow> 'w ctx \<Rightarrow> request \<Rightarrow> decision \<Rightarrow> go_error option \<Rightarrow> 'w \<Rightarrow> decision \<times> go_error option \<times> 'w" where
  "normalizeAdmit name ctx r raw rawErr w =
     (let (declaration, category) = strictDeclaration rawErr;
          denied = (\<lambda>reason. stampDecision name (strictDenied r reason) r);
          failOpen = stampDecision name (strictFailOpen r) r
      in
      if rawErr = None \<and> completeAllowed raw r then (stampDecision name raw r, None, w)
      else if declaration = declarationSafe \<and> directError category (Some ErrRejected) \<and> completeRejected raw r
      then (stampDecision name raw r, rawErr, w)
      else case (if declaration = declarationOutcome \<and> zeroDecision raw then rawErr else None) of
        Some (StrictOutcome kind c) \<Rightarrow>
          (case kind of
             strictOutcomeCanceled \<Rightarrow> (denied ReasonCanceled, Some CanceledOutcome, w)
           | strictOutcomeDeadline \<Rightarrow>
               if failsOpen (r_Policy r) then (failOpen, None, w)
               else (denied ReasonDeadline, Some DeadlineOutcome, w)
           | strictOutcomeUnknown \<Rightarrow> (denied ReasonOutcomeUnknown, Some (reconstructUnknown c), w))
      | _ \<Rightarrow>
        if declaration = declarationSafe \<and> \<not> directError category (Some ErrRejected) \<and>
           applicableCategory category strictMethodAdmit \<and> zeroDecision raw
        then (if directError category (Some ErrUnavailable) \<and> failsOpen (r_Policy r)
              then (failOpen, None, w)
              else (denied ReasonBackendUnavailable, rawErr, w))
        else unknownDecision name ctx r w)"

definition uninitialized :: go_error where
  "uninitialized = Wrapped ''strict service is nil or uninitialized'' ErrInvalidPolicy"

definition context_required :: go_error where
  "context_required = Wrapped ''context is required'' ErrInvalidRequest"

text \<open>The checks every method starts with: \<open>Inr\<close> gives the backend and the context.\<close>

definition strict_ready ::
  "'w strictService option \<Rightarrow> 'w ctx option \<Rightarrow> go_error + ('w strictService \<times> 'w strictBackend \<times> 'w ctx)" where
  "strict_ready service ctx =
     (case service of
        None \<Rightarrow> Inl uninitialized
      | Some s \<Rightarrow>
        (case ss_backend s of
           None \<Rightarrow> Inl uninitialized
         | Some b \<Rightarrow>
           if ss_name s = '''' then Inl uninitialized
           else case ctx of None \<Rightarrow> Inl context_required | Some c \<Rightarrow> Inr (s, b, c)))"

definition strict_admit ::
  "'w clock \<Rightarrow> 'w strictService option \<Rightarrow> 'w ctx option \<Rightarrow> request \<Rightarrow> bool \<Rightarrow> 'w \<Rightarrow>
   decision \<times> go_error option \<times> bool \<times> 'w" where
  "strict_admit clock service ctx0 r validated w =
     (case strict_ready service ctx0 of
        Inl e \<Rightarrow> (zero_Decision, Some e, False, w)
      | Inr (s, b, ctx) \<Rightarrow>
        case (if validated then None else Request_Validate r) of
          Some err \<Rightarrow> (zero_Decision, Some err, False, w)
        | None \<Rightarrow>
          let (started, w1) = clock w;
              (ce, w2) = strictCallerContext ctx w1
          in case ce of
            Some err \<Rightarrow>
              if validated then (zero_Decision, Some err, False, w2)
              else if strictDeadlineFailOpen r err
              then let d = stampDecision (ss_name s) (strictFailOpen r) r
                   in (d, None, False, observe_result clock (ss_observers s) started r d None w2)
              else let d = stampDecision (ss_name s) (strictDenied r (contextReason err)) r
                   in (d, Some err, False, observe_result clock (ss_observers s) started r d (Some err) w2)
          | None \<Rightarrow>
              let (raw, rawErr, w3) = sb_AdmitStrict b ctx r w2;
                  (d, err, w4) = normalizeAdmit (ss_name s) ctx r raw rawErr w3
              in (d, err, True, observe_result clock (ss_observers s) started r d err w4))"

definition StrictService_Admit ::
  "'w clock \<Rightarrow> 'w strictService option \<Rightarrow> 'w ctx option \<Rightarrow> request \<Rightarrow> 'w \<Rightarrow> decision \<times> go_error option \<times> 'w" where
  "StrictService_Admit clock service ctx r w =
     (let (d, err, dispatched, w1) = strict_admit clock service ctx r False w in (d, err, w1))"

section \<open>Batches\<close>

record strictBatchDecision =
  sbd_Decisions :: "decision list"
  sbd_Attempted :: "nat list"
  sbd_Atomicity :: atomicity

definition zero_StrictBatchDecision :: strictBatchDecision where
  "zero_StrictBatchDecision = \<lparr>sbd_Decisions = [], sbd_Attempted = [], sbd_Atomicity = OtherAtomicity ''''\<rparr>"

text \<open>
  The loop of \<open>Batch\<close>: decisions of the remaining items (zero where the loop
  broke off), the indexes dispatched, and the item errors.
\<close>

fun strict_batch_loop ::
  "'w clock \<Rightarrow> 'w strictService option \<Rightarrow> 'w ctx \<Rightarrow> nat \<Rightarrow> request list \<Rightarrow> 'w \<Rightarrow>
   decision list \<times> nat list \<times> go_error list \<times> 'w" where
  "strict_batch_loop clock service ctx index [] w = ([], [], [], w)"
| "strict_batch_loop clock service ctx index (r # rs) w =
     (let unattempted = replicate (length rs) zero_Decision; (ce, w1) = strictCallerContext ctx w in
      case ce of
        Some e \<Rightarrow> (zero_Decision # unattempted, [], [BatchItemError index (Some e)], w1)
      | None \<Rightarrow>
        let (d, err, dispatched, w2) = strict_admit clock service (Some ctx) r True w1 in
        if \<not> dispatched then (zero_Decision # unattempted, [], [BatchItemError index err], w2)
        else let continue = (\<lambda>items w. let (ds, attempted, rest, w') = strict_batch_loop clock service ctx (Suc index) rs w
                                       in (d # ds, index # attempted, items @ rest, w'))
        in case err of
          None \<Rightarrow> continue [] w2
        | Some e \<Rightarrow>
          let item = BatchItemError index (Some e) in
          (case e of
             StrictOutcome strictOutcomeUnknown c \<Rightarrow>
               let (ce2, w3) = strictCallerContext ctx w2 in
               if ce2 \<noteq> None then (d # unattempted, [index], [item], w3) else continue [item] w3
           | _ \<Rightarrow> continue [item] w2))"

definition StrictService_Batch ::
  "'w clock \<Rightarrow> 'w strictService option \<Rightarrow> 'w ctx option \<Rightarrow> batchRequest \<Rightarrow> 'w \<Rightarrow>
   strictBatchDecision \<times> go_error option \<times> 'w" where
  "StrictService_Batch clock service ctx0 batch w =
     (case strict_ready service ctx0 of
        Inl e \<Rightarrow> (zero_StrictBatchDecision, Some e, w)
      | Inr (s, b, ctx) \<Rightarrow>
        case validateBatch batch of
          Some err \<Rightarrow> (zero_StrictBatchDecision, Some err, w)
        | None \<Rightarrow>
          let (ds, attempted, items, w1) = strict_batch_loop clock service ctx 0 (br_Requests batch) w in
          (\<lparr>sbd_Decisions = ds, sbd_Attempted = attempted, sbd_Atomicity = AtomicityPerItem\<rparr>,
           if items = [] then None else Some (StrictBatchError items), w1))"

section \<open>What admission guarantees\<close>

definition safe_error :: "go_error \<Rightarrow> go_error \<Rightarrow> bool" where
  "safe_error category e \<longleftrightarrow> safeBackendCategory (Some category) \<and> e \<in> {category, BackendError (Some category)}"

lemma strictDeclaration_cases:
  obtains (nil) "err = None" "strictDeclaration err = (declarationUnsafe, None)"
  | (outcome) k c where "err = Some (StrictOutcome k c)" "strictDeclaration err = (declarationOutcome, err)"
  | (safe) category e where "err = Some e" "safe_error category e" "strictDeclaration err = (declarationSafe, Some category)"
  | (unsafe) e where "err = Some e" "strictDeclaration err = (declarationUnsafe, None)"
      "\<And>k c. e \<noteq> StrictOutcome k c" "\<And>category. \<not> safe_error category e"
proof (cases err)
  case None
  then show ?thesis by (intro nil) (simp_all add: strictDeclaration_def)
next
  case (Some e)
  show ?thesis
  proof (cases "\<exists>k c. e = StrictOutcome k c")
    case True
    then show ?thesis using Some by (auto intro: outcome simp: strictDeclaration_def)
  next
    case no: False
    show ?thesis
    proof (cases "\<exists>category. safe_error category e")
      case True
      then obtain category where c: "safe_error category e" ..
      then have "strictDeclaration (Some e) = (declarationSafe, Some category)"
        by (auto simp: safe_error_def safe_Some strictDeclaration_def)
      with c Some show ?thesis by (intro safe) simp_all
    next
      case False
      then have "strictDeclaration (Some e) = (declarationUnsafe, None)"
        using no by (auto simp: safe_error_def strictDeclaration_def split: go_error.splits)
          (metis safe_E)+
      with Some no False show ?thesis by (intro unsafe) auto
    qed
  qed
qed

lemma stampDecision_fields [simp]:
  "d_Allowed (stampDecision n d r) = d_Allowed d" "d_Reason (stampDecision n d r) = d_Reason d"
  "d_Remaining (stampDecision n d r) = d_Remaining d" "d_Limit (stampDecision n d r) = d_Limit d"
  by (simp_all add: stampDecision_def)

lemma decision_shapes [simp]:
  "d_Allowed (strictFailOpen r)" "\<not> d_Allowed (strictDenied r reason)" "\<not> d_Allowed zero_Decision"
  "d_Reason (strictFailOpen r) = ReasonFailOpen" "d_Reason (strictDenied r reason) = reason"
  by (simp_all add: strictFailOpen_def strictDenied_def zero_Decision_def)

text \<open>
  The backend results that grant admission: a complete allowance without an
  error, or, under a policy that fails open, a zero decision with a declared
  deadline before dispatch or the direct category \<open>ErrUnavailable\<close>.
\<close>

definition grants :: "request \<Rightarrow> decision \<Rightarrow> go_error option \<Rightarrow> bool" where
  "grants r raw rawErr \<longleftrightarrow>
     rawErr = None \<and> completeAllowed raw r \<or>
     failsOpen (r_Policy r) \<and> raw = zero_Decision \<and>
     (\<exists>e. rawErr = Some e \<and> ((\<exists>c. e = StrictOutcome strictOutcomeDeadline c) \<or> safe_error ErrUnavailable e))"

text \<open>The results that deny with certainty: rejections and declared failures.\<close>

definition denies :: "request \<Rightarrow> decision \<Rightarrow> go_error option \<Rightarrow> bool" where
  "denies r raw rawErr \<longleftrightarrow> \<not> grants r raw rawErr \<and>
     (\<exists>e. rawErr = Some e \<and>
       (safe_error ErrRejected e \<and> completeRejected raw r \<or>
        raw = zero_Decision \<and>
        ((\<exists>c. e = StrictOutcome strictOutcomeCanceled c \<or> e = StrictOutcome strictOutcomeDeadline c) \<or>
         (\<exists>category \<in> {ErrUnavailable, ErrOverflow, ErrCorrupt, ErrUnsupported}. safe_error category e))))"

lemma safe_error_unique: "safe_error c e \<Longrightarrow> safe_error c' e \<longleftrightarrow> c' = c"
  by (auto simp: safe_error_def safe_Some)

lemma completeRejected_not_zero [simp]: "\<not> completeRejected zero_Decision r"
  by (simp add: completeRejected_def zero_Decision_def)

lemma completeAllowed_not_zero [simp]: "\<not> completeAllowed zero_Decision r"
  by (simp add: completeAllowed_def zero_Decision_def)

lemma normalizeAdmit_grants:
  assumes "normalizeAdmit name ctx r raw rawErr w = (d, err, w')"
  shows "(d_Allowed d \<longleftrightarrow> grants r raw rawErr) \<and> (err = None \<longleftrightarrow> grants r raw rawErr)"
proof (cases rawErr rule: strictDeclaration_cases)
  case nil
  then show ?thesis using assms
    by (auto simp: normalizeAdmit_def grants_def unknownDecision_def Let_def completeAllowed_def split: if_splits prod.splits)
next
  case (outcome k c)
  then show ?thesis using assms
    by (cases k) (auto simp: normalizeAdmit_def grants_def unknownDecision_def Let_def zeroDecision_def safe_error_def
        safe_Some split: if_splits prod.splits)
next
  case (safe category e)
  then have "safe_error ErrUnavailable e \<longleftrightarrow> category = ErrUnavailable" "\<forall>k c. e \<noteq> StrictOutcome k c"
    using safe_error_unique [of category e ErrUnavailable] by (auto simp: safe_error_def safe_Some)
  with safe show ?thesis using assms
    by (auto simp: normalizeAdmit_def grants_def unknownDecision_def Let_def zeroDecision_def completeRejected_def
        applicableCategory_def split: if_splits prod.splits)
next
  case (unsafe e)
  then show ?thesis using assms
    by (auto simp: normalizeAdmit_def grants_def unknownDecision_def Let_def split: if_splits prod.splits)
qed

lemma normalizeAdmit_unknown:
  assumes "normalizeAdmit name ctx r raw rawErr w = (d, err, w')"
    and "\<not> grants r raw rawErr" "\<not> denies r raw rawErr"
  shows "d = stampDecision name (strictDenied r ReasonOutcomeUnknown) r \<and>
    (\<exists>c. err = Some (StrictOutcome strictOutcomeUnknown c))"
proof (cases rawErr rule: strictDeclaration_cases)
  case nil
  then show ?thesis using assms
    by (auto simp: normalizeAdmit_def grants_def unknownDecision_def UnknownOutcome_def Let_def split: if_splits prod.splits)
next
  case (outcome k c)
  then show ?thesis using assms
    by (cases k) (auto simp: normalizeAdmit_def grants_def denies_def unknownDecision_def UnknownOutcome_def
        reconstructUnknown_def Let_def zeroDecision_def split: if_splits prod.splits)
next
  case (safe category e)
  then have "\<forall>c'. safe_error c' e \<longleftrightarrow> c' = category" "\<forall>k c. e \<noteq> StrictOutcome k c"
    using safe_error_unique [of category e] by (auto simp: safe_error_def safe_Some)
  with safe show ?thesis using assms
    by (auto simp: normalizeAdmit_def denies_def grants_def unknownDecision_def UnknownOutcome_def Let_def
        zeroDecision_def applicableCategory_def split: if_splits prod.splits)
next
  case (unsafe e)
  then show ?thesis using assms
    by (auto simp: normalizeAdmit_def unknownDecision_def UnknownOutcome_def Let_def split: if_splits prod.splits)
qed

text \<open>The errors a strict method returns once validation is over.\<close>

definition strict_error :: "go_error \<Rightarrow> bool" where
  "strict_error e \<longleftrightarrow> (\<exists>k c. e = StrictOutcome k c) \<or> (\<exists>category. safe_error category e)"

lemma strict_error_text: "strict_error e \<Longrightarrow> length (Error_text e) \<le> MaxBackendErrorBytes"
proof -
  have "length (Error_text (StrictOutcome k c)) \<le> MaxBackendErrorBytes" for k c
    by (cases k) (simp_all add: MaxBackendErrorBytes_def)
  moreover have "safe_error category e \<Longrightarrow> length (Error_text e) \<le> MaxBackendErrorBytes" for category
    by (auto simp: safe_error_def safe_Some MaxBackendErrorBytes_def)
  ultimately show "strict_error e \<Longrightarrow> ?thesis" by (auto simp: strict_error_def)
qed

lemma strict_error_outcome [simp]: "strict_error (StrictOutcome k c)"
  "strict_error CanceledOutcome" "strict_error DeadlineOutcome" "strict_error (UnknownOutcome e)"
  "strict_error (reconstructUnknown x)"
  by (auto simp: strict_error_def CanceledOutcome_def DeadlineOutcome_def UnknownOutcome_def reconstructUnknown_def)

lemma normalizeAdmit_error:
  assumes "normalizeAdmit name ctx r raw rawErr w = (d, Some e, w')"
  shows "strict_error e"
proof (cases rawErr rule: strictDeclaration_cases)
  case (safe category e')
  then have "strict_error e'" by (auto simp: strict_error_def)
  with safe assms show ?thesis
    by (auto simp: normalizeAdmit_def unknownDecision_def Let_def split: if_splits prod.splits go_error.splits)
next
  case (outcome k c)
  with assms show ?thesis
    by (cases k) (auto simp: normalizeAdmit_def unknownDecision_def Let_def split: if_splits prod.splits)
qed (use assms in \<open>auto simp: normalizeAdmit_def unknownDecision_def Let_def split: if_splits prod.splits\<close>)

lemma strictCallerContext_error: "strictCallerContext ctx w = (Some e, w') \<Longrightarrow> e \<in> {CanceledOutcome, DeadlineOutcome}"
  by (auto simp: strictCallerContext_def Let_def split: prod.splits if_splits)

text \<open>
  C3. The strict service never lets an error and an admission go together:
  whatever the service, the context, the backend and the request are, the
  decision of \<open>StrictService.Admit\<close> allows exactly when the error is nil.
\<close>

theorem strict_allowed_iff_nil_error:
  "case StrictService_Admit clock service ctx r w of (d, err, w') \<Rightarrow> d_Allowed d \<longleftrightarrow> err = None"
  by (auto simp: StrictService_Admit_def strict_admit_def Let_def dest: normalizeAdmit_grants
      split: sum.splits prod.splits option.splits if_splits)

text \<open>
  C14. A granted admission that was dispatched has one of three causes: the
  backend returned a complete allowance and no error; the policy fails open, is
  not a concurrency policy, and the backend declared with a zero decision that
  a deadline came before dispatch, or that it is unavailable by the direct
  category. Anything else the backend returns is denied: with its own error if
  it is a complete rejection or a declared failure, and otherwise with an
  unknown outcome, whatever text or error tree it carries.
\<close>

theorem strict_dispatch_outcome:
  assumes "strict_admit clock (Some s) (Some ctx) r validated w = (d, err, True, w')"
  shows "\<exists>b raw rawErr w2 w3. ss_backend s = Some b \<and> sb_AdmitStrict b ctx r w2 = (raw, rawErr, w3) \<and>
    (err = None \<longleftrightarrow> grants r raw rawErr) \<and> (d_Allowed d \<longleftrightarrow> grants r raw rawErr) \<and>
    (\<not> grants r raw rawErr \<and> \<not> denies r raw rawErr \<longrightarrow>
       d_Reason d = ReasonOutcomeUnknown \<and> Is err ErrOutcomeUnknown)"
proof -
  obtain b started w1 w2 raw rawErr w3 w4 where b: "ss_backend s = Some b" "clock w = (started, w1)"
      "strictCallerContext ctx w1 = (None, w2)" "sb_AdmitStrict b ctx r w2 = (raw, rawErr, w3)"
      "normalizeAdmit (ss_name s) ctx r raw rawErr w3 = (d, err, w4)"
    using assms by (auto simp: strict_admit_def strict_ready_def Let_def split: option.splits if_splits prod.splits)
  show ?thesis
    using b normalizeAdmit_grants [OF b(5)] normalizeAdmit_unknown [OF b(5)]
    by (intro exI [of _ b] exI [of _ raw] exI [of _ rawErr] exI [of _ w2] exI [of _ w3])
      (auto simp: strictOutcome_Is_def)
qed

section \<open>What a batch guarantees\<close>

lemma strict_admit_validated:
  assumes "strict_ready service (Some ctx) = Inr x" "strict_admit clock service (Some ctx) r True w = (d, err, dispatched, w')"
  shows "(\<not> dispatched \<longrightarrow> err \<noteq> None) \<and> (\<forall>e. err = Some e \<longrightarrow> strict_error e)"
proof -
  obtain s b c where x: "x = (s, b, c)" by (cases x)
  show ?thesis
    using assms x
    by (auto simp: strict_admit_def Let_def dest: strictCallerContext_error normalizeAdmit_error
        split: prod.splits option.splits)
qed

definition batch_item :: "nat \<Rightarrow> nat \<Rightarrow> go_error \<Rightarrow> bool" where
  "batch_item lo hi it \<longleftrightarrow> (\<exists>n e. it = BatchItemError n (Some e) \<and> lo \<le> n \<and> n < hi \<and> strict_error e)"

definition batch_result :: "nat \<Rightarrow> nat \<Rightarrow> decision list \<Rightarrow> nat list \<Rightarrow> go_error list \<Rightarrow> bool" where
  "batch_result i len ds attempted items \<longleftrightarrow>
     length ds = len \<and> length items \<le> len \<and> list_all (batch_item i (i + len)) items \<and>
     (\<exists>k \<le> len. attempted = [i..<i + k] \<and> (\<forall>n. k \<le> n \<and> n < len \<longrightarrow> ds ! n = zero_Decision) \<and>
        (k < len \<longrightarrow> items \<noteq> []))"

lemma batch_result_stop:
  "strict_error e \<Longrightarrow> batch_result i (Suc n) (zero_Decision # replicate n zero_Decision) [] [BatchItemError i (Some e)]"
  by (auto simp: batch_result_def batch_item_def nth_Cons intro!: exI [of _ 0] split: nat.splits)

lemma batch_result_break:
  "strict_error e \<Longrightarrow> batch_result i (Suc n) (d # replicate n zero_Decision) [i] [BatchItemError i (Some e)]"
  by (auto simp: batch_result_def batch_item_def nth_Cons intro!: exI [of _ 1] split: nat.splits)

lemma batch_result_continue:
  assumes "batch_result (Suc i) n ds attempted items"
    and "its = [] \<or> (\<exists>e. its = [BatchItemError i (Some e)] \<and> strict_error e)"
  shows "batch_result i (Suc n) (d # ds) (i # attempted) (its @ items)"
proof -
  obtain k where k: "k \<le> n" "attempted = [Suc i..<Suc i + k]"
    "\<forall>m. k \<le> m \<and> m < n \<longrightarrow> ds ! m = zero_Decision" "k < n \<longrightarrow> items \<noteq> []"
    using assms(1) by (auto simp: batch_result_def)
  have "i # attempted = [i..<i + Suc k]"
    using k(2) by (simp add: upt_conv_Cons del: upt_Suc)
  moreover have "(d # ds) ! m = zero_Decision" if "Suc k \<le> m" "m < Suc n" for m
    using that k(3) by (cases m) auto
  moreover have "list_all (batch_item i (i + Suc n)) items"
    using assms(1) by (fastforce simp: batch_result_def batch_item_def list_all_iff)
  ultimately show ?thesis
    using assms k by (auto simp: batch_result_def batch_item_def intro!: exI [of _ "Suc k"])
qed

definition item_or_none :: "nat \<Rightarrow> go_error list \<Rightarrow> bool" where
  "item_or_none i its \<longleftrightarrow> its = [] \<or> (\<exists>e. its = [BatchItemError i (Some e)] \<and> strict_error e)"

text \<open>One turn of the loop: stop before dispatch, break after an ambiguous item, or go on.\<close>

lemma strict_batch_step:
  assumes "strict_ready service (Some ctx) = Inr x"
    and loop: "strict_batch_loop clock service ctx i (r # rs) w = (ds, attempted, items, w')"
  obtains (stop) e where "strict_error e" "ds = zero_Decision # replicate (length rs) zero_Decision" "attempted = []"
      "items = [BatchItemError i (Some e)]"
  | (break_off) d e where "strict_error e" "ds = d # replicate (length rs) zero_Decision" "attempted = [i]"
      "items = [BatchItemError i (Some e)]"
  | (go_on) d its w0 ds' attempted' rest where "item_or_none i its"
      "strict_batch_loop clock service ctx (Suc i) rs w0 = (ds', attempted', rest, w')"
      "ds = d # ds'" "attempted = i # attempted'" "items = its @ rest"
proof -
  obtain ce w1 where ce: "strictCallerContext ctx w = (ce, w1)" by (cases "strictCallerContext ctx w")
  obtain d err dispatched w2 where ad: "strict_admit clock service (Some ctx) r True w1 = (d, err, dispatched, w2)"
    by (metis prod_cases4)
  obtain ce2 w3 where ce2: "strictCallerContext ctx w2 = (ce2, w3)" by (cases "strictCallerContext ctx w2")
  note ok = strict_admit_validated [OF assms(1) ad]
  consider (c) e where "ce = Some e" | (n) "ce = None" "\<not> dispatched" | (a) "ce = None" "dispatched" "err = None"
    | (u) e c where "ce = None" "dispatched" "err = Some e" "e = StrictOutcome strictOutcomeUnknown c"
    | (f) e where "ce = None" "dispatched" "err = Some e" "\<forall>c. e \<noteq> StrictOutcome strictOutcomeUnknown c"
    by (cases ce; cases dispatched; cases err) auto
  then show thesis
  proof cases
    case (c e)
    then show thesis using loop ce strictCallerContext_error [of ctx w] by (intro stop [of e]) auto
  next
    case n
    then show thesis using loop ce ad ok by (auto intro: stop)
  next
    case a
    then show thesis using loop ce ad go_on [of "[]" w2] by (auto simp: item_or_none_def split: prod.splits)
  next
    case (u e c)
    then show thesis using loop ce ad ce2 ok go_on [of "[BatchItemError i err]" w3] break_off [of e d]
      by (auto simp: item_or_none_def Let_def split: prod.splits if_splits)
  next
    case f
    then have "item_or_none i [BatchItemError i err]" using ok by (simp add: item_or_none_def)
    then show thesis using f loop ce ad go_on [of "[BatchItemError i err]" w2]
      by (auto simp: Let_def split: prod.splits go_error.splits strictOutcomeKind.splits)
  qed
qed

lemma strict_batch_loop_result:
  assumes "strict_ready service (Some ctx) = Inr x"
  shows "strict_batch_loop clock service ctx i rs w = (ds, attempted, items, w') \<Longrightarrow>
    batch_result i (length rs) ds attempted items"
proof (induction rs arbitrary: i w ds attempted items w')
  case Nil
  then show ?case by (simp add: batch_result_def)
next
  case (Cons r rs)
  from assms Cons.prems show ?case
  proof (cases rule: strict_batch_step)
    case (stop e)
    then show ?thesis using batch_result_stop by simp
  next
    case (break_off d e)
    then show ?thesis using batch_result_break by simp
  next
    case (go_on d its w0 ds' attempted' rest)
    then show ?thesis using batch_result_continue [OF Cons.IH [OF go_on(2)]] by (simp add: item_or_none_def)
  qed
qed

lemma decimal_digits_length: "n < 1000 \<Longrightarrow> length (decimal_digits n) \<le> 3"
proof -
  have one: "m < 10 \<Longrightarrow> length (decimal_digits m) = 1" for m
    by (subst decimal_digits.simps) simp
  then have two: "m < 100 \<Longrightarrow> length (decimal_digits m) \<le> 2" for m
    by (subst decimal_digits.simps) (simp add: less_mult_imp_div_less)
  then show "n < 1000 \<Longrightarrow> ?thesis"
    by (subst decimal_digits.simps) (simp add: less_mult_imp_div_less)
qed

lemma batch_item_text: "batch_item lo hi it \<Longrightarrow> hi \<le> 256 \<Longrightarrow> length (Error_text it) \<le> 42"
proof -
  assume "batch_item lo hi it" "hi \<le> 256"
  then obtain n e where it: "it = BatchItemError n (Some e)" "n < 1000" "strict_error e"
    by (auto simp: batch_item_def)
  then show ?thesis
    using strict_error_text [OF it(3)] decimal_digits_length [OF it(2)] by (simp add: MaxBackendErrorBytes_def)
qed

lemma joined_text:
  "list_all (\<lambda>it. length (Error_text it) \<le> 42) items \<Longrightarrow>
   length (concat (map (\<lambda>x. [char_of (10::nat)] @ Error_text x) items)) \<le> 43 * length items"
  by (induction items) auto

lemma batch_error_text:
  assumes "list_all (batch_item 0 n) items" "length items \<le> 256" "n \<le> 256"
  shows "length (Error_text (StrictBatchError items)) \<le> MaxStrictBatchErrorBytes"
proof (cases items)
  case (Cons it rest)
  have "list_all (\<lambda>it. length (Error_text it) \<le> 42) items"
    using assms batch_item_text by (auto simp: list_all_iff)
  then show ?thesis
    using joined_text [of rest] assms(2) Cons by (auto simp: MaxStrictBatchErrorBytes_def)
qed (simp add: MaxStrictBatchErrorBytes_def)

text \<open>
  C26. A strict batch that passes validation gives one decision per request; the
  dispatched indexes are an initial segment of the input, everything after it
  has the zero decision, and a cut is always reported in the error. The error
  has at most one entry per request, each with the index of a request, and its
  text is at most \<open>MaxStrictBatchErrorBytes\<close> long.
\<close>

theorem strict_batch_prefix:
  assumes "strict_ready service ctx0 = Inr x" "validateBatch batch = None"
    and "StrictService_Batch clock service ctx0 batch w = (res, err, w')"
  shows "length (sbd_Decisions res) = length (br_Requests batch) \<and>
    (\<exists>k \<le> length (br_Requests batch). sbd_Attempted res = [0..<k] \<and>
       (\<forall>n. k \<le> n \<and> n < length (br_Requests batch) \<longrightarrow> sbd_Decisions res ! n = zero_Decision) \<and>
       (k < length (br_Requests batch) \<longrightarrow> err \<noteq> None)) \<and>
    (\<forall>e. err = Some e \<longrightarrow>
       length (StrictBatchError_Items e) \<le> length (br_Requests batch) \<and>
       (\<forall>it \<in> set (StrictBatchError_Items e). 0 \<le> BatchItemError_Index it \<and>
          BatchItemError_Index it < int (length (br_Requests batch))) \<and>
       length (Error_text e) \<le> MaxStrictBatchErrorBytes)"
proof -
  obtain s b ctx where x: "x = (s, b, ctx)" by (cases x)
  have c: "ctx0 = Some ctx"
    using assms(1) x by (auto simp: strict_ready_def split: option.splits if_splits)
  obtain ds attempted items w1 where l: "strict_batch_loop clock service ctx 0 (br_Requests batch) w = (ds, attempted, items, w1)"
    by (metis prod_cases4)
  note r = strict_batch_loop_result [OF assms(1) [unfolded c] l]
  have res: "sbd_Decisions res = ds" "sbd_Attempted res = attempted"
    "err = (if items = [] then None else Some (StrictBatchError items))"
    using assms l x by (auto simp: StrictService_Batch_def)
  have size: "length (br_Requests batch) \<le> 256"
    using assms(2) by (auto simp: validateBatch_def MaxBatchSize_def split: if_splits)
  have "\<forall>it \<in> set items. 0 \<le> BatchItemError_Index it \<and> BatchItemError_Index it < int (length (br_Requests batch))"
    using r by (auto simp: batch_result_def batch_item_def list_all_iff BatchItemError_Index_def)
  moreover have "length (Error_text (StrictBatchError items)) \<le> MaxStrictBatchErrorBytes"
    using r size by (intro batch_error_text [of "length (br_Requests batch)"]) (auto simp: batch_result_def)
  ultimately show ?thesis
    using r by (auto simp: res batch_result_def StrictBatchError_Items_def simp del: Error_text.simps)
qed

section \<open>A sample\<close>

text \<open>A backend that counts its calls and allows everything it is asked.\<close>

definition sample_allowance :: "request \<Rightarrow> decision" where
  "sample_allowance r =
     \<lparr>d_Allowed = True, d_Remaining = 0, d_Limit = Limit (r_Policy r), d_Reset = r_Now r + 1000000000,
      d_RetryAfter = 0, d_Reason = ReasonAllowed, d_Backend = '''', d_PolicyRevision = ''''\<rparr>"

definition sample_leases :: "nat strictLeaseBackend" where
  "sample_leases =
     \<lparr>slb_AcquireStrict = (\<lambda>_ lr w.
        (\<lparr>l_ID = lr_LeaseID lr, l_Key = r_Key (lr_Request lr), l_PolicyID = p_id (r_Policy (lr_Request lr)),
          l_PolicyRevision = p_revision (r_Policy (lr_Request lr)), l_Cost = r_Cost (lr_Request lr),
          l_ExpiresAt = r_Now (lr_Request lr) + 1000000000, l_Backend = ''''\<rparr>,
         sample_allowance (lr_Request lr), None, Suc w)),
      slb_ReleaseStrict = (\<lambda>_ _ w. (None, Suc w))\<rparr>"

definition sample_strict_backend :: "nat strictBackend" where
  "sample_strict_backend =
     \<lparr>sb_Name = ''sample'', sb_AdmitStrict = (\<lambda>_ r w. (sample_allowance r, None, Suc w)),
      sb_Lease = Some sample_leases, sb_Atomic = None\<rparr>"

definition sample_strict :: "nat strictService" where
  "sample_strict = \<lparr>ss_backend = Some sample_strict_backend, ss_observers = [], ss_name = ''sample''\<rparr>"

lemma sample_strict_new: "NewStrictService (Some sample_strict_backend) [NilObserver] = Inr sample_strict"
  by (simp add: NewStrictService_def sample_strict_def sample_strict_backend_def validBackendName_def
      MaxBackendNameBytes_def in_range_def)

lemma sample_complete: "completeAllowed (sample_allowance sample_request) sample_request"
  by (simp add: completeAllowed_def sample_allowance_def sample_request_def IsZero_def zero_time_def)

lemma sample_strict_admit:
  "strict_admit still_clock (Some sample_strict) (Some idle_ctx) sample_request False w =
     (stampDecision ''sample'' (sample_allowance sample_request) sample_request, None, True, Suc w)"
  by (simp add: strict_admit_def strict_ready_def sample_strict_def sample_strict_backend_def strictCallerContext_def
      normalizeAdmit_def strictDeclaration_def sample_complete observe_result_def observe_all_def)

theorem strict_dispatch_outcome_witness:
  "\<exists>d w'. strict_admit still_clock (Some sample_strict) (Some idle_ctx) sample_request False 0 = (d, None, True, w') \<and>
     d_Allowed d"
  using strict_dispatch_outcome [OF sample_strict_admit [of 0]] sample_strict_admit [of 0] by auto

theorem strict_batch_prefix_witness:
  "\<exists>res err w'. StrictService_Batch still_clock (Some sample_strict) (Some idle_ctx) sample_batch 0 = (res, err, w') \<and>
     length (sbd_Decisions res) = 2"
proof -
  have "strict_ready (Some sample_strict) (Some idle_ctx) = Inr (sample_strict, sample_strict_backend, idle_ctx)"
    by (simp add: strict_ready_def sample_strict_def)
  moreover obtain res err w' where
    b: "StrictService_Batch still_clock (Some sample_strict) (Some idle_ctx) sample_batch 0 = (res, err, w')"
    by (metis prod_cases3)
  ultimately show ?thesis
    using strict_batch_prefix [of "Some sample_strict" "Some idle_ctx" _ sample_batch still_clock 0 res err w'] b
    by simp
qed

end
