(* ===== verification/Strict_Lease.thy ===== *)
theory Strict_Lease
  imports Strict_Service
begin

text \<open>\<^verbatim>\<open>strict_lease.go\<close>: strict acquisition and release of concurrency leases.\<close>

definition completeLease :: "lease \<Rightarrow> decision \<Rightarrow> leaseRequest \<Rightarrow> bool" where
  "completeLease l d lr \<longleftrightarrow>
     l_ID l = lr_LeaseID lr \<and> l_Key l = r_Key (lr_Request lr) \<and>
     l_PolicyID l = p_id (r_Policy (lr_Request lr)) \<and>
     l_PolicyRevision l = p_revision (r_Policy (lr_Request lr)) \<and>
     l_Cost l = r_Cost (lr_Request lr) \<and> \<not> IsZero (l_ExpiresAt l) \<and> l_ExpiresAt l = d_Reset d"

definition normalizeAcquire ::
  "string \<Rightarrow> 'w ctx \<Rightarrow> leaseRequest \<Rightarrow> lease \<Rightarrow> decision \<Rightarrow> go_error option \<Rightarrow> 'w \<Rightarrow>
   lease \<times> decision \<times> go_error option \<times> 'w" where
  "normalizeAcquire name ctx lr rawLease raw rawErr w =
     (let r = lr_Request lr;
          (declaration, category) = strictDeclaration rawErr;
          denied = (\<lambda>reason. stampDecision name (strictDenied r reason) r)
      in
      if rawErr = None \<and> completeAllowed raw r \<and> completeLease rawLease raw lr
      then (rawLease\<lparr>l_Backend := name\<rparr>, stampDecision name raw r, None, w)
      else if declaration = declarationSafe \<and> directError category (Some ErrRejected) \<and>
              rawLease = zero_Lease \<and> completeRejected raw r
      then (zero_Lease, stampDecision name raw r, rawErr, w)
      else case (if declaration = declarationOutcome \<and> rawLease = zero_Lease \<and> zeroDecision raw then rawErr else None) of
        Some (StrictOutcome kind c) \<Rightarrow>
          if kind = strictOutcomeUnknown
          then (zero_Lease, denied ReasonOutcomeUnknown, Some (reconstructUnknown c), w)
          else let d = denied (contextReason (StrictOutcome kind c)) in
            if kind = strictOutcomeCanceled then (zero_Lease, d, Some CanceledOutcome, w)
            else (zero_Lease, d, Some DeadlineOutcome, w)
      | _ \<Rightarrow>
        if declaration = declarationSafe \<and> \<not> directError category (Some ErrRejected) \<and>
           applicableCategory category strictMethodAcquire \<and> rawLease = zero_Lease \<and> zeroDecision raw
        then (zero_Lease, denied ReasonBackendUnavailable, rawErr, w)
        else let (d, err, w1) = unknownDecision name ctx r w in (zero_Lease, d, err, w1))"

definition no_strict_leases :: go_error where
  "no_strict_leases = Wrapped ''backend does not guarantee strict leases'' ErrUnsupported"

definition StrictService_Acquire ::
  "'w clock \<Rightarrow> 'w strictService option \<Rightarrow> 'w ctx option \<Rightarrow> leaseRequest \<Rightarrow> 'w \<Rightarrow>
   lease \<times> decision \<times> go_error option \<times> 'w" where
  "StrictService_Acquire clock service ctx0 lr w =
     (case strict_ready service ctx0 of
        Inl e \<Rightarrow> (zero_Lease, zero_Decision, Some e, w)
      | Inr (s, b, ctx) \<Rightarrow>
        case LeaseRequest_Validate lr of
          Some err \<Rightarrow> (zero_Lease, zero_Decision, Some err, w)
        | None \<Rightarrow>
          let r = lr_Request lr;
              (started, w1) = clock w;
              (ce, w2) = strictCallerContext ctx w1
          in case ce of
            Some err \<Rightarrow>
              let d = stampDecision (ss_name s) (strictDenied r (contextReason err)) r
              in (zero_Lease, d, Some err, observe_result clock (ss_observers s) started r d (Some err) w2)
          | None \<Rightarrow>
            (case sb_Lease b of
               None \<Rightarrow> (zero_Lease, zero_Decision, Some no_strict_leases, w2)
             | Some lb \<Rightarrow>
               let (rawLease, raw, rawErr, w3) = slb_AcquireStrict lb ctx lr w2;
                   (l, d, err, w4) = normalizeAcquire (ss_name s) ctx lr rawLease raw rawErr w3
               in (l, d, err, observe_result clock (ss_observers s) started r d err w4)))"

definition validateStrictLease :: "lease \<Rightarrow> go_error option" where
  "validateStrictLease l =
     (if l_ID l = '''' \<or> key_String (l_Key l) = '''' \<or> l_PolicyID l = '''' \<or> l_Cost l = 0 \<or> IsZero (l_ExpiresAt l)
      then Some incomplete_lease else None)"

definition normalizeRelease :: "'w ctx \<Rightarrow> go_error option \<Rightarrow> 'w \<Rightarrow> go_error option \<times> 'w" where
  "normalizeRelease ctx rawErr w =
     (case rawErr of
        None \<Rightarrow> (None, w)
      | Some (StrictOutcome kind c) \<Rightarrow>
        (case kind of
           strictOutcomeCanceled \<Rightarrow> (Some CanceledOutcome, w)
         | strictOutcomeDeadline \<Rightarrow> (Some DeadlineOutcome, w)
         | strictOutcomeUnknown \<Rightarrow> (Some (reconstructUnknown c), w))
      | Some e \<Rightarrow>
        let (declaration, category) = strictDeclaration rawErr in
        if declaration = declarationSafe \<and> applicableCategory category strictMethodRelease then (rawErr, w)
        else let (ce, w1) = ctx w in (Some (UnknownOutcome ce), w1))"

definition StrictService_Release ::
  "'w strictService option \<Rightarrow> 'w ctx option \<Rightarrow> lease \<Rightarrow> 'w \<Rightarrow> go_error option \<times> 'w" where
  "StrictService_Release service ctx0 l w =
     (case strict_ready service ctx0 of
        Inl e \<Rightarrow> (Some e, w)
      | Inr (s, b, ctx) \<Rightarrow>
        case validateStrictLease l of
          Some err \<Rightarrow> (Some err, w)
        | None \<Rightarrow>
          if l_Backend l \<noteq> '''' \<and> l_Backend l \<noteq> ss_name s then (Some ErrLeaseNotOwned, w)
          else let (ce, w1) = strictCallerContext ctx w in
          case ce of
            Some err \<Rightarrow> (Some err, w1)
          | None \<Rightarrow>
            (case sb_Lease b of
               None \<Rightarrow> (Some no_strict_leases, w1)
             | Some lb \<Rightarrow> let (rawErr, w2) = slb_ReleaseStrict lb ctx l w1 in normalizeRelease ctx rawErr w2))"

section \<open>Properties\<close>

lemma complete_stamped [simp]:
  "completeLease (l\<lparr>l_Backend := n\<rparr>) (stampDecision n' d r) lr = completeLease l d lr"
  "completeAllowed (stampDecision n' d r') r = completeAllowed d r"
  by (simp_all add: completeLease_def completeAllowed_def stampDecision_def)

definition acquired :: "string \<Rightarrow> leaseRequest \<Rightarrow> lease \<Rightarrow> decision \<Rightarrow> go_error option \<Rightarrow> bool" where
  "acquired name lr l d err \<longleftrightarrow>
     (err = None \<longleftrightarrow> d_Allowed d) \<and> (err \<noteq> None \<longrightarrow> l = zero_Lease) \<and>
     (err = None \<longrightarrow> completeLease l d lr \<and> completeAllowed d (lr_Request lr) \<and> l_Backend l = name)"

lemma acquired_denied [simp]: "\<not> d_Allowed d \<Longrightarrow> acquired name lr zero_Lease d (Some e)"
  by (simp add: acquired_def)

lemma acquired_allowed:
  "completeAllowed raw (lr_Request lr) \<Longrightarrow> completeLease l raw lr \<Longrightarrow>
   acquired name lr (l\<lparr>l_Backend := name\<rparr>) (stampDecision name raw (lr_Request lr)) None"
  by (simp add: acquired_def) (simp add: completeAllowed_def)

lemma normalizeAcquire_owned:
  assumes "normalizeAcquire name ctx lr rawLease raw rawErr w = (l, d, err, w')"
  shows "acquired name lr l d err"
proof (cases rawErr rule: strictDeclaration_cases)
  case nil
  then show ?thesis using assms
    by (auto simp: normalizeAcquire_def unknownDecision_def Let_def intro: acquired_allowed split: if_splits prod.splits)
next
  case (outcome k c)
  then show ?thesis using assms
    by (auto simp: normalizeAcquire_def unknownDecision_def Let_def zeroDecision_def split: if_splits prod.splits)
next
  case (safe category e)
  then have "\<forall>k c. e \<noteq> StrictOutcome k c" by (auto simp: safe_error_def safe_Some)
  with safe show ?thesis using assms
    by (auto simp: normalizeAcquire_def unknownDecision_def Let_def completeRejected_def split: if_splits prod.splits)
next
  case (unsafe e)
  then show ?thesis using assms
    by (auto simp: normalizeAcquire_def unknownDecision_def Let_def split: if_splits prod.splits)
qed

text \<open>
  C27. A lease is handed out exactly with a nil error and an allowing decision,
  and then it is the caller's: it carries the requested lease id, key, policy,
  revision and cost, the backend's name, and an expiry that is the decision's
  reset. Every other result carries the zero lease. Concurrency never fails
  open.
\<close>

theorem strict_acquire_owned:
  assumes "StrictService_Acquire clock (Some s) ctx lr w = (l, d, err, w')"
  shows "(err = None \<longleftrightarrow> d_Allowed d) \<and> (err \<noteq> None \<longrightarrow> l = zero_Lease) \<and>
    (err = None \<longrightarrow> LeaseRequest_Validate lr = None \<and> completeLease l d lr \<and>
       completeAllowed d (lr_Request lr) \<and> l_Backend l = ss_name s)"
proof -
  have "acquired (ss_name s) lr l d err"
  proof (cases "LeaseRequest_Validate lr")
    case None
    then show ?thesis
      using assms
      by (auto simp: StrictService_Acquire_def strict_ready_def Let_def dest: normalizeAcquire_owned
          split: prod.splits option.splits if_splits)
  next
    case (Some e)
    show ?thesis
      using assms by (auto simp: StrictService_Acquire_def Some split: sum.splits)
  qed
  moreover have "err = None \<Longrightarrow> LeaseRequest_Validate lr = None"
    using assms by (auto simp: StrictService_Acquire_def split: sum.splits prod.splits option.splits)
  ultimately show ?thesis by (auto simp: acquired_def)
qed

lemma normalizeRelease_nil: "normalizeRelease ctx rawErr w = (err, w') \<Longrightarrow> err = None \<longleftrightarrow> rawErr = None"
  by (auto simp: normalizeRelease_def Let_def split: option.splits go_error.splits strictOutcomeKind.splits
      prod.splits if_splits)

text \<open>
  \<open>StrictService.Release\<close> reports success only when it dispatched a
  complete lease of this backend and the backend reported success; ambiguity is
  never taken for a release.
\<close>

theorem strict_release_nil:
  assumes "StrictService_Release (Some s) ctx l w = (None, w')"
  shows "\<exists>b lb c w1 w2. ss_backend s = Some b \<and> sb_Lease b = Some lb \<and> ctx = Some c \<and>
    validateStrictLease l = None \<and> l_Backend l \<in> {'''', ss_name s} \<and>
    slb_ReleaseStrict lb c l w1 = (None, w2)"
  using assms
  by (fastforce simp: StrictService_Release_def strict_ready_def Let_def dest: normalizeRelease_nil
      split: sum.splits prod.splits option.splits if_splits)

section \<open>A sample\<close>

definition sample_lease_policy :: policy where
  "sample_lease_policy = sample_policy\<lparr>p_algorithm := Concurrency, p_lease := 1000000000, p_failureMode := FailClosed\<rparr>"

definition sample_lease_request :: leaseRequest where
  "sample_lease_request = \<lparr>lr_Request = sample_request\<lparr>r_Policy := sample_lease_policy\<rparr>, lr_LeaseID = ''job-1''\<rparr>"

lemma sample_lease_request_valid: "LeaseRequest_Validate sample_lease_request = None"
  by (simp add: LeaseRequest_Validate_def sample_lease_request_def sample_lease_policy_def sample_policy_def
      sample_request_def sample_key_def Request_Validate_def IsZero_def zero_time_def UnixMicro_def i64_def maxExact_def
      request_duration_def MaxLeaseIDBytes_def Let_def)

theorem strict_acquire_owned_witness:
  "\<exists>l d w'. StrictService_Acquire still_clock (Some sample_strict) (Some idle_ctx) sample_lease_request 0 = (l, d, None, w') \<and>
     l_ID l = ''job-1'' \<and> l_Backend l = ''sample''"
proof -
  have "completeAllowed (sample_allowance (lr_Request sample_lease_request)) (lr_Request sample_lease_request)"
    by (simp add: completeAllowed_def sample_allowance_def sample_lease_request_def sample_request_def IsZero_def zero_time_def)
  then have "\<exists>l d w'. StrictService_Acquire still_clock (Some sample_strict) (Some idle_ctx) sample_lease_request 0 = (l, d, None, w')"
    by (simp add: StrictService_Acquire_def strict_ready_def sample_strict_def sample_strict_backend_def
        sample_lease_request_valid strictCallerContext_def sample_leases_def normalizeAcquire_def strictDeclaration_def
        completeLease_def IsZero_def zero_time_def Let_def sample_allowance_def)
      (simp add: sample_lease_request_def sample_request_def)
  then obtain l d w' where
    a: "StrictService_Acquire still_clock (Some sample_strict) (Some idle_ctx) sample_lease_request 0 = (l, d, None, w')"
    by blast
  show ?thesis
    using strict_acquire_owned [OF a] a by (auto simp: completeLease_def sample_lease_request_def sample_strict_def)
qed

theorem strict_release_nil_witness: "\<exists>b lb. ss_backend sample_strict = Some b \<and> sb_Lease b = Some lb"
proof -
  have "StrictService_Release (Some sample_strict) (Some idle_ctx) (sample_lease\<lparr>l_Backend := ''sample''\<rparr>) 0 = (None, 1)"
    by (simp add: StrictService_Release_def strict_ready_def sample_strict_def sample_strict_backend_def sample_leases_def
        validateStrictLease_def sample_lease_def sample_key_def key_String_def IsZero_def zero_time_def
        strictCallerContext_def normalizeRelease_def)
  from strict_release_nil [OF this] show ?thesis by blast
qed

end
