(* ===== verification/Memory_Strict.thy ===== *)
theory Memory_Strict
  imports Memory_Leases Strict_Lease
begin

text \<open>
  \<^verbatim>\<open>memory/strict.go\<close> and the context-aware lock of \<^verbatim>\<open>memory/store.go\<close>. The world
  is the store and an environment; reading the context and waiting for the lock may
  let other goroutines run, so both act on the whole world. A nil store is one
  without shards, as in the code's first test. \<open>select\<close> in \<open>LockContext\<close> takes
  whichever branch is ready: the parameter \<open>grant\<close> says whether the lock is got.
\<close>

type_synonym 'e mworld = "store \<times> 'e"

definition LockContext :: "('w \<Rightarrow> bool \<times> 'w) \<Rightarrow> 'w ctx \<Rightarrow> 'w \<Rightarrow> go_error option \<times> 'w" where
  "LockContext grant ctx w = (let (got, w1) = grant w in if got then (None, w1) else ctx w1)"

definition strictContext :: "'w ctx \<Rightarrow> 'w \<Rightarrow> go_error option \<times> 'w" where
  "strictContext ctx w =
     (let (e1, w1) = ctx w in
      if e1 = Some ContextCanceled then (Some CanceledOutcome, w1)
      else let (e2, w2) = ctx w1 in
      if e2 = Some ContextDeadlineExceeded then (Some DeadlineOutcome, w2)
      else (None, w2))"

definition strictError :: "'w ctx \<Rightarrow> go_error \<Rightarrow> 'w \<Rightarrow> go_error option \<times> 'w" where
  "strictError ctx err w =
     (if errors_Is err ContextCanceled then (Some CanceledOutcome, w)
      else let (e1, w1) = ctx w in
      if e1 = Some ContextCanceled then (Some CanceledOutcome, w1)
      else if errors_Is err ContextDeadlineExceeded then (Some DeadlineOutcome, w1)
      else let (e2, w2) = ctx w1 in
      if e2 = Some ContextDeadlineExceeded then (Some DeadlineOutcome, w2)
      else (Some err, w2))"

definition validateStrictDecisionTime :: "decision \<Rightarrow> time \<Rightarrow> go_error option" where
  "validateStrictDecisionTime d effective =
     (if \<not> IsZero (d_Reset d) \<and> d_Reset d < effective then Some ErrCorrupt else None)"

definition validateStrictEffectiveRange :: "time \<Rightarrow> duration \<Rightarrow> go_error option" where
  "validateStrictEffectiveRange effective duration =
     (let micros = UnixMicro effective; durationMicros = Microseconds duration in
      if micros < - maxExact \<or> durationMicros \<le> 0 \<or> micros > i64 (maxExact - durationMicros)
      then Some ErrOverflow else None)"

definition validateStrictLeaseTime :: "lease \<Rightarrow> decision \<Rightarrow> time \<Rightarrow> go_error option" where
  "validateStrictLeaseTime l d effective =
     (case validateStrictDecisionTime d effective of
        Some err \<Rightarrow> Some err
      | None \<Rightarrow>
        if \<not> IsZero (l_ExpiresAt l) \<and> (\<not> l_ExpiresAt l > effective \<or> l_ExpiresAt l \<noteq> d_Reset d)
        then Some ErrCorrupt else None)"

definition strictDecisionResult :: "decision \<Rightarrow> go_error option \<Rightarrow> time \<Rightarrow> decision \<times> go_error option" where
  "strictDecisionResult d err effective =
     (case validateStrictDecisionTime d effective of
        Some timeErr \<Rightarrow> (zero_Decision, Some timeErr)
      | None \<Rightarrow> (d, err))"

definition strictLeaseResult ::
  "lease \<Rightarrow> decision \<Rightarrow> go_error option \<Rightarrow> time \<Rightarrow> lease \<times> decision \<times> go_error option" where
  "strictLeaseResult l d err effective =
     (case validateStrictLeaseTime l d effective of
        Some timeErr \<Rightarrow> (zero_Lease, zero_Decision, Some timeErr)
      | None \<Rightarrow> (l, d, err))"

definition backend_uninitialized :: go_error where
  "backend_uninitialized = Wrapped ''backend is nil or uninitialized'' ErrInvalidPolicy"

section \<open>Admission\<close>

text \<open>What \<open>AdmitStrict\<close> does while it holds the shard's lock.\<close>

definition admitStrictLocked :: "shard \<Rightarrow> string \<Rightarrow> request \<Rightarrow> decision \<times> go_error option \<times> shard" where
  "admitStrictLocked target key r =
     (let current = map_of (sh_states target) key;
          windowed = p_algorithm (r_Policy r) = FixedWindow \<or> p_algorithm (r_Policy r) = SlidingWindow
      in
      if (case current of None \<Rightarrow> False
          | Some st \<Rightarrow> windowed \<and> st_windowPeriod st \<noteq> 0 \<and> st_windowPeriod st \<noteq> p_period (r_Policy r))
      then (zero_Decision, Some ErrCorrupt, target)
      else let effective = (case current of None \<Rightarrow> r_Now r
                            | Some st \<Rightarrow> if st_lastSeen st > r_Now r then st_lastSeen st else r_Now r)
      in case validateStrictEffectiveRange effective (p_period (r_Policy r)) of
           Some err \<Rightarrow> (zero_Decision, Some err, target)
         | None \<Rightarrow>
           let (d, err, target') = admitLocked target key r;
               effective = (case map_of (sh_states target') key of None \<Rightarrow> effective | Some st \<Rightarrow> st_lastSeen st);
               (d', err') = strictDecisionResult d err effective
           in (d', err', target'))"

definition truncate_now :: "request \<Rightarrow> request" where
  "truncate_now r = r\<lparr>r_Now := Truncate_us (r_Now r)\<rparr>"

definition AdmitStrict ::
  "('e mworld \<Rightarrow> bool \<times> 'e mworld) \<Rightarrow> 'e mworld ctx option \<Rightarrow> request \<Rightarrow> 'e mworld \<Rightarrow>
   decision \<times> go_error option \<times> 'e mworld" where
  "AdmitStrict grant ctx0 r w =
     (if so_shards (fst w) = [] then (zero_Decision, Some backend_uninitialized, w)
      else case ctx0 of
        None \<Rightarrow> (zero_Decision, Some context_required, w)
      | Some ctx \<Rightarrow>
        (case Request_Validate r of
           Some err \<Rightarrow> (zero_Decision, Some err, w)
         | None \<Rightarrow>
           let (ce, w1) = strictContext ctx w in
           if ce \<noteq> None then (zero_Decision, ce, w1)
           else if so_closed (fst w1) then (zero_Decision, Some ErrUnavailable, w1)
           else if p_algorithm (r_Policy r) = Concurrency then (zero_Decision, Some ErrUnsupported, w1)
           else let r = truncate_now r; key = stateKey r; (le, w2) = LockContext grant ctx w1 in
           (case le of
              Some err \<Rightarrow> let (e, w3) = strictError ctx err w2 in (zero_Decision, e, w3)
            | None \<Rightarrow>
              let (re, w3) = ctx w2 in
              (case re of
                 Some err \<Rightarrow> let (e, w4) = strictError ctx err w3 in (zero_Decision, e, w4)
               | None \<Rightarrow>
                 let s = fst w3; i = shardFor s key;
                     (d, err, sh) = admitStrictLocked (so_shards s ! i) key r
                 in (d, err, (with_shard s i sh, snd w3))))))"

section \<open>Leases\<close>

definition acquireStrictLocked ::
  "shard \<Rightarrow> string \<Rightarrow> leaseRequest \<Rightarrow> lease \<times> decision \<times> go_error option \<times> shard" where
  "acquireStrictLocked target key lr =
     (let r = lr_Request lr;
          effective = (case map_of (sh_states target) key of None \<Rightarrow> r_Now r
                       | Some st \<Rightarrow> if st_lastSeen st > r_Now r then st_lastSeen st else r_Now r)
      in case validateStrictEffectiveRange effective (p_lease (r_Policy r)) of
           Some err \<Rightarrow> (zero_Lease, zero_Decision, Some err, target)
         | None \<Rightarrow>
           let (l, d, err, target') = acquireLocked target key lr;
               effective = (case map_of (sh_states target') key of None \<Rightarrow> effective | Some st \<Rightarrow> st_lastSeen st);
               (l', d', err') = strictLeaseResult l d err effective
           in (l', d', err', target'))"

definition AcquireStrict ::
  "('e mworld \<Rightarrow> bool \<times> 'e mworld) \<Rightarrow> 'e mworld ctx option \<Rightarrow> leaseRequest \<Rightarrow> 'e mworld \<Rightarrow>
   lease \<times> decision \<times> go_error option \<times> 'e mworld" where
  "AcquireStrict grant ctx0 lr w =
     (if so_shards (fst w) = [] then (zero_Lease, zero_Decision, Some backend_uninitialized, w)
      else case ctx0 of
        None \<Rightarrow> (zero_Lease, zero_Decision, Some context_required, w)
      | Some ctx \<Rightarrow>
        (case LeaseRequest_Validate lr of
           Some err \<Rightarrow> (zero_Lease, zero_Decision, Some err, w)
         | None \<Rightarrow>
           let (ce, w1) = strictContext ctx w in
           if ce \<noteq> None then (zero_Lease, zero_Decision, ce, w1)
           else if so_closed (fst w1) then (zero_Lease, zero_Decision, Some ErrUnavailable, w1)
           else let lr = lr\<lparr>lr_Request := truncate_now (lr_Request lr)\<rparr>; key = stateKey (lr_Request lr);
                    (le, w2) = LockContext grant ctx w1 in
           (case le of
              Some err \<Rightarrow> let (e, w3) = strictError ctx err w2 in (zero_Lease, zero_Decision, e, w3)
            | None \<Rightarrow>
              let (re, w3) = ctx w2 in
              (case re of
                 Some err \<Rightarrow> let (e, w4) = strictError ctx err w3 in (zero_Lease, zero_Decision, e, w4)
               | None \<Rightarrow>
                 let s = fst w3; i = shardFor s key;
                     (l, d, err, sh) = acquireStrictLocked (so_shards s ! i) key lr
                 in (l, d, err, (with_shard s i sh, snd w3))))))"

definition ReleaseStrict ::
  "('e mworld \<Rightarrow> bool \<times> 'e mworld) \<Rightarrow> 'e mworld ctx option \<Rightarrow> lease \<Rightarrow> 'e mworld \<Rightarrow> go_error option \<times> 'e mworld" where
  "ReleaseStrict grant ctx0 l w =
     (if so_shards (fst w) = [] then (Some backend_uninitialized, w)
      else case ctx0 of
        None \<Rightarrow> (Some context_required, w)
      | Some ctx \<Rightarrow>
        if l_ID l = '''' \<or> l_PolicyID l = '''' \<or> key_String (l_Key l) = '''' \<or> l_Cost l = 0 \<or> IsZero (l_ExpiresAt l)
        then (Some ErrInvalidRequest, w)
        else let (ce, w1) = strictContext ctx w in
        if ce \<noteq> None then (ce, w1)
        else if so_closed (fst w1) then (Some ErrUnavailable, w1)
        else let key = state_key (l_PolicyID l) (l_Key l); (le, w2) = LockContext grant ctx w1 in
        (case le of
           Some err \<Rightarrow> strictError ctx err w2
         | None \<Rightarrow>
           let (re, w3) = ctx w2 in
           (case re of
              Some err \<Rightarrow> strictError ctx err w3
            | None \<Rightarrow>
              let s = fst w3; i = shardFor s key; (err, sh) = releaseLocked (so_shards s ! i) l
              in (err, (with_shard s i sh, snd w3)))))"

text \<open>The store as a backend of the strict service.\<close>

definition memory_backend :: "('e mworld \<Rightarrow> bool \<times> 'e mworld) \<Rightarrow> 'e mworld strictBackend" where
  "memory_backend grant =
     \<lparr>sb_Name = ''memory'', sb_AdmitStrict = \<lambda>ctx. AdmitStrict grant (Some ctx),
      sb_Lease = Some \<lparr>slb_AcquireStrict = \<lambda>ctx. AcquireStrict grant (Some ctx),
                       slb_ReleaseStrict = \<lambda>ctx. ReleaseStrict grant (Some ctx)\<rparr>,
      sb_Atomic = None\<rparr>"

section \<open>Complete decisions\<close>

text \<open>Every decision of the algorithms passes the checks of the strict service.\<close>

definition complete :: "request \<Rightarrow> decision \<Rightarrow> go_error option \<Rightarrow> bool" where
  "complete r d err \<longleftrightarrow> err = None \<and> completeAllowed d r \<or> err = Some ErrRejected \<and> completeRejected d r"

lemma refillDuration_nonneg: "0 \<le> refillDuration tokens remainder p"
proof -
  have "0 \<le> i64 (int64_of q * Microsecond)" if "\<not> q > uint64_of (MaxInt64 div Microsecond)" for q
  proof -
    have "unat q \<le> 9223372036854775"
      using that by (simp add: u64_less uint64_of_def)
    moreover from this have eq: "int64_of q = int (unat q)" by (intro int64_of_small) simp
    ultimately have range: "int64_range (int (unat q) * 1000)" by (intro int64_rangeI) linarith+
    show ?thesis unfolding eq i64_id [OF range] by linarith
  qed
  then show ?thesis by (auto simp: refillDuration_def Let_def split: prod.splits)
qed

lemma refill_tokens: "unat (st_tokens st) \<le> unat (Limit (r_Policy r)) \<Longrightarrow> unat (st_tokens (refill st r)) \<le> unat (Limit (r_Policy r))"
  by (auto simp: refill_def Let_def u64_min split: prod.splits)

lemma consumeWindow_complete:
  assumes "consumeWindow st r reset = (st', d, err)" "\<not> IsZero reset" "0 < unat (r_Cost r)"
  shows "complete r d err"
proof -
  let ?lim = "Limit (r_Policy r)" and ?rem = "Limit (r_Policy r) - min (st_used st) (Limit (r_Policy r))"
  have rem: "unat ?rem = unat ?lim - unat (st_used st)" by (simp add: u64_sub u64_min)
  show ?thesis
  proof (cases "r_Cost r > ?rem")
    case True
    then show ?thesis
      using assms by (auto simp: consumeWindow_def Let_def complete_def completeRejected_def zero_Decision_def nonnegative_def)
  next
    case False
    then have fits: "unat (st_used st) + unat (r_Cost r) \<le> unat ?lim" using rem assms(3) by (simp add: u64_less)
    then have used: "unat (st_used st + r_Cost r) = unat (st_used st) + unat (r_Cost r)"
      using unat_less_2p64 [of ?lim] by (intro u64_add) simp
    then have "?lim - (st_used st + r_Cost r) \<le> ?lim - r_Cost r" using fits by (simp add: u64_le u64_sub)
    then show ?thesis
      using assms False by (auto simp: consumeWindow_def Let_def complete_def completeAllowed_def zero_Decision_def)
  qed
qed

lemma admitToken_complete:
  assumes adm: "admitToken st r = (st', d, err)" and tokens: "unat (st_tokens st) \<le> unat (Limit (r_Policy r))"
    and now: "zero_time < r_Now r"
  shows "complete r d err"
proof -
  let ?st = "refill st r" and ?lim = "Limit (r_Policy r)"
  have t: "unat (st_tokens ?st) \<le> unat ?lim" using refill_tokens [OF tokens] .
  have nz: "\<not> IsZero (time_Add (r_Now r) (refillDuration a b (r_Policy r)))" for a b
    using now refillDuration_nonneg [of a b "r_Policy r"] by (simp add: IsZero_def time_Add_def)
  have "\<not> st_tokens ?st < r_Cost r \<Longrightarrow> st_tokens ?st - r_Cost r \<le> ?lim - r_Cost r"
    using t by (simp add: u64_le u64_less u64_sub)
  then show ?thesis
    using adm nz refillDuration_nonneg
    by (auto simp: admitToken_def Let_def complete_def completeAllowed_def completeRejected_def zero_Decision_def
        split: if_splits)
qed

lemma window_reset_nonzero: "0 < period \<Longrightarrow> \<not> IsZero (time_Add (time_UnixNano (i64 x)) period)" "\<not> IsZero (time_UnixNano (i64 x))"
  using i64_range [of x] by (auto simp: IsZero_def time_Add_def time_UnixNano_def zero_time_def int64_range_def)

lemma admitState_complete:
  assumes adm: "admitState st r = (st', d, err)" and p: "policy_wf (r_Policy r)" "p_algorithm (r_Policy r) \<noteq> Concurrency"
    and cost: "0 < unat (r_Cost r)" and now: "zero_time < max (r_Now r) (st_lastSeen st)"
    and tokens: "p_algorithm (r_Policy r) = TokenBucket \<Longrightarrow> unat (st_tokens st) \<le> unat (Limit (r_Policy r))"
  shows "complete r d err"
proof -
  have per: "0 < p_period (r_Policy r)" using policy_wf_period(1) [OF p] by (simp add: duration_wf_def)
  define r' where "r' = (if r_Now r < st_lastSeen st then r\<lparr>r_Now := st_lastSeen st\<rparr> else r)"
  have r': "r_Policy r' = r_Policy r" "r_Cost r' = r_Cost r" "r_Now r' = max (r_Now r) (st_lastSeen st)"
    by (simp_all add: r'_def max_def)
  have same: "complete r' d err = complete r d err" by (simp add: complete_def completeAllowed_def completeRejected_def r')
  let ?st = "st\<lparr>st_lastSeen := r_Now r'\<rparr>"
  have a: "(case p_algorithm (r_Policy r) of TokenBucket \<Rightarrow> admitToken ?st r' | FixedWindow \<Rightarrow> admitFixed ?st r'
      | _ \<Rightarrow> admitSliding ?st r') = (st', d, err)"
    using adm unfolding admitState_def Let_def r'_def [symmetric] r' .
  have fixed: "admitFixed ?st r' = (st', d, err) \<Longrightarrow> complete r' d err"
    by (rule consumeWindow_complete) (auto simp: admitFixed_def Let_def window_reset_nonzero r' cost)
  have sliding: "complete r' d err" if s: "admitSliding ?st r' = (st', d, err)"
  proof -
    have nz: "\<not> IsZero (time_Add (r_Now r') (p_period (r_Policy r')))"
      using now per r' by (auto simp: IsZero_def time_Add_def)
    obtain cur reset cur' where c: "consumeWindow cur r' reset = (cur', d, err)" and "\<not> IsZero reset"
      using s nz window_reset_nonzero(1) per
      by (auto simp: admitSliding_def Let_def r'(1) split: prod.splits if_splits)
    then show ?thesis using consumeWindow_complete [OF c] cost r' by simp
  qed
  have token: "complete r' d err" if "admitToken ?st r' = (st', d, err)" "p_algorithm (r_Policy r) = TokenBucket"
    using admitToken_complete [OF that(1)] tokens [OF that(2)] now r' by simp
  show ?thesis
    using a fixed sliding token p(2) p(1) same by (cases "p_algorithm (r_Policy r)") (auto simp: policy_wf_def)
qed

text \<open>The results the strict service takes as certain.\<close>

definition declared :: "request \<Rightarrow> decision \<Rightarrow> go_error option \<Rightarrow> bool" where
  "declared r d err \<longleftrightarrow> complete r d err \<or>
     d = zero_Decision \<and> err \<in> {Some ErrUnavailable, Some ErrOverflow, Some ErrCorrupt, Some ErrUnsupported,
       Some CanceledOutcome, Some DeadlineOutcome}"

lemma normalizeAdmit_declared:
  assumes "normalizeAdmit name ctx r raw rawErr w = (d, err, w')" "declared r raw rawErr"
  shows "err \<noteq> Some (StrictOutcome strictOutcomeUnknown c)"
  using assms unfolding declared_def complete_def
  by (auto simp: normalizeAdmit_def strictDeclaration_def safe_Some zeroDecision_def applicableCategory_def Let_def
      CanceledOutcome_def DeadlineOutcome_def split: if_splits)

text \<open>A service over a backend that only returns such results never reports an unknown outcome.\<close>

lemma declared_certain:
  assumes s: "ss_backend s = Some b" "ss_name s \<noteq> ''''"
    and keep: "\<And>w x w'. clock w = (x, w') \<Longrightarrow> I w \<Longrightarrow> I w'" "\<And>w x w'. ctx w = (x, w') \<Longrightarrow> I w \<Longrightarrow> I w'" and w: "I w"
    and decl: "\<And>w d err w'. I w \<Longrightarrow> Request_Validate r = None \<Longrightarrow> sb_AdmitStrict b ctx r w = (d, err, w') \<Longrightarrow> declared r d err"
    and adm: "StrictService_Admit clock (Some s) (Some ctx) r w = (d, err, w')"
  shows "err \<noteq> Some (StrictOutcome strictOutcomeUnknown c)"
proof (cases "Request_Validate r")
  case (Some e)
  then have "err = Some e" using adm s by (simp add: StrictService_Admit_def strict_admit_def strict_ready_def)
  then show ?thesis using Some by (auto simp: Request_Validate_def request_invalid_def Let_def split: if_splits)
next
  case None
  obtain started w1 where cl: "clock w = (started, w1)" by (cases "clock w")
  obtain ce w2 where ce: "strictCallerContext ctx w1 = (ce, w2)" by (cases "strictCallerContext ctx w1")
  obtain raw rawErr w3 where raw: "sb_AdmitStrict b ctx r w2 = (raw, rawErr, w3)" by (cases "sb_AdmitStrict b ctx r w2")
  obtain d1 err1 w4 where n: "normalizeAdmit (ss_name s) ctx r raw rawErr w3 = (d1, err1, w4)"
    by (cases "normalizeAdmit (ss_name s) ctx r raw rawErr w3")
  have "I w2" using keep(1) [OF cl w] keep(2) ce by (auto simp: strictCallerContext_def Let_def split: prod.splits)
  then have "declared r raw rawErr" using decl None raw by blast
  then have "err1 \<noteq> Some (StrictOutcome strictOutcomeUnknown c)" by (rule normalizeAdmit_declared [OF n])
  then show ?thesis
    using adm None s cl ce raw n
    by (auto simp: StrictService_Admit_def strict_admit_def strict_ready_def Let_def
        CanceledOutcome_def DeadlineOutcome_def split: option.splits if_splits dest!: strictCallerContext_error)
qed

text \<open>
  A bucket's tokens lie within the limit of the policy that is asked for, when the
  state carries its revision: policies with the same ID and revision are the same.
\<close>

definition tokens_fit :: "request \<Rightarrow> mstate \<Rightarrow> bool" where
  "tokens_fit r st \<longleftrightarrow> (st_algorithm st = TokenBucket \<and> st_revision st = p_revision (r_Policy r) \<longrightarrow>
     unat (st_tokens st) \<le> unat (Limit (r_Policy r)))"

lemma carried_tokens:
  "tokens_fit r st \<Longrightarrow> st_algorithm st = TokenBucket \<Longrightarrow> unat (st_tokens (carried st r)) \<le> unat (Limit (r_Policy r))"
  by (auto simp: carried_def carryRevision_def tokens_fit_def u64_min Let_def)

lemma admitLocked_declared:
  assumes adm: "admitLocked sh key r = (d, err, sh')" and p: "policy_wf (r_Policy r)" "p_algorithm (r_Policy r) \<noteq> Concurrency"
    and cost: "0 < unat (r_Cost r)" and now: "zero_time < r_Now r"
    and fit: "\<And>st. map_of (sh_states sh) key = Some st \<Longrightarrow> tokens_fit r st"
  shows "declared r d err"
proof (cases "case map_of (sh_states sh) key of Some e \<Rightarrow> st_algorithm e \<noteq> p_algorithm (r_Policy r) | None \<Rightarrow> False")
  case True
  then show ?thesis using adm by (simp add: admitLocked_def declared_def)
next
  case False
  obtain res sh1 where g: "getOrCreate sh key r = (res, sh1)" by (cases "getOrCreate sh key r")
  show ?thesis
  proof (cases res)
    case (Inl e)
    then have "e = ErrUnavailable" using g by (auto simp: getOrCreate_def Let_def split: option.splits if_splits prod.splits)
    then show ?thesis using adm False g Inl by (simp add: admitLocked_def declared_def)
  next
    case (Inr st)
    obtain st' d' err' where a: "admitState st r = (st', d', err')" by (cases "admitState st r")
    have "st = new_state r \<or> (\<exists>st0. map_of (sh_states sh) key = Some st0 \<and> st = carried st0 r)"
      using g Inr by (auto simp: getOrCreate_def carried_def Let_def split: option.splits if_splits prod.splits)
    then have "unat (st_tokens st) \<le> unat (Limit (r_Policy r))" if "p_algorithm (r_Policy r) = TokenBucket"
      using False that fit carried_tokens [of r] by (auto simp: new_state_def)
    then have "complete r d' err'" using admitState_complete [OF a p cost] now by simp
    then show ?thesis using adm False g Inr a by (auto simp: admitLocked_def declared_def)
  qed
qed

lemma admitStrictLocked_declared:
  assumes "admitStrictLocked sh key r = (d, err, sh')" "policy_wf (r_Policy r)" "p_algorithm (r_Policy r) \<noteq> Concurrency"
    "0 < unat (r_Cost r)" "zero_time < r_Now r" "\<And>st. map_of (sh_states sh) key = Some st \<Longrightarrow> tokens_fit r st"
  shows "declared r d err"
proof -
  obtain d1 err1 sh1 where a: "admitLocked sh key r = (d1, err1, sh1)" by (cases "admitLocked sh key r")
  have "declared r d1 err1" by (rule admitLocked_declared [OF a assms(2-6)])
  moreover have "(d = d1 \<and> err = err1) \<or> d = zero_Decision \<and> err \<in> {Some ErrOverflow, Some ErrCorrupt}"
    using assms(1) a
    by (auto simp: admitStrictLocked_def strictDecisionResult_def validateStrictDecisionTime_def
        validateStrictEffectiveRange_def Let_def split: if_splits option.splits prod.splits)
  ultimately show ?thesis by (auto simp: declared_def)
qed

section \<open>The strict service over the memory store\<close>

text \<open>
  What is relied on: the errors of a context are the two the language documents,
  and while the context is read, the lock awaited or the clock read, other
  goroutines may change the store, but it keeps its shards and the tokens of the
  key within the limit of the policy with its revision.
\<close>

definition plain_ctx :: "'w ctx \<Rightarrow> bool" where
  "plain_ctx ctx \<longleftrightarrow> (\<forall>w. fst (ctx w) \<in> {None, Some ContextCanceled, Some ContextDeadlineExceeded})"

definition fits :: "request \<Rightarrow> store \<Rightarrow> bool" where
  "fits r s \<longleftrightarrow> so_shards s \<noteq> [] \<and> (\<forall>st. lookup s (stateKey r) = Some st \<longrightarrow> tokens_fit r st)"

definition others_keep :: "(store \<Rightarrow> bool) \<Rightarrow> ('e mworld \<Rightarrow> 'a \<times> 'e mworld) \<Rightarrow> bool" where
  "others_keep I f \<longleftrightarrow> (\<forall>w. I (fst w) \<longrightarrow> I (fst (snd (f w))))"

lemma others_keepD: "others_keep I f \<Longrightarrow> f w = (x, w') \<Longrightarrow> I (fst w) \<Longrightarrow> I (fst w')"
  unfolding others_keep_def by (drule spec [of _ w]) simp

lemma strictContext_plain:
  assumes "plain_ctx ctx" "strictContext ctx w = (e, w')"
  shows "e \<in> {None, Some CanceledOutcome, Some DeadlineOutcome}"
    "others_keep I ctx \<Longrightarrow> I (fst w) \<Longrightarrow> I (fst w')"
  using assms by (auto simp: strictContext_def Let_def split: prod.splits if_splits dest: others_keepD)

lemma strictError_plain:
  assumes "plain_ctx ctx" "strictError ctx err w = (e, w')" "err \<in> {ContextCanceled, ContextDeadlineExceeded}"
  shows "e \<in> {Some CanceledOutcome, Some DeadlineOutcome}"
  using assms by (auto simp: strictError_def Let_def split: prod.splits if_splits)

lemma plain_ctxD: "plain_ctx ctx \<Longrightarrow> ctx w = (Some e, w') \<Longrightarrow> e \<in> {ContextCanceled, ContextDeadlineExceeded}"
  unfolding plain_ctx_def by (metis fst_conv insertE option.distinct(1) option.inject singletonD insertI1 insertI2)

lemma LockContext_plain:
  assumes "plain_ctx ctx" "LockContext grant ctx w = (e, w')"
  shows "e = Some err \<Longrightarrow> err \<in> {ContextCanceled, ContextDeadlineExceeded}"
    "others_keep I ctx \<Longrightarrow> others_keep I grant \<Longrightarrow> I (fst w) \<Longrightarrow> I (fst w')"
  using assms by (auto simp: LockContext_def Let_def split: prod.splits if_splits dest: plain_ctxD others_keepD)

lemma truncate_request:
  "r_Policy (truncate_now r) = r_Policy r" "r_Cost (truncate_now r) = r_Cost r" "stateKey (truncate_now r) = stateKey r"
  "declared (truncate_now r) d err = declared r d err" "tokens_fit (truncate_now r) st = tokens_fit r st"
  by (simp_all add: truncate_now_def stateKey_def declared_def complete_def completeAllowed_def completeRejected_def
      tokens_fit_def)

lemma AdmitStrict_declared:
  assumes adm: "AdmitStrict grant (Some ctx) r w = (d, err, w')" and typed: "request_typed r" "Request_Validate r = None"
    and ctx: "plain_ctx ctx" "others_keep (fits r) ctx" "others_keep (fits r) grant" and w: "fits r (fst w)"
  shows "declared r d err"
proof -
  have wf: "policy_wf (r_Policy r)" "0 < unat (r_Cost r)" "zero_time < r_Now (truncate_now r)"
  proof -
    have ok: "request_ok (normalize_now r)" using normalize_ok [OF typed] by simp
    then show "policy_wf (r_Policy r)" "0 < unat (r_Cost r)" by (simp_all add: request_ok_def normalize_now_def)
    have "- maxExact \<le> r_Now r div 1000"
      using typed by (auto simp: Request_Validate_None request_typed_def)
    then show "zero_time < r_Now (truncate_now r)" by (simp add: truncate_now_def Truncate_us_def zero_time_def maxExact_def)
  qed
  obtain ce w1 where c: "strictContext ctx w = (ce, w1)" by (cases "strictContext ctx w")
  note c1 = strictContext_plain [OF ctx(1) c]
  obtain le w2 where l: "LockContext grant ctx w1 = (le, w2)" by (cases "LockContext grant ctx w1")
  note l1 = LockContext_plain [OF ctx(1) l]
  obtain re w3 where e: "ctx w2 = (re, w3)" by (cases "ctx w2")
  have "fits r (fst w3)" using c1(2) [OF ctx(2) w] l1(2) [OF ctx(2,3)] others_keepD [OF ctx(2) e] by blast
  then have fit: "map_of (sh_states (so_shards (fst w3) ! shardFor (fst w3) (stateKey r))) (stateKey r) = Some st \<Longrightarrow>
      tokens_fit (truncate_now r) st" for st by (simp add: fits_def lookup_def truncate_request)
  have stopped: "declared r zero_Decision (fst (strictError ctx x y))"
    if "x \<in> {ContextCanceled, ContextDeadlineExceeded}" for x y
    using strictError_plain [OF ctx(1) _ that, of y] by (cases "strictError ctx x y") (auto simp: declared_def)
  have errs: "le = Some x \<Longrightarrow> x \<in> {ContextCanceled, ContextDeadlineExceeded}"
      "re = Some x \<Longrightarrow> x \<in> {ContextCanceled, ContextDeadlineExceeded}" for x
    using l1(1) e plain_ctxD [OF ctx(1)] by blast+
  let ?sh = "so_shards (fst w3) ! shardFor (fst w3) (stateKey r)"
  obtain d1 err1 sh where a: "admitStrictLocked ?sh (stateKey r) (truncate_now r) = (d1, err1, sh)"
    by (cases "admitStrictLocked ?sh (stateKey r) (truncate_now r)")
  have locked: "p_algorithm (r_Policy r) \<noteq> Concurrency \<Longrightarrow> declared r d1 err1"
    using admitStrictLocked_declared [OF a] wf fit by (simp add: truncate_request)
  have early: "ce \<noteq> None \<Longrightarrow> declared r zero_Decision ce" "declared r zero_Decision (Some ErrUnavailable)"
    "declared r zero_Decision (Some ErrUnsupported)" using c1(1) by (auto simp: declared_def)
  have "so_shards (fst w) \<noteq> []" using w by (simp add: fits_def)
  then have "(fst (AdmitStrict grant (Some ctx) r w), fst (snd (AdmitStrict grant (Some ctx) r w))) =
    (if ce \<noteq> None then (zero_Decision, ce) else if so_closed (fst w1) then (zero_Decision, Some ErrUnavailable)
     else if p_algorithm (r_Policy r) = Concurrency then (zero_Decision, Some ErrUnsupported)
     else case le of Some x \<Rightarrow> (zero_Decision, fst (strictError ctx x w2))
     | None \<Rightarrow> (case re of Some x \<Rightarrow> (zero_Decision, fst (strictError ctx x w3)) | None \<Rightarrow> (d1, err1)))"
    by (simp add: AdmitStrict_def typed(2) c l e a truncate_request Let_def case_prod_beta split: option.split)
  note res = this [unfolded adm fst_conv snd_conv]
  show ?thesis
  proof (cases "ce \<noteq> None \<or> so_closed (fst w1) \<or> p_algorithm (r_Policy r) = Concurrency")
    case True
    then show ?thesis using res early by (auto split: if_splits)
  next
    case False
    then show ?thesis using res locked stopped errs by (auto split: option.splits)
  qed
qed

text \<open>C11. The strict service over the memory store always knows the outcome. Whatever
  the request, the policy's failure mode, and the moments at which the context ends or
  other goroutines change the store, no admission is reported with an unknown outcome:
  every result of \<open>AdmitStrict\<close> is a complete allowance, a complete rejection, or a
  declared failure with a zero decision.\<close>

theorem memory_strict_certain:
  assumes "NewStrictService (Some (memory_backend grant)) observers = Inr s" "request_typed r"
    and "plain_ctx ctx" "others_keep (fits r) ctx" "others_keep (fits r) grant" "others_keep (fits r) clock"
    and "fits r (fst w)" and "StrictService_Admit clock (Some s) (Some ctx) r w = (d, err, w')"
  shows "err \<noteq> Some (StrictOutcome strictOutcomeUnknown c)"
proof -
  have s: "ss_backend s = Some (memory_backend grant)" "ss_name s \<noteq> ''''"
    using assms(1) by (auto simp: NewStrictService_def memory_backend_def split: sum.splits if_splits)
  show ?thesis
  proof (rule declared_certain [where I = "\<lambda>w. fits r (fst w)", OF s _ _ assms(7) _ assms(8)])
    fix w1 raw rawErr w2
    assume "fits r (fst w1)" "Request_Validate r = None" "sb_AdmitStrict (memory_backend grant) ctx r w1 = (raw, rawErr, w2)"
    then show "declared r raw rawErr" using AdmitStrict_declared [OF _ assms(2) _ assms(3-5)] by (simp add: memory_backend_def)
  qed (use others_keepD [OF assms(6)] others_keepD [OF assms(4)] in blast)+
qed

definition free_lock :: "'w \<Rightarrow> bool \<times> 'w" where
  "free_lock w = (True, w)"

definition live_ctx :: "'w ctx" where
  "live_ctx w = (None, w)"

theorem memory_strict_certain_witness:
  "\<exists>s d err w'. NewStrictService (Some (memory_backend free_lock)) [] = Inr s \<and>
     StrictService_Admit (\<lambda>w. (0, w)) (Some s) (Some live_ctx) sample_request (sample_store, ()) = (d, err, w') \<and>
     err \<noteq> Some (StrictOutcome strictOutcomeUnknown None)"
proof -
  have "\<exists>s. NewStrictService (Some (memory_backend (free_lock :: unit mworld \<Rightarrow> _))) [] = Inr s"
    by (simp add: NewStrictService_def memory_backend_def validBackendName_def MaxBackendNameBytes_def MaxObservers_def
        in_range_def)
  then obtain s where s: "NewStrictService (Some (memory_backend (free_lock :: unit mworld \<Rightarrow> _))) [] = Inr s" by blast
  obtain d err w' where a: "StrictService_Admit (\<lambda>w. (0, w)) (Some s) (Some live_ctx) sample_request (sample_store, ()) = (d, err, w')"
    by (metis surj_pair)
  have keep: "others_keep (fits sample_request) (live_ctx :: unit mworld ctx)" "plain_ctx (live_ctx :: unit mworld ctx)"
    "others_keep (fits sample_request) (free_lock :: unit mworld \<Rightarrow> _)"
    "others_keep (fits sample_request) ((\<lambda>w. (0, w)) :: unit mworld clock)"
    by (simp_all add: others_keep_def live_ctx_def plain_ctx_def free_lock_def)
  have "lookup sample_store (stateKey sample_request) = None" "so_shards sample_store \<noteq> []" by code_simp+
  then have "fits sample_request (fst (sample_store, ()))" by (simp add: fits_def)
  then show ?thesis
    using memory_strict_certain [OF s sample_store_facts(2) keep(2,1,3,4) _ a] s a by blast
qed

section \<open>Strict and compatibility admission\<close>

text \<open>On an instant in range, the reset of a decision does not lie before the instant.\<close>

definition segs_until :: "policy \<Rightarrow> time \<Rightarrow> mstate \<Rightarrow> bool" where
  "segs_until p t st \<longleftrightarrow> (\<forall>g \<in> set (st_segments st). g_index g \<le> sliding_seg p t)"

lemma scan_earliest:
  "scanSegments oldest gs u e = (gs', u', e') \<Longrightarrow> e' = e \<or> (\<exists>g \<in> set gs. e' = g_index g \<and> oldest < g_index g)"
  by (induction gs arbitrary: u e gs') (fastforce simp: Let_def min_def split: if_splits prod.splits)+

lemma consumeWindow_Reset: "consumeWindow st r reset = (st', d, err) \<Longrightarrow> d_Reset d = reset"
  by (auto simp: consumeWindow_def Let_def split: if_splits)

lemma admitToken_Reset:
  assumes "admitToken st r = (st', d, err)"
  shows "r_Now r \<le> d_Reset d"
  using assms refillDuration_nonneg by (auto simp: admitToken_def Let_def time_Add_def split: if_splits)

lemma admitFixed_Reset:
  assumes "admitFixed st r = (st', d, err)" "fixed_policy (r_Policy r)" "instant_ok (r_Policy r) (r_Now r)"
  shows "r_Now r \<le> d_Reset d"
proof -
  let ?p = "r_Policy r" and ?t = "r_Now r"
  note per = fixed_period [OF assms(2)]
  have ok: "fixed_ok ?p ?t" using instant_ok_range(1) [OF assms(3)] assms(2) by (simp add: fixed_policy_def)
  have "d_Reset d = time_UnixNano (i64 (floorBoundary (UnixNano ?t) (p_period ?p) + p_period ?p))"
    using assms(1) consumeWindow_Reset by (auto simp: admitFixed_def Let_def)
  also have "\<dots> = ?t div p_period ?p * p_period ?p + p_period ?p"
    using ok per by (simp add: fixed_ok_def UnixNano_def floorBoundary_floor time_UnixNano_def)
  finally show ?thesis using floor_multiple_bounds [OF per, of ?t] by linarith
qed

lemma admitSliding_Reset:
  assumes adm: "admitSliding st r = (st', d, err)" and p: "sliding_policy (r_Policy r)" "instant_ok (r_Policy r) (r_Now r)"
    and segs: "segs_until (r_Policy r) (r_Now r) st"
  shows "r_Now r \<le> d_Reset d"
proof -
  let ?p = "r_Policy r" and ?t = "r_Now r" and ?w = "seg_width (r_Policy r)"
  note w = sliding_width [OF p(1)]
  have ok: "sliding_ok ?p ?t" using instant_ok_range(2) [OF p(2)] p(1) by (simp add: sliding_policy_def)
  have t: "p_period ?p \<le> ?t" "?t + p_period ?p < 9223372036854775808" using p(2) by (simp_all add: instant_ok_def)
  note idx = sliding_index [OF p(1) ok, unfolded w(1)]
  obtain gs u e where sc: "scanSegments (sliding_oldest ?p ?t) (st_segments st) 0 MaxInt64 = (gs, u, e)"
    by (metis surj_pair)
  have reset: "d_Reset d = (if e \<noteq> MaxInt64 then i64 (i64 (e + 1) * ?w) + p_period ?p else ?t + p_period ?p)"
    using adm [unfolded admitSliding_def Let_def w(1) idx sc prod.case]
    by (auto dest!: consumeWindow_Reset simp: time_Add_def time_UnixNano_def split: prod.splits if_splits)
  show ?thesis
  proof (cases "e = MaxInt64")
    case True
    then show ?thesis using reset w(2,4) by simp
  next
    case False
    then obtain g where g: "g \<in> set (st_segments st)" "e = g_index g" "sliding_oldest ?p ?t < e"
      using scan_earliest [OF sc] by auto
    then have hi: "e \<le> sliding_seg ?p ?t" using segs by (simp add: segs_until_def)
    have lo: "sliding_oldest ?p ?t + 2 \<le> e + 1" using g(3) by simp
    have "(sliding_oldest ?p ?t + 2) * ?w \<le> (e + 1) * ?w" "(e + 1) * ?w \<le> (sliding_seg ?p ?t + 1) * ?w"
      using lo hi w(2) by (simp_all add: mult_right_mono)
    then have b: "?t - p_period ?p < (e + 1) * ?w" "(e + 1) * ?w \<le> ?t + ?w"
      using floor_multiple_bounds [OF w(2), of ?t] floor_multiple_bounds [OF w(2), of "?t - p_period ?p"]
      w(2) unfolding sliding_seg_def sliding_oldest_def distrib_right by linarith+
    have "0 < (e + 1) * ?w" using b(1) t(1) by linarith
    then have "0 < e + 1" using w(2) by (simp add: zero_less_mult_iff)
    then have "(e + 1) * 1 \<le> (e + 1) * ?w" using w(2) by (intro mult_left_mono) simp_all
    also have "\<dots> < 9223372036854775808" using b(2) t w(4) by linarith
    finally have "e + 1 \<le> 9223372036854775807" by simp
    then have "int64_range (e + 1)" using \<open>0 < e + 1\<close> by (simp add: int64_range_def)
    moreover have "int64_range ((e + 1) * ?w)" using \<open>0 < (e + 1) * ?w\<close> b t w(4) by (intro int64_rangeI) linarith+
    ultimately show ?thesis using reset False b by simp
  qed
qed

text \<open>Instants and states for which strict admission reports what admission does.\<close>

definition agreeing :: "request \<Rightarrow> mstate \<Rightarrow> bool" where
  "agreeing r st \<longleftrightarrow>
     (let p = r_Policy r; t = max (r_Now r) (st_lastSeen st) in
      validateStrictEffectiveRange t (p_period p) = None \<and>
      (p_algorithm p \<noteq> TokenBucket \<longrightarrow> instant_ok p t \<and> segs_until p t st \<and>
        (st_windowPeriod st = 0 \<or> st_windowPeriod st = p_period p)))"

lemma admitState_Reset:
  assumes adm: "admitState st r = (st', d, err)" and p: "policy_wf (r_Policy r)" "p_algorithm (r_Policy r) \<noteq> Concurrency"
    and ok: "agreeing r st"
  shows "max (r_Now r) (st_lastSeen st) \<le> d_Reset d"
proof -
  let ?t = "max (r_Now r) (st_lastSeen st)" and ?r = "effective_request st r"
  have r: "r_Policy ?r = r_Policy r" "r_Now ?r = ?t" by (simp_all add: effective_request_def window_request_def)
  have eff: "effective_request (st\<lparr>st_lastSeen := ?t\<rparr>) r = ?r" by (simp add: effective_request_def)
  let ?st = "st\<lparr>st_lastSeen := ?t\<rparr>"
  have a: "(case p_algorithm (r_Policy r) of TokenBucket \<Rightarrow> admitToken ?st ?r | FixedWindow \<Rightarrow> admitFixed ?st ?r
      | _ \<Rightarrow> admitSliding ?st ?r) = (st', d, err)"
    using adm unfolding admitState_effective Let_def eff .
  have win: "instant_ok (r_Policy r) ?t" "segs_until (r_Policy r) ?t ?st" if "p_algorithm (r_Policy r) \<noteq> TokenBucket"
    using ok that by (simp_all add: agreeing_def segs_until_def Let_def)
  show ?thesis
    using a p win admitToken_Reset [of ?st ?r st' d err] admitFixed_Reset [of ?st ?r st' d err] admitSliding_Reset [of ?st ?r st' d err] r
    by (cases "p_algorithm (r_Policy r)") (auto simp: fixed_policy_def sliding_policy_def policy_wf_def)
qed

lemma agreeing_carried: "agreeing r st \<Longrightarrow> agreeing r (carried st r)"
  by (auto simp: agreeing_def carried_def carryRevision_def segs_until_def Let_def split: algorithm.splits)

lemma admitLocked_result_agrees:
  assumes adm: "admitLocked sh key r = (d, err, sh')" and p: "policy_wf (r_Policy r)" "p_algorithm (r_Policy r) \<noteq> Concurrency"
    and ok: "agreeing r (case map_of (sh_states sh) key of Some st \<Rightarrow> st | None \<Rightarrow> new_state r)"
  shows "IsZero (d_Reset d) \<or> (\<exists>st'. map_of (sh_states sh') key = Some st' \<and> st_lastSeen st' \<le> d_Reset d)"
proof (cases "case map_of (sh_states sh) key of Some e \<Rightarrow> st_algorithm e \<noteq> p_algorithm (r_Policy r) | None \<Rightarrow> False")
  case True
  then show ?thesis using adm by (auto simp: admitLocked_def zero_Decision_def IsZero_def)
next
  case False
  obtain res sh1 where g: "getOrCreate sh key r = (res, sh1)" by (cases "getOrCreate sh key r")
  show ?thesis
  proof (cases res)
    case (Inl e)
    then show ?thesis using adm False g by (auto simp: admitLocked_def zero_Decision_def IsZero_def)
  next
    case (Inr st)
    obtain st' d' err' where a: "admitState st r = (st', d', err')" by (cases "admitState st r")
    have "st = (case map_of (sh_states sh) key of Some st \<Rightarrow> carried st r | None \<Rightarrow> new_state r)"
      using g Inr by (auto simp: getOrCreate_def carried_def Let_def split: option.splits if_splits prod.splits)
    then have "agreeing r st" using ok agreeing_carried by (auto split: option.splits)
    then have "max (r_Now r) (st_lastSeen st) \<le> d_Reset d'" by (rule admitState_Reset [OF a p])
    then show ?thesis using adm False g Inr a admitState_lastSeen [OF a] by (auto simp: admitLocked_def)
  qed
qed

lemma admitStrictLocked_agrees:
  assumes p: "policy_wf (r_Policy r)" "p_algorithm (r_Policy r) \<noteq> Concurrency"
    and ok: "agreeing r (case map_of (sh_states sh) key of Some st \<Rightarrow> st | None \<Rightarrow> new_state r)"
  shows "admitStrictLocked sh key r = admitLocked sh key r"
proof -
  obtain d err sh' where a: "admitLocked sh key r = (d, err, sh')" by (cases "admitLocked sh key r")
  define eff where "eff = (case map_of (sh_states sh) key of None \<Rightarrow> r_Now r
      | Some st \<Rightarrow> if st_lastSeen st > r_Now r then st_lastSeen st else r_Now r)"
  have range: "validateStrictEffectiveRange eff (p_period (r_Policy r)) = None"
    using ok by (auto simp: eff_def agreeing_def new_state_def max_def Let_def not_less split: option.splits if_splits)
  have period: "\<not> (case map_of (sh_states sh) key of None \<Rightarrow> False
      | Some st \<Rightarrow> (p_algorithm (r_Policy r) = FixedWindow \<or> p_algorithm (r_Policy r) = SlidingWindow) \<and>
          st_windowPeriod st \<noteq> 0 \<and> st_windowPeriod st \<noteq> p_period (r_Policy r))"
    using ok by (auto simp: agreeing_def Let_def split: option.splits)
  define eff' where "eff' = (case map_of (sh_states sh') key of None \<Rightarrow> eff | Some st \<Rightarrow> st_lastSeen st)"
  have "strictDecisionResult d err eff' = (d, err)"
    using admitLocked_result_agrees [OF a p ok]
    by (auto simp: strictDecisionResult_def validateStrictDecisionTime_def eff'_def)
  then show ?thesis
    using range period a unfolding admitStrictLocked_def Let_def eff_def [symmetric] by (simp add: eff'_def [symmetric])
qed



end
