(* ===== verification/Atomic_Batch.thy ===== *)
theory Atomic_Batch
  imports Strict_Service
begin

text \<open>
  \<^verbatim>\<open>atomic_batch.go\<close>: validation of atomic batches and \<open>AdmitAtomicBatch\<close>, which
  checks the whole result of a native atomic backend. The formatting and
  marshalling methods, which write a constant, are left out.
\<close>

definition MaxAtomicBatchSize :: nat where "MaxAtomicBatchSize = 16"

definition atomicCommandChar :: "char \<Rightarrow> bool" where
  "atomicCommandChar c \<longleftrightarrow> lower c \<or> upper c \<or> digit c \<or> c \<in> set ''!#$%&*+-.^_|~'' \<or> c \<in> {CHR 0x27, CHR 0x60}"

definition atomicCommandID :: "string \<Rightarrow> bool" where
  "atomicCommandID cid \<longleftrightarrow> \<not> (length cid < 1 \<or> length cid > 128) \<and> list_all atomicCommandChar cid"

fun atomicValidateItems :: "time \<Rightarrow> string set \<Rightarrow> request list \<Rightarrow> go_error option" where
  "atomicValidateItems now seen [] = None"
| "atomicValidateItems now seen (r # rs) =
     (if Request_Validate r \<noteq> None \<or> r_Now r \<noteq> now then Some ErrInvalidRequest
      else if p_algorithm (r_Policy r) \<noteq> TokenBucket \<or> p_consistency (r_Policy r) \<noteq> ConsistencyStrong \<or>
              p_failureMode (r_Policy r) \<noteq> FailClosed
      then Some ErrUnsupported
      else let k = state_key (p_id (r_Policy r)) (r_Key r) in
      if k \<in> seen then Some ErrInvalidRequest
      else atomicValidateItems now (insert k seen) rs)"

definition AtomicBatchRequest_Validate :: "atomicBatchRequest \<Rightarrow> go_error option" where
  "AtomicBatchRequest_Validate a =
     (if \<not> atomicCommandID (ab_CommandID a) \<or> length (ab_Requests a) < 1 \<or>
         length (ab_Requests a) > MaxAtomicBatchSize
      then Some ErrInvalidRequest
      else atomicValidateItems (r_Now (hd (ab_Requests a))) {} (ab_Requests a))"

definition zero_AtomicBatchDecision :: atomicBatchDecision where
  "zero_AtomicBatchDecision = \<lparr>ad_CommandID = '''', ad_Allowed = False, ad_Decisions = []\<rparr>"

definition atomicSufficient :: "decision \<Rightarrow> request \<Rightarrow> bool" where
  "atomicSufficient d r \<longleftrightarrow>
     \<not> d_Allowed d \<and> d_Reason d = ReasonAtomicRejected \<and> d_Limit d = Limit (r_Policy r) \<and>
     d_Remaining d \<ge> r_Cost r \<and> d_Remaining d \<le> Limit (r_Policy r) \<and> \<not> IsZero (d_Reset d) \<and>
     d_RetryAfter d = 0"

text \<open>The loop over the decisions, with its two flags.\<close>

fun atomicCheck :: "bool \<Rightarrow> bool \<times> bool \<Rightarrow> (decision \<times> request) list \<Rightarrow> bool \<times> bool" where
  "atomicCheck allowed flags [] = flags"
| "atomicCheck allowed (valid, rejected) ((d, r) # xs) =
     (if allowed then atomicCheck allowed (valid \<and> completeAllowed d r, rejected) xs
      else if completeRejected d r then atomicCheck allowed (valid, True) xs
      else atomicCheck allowed (valid \<and> atomicSufficient d r, rejected) xs)"

definition normalizeAtomic ::
  "string \<Rightarrow> 'w ctx \<Rightarrow> atomicBatchRequest \<Rightarrow> atomicBatchDecision \<Rightarrow> go_error option \<Rightarrow> 'w \<Rightarrow>
   atomicBatchDecision \<times> go_error option \<times> 'w" where
  "normalizeAtomic name ctx a raw rawErr w =
     (let (decl, category) = strictDeclaration rawErr;
          (valid, rejected) = atomicCheck (ad_Allowed raw) (True, False) (zip (ad_Decisions raw) (ab_Requests a));
          command = zero_AtomicBatchDecision\<lparr>ad_CommandID := ab_CommandID a\<rparr>
      in
      if ad_CommandID raw = ab_CommandID a \<and> length (ad_Decisions raw) = length (ab_Requests a) \<and> valid \<and>
         (ad_Allowed raw \<and> rawErr = None \<or>
          \<not> ad_Allowed raw \<and> rejected \<and> decl = declarationSafe \<and> directError category (Some ErrRejected))
      then (raw\<lparr>ad_Decisions := map (\<lambda>(d, r). stampDecision name d r) (zip (ad_Decisions raw) (ab_Requests a))\<rparr>,
            rawErr, w)
      else if ad_CommandID raw = '''' \<and> \<not> ad_Allowed raw \<and> ad_Decisions raw = [] \<and> decl = declarationOutcome
      then (command, rawErr, w)
      else if ad_CommandID raw = '''' \<and> \<not> ad_Allowed raw \<and> ad_Decisions raw = [] \<and> decl = declarationSafe \<and>
              \<not> directError category (Some ErrRejected) \<and> applicableCategory category strictMethodAdmit
      then (command, rawErr, w)
      else let (ce, w1) = ctx w in (command, Some (UnknownOutcome ce), w1))"

definition AdmitAtomicBatch ::
  "'w strictService option \<Rightarrow> 'w ctx option \<Rightarrow> atomicBatchRequest \<Rightarrow> 'w \<Rightarrow>
   atomicBatchDecision \<times> go_error option \<times> 'w" where
  "AdmitAtomicBatch service ctx0 a w =
     (case strict_ready service ctx0 of
        Inl e \<Rightarrow> (zero_AtomicBatchDecision,
                  Some (if e = uninitialized then ErrInvalidPolicy else ErrInvalidRequest), w)
      | Inr (s, b, ctx) \<Rightarrow>
        case AtomicBatchRequest_Validate a of
          Some err \<Rightarrow> (zero_AtomicBatchDecision, Some err, w)
        | None \<Rightarrow>
          let (ce, w1) = strictCallerContext ctx w in
          case ce of
            Some err \<Rightarrow> (zero_AtomicBatchDecision, Some err, w1)
          | None \<Rightarrow>
            (case sb_Atomic b of
               None \<Rightarrow> (zero_AtomicBatchDecision, Some ErrUnsupported, w1)
             | Some f \<Rightarrow>
               let (res, w2) = f ctx a w1 in
               case res of
                 None \<Rightarrow>
                   let (ce2, w3) = ctx w2
                   in (zero_AtomicBatchDecision\<lparr>ad_CommandID := ab_CommandID a\<rparr>, Some (UnknownOutcome ce2), w3)
               | Some (raw, rawErr) \<Rightarrow> normalizeAtomic (ss_name s) ctx a raw rawErr w2))"

section \<open>Properties\<close>

definition atomic_item_ok :: "time \<Rightarrow> request \<Rightarrow> bool" where
  "atomic_item_ok now r \<longleftrightarrow>
     Request_Validate r = None \<and> r_Now r = now \<and> p_algorithm (r_Policy r) = TokenBucket \<and>
     p_consistency (r_Policy r) = ConsistencyStrong \<and> p_failureMode (r_Policy r) = FailClosed"

abbreviation request_key :: "request \<Rightarrow> string" where
  "request_key r \<equiv> state_key (p_id (r_Policy r)) (r_Key r)"

lemma atomicValidateItems_Cons:
  "atomicValidateItems now seen (r # rs) = None \<longleftrightarrow>
     atomic_item_ok now r \<and> request_key r \<notin> seen \<and> atomicValidateItems now (insert (request_key r) seen) rs = None"
  by (auto simp: atomic_item_ok_def Let_def)

lemma atomicValidateItems_None:
  "atomicValidateItems now seen rs = None \<longleftrightarrow>
     (\<forall>r \<in> set rs. atomic_item_ok now r) \<and> set (map request_key rs) \<inter> seen = {} \<and> distinct (map request_key rs)"
proof (induction rs arbitrary: seen)
  case (Cons r rs)
  show ?case unfolding atomicValidateItems_Cons Cons.IH by simp blast
qed simp

lemma if_Some_eq_None: "(if c then Some e else x) = None \<longleftrightarrow> \<not> c \<and> x = None"
  by simp

lemma state_key_inj:
  assumes "NUL \<notin> set i" "NUL \<notin> set i'"
  shows "state_key i k = state_key i' k' \<longleftrightarrow> i = i' \<and> key_String k = key_String k'"
  using sep_unique [of i NUL "key_String k" i' "key_String k'"] assms by (auto simp: state_key_def)

text \<open>
  \<open>AtomicBatchRequest.Validate\<close> accepts exactly a bounded command of 1 to
  16 valid requests that share one instant, all strong fail-closed token
  buckets, with pairwise distinct buckets: for constructed policies the string
  it compares determines policy identity and key.
\<close>

theorem AtomicBatchRequest_Validate_iff:
  assumes "\<forall>r \<in> set (ab_Requests a). request_typed r"
  shows "AtomicBatchRequest_Validate a = None \<longleftrightarrow>
    atomicCommandID (ab_CommandID a) \<and> 1 \<le> length (ab_Requests a) \<and> length (ab_Requests a) \<le> 16 \<and>
    (\<forall>r \<in> set (ab_Requests a). atomic_item_ok (r_Now (hd (ab_Requests a))) r) \<and>
    distinct (map (\<lambda>r. (p_id (r_Policy r), key_String (r_Key r))) (ab_Requests a))"
proof -
  let ?rs = "ab_Requests a"
  let ?ok = "\<forall>r \<in> set ?rs. atomic_item_ok (r_Now (hd ?rs)) r"
  have "distinct (map request_key ?rs) \<longleftrightarrow> distinct (map (\<lambda>r. (p_id (r_Policy r), key_String (r_Key r))) ?rs)"
    if ok: ?ok
  proof -
    have "NUL \<notin> set (p_id (r_Policy r))" if "r \<in> set ?rs" for r
    proof -
      have "policy_wf (r_Policy r)"
        using that assms ok by (auto simp: request_typed_def atomic_item_ok_def Request_Validate_None)
      then show ?thesis by (auto simp: policy_wf_def dest: policyId_no_NUL)
    qed
    then have "inj_on request_key (set ?rs) \<longleftrightarrow> inj_on (\<lambda>r. (p_id (r_Policy r), key_String (r_Key r))) (set ?rs)"
      unfolding inj_on_def by (simp add: state_key_inj)
    then show ?thesis by (simp add: distinct_map)
  qed
  moreover have "AtomicBatchRequest_Validate a = None \<longleftrightarrow>
    (atomicCommandID (ab_CommandID a) \<and> 1 \<le> length ?rs \<and> length ?rs \<le> 16) \<and> ?ok \<and> distinct (map request_key ?rs)"
    unfolding AtomicBatchRequest_Validate_def MaxAtomicBatchSize_def if_Some_eq_None atomicValidateItems_None
    by (simp add: not_less Suc_le_eq)
  ultimately show ?thesis by meson
qed

lemma atomicCheck_allowed:
  "atomicCheck True (v, rej) xs = (v \<and> (\<forall>(d, r) \<in> set xs. completeAllowed d r), rej)"
  by (induction xs arbitrary: v rej) auto

lemma atomicCheck_rejected:
  "atomicCheck False (v, rej) xs =
     (v \<and> (\<forall>(d, r) \<in> set xs. completeRejected d r \<or> atomicSufficient d r),
      rej \<or> (\<exists>(d, r) \<in> set xs. completeRejected d r))"
  by (induction xs arbitrary: v rej) auto

text \<open>
  An indivisible result: all buckets admitted with a nil error, or a rejection
  in which no bucket is admitted and at least one is exhausted, or an error
  with the bare command.
\<close>

definition indivisible :: "atomicBatchRequest \<Rightarrow> atomicBatchDecision \<Rightarrow> go_error option \<Rightarrow> bool" where
  "indivisible a out err \<longleftrightarrow>
     (err = None \<and> ad_Allowed out \<and> ad_CommandID out = ab_CommandID a \<and>
        list_all2 completeAllowed (ad_Decisions out) (ab_Requests a)) \<or>
     (\<exists>e. err = Some e \<and> safe_error ErrRejected e \<and> \<not> ad_Allowed out \<and> ad_CommandID out = ab_CommandID a \<and>
        list_all2 (\<lambda>d r. completeRejected d r \<or> atomicSufficient d r) (ad_Decisions out) (ab_Requests a) \<and>
        (\<exists>(d, r) \<in> set (zip (ad_Decisions out) (ab_Requests a)). completeRejected d r)) \<or>
     (err \<noteq> None \<and> \<not> ad_Allowed out \<and> ad_Decisions out = [])"

lemma stamped_checks [simp]:
  "completeAllowed (stampDecision n d r') r = completeAllowed d r"
  "completeRejected (stampDecision n d r') r = completeRejected d r"
  "atomicSufficient (stampDecision n d r') r = atomicSufficient d r"
  by (simp_all add: completeAllowed_def completeRejected_def atomicSufficient_def stampDecision_def)

lemma list_all2_stamped:
  assumes "\<And>n d r' r. P (stampDecision n d r') r = P d r" "length ds = length rs"
  shows "list_all2 P (map (\<lambda>(d, r). stampDecision n d r) (zip ds rs)) rs \<longleftrightarrow> (\<forall>(d, r) \<in> set (zip ds rs). P d r)"
  using assms(2) by (induction rule: list_induct2) (auto simp: assms(1))

lemma exhausted_stamped:
  "length ds = length rs \<Longrightarrow>
   (\<exists>(d, r) \<in> set (zip (map (\<lambda>(d, r). stampDecision n d r) (zip ds rs)) rs). completeRejected d r) \<longleftrightarrow>
   (\<exists>(d, r) \<in> set (zip ds rs). completeRejected d r)"
  by (induction rule: list_induct2) auto

lemma declaration_safe_rejected:
  "strictDeclaration err = (declarationSafe, Some ErrRejected) \<Longrightarrow> \<exists>e. err = Some e \<and> safe_error ErrRejected e"
  by (cases err rule: strictDeclaration_cases) auto

lemma normalizeAtomic_cases:
  assumes "normalizeAtomic name ctx a raw rawErr w = (out, err, w')"
    and "atomicCheck (ad_Allowed raw) (True, False) (zip (ad_Decisions raw) (ab_Requests a)) = (valid, rejected)"
  obtains (complete) "ad_CommandID raw = ab_CommandID a" "length (ad_Decisions raw) = length (ab_Requests a)" "valid"
      "ad_Allowed raw \<and> rawErr = None \<or>
       \<not> ad_Allowed raw \<and> rejected \<and> (\<exists>e. rawErr = Some e \<and> safe_error ErrRejected e)"
      "out = raw\<lparr>ad_Decisions := map (\<lambda>(d, r). stampDecision name d r) (zip (ad_Decisions raw) (ab_Requests a))\<rparr>"
      "err = rawErr"
  | (bare) "out = zero_AtomicBatchDecision\<lparr>ad_CommandID := ab_CommandID a\<rparr>" "err \<noteq> None"
  by (cases rawErr rule: strictDeclaration_cases;
      use assms that in \<open>simp add: normalizeAtomic_def Let_def split: if_splits prod.splits\<close>; auto)

lemma normalizeAtomic_indivisible:
  assumes "normalizeAtomic name ctx a raw rawErr w = (out, err, w')"
  shows "indivisible a out err"
proof -
  obtain valid rejected where c:
    "atomicCheck (ad_Allowed raw) (True, False) (zip (ad_Decisions raw) (ab_Requests a)) = (valid, rejected)"
    by (cases "atomicCheck (ad_Allowed raw) (True, False) (zip (ad_Decisions raw) (ab_Requests a))")
  from assms c show ?thesis
  proof (cases rule: normalizeAtomic_cases)
    case complete
    then show ?thesis
    proof (cases "ad_Allowed raw")
      case True
      then show ?thesis using complete c
        by (simp add: indivisible_def atomicCheck_allowed list_all2_stamped)
    next
      case False
      then show ?thesis using complete c
        by (simp add: indivisible_def atomicCheck_rejected list_all2_stamped exhausted_stamped)
    qed
  next
    case bare
    then show ?thesis by (simp add: indivisible_def zero_AtomicBatchDecision_def)
  qed
qed

text \<open>
  C16. The result of \<open>AdmitAtomicBatch\<close> is indivisible whatever the backend does,
  panics included: a nil error comes with every bucket completely admitted, a
  rejection with no bucket admitted and at least one exhausted, and every other
  error with no decision at all.
\<close>

theorem atomic_batch_indivisible:
  "case AdmitAtomicBatch service ctx a w of (out, err, w') \<Rightarrow> indivisible a out err"
  by (auto simp: AdmitAtomicBatch_def Let_def dest: normalizeAtomic_indivisible
      split: sum.splits prod.splits option.splits)
    (auto simp: indivisible_def zero_AtomicBatchDecision_def)

section \<open>A sample\<close>

definition sample_atomic :: atomicBatchRequest where
  "sample_atomic =
     \<lparr>ab_CommandID = ''cmd-1'',
      ab_Requests = [sample_request\<lparr>r_Policy := sample_policy\<lparr>p_failureMode := FailClosed, p_consistency := ConsistencyStrong\<rparr>\<rparr>]\<rparr>"

theorem AtomicBatchRequest_Validate_iff_witness:
  "AtomicBatchRequest_Validate sample_atomic = None"
proof -
  let ?p = "sample_policy\<lparr>p_failureMode := FailClosed, p_consistency := ConsistencyStrong\<rparr>"
  let ?r = "sample_request\<lparr>r_Policy := ?p\<rparr>"
  have wf: "policy_wf ?p"
    using sample_policy_wf by (simp add: policy_wf_def sample_policy_def period_us_def)
  then have t: "request_typed ?r"
    by (simp add: request_typed_def sample_request_def micro_range_def int64_range_def)
  have "request_ok ?r"
    using wf by (simp add: request_ok_def sample_request_def sample_key_def maxExact_def dur_us_def request_duration_def)
      (simp add: sample_policy_def)
  then have "Request_Validate ?r = None"
    using wf by (simp add: Request_Validate_None request_ok_def)
      (simp add: sample_request_def sample_policy_def IsZero_def zero_time_def UnixMicro_def i64_def
        request_duration_def maxExact_def)
  then show ?thesis
    using t AtomicBatchRequest_Validate_iff [of sample_atomic]
    by (simp add: sample_atomic_def atomic_item_ok_def atomicCommandID_def atomicCommandChar_def in_range_def)
      (simp add: sample_policy_def)
qed

end
