(* ===== verification/Postgres_Store.thy ===== *)
theory Postgres_Store
  imports Postgres_Rows Memory_Strict Atomic_Batch
begin

text \<open>
  \<^verbatim>\<open>postgres/store.go\<close>, \<^verbatim>\<open>native.go\<close>, \<^verbatim>\<open>lease.go\<close> and \<^verbatim>\<open>strict.go\<close>: the
  transactions around the row transitions. The interfaces \<open>nativeDatabase\<close> and
  \<open>nativeTransaction\<close> are records of functions on a world \<open>'w\<close>, one per SQL
  statement of the package: the database behind them may answer anything. Contexts are
  read as in the services. \<open>sha256\<close> and the derivation of a context with a deadline
  are parameters; panics of the driver are not modelled.
\<close>

section \<open>The interfaces\<close>

text \<open>What \<open>Scan\<close> reports of a single row: the row, \<open>pgx.ErrNoRows\<close>, another error.\<close>

datatype 'a scan = Row 'a | NoRows | ScanError go_error

text \<open>
  The argument of \<open>tx_rollback\<close> is the deadline of the detached context, none for
  the released methods.
\<close>

text \<open>
  The stored receipt of an atomic command: a document that decodes into a decision,
  with or without trailing data, one that does not, or none (absent or too long).
\<close>

datatype receipt = NoReceipt | BadReceipt | Receipt atomicBatchDecision bool

record 'w nativeTransaction =
  tx_setLockTimeout :: "string \<Rightarrow> 'w \<Rightarrow> go_error option \<times> 'w"
  tx_lockAndTime :: "int \<Rightarrow> 'w \<Rightarrow> (go_error + time) \<times> 'w"
  tx_selectState :: "string \<Rightarrow> 'w \<Rightarrow> (document \<times> time) scan \<times> 'w"
  tx_selectStateStrict :: "string \<Rightarrow> int \<Rightarrow> 'w \<Rightarrow> (document \<times> time \<times> bool) scan \<times> 'w"
  tx_deleteState :: "string \<Rightarrow> 'w \<Rightarrow> go_error option \<times> 'w"
  tx_upsertState :: "string \<Rightarrow> document \<Rightarrow> time \<Rightarrow> time \<Rightarrow> 'w \<Rightarrow> go_error option \<times> 'w"
  tx_lockCommand :: "int \<Rightarrow> int \<Rightarrow> 'w \<Rightarrow> go_error option \<times> 'w"
  tx_selectCommand :: "string \<Rightarrow> int \<Rightarrow> 'w \<Rightarrow> (string \<times> receipt) scan \<times> 'w"
  tx_lockBucket :: "int \<Rightarrow> 'w \<Rightarrow> go_error option \<times> 'w"
  tx_clockTimestamp :: "'w \<Rightarrow> (go_error + time) \<times> 'w"
  tx_insertCommand :: "string \<Rightarrow> string \<Rightarrow> receipt \<Rightarrow> 'w \<Rightarrow> go_error option \<times> 'w"
  tx_commit :: "'w \<Rightarrow> go_error option \<times> 'w"
  tx_rollback :: "time option \<Rightarrow> 'w \<Rightarrow> go_error option \<times> 'w"

record 'w nativeDatabase =
  db_begin :: "'w \<Rightarrow> (go_error + 'w nativeTransaction) \<times> 'w"
  db_table :: "'w \<Rightarrow> (go_error + string option) \<times> 'w"
  db_cleanup :: "int \<Rightarrow> 'w \<Rightarrow> (go_error + int) \<times> 'w"

datatype clockPolicy = ClientClock | ServerClock | OtherClock

record pgOptions =
  po_Timeout :: duration
  po_LockTimeout :: duration
  po_Clock :: clockPolicy

record 'w nativeExecutor =
  ne_database :: "'w nativeDatabase"
  ne_options :: pgOptions

text \<open>An executor of another type than \<open>*nativeExecutor\<close>, or none, is \<open>None\<close>.\<close>

record 'w pgStore =
  pg_executor :: "'w nativeExecutor option"
  pg_options :: pgOptions
  pg_rollbackTimeout :: duration

definition newStore :: "'w nativeExecutor option \<Rightarrow> pgOptions \<Rightarrow> go_error + 'w pgStore" where
  "newStore executor options =
     (let bad = Inl (Wrapped ''executor, timeout, and clock are required'' ErrInvalidPolicy) in
      if executor = None then bad
      else if po_Timeout options < 1 then bad
      else if po_Clock options = OtherClock then bad
      else let options = (if po_LockTimeout options < 1 then options\<lparr>po_LockTimeout := po_Timeout options\<rparr> else options)
      in Inr \<lparr>pg_executor = executor, pg_options = options, pg_rollbackTimeout = 0\<rparr>)"

definition pg_New :: "'w nativeDatabase option \<Rightarrow> pgOptions \<Rightarrow> go_error + 'w pgStore" where
  "pg_New pool options =
     (case pool of
        None \<Rightarrow> Inl (Wrapped ''pgx pool is required'' ErrInvalidPolicy)
      | Some database \<Rightarrow>
        let options = (if po_LockTimeout options < 1 then options\<lparr>po_LockTimeout := po_Timeout options\<rparr> else options)
        in newStore (Some \<lparr>ne_database = database, ne_options = options\<rparr>) options)"

definition NewStrict :: "'w nativeDatabase option \<Rightarrow> pgOptions \<Rightarrow> duration \<Rightarrow> go_error + 'w pgStore" where
  "NewStrict pool options rollbackTimeout =
     (case pool of
        None \<Rightarrow> Inl (Wrapped ''PostgreSQL pool is required'' ErrInvalidPolicy)
      | Some database \<Rightarrow>
        if rollbackTimeout \<le> 0 then Inl (Wrapped ''rollback timeout must be positive'' ErrInvalidPolicy)
        else case pg_New pool options of
          Inl err \<Rightarrow> Inl err
        | Inr store \<Rightarrow> Inr (store\<lparr>pg_rollbackTimeout := rollbackTimeout\<rparr>))"

section \<open>Keys and retention\<close>

definition row_key :: "(string \<Rightarrow> string) \<Rightarrow> string \<Rightarrow> key \<Rightarrow> string" where
  "row_key sha256 policyID k = sha256 (state_key policyID k)"

definition bigEndian :: "string \<Rightarrow> nat" where
  "bigEndian bytes = foldl (\<lambda>n c. n * 256 + of_char c) 0 bytes"

definition advisoryKey :: "string \<Rightarrow> int" where
  "advisoryKey key = i64 (int (bigEndian (take 8 key)))"

definition maxEncodedStateBytes :: int where "maxEncodedStateBytes = 128 * 1024"

definition MaxCleanupBatch :: int where "MaxCleanupBatch = 10000"

definition postgresStateTTL :: "duration \<Rightarrow> duration" where
  "postgresStateTTL duration = (if duration > MaxInt64 div 2 then MaxInt64 else max (i64 (duration * 2)) Second)"

definition postgresAdmissionTTL :: "policy \<Rightarrow> duration" where
  "postgresAdmissionTTL p =
     (let ttl = postgresStateTTL (p_period p) in
      if p_algorithm p = TokenBucket then max ttl (tokenDuration (Limit p) 0 p) else ttl)"

definition latestLeaseExpiry :: "(string \<times> persistedLease) list \<Rightarrow> time" where
  "latestLeaseExpiry leases = time_UnixMicro (foldl (\<lambda>latest (k, l). max latest (pl_ExpiresMicros l)) 0 leases)"

section \<open>Released transactions\<close>

definition beginLocked ::
  "'w nativeExecutor \<Rightarrow> string \<Rightarrow> 'w \<Rightarrow> (go_error + 'w nativeTransaction \<times> time) \<times> 'w" where
  "beginLocked executor key w =
     (case db_begin (ne_database executor) w of
        (Inl err, w1) \<Rightarrow> (Inl err, w1)
      | (Inr tx, w1) \<Rightarrow>
        (case tx_setLockTimeout tx
                (decimal_digits (nat (Milliseconds (po_LockTimeout (ne_options executor)))) @ ''ms'') w1 of
           (Some err, w2) \<Rightarrow> (Inl err, snd (tx_rollback tx None w2))
         | (None, w2) \<Rightarrow>
           (case tx_lockAndTime tx (advisoryKey key) w2 of
              (Inl err, w3) \<Rightarrow> (Inl err, snd (tx_rollback tx None w3))
            | (Inr now, w3) \<Rightarrow> (Inr (tx, now), w3))))"

definition loadState ::
  "'w nativeTransaction \<Rightarrow> string \<Rightarrow> time \<Rightarrow> 'w \<Rightarrow> (go_error + persistedState option) \<times> 'w" where
  "loadState tx key now w =
     (case tx_selectState tx key w of
        (NoRows, w1) \<Rightarrow> (Inr None, w1)
      | (ScanError err, w1) \<Rightarrow> (Inl err, w1)
      | (Row (encoded, expiresAt), w1) \<Rightarrow>
        if expiresAt > now then (map_sum id Some (decodeStateLegacy encoded), w1)
        else (case tx_deleteState tx key w1 of
                (None, w2) \<Rightarrow> (Inr None, w2) | (Some err, w2) \<Rightarrow> (Inl err, w2)))"

definition loadStateForRelease :: "'w nativeTransaction \<Rightarrow> string \<Rightarrow> 'w \<Rightarrow> (go_error + persistedState option) \<times> 'w" where
  "loadStateForRelease tx key w =
     (case tx_selectState tx key w of
        (NoRows, w1) \<Rightarrow> (Inr None, w1)
      | (ScanError err, w1) \<Rightarrow> (Inl err, w1)
      | (Row (encoded, expiresAt), w1) \<Rightarrow> (map_sum id Some (decodeStateLegacy encoded), w1))"

text \<open>The body of \<open>admit\<close> under the lock, before the deferred rollback.\<close>

definition admit_locked ::
  "'w nativeExecutor \<Rightarrow> 'w nativeTransaction \<Rightarrow> time \<Rightarrow> string \<Rightarrow> request \<Rightarrow> 'w \<Rightarrow> decision \<times> go_error option \<times> 'w" where
  "admit_locked executor tx serverNow key r w =
     (let r = (if po_Clock (ne_options executor) = ServerClock then r\<lparr>r_Now := serverNow\<rparr> else r) in
      case loadState tx key (r_Now r) w of
        (Inl err, w1) \<Rightarrow> (zero_Decision, Some err, w1)
      | (Inr current, w1) \<Rightarrow>
        let (nxt, d, resultErr) = mutateStateLegacy current r in
        if resultErr \<noteq> None \<and> \<not> Is resultErr ErrRejected then (zero_Decision, resultErr, w1)
        else let st = the nxt; p = r_Policy r;
                 (ttl, effective) =
                   (if p_algorithm p = TokenBucket then (postgresAdmissionTTL p, time_UnixMicro (ps_ObservedMicros st))
                    else (max (i64 (p_period p * 2)) Second, r_Now r))
        in case tx_upsertState tx key (encodeState st) (time_Add effective ttl) effective w1 of
             (Some err, w2) \<Rightarrow> (zero_Decision, Some err, w2)
           | (None, w2) \<Rightarrow>
             (case tx_commit tx w2 of
                (Some err, w3) \<Rightarrow> (zero_Decision, Some err, w3)
              | (None, w3) \<Rightarrow> (d, resultErr, w3)))"

definition pg_admit ::
  "'w nativeExecutor \<Rightarrow> string \<Rightarrow> request \<Rightarrow> 'w \<Rightarrow> decision \<times> go_error option \<times> 'w" where
  "pg_admit executor key r w =
     (case beginLocked executor key w of
        (Inl err, w1) \<Rightarrow> (zero_Decision, Some err, w1)
      | (Inr (tx, serverNow), w1) \<Rightarrow>
        let (d, err, w2) = admit_locked executor tx serverNow key r w1 in (d, err, snd (tx_rollback tx None w2)))"

definition acquire_locked ::
  "'w nativeExecutor \<Rightarrow> 'w nativeTransaction \<Rightarrow> time \<Rightarrow> string \<Rightarrow> leaseRequest \<Rightarrow> string \<Rightarrow> 'w \<Rightarrow>
   lease \<times> decision \<times> go_error option \<times> 'w" where
  "acquire_locked executor tx serverNow key lr digest w =
     (let lr = (if po_Clock (ne_options executor) = ServerClock
                then lr\<lparr>lr_Request := (lr_Request lr)\<lparr>r_Now := serverNow\<rparr>\<rparr> else lr);
          r = lr_Request lr
      in case loadState tx key (r_Now r) w of
        (Inl err, w1) \<Rightarrow> (zero_Lease, zero_Decision, Some err, w1)
      | (Inr current, w1) \<Rightarrow>
        let (nxt, l, d, resultErr) = mutateLeaseLegacy current lr digest in
        if resultErr \<noteq> None \<and> \<not> Is resultErr ErrRejected then (zero_Lease, zero_Decision, resultErr, w1)
        else let ttl = max (i64 (p_lease (r_Policy r) * 2)) Second
        in case tx_upsertState tx key (encodeState (the nxt)) (time_Add (r_Now r) ttl) (r_Now r) w1 of
             (Some err, w2) \<Rightarrow> (zero_Lease, zero_Decision, Some err, w2)
           | (None, w2) \<Rightarrow>
             (case tx_commit tx w2 of
                (Some err, w3) \<Rightarrow> (zero_Lease, zero_Decision, Some err, w3)
              | (None, w3) \<Rightarrow> (l, d, resultErr, w3)))"

definition pg_acquire ::
  "'w nativeExecutor \<Rightarrow> string \<Rightarrow> leaseRequest \<Rightarrow> string \<Rightarrow> 'w \<Rightarrow> lease \<times> decision \<times> go_error option \<times> 'w" where
  "pg_acquire executor key lr digest w =
     (case beginLocked executor key w of
        (Inl err, w1) \<Rightarrow> (zero_Lease, zero_Decision, Some err, w1)
      | (Inr (tx, serverNow), w1) \<Rightarrow>
        let (l, d, err, w2) = acquire_locked executor tx serverNow key lr digest w1
        in (l, d, err, snd (tx_rollback tx None w2)))"

definition release_locked ::
  "'w nativeTransaction \<Rightarrow> time \<Rightarrow> string \<Rightarrow> lease \<Rightarrow> string \<Rightarrow> 'w \<Rightarrow> go_error option \<times> 'w" where
  "release_locked tx serverNow key l digest w =
     (case loadStateForRelease tx key w of
        (Inl err, w1) \<Rightarrow> (Some err, w1)
      | (Inr None, w1) \<Rightarrow> (Some ErrLeaseNotFound, w1)
      | (Inr (Some current), w1) \<Rightarrow>
        if ps_Algorithm current \<noteq> Concurrency then (Some ErrLeaseNotFound, w1)
        else (case map_of (ps_Leases current) digest of
          None \<Rightarrow> (Some ErrLeaseNotFound, w1)
        | Some existing \<Rightarrow>
          if pl_Cost existing \<noteq> l_Cost l then (Some ErrLeaseNotOwned, w1)
          else if pl_ExpiresMicros existing \<noteq> UnixMicro (l_ExpiresAt l) then (Some ErrLeaseNotOwned, w1)
          else let leases = AList.delete digest (ps_Leases current);
                   (e, w2) = (if leases = [] then tx_deleteState tx key w1
                              else tx_upsertState tx key (encodeState (current\<lparr>ps_Leases := leases\<rparr>))
                                     (latestLeaseExpiry leases) serverNow w1)
          in if e \<noteq> None then (e, w2) else tx_commit tx w2))"

definition pg_release :: "'w nativeExecutor \<Rightarrow> string \<Rightarrow> lease \<Rightarrow> string \<Rightarrow> 'w \<Rightarrow> go_error option \<times> 'w" where
  "pg_release executor key l digest w =
     (case beginLocked executor key w of
        (Inl err, w1) \<Rightarrow> (Some err, w1)
      | (Inr (tx, serverNow), w1) \<Rightarrow>
        let (err, w2) = release_locked tx serverNow key l digest w1 in (err, snd (tx_rollback tx None w2)))"

section \<open>Released methods of the store\<close>

definition normalize_released :: "'w ctx \<Rightarrow> go_error \<Rightarrow> 'w \<Rightarrow> go_error \<times> 'w" where
  "normalize_released callCtx err w =
     (let (ce, w1) = callCtx w in
      (if Is ce ContextDeadlineExceeded \<or> errors_Is err ContextDeadlineExceeded then ErrDeadline else ErrUnavailable, w1))"

definition micro_now :: "request \<Rightarrow> request" where
  "micro_now r = r\<lparr>r_Now := time_UnixMicro (UnixMicro (r_Now r))\<rparr>"

definition pgStore_Admit ::
  "(string \<Rightarrow> string) \<Rightarrow> ('w ctx \<Rightarrow> duration \<Rightarrow> 'w ctx) \<Rightarrow> 'w pgStore \<Rightarrow> 'w nativeExecutor \<Rightarrow> 'w ctx \<Rightarrow> request \<Rightarrow> 'w \<Rightarrow>
   decision \<times> go_error option \<times> 'w" where
  "pgStore_Admit sha256 withTimeout store executor ctx r w =
     (case Request_Validate r of
        Some err \<Rightarrow> (zero_Decision, Some err, w)
      | None \<Rightarrow>
        if p_algorithm (r_Policy r) = Concurrency then (zero_Decision, Some ErrUnsupported, w)
        else let r = micro_now r; callCtx = withTimeout ctx (po_Timeout (pg_options store));
                 (d, err, w1) = pg_admit executor (row_key sha256 (p_id (r_Policy r)) (r_Key r)) r w
        in case err of
             None \<Rightarrow> (d, None, w1)
           | Some e \<Rightarrow>
             if errors_Is e ErrRejected then (d, err, w1)
             else if errors_Is e ErrCorrupt then (zero_Decision, Some ErrCorrupt, w1)
             else if errors_Is e ErrOverflow then (zero_Decision, Some ErrOverflow, w1)
             else let (e', w2) = normalize_released callCtx e w1 in (zero_Decision, Some e', w2))"

definition pgStore_Acquire ::
  "(string \<Rightarrow> string) \<Rightarrow> ('w ctx \<Rightarrow> duration \<Rightarrow> 'w ctx) \<Rightarrow> 'w pgStore \<Rightarrow> 'w ctx \<Rightarrow> leaseRequest \<Rightarrow> 'w \<Rightarrow>
   lease \<times> decision \<times> go_error option \<times> 'w" where
  "pgStore_Acquire sha256 withTimeout store ctx lr w =
     (case LeaseRequest_Validate lr of
        Some err \<Rightarrow> (zero_Lease, zero_Decision, Some err, w)
      | None \<Rightarrow>
        let lr = lr\<lparr>lr_Request := micro_now (lr_Request lr)\<rparr>; r = lr_Request lr in
        (case pg_executor store of
           None \<Rightarrow> (zero_Lease, zero_Decision, Some ErrUnsupported, w)
         | Some executor \<Rightarrow>
           let callCtx = withTimeout ctx (po_Timeout (pg_options store));
               (l, d, err, w1) = pg_acquire executor (row_key sha256 (p_id (r_Policy r)) (r_Key r)) lr
                                   (hex_EncodeToString (sha256 (lr_LeaseID lr))) w
           in case err of
                None \<Rightarrow> (l, d, None, w1)
              | Some e \<Rightarrow>
                if errors_Is e ErrRejected then (l, d, err, w1)
                else if errors_Is e ErrLeaseNotOwned then (l, d, err, w1)
                else if errors_Is e ErrCorrupt then (zero_Lease, zero_Decision, Some ErrCorrupt, w1)
                else let (e', w2) = normalize_released callCtx e w1 in (zero_Lease, zero_Decision, Some e', w2)))"

definition pgStore_Release ::
  "(string \<Rightarrow> string) \<Rightarrow> ('w ctx \<Rightarrow> duration \<Rightarrow> 'w ctx) \<Rightarrow> 'w pgStore \<Rightarrow> 'w ctx \<Rightarrow> lease \<Rightarrow> 'w \<Rightarrow> go_error option \<times> 'w" where
  "pgStore_Release sha256 withTimeout store ctx l w =
     (if l_ID l = '''' \<or> l_PolicyID l = '''' \<or> key_String (l_Key l) = '''' \<or> l_Cost l = 0
      then (Some ErrInvalidRequest, w)
      else case pg_executor store of
        None \<Rightarrow> (Some ErrUnsupported, w)
      | Some executor \<Rightarrow>
        let callCtx = withTimeout ctx (po_Timeout (pg_options store));
            (err, w1) = pg_release executor (row_key sha256 (l_PolicyID l) (l_Key l)) l
                          (hex_EncodeToString (sha256 (l_ID l))) w
        in case err of
             None \<Rightarrow> (None, w1)
           | Some e \<Rightarrow>
             if errors_Is e ErrLeaseNotFound then (err, w1)
             else if errors_Is e ErrLeaseNotOwned then (err, w1)
             else if errors_Is e ErrCorrupt then (Some ErrCorrupt, w1)
             else let (e', w2) = normalize_released callCtx e w1 in (Some e', w2))"

definition pg_Check :: "'w pgStore \<Rightarrow> 'w \<Rightarrow> go_error option \<times> 'w" where
  "pg_Check store w =
     (case pg_executor store of
        None \<Rightarrow> (Some ErrUnsupported, w)
      | Some native \<Rightarrow>
        (case db_table (ne_database native) w of
           (Inl err, w1) \<Rightarrow> (Some (Wrapped ''schema check'' ErrUnavailable), w1)
         | (Inr None, w1) \<Rightarrow> (Some (Wrapped ''rate_limit_states migration is missing'' ErrUnavailable), w1)
         | (Inr (Some t), w1) \<Rightarrow> (None, w1)))"

definition pg_Open :: "'w nativeDatabase option \<Rightarrow> pgOptions \<Rightarrow> 'w \<Rightarrow> (go_error + 'w pgStore) \<times> 'w" where
  "pg_Open pool options w =
     (case pg_New pool options of
        Inl err \<Rightarrow> (Inl err, w)
      | Inr store \<Rightarrow> (case pg_Check store w of (Some err, w1) \<Rightarrow> (Inl err, w1) | (None, w1) \<Rightarrow> (Inr store, w1)))"

definition Cleanup :: "'w pgStore \<Rightarrow> int \<Rightarrow> 'w \<Rightarrow> int \<times> go_error option \<times> 'w" where
  "Cleanup store batch w =
     (let bad = Wrapped ''cleanup batch must be positive'' ErrInvalidRequest in
      if batch < 1 then (0, Some bad, w)
      else if batch > MaxCleanupBatch then (0, Some bad, w)
      else case pg_executor store of
        None \<Rightarrow> (0, Some ErrUnsupported, w)
      | Some native \<Rightarrow>
        (case db_cleanup (ne_database native) batch w of
           (Inl err, w1) \<Rightarrow> (0, Some (Wrapped ''cleanup'' ErrUnavailable), w1)
         | (Inr count, w1) \<Rightarrow> (count, None, w1)))"

section \<open>Strict transactions\<close>

definition postgresStrictContext :: "'w ctx \<Rightarrow> 'w \<Rightarrow> go_error option \<times> 'w" where
  "postgresStrictContext ctx w =
     (let (e1, w1) = ctx w in
      if e1 = Some ContextCanceled then (Some CanceledOutcome, w1)
      else let (e2, w2) = ctx w1 in
      if e2 = Some ContextDeadlineExceeded then (Some DeadlineOutcome, w2) else (None, w2))"

definition postgresPrecommitCategory :: "'w ctx \<Rightarrow> go_error option \<Rightarrow> 'w \<Rightarrow> go_error option \<times> 'w" where
  "postgresPrecommitCategory ctx err w =
     (case err of
        None \<Rightarrow> (None, w)
      | Some (PersistedStateError cause) \<Rightarrow> (Some ErrCorrupt, w)
      | Some e \<Rightarrow>
        if e \<in> {ErrRejected, ErrOverflow, ErrCorrupt, ErrLeaseNotFound, ErrLeaseNotOwned} then (Some e, w)
        else let (ce, w1) = postgresStrictContext ctx w in
        (case ce of Some c \<Rightarrow> (Some c, w1) | None \<Rightarrow> (Some ErrUnavailable, w1)))"

definition postgresPredispatchCategory :: "'w ctx \<Rightarrow> go_error \<Rightarrow> 'w \<Rightarrow> go_error \<times> 'w" where
  "postgresPredispatchCategory ctx err w =
     (let (ce, w1) = postgresStrictContext ctx w in
      case ce of
        Some c \<Rightarrow> (c, w1)
      | None \<Rightarrow>
        (case err of
           ContextCanceled \<Rightarrow> CanceledOutcome
         | ContextDeadlineExceeded \<Rightarrow> DeadlineOutcome
         | NilBackendError \<Rightarrow> ErrUnavailable
         | BackendError category \<Rightarrow> if BackendError_Category err = None then ErrUnavailable else err
         | ErrRejected \<Rightarrow> err | ErrOverflow \<Rightarrow> err | ErrCorrupt \<Rightarrow> err | ErrUnsupported \<Rightarrow> err
         | ErrLeaseNotFound \<Rightarrow> err | ErrLeaseNotOwned \<Rightarrow> err
         | _ \<Rightarrow> ErrUnavailable, w1))"

definition lockMilliseconds :: "duration \<Rightarrow> int" where
  "lockMilliseconds lockTimeout =
     (let ms = lockTimeout sdiv Millisecond in if lockTimeout smod Millisecond \<noteq> 0 then ms + 1 else ms)"

text \<open>The transaction, if one was begun, the server time, the rollback deadline and the error.\<close>

definition beginLockedStrict ::
  "'w clock \<Rightarrow> 'w ctx \<Rightarrow> 'w nativeExecutor \<Rightarrow> string \<Rightarrow> duration \<Rightarrow> 'w \<Rightarrow>
   ('w nativeTransaction option \<times> time \<times> time \<times> go_error option) \<times> 'w" where
  "beginLockedStrict clock ctx executor key rollbackTimeout w =
     (case db_begin (ne_database executor) w of
        (Inl err, w1) \<Rightarrow> let (ce, w2) = ctx w1 in ((None, zero_time, zero_time, Some (UnknownOutcome ce)), w2)
      | (Inr tx, w1) \<Rightarrow>
        let (now0, w2) = clock w1; deadline = time_Add now0 rollbackTimeout;
            lockTimeout = decimal_digits (nat (lockMilliseconds (po_LockTimeout (ne_options executor)))) @ ''ms''
        in case tx_setLockTimeout tx lockTimeout w2 of
             (Some err, w3) \<Rightarrow>
               let (e, w4) = postgresPrecommitCategory ctx (Some err) w3 in ((Some tx, zero_time, deadline, e), w4)
           | (None, w3) \<Rightarrow>
             (case tx_lockAndTime tx (advisoryKey key) w3 of
                (Inl err, w4) \<Rightarrow>
                  let (e, w5) = postgresPrecommitCategory ctx (Some err) w4 in ((Some tx, zero_time, deadline, e), w5)
              | (Inr now, w4) \<Rightarrow> ((Some tx, now, deadline, None), w4)))"

definition rollbackStrict :: "'w nativeTransaction \<Rightarrow> time \<Rightarrow> 'w \<Rightarrow> go_error option \<times> 'w" where
  "rollbackStrict tx deadline w = tx_rollback tx (Some deadline) w"

definition loadStateStrict ::
  "'w nativeTransaction \<Rightarrow> string \<Rightarrow> time \<Rightarrow> 'w \<Rightarrow> (go_error + persistedState option) \<times> 'w" where
  "loadStateStrict tx key now w =
     (case tx_selectStateStrict tx key maxEncodedStateBytes w of
        (NoRows, w1) \<Rightarrow> (Inr None, w1)
      | (ScanError err, w1) \<Rightarrow> (Inl err, w1)
      | (Row (encoded, expiresAt, withinLimit), w1) \<Rightarrow>
        if \<not> withinLimit then (Inl ErrCorrupt, w1)
        else if expiresAt > now then (map_sum id Some (decodeState encoded), w1)
        else (case tx_deleteState tx key w1 of
                (None, w2) \<Rightarrow> (Inr None, w2) | (Some err, w2) \<Rightarrow> (Inl err, w2)))"

definition loadStateForReleaseStrict ::
  "'w nativeTransaction \<Rightarrow> string \<Rightarrow> 'w \<Rightarrow> (go_error + persistedState option) \<times> 'w" where
  "loadStateForReleaseStrict tx key w =
     (case tx_selectStateStrict tx key maxEncodedStateBytes w of
        (NoRows, w1) \<Rightarrow> (Inr None, w1)
      | (ScanError err, w1) \<Rightarrow> (Inl err, w1)
      | (Row (encoded, expiresAt, withinLimit), w1) \<Rightarrow>
        if \<not> withinLimit then (Inl ErrCorrupt, w1) else (map_sum id Some (decodeState encoded), w1))"

definition pg_validateStrictDecisionTime :: "decision \<Rightarrow> time \<Rightarrow> go_error option" where
  "pg_validateStrictDecisionTime d effective =
     (if \<not> IsZero (d_Reset d) \<and> d_Reset d < effective then Some ErrCorrupt else None)"

definition pg_validateStrictLeaseTime :: "lease \<Rightarrow> decision \<Rightarrow> time \<Rightarrow> go_error option" where
  "pg_validateStrictLeaseTime l d effective =
     (case pg_validateStrictDecisionTime d effective of
        Some err \<Rightarrow> Some err
      | None \<Rightarrow>
        if \<not> IsZero (l_ExpiresAt l) \<and> (\<not> l_ExpiresAt l > effective \<or> l_ExpiresAt l \<noteq> d_Reset d)
        then Some ErrCorrupt else None)"

text \<open>The state of a successful or rejected transition is there: \<open>the nxt\<close>.\<close>

definition strictPostgresDecisionResult ::
  "'w ctx \<Rightarrow> persistedState option \<Rightarrow> decision \<Rightarrow> go_error option \<Rightarrow> 'w \<Rightarrow> (decision \<times> go_error option) \<times> 'w" where
  "strictPostgresDecisionResult ctx nxt d err w =
     (if err \<noteq> None \<and> \<not> Is err ErrRejected
      then let (e, w1) = postgresPrecommitCategory ctx err w in ((zero_Decision, e), w1)
      else case pg_validateStrictDecisionTime d (time_UnixMicro (ps_ObservedMicros (the nxt))) of
        Some timeErr \<Rightarrow> ((zero_Decision, Some timeErr), w)
      | None \<Rightarrow> ((d, err), w))"

definition strictPostgresLeaseResult ::
  "'w ctx \<Rightarrow> persistedState option \<Rightarrow> lease \<Rightarrow> decision \<Rightarrow> go_error option \<Rightarrow> 'w \<Rightarrow>
   (lease \<times> decision \<times> go_error option) \<times> 'w" where
  "strictPostgresLeaseResult ctx nxt l d err w =
     (if err \<noteq> None \<and> \<not> Is err ErrRejected
      then let (e, w1) = postgresPrecommitCategory ctx err w in ((zero_Lease, zero_Decision, e), w1)
      else case pg_validateStrictLeaseTime l d (time_UnixMicro (ps_ObservedMicros (the nxt))) of
        Some timeErr \<Rightarrow> ((zero_Lease, zero_Decision, Some timeErr), w)
      | None \<Rightarrow> ((l, d, err), w))"

text \<open>Writing and committing: the result, and whether the transaction was committed.\<close>

definition commit_strict ::
  "'w ctx \<Rightarrow> 'w nativeTransaction \<Rightarrow> ('w \<Rightarrow> go_error option \<times> 'w) \<Rightarrow> 'r \<Rightarrow> 'r \<Rightarrow> go_error option \<Rightarrow> 'w \<Rightarrow>
   'r \<times> go_error option \<times> bool \<times> 'w" where
  "commit_strict ctx tx write zero result resultErr w =
     (case write w of
        (Some err, w1) \<Rightarrow> let (e, w2) = postgresPrecommitCategory ctx (Some err) w1 in (zero, e, False, w2)
      | (None, w1) \<Rightarrow>
        (case tx_commit tx w1 of
           (Some err, w2) \<Rightarrow> let (ce, w3) = ctx w2 in (zero, Some (UnknownOutcome ce), False, w3)
         | (None, w2) \<Rightarrow> let (e, w3) = postgresPrecommitCategory ctx resultErr w2 in (result, e, True, w3)))"

text \<open>The deferred rollback of a transaction that was not committed.\<close>

definition finish_strict ::
  "'w ctx \<Rightarrow> 'w nativeTransaction \<Rightarrow> time \<Rightarrow> 'r \<Rightarrow> 'r \<times> go_error option \<times> bool \<times> 'w \<Rightarrow> 'r \<times> go_error option \<times> 'w" where
  "finish_strict ctx tx deadline zero out =
     (let (result, err, committed, w) = out in
      if committed then (result, err, w)
      else case rollbackStrict tx deadline w of
        (None, w1) \<Rightarrow> (result, err, w1)
      | (Some e, w1) \<Rightarrow> let (ce, w2) = ctx w1 in (zero, Some (UnknownOutcome ce), w2))"

definition admitStrict_locked ::
  "'w ctx \<Rightarrow> 'w nativeExecutor \<Rightarrow> 'w nativeTransaction \<Rightarrow> time \<Rightarrow> string \<Rightarrow> request \<Rightarrow> 'w \<Rightarrow>
   decision \<times> go_error option \<times> bool \<times> 'w" where
  "admitStrict_locked ctx executor tx serverNow key r w =
     (let server = (po_Clock (ne_options executor) = ServerClock);
          r = (if server then r\<lparr>r_Now := serverNow\<rparr> else r);
          p = r_Policy r
      in case (if server then validateServerClockRange (r_Now r) (p_period p) else None) of
           Some err \<Rightarrow> (zero_Decision, Some err, False, w)
         | None \<Rightarrow>
           (case loadStateStrict tx key (r_Now r) w of
              (Inl err, w1) \<Rightarrow>
                let (e, w2) = postgresPrecommitCategory ctx (Some err) w1 in (zero_Decision, e, False, w2)
            | (Inr current, w1) \<Rightarrow>
              let (nxt, d0, err0) = mutateState current r;
                  ((d, resultErr), w2) = strictPostgresDecisionResult ctx nxt d0 err0 w1
              in
              if resultErr \<noteq> None \<and> \<not> Is resultErr ErrRejected then (zero_Decision, resultErr, False, w2)
              else let effective = time_UnixMicro (ps_ObservedMicros (the nxt))
              in commit_strict ctx tx
                   (tx_upsertState tx key (encodeState (the nxt)) (time_Add effective (postgresAdmissionTTL p)) effective)
                   zero_Decision d resultErr w2))"

definition pg_admitStrict ::
  "'w clock \<Rightarrow> 'w ctx \<Rightarrow> 'w nativeExecutor \<Rightarrow> string \<Rightarrow> request \<Rightarrow> duration \<Rightarrow> 'w \<Rightarrow> decision \<times> go_error option \<times> 'w" where
  "pg_admitStrict clock ctx executor key r rollbackTimeout w =
     (case beginLockedStrict clock ctx executor key rollbackTimeout w of
        ((None, now, deadline, err), w1) \<Rightarrow> (zero_Decision, err, w1)
      | ((Some tx, now, deadline, err), w1) \<Rightarrow>
        finish_strict ctx tx deadline zero_Decision
          (if err \<noteq> None then (zero_Decision, err, False, w1) else admitStrict_locked ctx executor tx now key r w1))"

definition acquireStrict_locked ::
  "'w ctx \<Rightarrow> 'w nativeExecutor \<Rightarrow> 'w nativeTransaction \<Rightarrow> time \<Rightarrow> string \<Rightarrow> leaseRequest \<Rightarrow> string \<Rightarrow> 'w \<Rightarrow>
   (lease \<times> decision) \<times> go_error option \<times> bool \<times> 'w" where
  "acquireStrict_locked ctx executor tx serverNow key lr digest w =
     (let server = (po_Clock (ne_options executor) = ServerClock);
          lr = (if server then lr\<lparr>lr_Request := (lr_Request lr)\<lparr>r_Now := serverNow\<rparr>\<rparr> else lr);
          r = lr_Request lr; p = r_Policy r
      in case (if server then validateServerClockRange (r_Now r) (p_lease p) else None) of
           Some err \<Rightarrow> ((zero_Lease, zero_Decision), Some err, False, w)
         | None \<Rightarrow>
           (case loadStateStrict tx key (r_Now r) w of
              (Inl err, w1) \<Rightarrow>
                let (e, w2) = postgresPrecommitCategory ctx (Some err) w1 in ((zero_Lease, zero_Decision), e, False, w2)
            | (Inr current, w1) \<Rightarrow>
              let (nxt, l0, d0, err0) = mutateLease current lr digest;
                  ((l, d, resultErr), w2) = strictPostgresLeaseResult ctx nxt l0 d0 err0 w1
              in
              if resultErr \<noteq> None \<and> \<not> Is resultErr ErrRejected then ((zero_Lease, zero_Decision), resultErr, False, w2)
              else let effective = time_UnixMicro (ps_ObservedMicros (the nxt))
              in commit_strict ctx tx
                   (tx_upsertState tx key (encodeState (the nxt)) (time_Add effective (postgresStateTTL (p_lease p))) effective)
                   (zero_Lease, zero_Decision) (l, d) resultErr w2))"

definition pg_acquireStrict ::
  "'w clock \<Rightarrow> 'w ctx \<Rightarrow> 'w nativeExecutor \<Rightarrow> string \<Rightarrow> leaseRequest \<Rightarrow> string \<Rightarrow> duration \<Rightarrow> 'w \<Rightarrow>
   (lease \<times> decision) \<times> go_error option \<times> 'w" where
  "pg_acquireStrict clock ctx executor key lr digest rollbackTimeout w =
     (case beginLockedStrict clock ctx executor key rollbackTimeout w of
        ((None, now, deadline, err), w1) \<Rightarrow> ((zero_Lease, zero_Decision), err, w1)
      | ((Some tx, now, deadline, err), w1) \<Rightarrow>
        finish_strict ctx tx deadline (zero_Lease, zero_Decision)
          (if err \<noteq> None then ((zero_Lease, zero_Decision), err, False, w1)
           else acquireStrict_locked ctx executor tx now key lr digest w1))"

definition releaseStrict_locked ::
  "'w ctx \<Rightarrow> 'w nativeTransaction \<Rightarrow> time \<Rightarrow> string \<Rightarrow> lease \<Rightarrow> string \<Rightarrow> 'w \<Rightarrow> unit \<times> go_error option \<times> bool \<times> 'w" where
  "releaseStrict_locked ctx tx serverNow key l digest w =
     (case loadStateForReleaseStrict tx key w of
        (Inl err, w1) \<Rightarrow> let (e, w2) = postgresPrecommitCategory ctx (Some err) w1 in ((), e, False, w2)
      | (Inr None, w1) \<Rightarrow> ((), Some ErrLeaseNotFound, False, w1)
      | (Inr (Some current), w1) \<Rightarrow>
        (case validateConcurrencyState current (l_PolicyID l) of
           Some err \<Rightarrow> ((), Some err, False, w1)
         | None \<Rightarrow>
           (case map_of (ps_Leases current) digest of
              None \<Rightarrow> ((), Some ErrLeaseNotFound, False, w1)
            | Some existing \<Rightarrow>
              if pl_Cost existing \<noteq> l_Cost l \<or> pl_ExpiresMicros existing \<noteq> UnixMicro (l_ExpiresAt l)
              then ((), Some ErrLeaseNotOwned, False, w1)
              else let leases = AList.delete digest (ps_Leases current)
              in commit_strict ctx tx
                   (if leases = [] then tx_deleteState tx key
                    else tx_upsertState tx key (encodeState (current\<lparr>ps_Leases := leases\<rparr>))
                           (latestLeaseExpiry leases) serverNow)
                   () () None w1)))"

definition pg_releaseStrict ::
  "'w clock \<Rightarrow> 'w ctx \<Rightarrow> 'w nativeExecutor \<Rightarrow> string \<Rightarrow> lease \<Rightarrow> string \<Rightarrow> duration \<Rightarrow> 'w \<Rightarrow> go_error option \<times> 'w" where
  "pg_releaseStrict clock ctx executor key l digest rollbackTimeout w =
     (case beginLockedStrict clock ctx executor key rollbackTimeout w of
        ((None, now, deadline, err), w1) \<Rightarrow> (err, w1)
      | ((Some tx, now, deadline, err), w1) \<Rightarrow>
        (let (u, e, w2) = finish_strict ctx tx deadline ()
               (if err \<noteq> None then ((), err, False, w1) else releaseStrict_locked ctx tx now key l digest w1)
         in (e, w2)))"

section \<open>Strict methods of the store\<close>

definition pg_strictReady :: "'w pgStore option \<Rightarrow> 'w ctx option \<Rightarrow> go_error + ('w pgStore \<times> 'w nativeExecutor \<times> 'w ctx)" where
  "pg_strictReady store ctx =
     (case store of
        None \<Rightarrow> Inl backend_uninitialized
      | Some s \<Rightarrow>
        (case pg_executor s of
           None \<Rightarrow> Inl backend_uninitialized
         | Some native \<Rightarrow>
           if pg_rollbackTimeout s \<le> 0 then Inl backend_uninitialized
           else case ctx of None \<Rightarrow> Inl context_required | Some c \<Rightarrow> Inr (s, native, c)))"

definition pgStore_AdmitStrict ::
  "(string \<Rightarrow> string) \<Rightarrow> ('w ctx \<Rightarrow> duration \<Rightarrow> 'w ctx) \<Rightarrow> 'w clock \<Rightarrow> 'w pgStore option \<Rightarrow> 'w ctx option \<Rightarrow> request \<Rightarrow> 'w \<Rightarrow>
   decision \<times> go_error option \<times> 'w" where
  "pgStore_AdmitStrict sha256 withTimeout clock store ctx0 r w =
     (case pg_strictReady store ctx0 of
        Inl err \<Rightarrow> (zero_Decision, Some err, w)
      | Inr (s, native, ctx) \<Rightarrow>
        (case Request_Validate r of
           Some err \<Rightarrow> (zero_Decision, Some err, w)
         | None \<Rightarrow>
           let (ce, w1) = postgresStrictContext ctx w in
           if ce \<noteq> None then (zero_Decision, ce, w1)
           else if p_algorithm (r_Policy r) = Concurrency then (zero_Decision, Some ErrUnsupported, w1)
           else pg_admitStrict clock (withTimeout ctx (po_Timeout (pg_options s))) native
                  (row_key sha256 (p_id (r_Policy r)) (r_Key r)) (micro_now r) (pg_rollbackTimeout s) w1))"

definition pgStore_AcquireStrict ::
  "(string \<Rightarrow> string) \<Rightarrow> ('w ctx \<Rightarrow> duration \<Rightarrow> 'w ctx) \<Rightarrow> 'w clock \<Rightarrow> 'w pgStore option \<Rightarrow> 'w ctx option \<Rightarrow> leaseRequest \<Rightarrow> 'w \<Rightarrow>
   lease \<times> decision \<times> go_error option \<times> 'w" where
  "pgStore_AcquireStrict sha256 withTimeout clock store ctx0 lr w =
     (case pg_strictReady store ctx0 of
        Inl err \<Rightarrow> (zero_Lease, zero_Decision, Some err, w)
      | Inr (s, native, ctx) \<Rightarrow>
        (case LeaseRequest_Validate lr of
           Some err \<Rightarrow> (zero_Lease, zero_Decision, Some err, w)
         | None \<Rightarrow>
           let (ce, w1) = postgresStrictContext ctx w in
           if ce \<noteq> None then (zero_Lease, zero_Decision, ce, w1)
           else let r = lr_Request lr;
                    ((l, d), err, w2) =
                      pg_acquireStrict clock (withTimeout ctx (po_Timeout (pg_options s))) native
                        (row_key sha256 (p_id (r_Policy r)) (r_Key r)) (lr\<lparr>lr_Request := micro_now r\<rparr>)
                        (hex_EncodeToString (sha256 (lr_LeaseID lr))) (pg_rollbackTimeout s) w1
                in (l, d, err, w2)))"

definition pgStore_ReleaseStrict ::
  "(string \<Rightarrow> string) \<Rightarrow> ('w ctx \<Rightarrow> duration \<Rightarrow> 'w ctx) \<Rightarrow> 'w clock \<Rightarrow> 'w pgStore option \<Rightarrow> 'w ctx option \<Rightarrow> lease \<Rightarrow> 'w \<Rightarrow>
   go_error option \<times> 'w" where
  "pgStore_ReleaseStrict sha256 withTimeout clock store ctx0 l w =
     (case pg_strictReady store ctx0 of
        Inl err \<Rightarrow> (Some err, w)
      | Inr (s, native, ctx) \<Rightarrow>
        if l_ID l = '''' \<or> l_PolicyID l = '''' \<or> key_String (l_Key l) = '''' \<or> l_Cost l = 0 \<or> IsZero (l_ExpiresAt l)
        then (Some ErrInvalidRequest, w)
        else let (ce, w1) = postgresStrictContext ctx w in
        if ce \<noteq> None then (ce, w1)
        else pg_releaseStrict clock (withTimeout ctx (po_Timeout (pg_options s))) native
               (row_key sha256 (l_PolicyID l) (l_Key l)) l (hex_EncodeToString (sha256 (l_ID l))) (pg_rollbackTimeout s) w1)"

definition CheckStrict :: "'w pgStore option \<Rightarrow> 'w ctx option \<Rightarrow> 'w \<Rightarrow> go_error option \<times> 'w" where
  "CheckStrict store ctx0 w =
     (case pg_strictReady store ctx0 of
        Inl err \<Rightarrow> (Some err, w)
      | Inr (s, native, ctx) \<Rightarrow>
        let (ce, w1) = postgresStrictContext ctx w in
        if ce \<noteq> None then (ce, w1)
        else case db_table (ne_database native) w1 of
          (Inl err, w2) \<Rightarrow> let (e, w3) = postgresPredispatchCategory ctx err w2 in (Some e, w3)
        | (Inr None, w2) \<Rightarrow> (Some ErrUnavailable, w2)
        | (Inr (Some t), w2) \<Rightarrow> (None, w2))"

definition OpenStrict ::
  "'w nativeDatabase option \<Rightarrow> pgOptions \<Rightarrow> duration \<Rightarrow> 'w ctx option \<Rightarrow> 'w \<Rightarrow> (go_error + 'w pgStore) \<times> 'w" where
  "OpenStrict pool options rollbackTimeout ctx w =
     (if ctx = None then (Inl context_required, w)
      else case NewStrict pool options rollbackTimeout of
        Inl err \<Rightarrow> (Inl err, w)
      | Inr store \<Rightarrow>
        (case CheckStrict (Some store) ctx w of (Some err, w1) \<Rightarrow> (Inl err, w1) | (None, w1) \<Rightarrow> (Inr store, w1)))"

definition CleanupStrict :: "'w pgStore option \<Rightarrow> 'w ctx option \<Rightarrow> int \<Rightarrow> 'w \<Rightarrow> int \<times> go_error option \<times> 'w" where
  "CleanupStrict store ctx0 batch w =
     (case pg_strictReady store ctx0 of
        Inl err \<Rightarrow> (0, Some err, w)
      | Inr (s, native, ctx) \<Rightarrow>
        if batch < 1 \<or> batch > MaxCleanupBatch then (0, Some (Wrapped ''cleanup batch must be positive'' ErrInvalidRequest), w)
        else let (ce, w1) = postgresStrictContext ctx w in
        if ce \<noteq> None then (0, ce, w1)
        else case db_cleanup (ne_database native) batch w1 of
          (Inl err, w2) \<Rightarrow> let (e, w3) = ctx w2 in (0, Some (UnknownOutcome e), w3)
        | (Inr count, w2) \<Rightarrow> (count, None, w2))"

end
