(* ===== verification/Postgres_Outcomes.thy ===== *)
theory Postgres_Outcomes
  imports Postgres_Store
begin

text \<open>
  What a strict operation on PostgreSQL leaves behind and reports. The database is
  arbitrary; a log records how each transaction begins, writes and ends. From it
  follow the discipline of the transactions and, with the checks on states and
  decisions, that the strict service over this store reports an unknown outcome only
  when the beginning, the commit or the rollback of a transaction failed.
\<close>

section \<open>A log of transactions\<close>

datatype pg_event = Begin bool | Write bool | Commit bool | Rollback bool

type_synonym 'w logged = "'w \<times> pg_event list"

definition silent :: "('w \<Rightarrow> 'a \<times> 'w) \<Rightarrow> 'w logged \<Rightarrow> 'a \<times> 'w logged" where
  "silent f wl = (let (x, w) = f (fst wl) in (x, (w, snd wl)))"

definition noted :: "('a \<Rightarrow> pg_event) \<Rightarrow> ('w \<Rightarrow> 'a \<times> 'w) \<Rightarrow> 'w logged \<Rightarrow> 'a \<times> 'w logged" where
  "noted event f wl = (let (x, w) = f (fst wl) in (x, (w, snd wl @ [event x])))"

text \<open>A transaction that notes its writes and how it ends.\<close>

definition logged_tx :: "'w nativeTransaction \<Rightarrow> 'w logged nativeTransaction" where
  "logged_tx tx =
     \<lparr>tx_setLockTimeout = \<lambda>s. silent (tx_setLockTimeout tx s),
      tx_lockAndTime = \<lambda>k. silent (tx_lockAndTime tx k),
      tx_selectState = \<lambda>k. silent (tx_selectState tx k),
      tx_selectStateStrict = \<lambda>k n. silent (tx_selectStateStrict tx k n),
      tx_deleteState = \<lambda>k. noted (\<lambda>e. Write (e = None)) (tx_deleteState tx k),
      tx_upsertState = \<lambda>k doc t u. noted (\<lambda>e. Write (e = None)) (tx_upsertState tx k doc t u),
      tx_lockCommand = \<lambda>a b. silent (tx_lockCommand tx a b),
      tx_selectCommand = \<lambda>c n. silent (tx_selectCommand tx c n),
      tx_lockBucket = \<lambda>k. silent (tx_lockBucket tx k),
      tx_clockTimestamp = silent (tx_clockTimestamp tx),
      tx_insertCommand = \<lambda>c i x. noted (\<lambda>e. Write (e = None)) (tx_insertCommand tx c i x),
      tx_commit = noted (\<lambda>e. Commit (e = None)) (tx_commit tx),
      tx_rollback = \<lambda>t. noted (\<lambda>e. Rollback (e = None)) (tx_rollback tx t)\<rparr>"

definition logged_db :: "'w nativeDatabase \<Rightarrow> 'w logged nativeDatabase" where
  "logged_db db =
     \<lparr>db_begin = \<lambda>wl. (case db_begin db (fst wl) of
          (Inl err, w) \<Rightarrow> (Inl err, (w, snd wl @ [Begin False]))
        | (Inr tx, w) \<Rightarrow> (Inr (logged_tx tx), (w, snd wl @ [Begin True]))),
      db_table = silent (db_table db), db_cleanup = \<lambda>n. silent (db_cleanup db n)\<rparr>"

text \<open>Contexts and clocks do not write to the log.\<close>

definition quiet :: "('w logged \<Rightarrow> 'a \<times> 'w logged) \<Rightarrow> bool" where
  "quiet f \<longleftrightarrow> (\<forall>wl. snd (snd (f wl)) = snd wl)"

lemma quietD: "quiet f \<Longrightarrow> f (w, log) = (x, (w', log')) \<Longrightarrow> log' = log"
  unfolding quiet_def by (metis snd_conv)

lemma quiet_silent: "quiet (silent f)"
  by (simp add: quiet_def silent_def Let_def case_prod_beta)

definition unknown :: "go_error option \<Rightarrow> bool" where
  "unknown err \<longleftrightarrow> (\<exists>c. err = Some (StrictOutcome strictOutcomeUnknown c))"

lemma unknown_simps [simp]:
  "unknown (Some (UnknownOutcome e))" "\<not> unknown None" "\<not> unknown (Some CanceledOutcome)" "\<not> unknown (Some DeadlineOutcome)"
  "\<not> unknown (Some ErrRejected)" "\<not> unknown (Some ErrOverflow)" "\<not> unknown (Some ErrCorrupt)" "\<not> unknown (Some ErrUnavailable)"
  "\<not> unknown (Some ErrLeaseNotFound)" "\<not> unknown (Some ErrLeaseNotOwned)" "\<not> unknown (Some ErrUnsupported)"
  by (simp_all add: unknown_def UnknownOutcome_def CanceledOutcome_def DeadlineOutcome_def)

text \<open>
  What the events of one operation say about its result. Without a transaction the
  outcome is unknown. A committed one ends with its commit, after a write, and reports
  success or rejection. Otherwise it ends with one rollback, an error and the zero
  result; the outcome is unknown exactly if a commit or the rollback failed.
\<close>

definition settled :: "pg_event list \<Rightarrow> go_error option \<Rightarrow> bool \<Rightarrow> bool" where
  "settled evs err isZero \<longleftrightarrow>
     evs = [Begin False] \<and> unknown err \<and> isZero \<or>
     (\<exists>body. evs = Begin True # body @ [Commit True] \<and> set body \<subseteq> {Write True} \<and> body \<noteq> [] \<and>
        (err = None \<or> err = Some ErrRejected)) \<or>
     (\<exists>body ok. evs = Begin True # body @ [Rollback ok] \<and> set body \<subseteq> {Write True, Write False, Commit False} \<and>
        err \<noteq> None \<and> isZero \<and> (unknown err \<longleftrightarrow> Commit False \<in> set body \<or> \<not> ok))"

definition settles :: "'r \<Rightarrow> ('w logged \<Rightarrow> 'r \<times> go_error option \<times> 'w logged) \<Rightarrow> bool" where
  "settles zero operation \<longleftrightarrow>
     (\<forall>w log r err w' log'. operation (w, log) = (r, err, (w', log')) \<longrightarrow>
        (\<exists>evs. log' = log @ evs \<and> settled evs err (r = zero)))"

section \<open>Categories\<close>

lemma strictContext_quiet:
  assumes "quiet ctx" "postgresStrictContext ctx (w, log) = (e, (w', log'))"
  shows "log' = log" "e \<in> {None, Some CanceledOutcome, Some DeadlineOutcome}"
  using assms
  by (auto simp: postgresStrictContext_def Let_def split: prod.splits if_splits dest!: quietD [OF assms(1)])

text \<open>The categories that a failure before the commit is reported as.\<close>

definition precommit_errors :: "go_error set" where
  "precommit_errors = {ErrRejected, ErrOverflow, ErrCorrupt, ErrLeaseNotFound, ErrLeaseNotOwned, ErrUnavailable,
     CanceledOutcome, DeadlineOutcome}"

lemma precommit_quiet:
  assumes "quiet ctx" "postgresPrecommitCategory ctx err (w, log) = (e, (w', log'))"
  shows "log' = log" "e = None \<longleftrightarrow> err = None" "err \<noteq> None \<Longrightarrow> e \<in> Some ` precommit_errors"
    "e = Some ErrRejected \<longleftrightarrow> err = Some ErrRejected"
proof -
  have "log' = log \<and> (e = None \<longleftrightarrow> err = None) \<and> (err \<noteq> None \<longrightarrow> e \<in> Some ` precommit_errors) \<and>
      (e = Some ErrRejected \<longleftrightarrow> err = Some ErrRejected)"
  proof (cases err)
    case None
    then show ?thesis using assms(2) by (simp add: postgresPrecommitCategory_def)
  next
    case (Some x)
    show ?thesis
    proof (cases "x \<in> {ErrRejected, ErrOverflow, ErrCorrupt, ErrLeaseNotFound, ErrLeaseNotOwned}")
      case True
      then show ?thesis using assms(2) Some by (auto simp: postgresPrecommitCategory_def precommit_errors_def)
    next
      case False
      obtain ce w1 log1 where c: "postgresStrictContext ctx (w, log) = (ce, (w1, log1))"
        by (metis prod_cases3)
      note sc = strictContext_quiet [OF assms(1) c]
      have "(\<exists>y. x = PersistedStateError y) \<and> e = Some ErrCorrupt \<and> log' = log \<or>
          e = Some (case ce of Some z \<Rightarrow> z | None \<Rightarrow> ErrUnavailable) \<and> log' = log1"
        using assms(2) Some False c
        by (cases x) (auto simp: postgresPrecommitCategory_def Let_def split: option.splits)
      then show ?thesis using sc Some False by (auto simp: precommit_errors_def CanceledOutcome_def DeadlineOutcome_def)
    qed
  qed
  then show "log' = log" "e = None \<longleftrightarrow> err = None" "err \<noteq> None \<Longrightarrow> e \<in> Some ` precommit_errors"
    "e = Some ErrRejected \<longleftrightarrow> err = Some ErrRejected" by blast+
qed

lemma precommit_known: "e \<in> Some ` precommit_errors \<Longrightarrow> \<not> unknown e \<and> e \<noteq> None"
  by (auto simp: precommit_errors_def)

section \<open>The body of a transaction\<close>

text \<open>
  What the body of a strict operation has logged since the transaction began, before
  the deferred rollback.
\<close>

definition body_ok :: "pg_event list \<Rightarrow> 'r \<Rightarrow> 'r \<Rightarrow> go_error option \<Rightarrow> bool \<Rightarrow> bool" where
  "body_ok evs zero r err committed \<longleftrightarrow>
     (if committed
      then (\<exists>body. evs = body @ [Commit True] \<and> set body \<subseteq> {Write True} \<and> body \<noteq> [] \<and> (err = None \<or> err = Some ErrRejected))
      else set evs \<subseteq> {Write True, Write False, Commit False} \<and> err \<noteq> None \<and> r = zero \<and>
           (unknown err \<longleftrightarrow> Commit False \<in> set evs))"

definition runs_body :: "'r \<Rightarrow> ('w logged \<Rightarrow> 'r \<times> go_error option \<times> bool \<times> 'w logged) \<Rightarrow> bool" where
  "runs_body zero body \<longleftrightarrow>
     (\<forall>w log r err c w' log'. body (w, log) = (r, err, c, (w', log')) \<longrightarrow>
        (\<exists>evs. log' = log @ evs \<and> body_ok evs zero r err c))"

lemma runs_bodyD:
  "runs_body zero body \<Longrightarrow> body (w, log) = (r, err, c, (w', log')) \<Longrightarrow> \<exists>evs. log' = log @ evs \<and> body_ok evs zero r err c"
  unfolding runs_body_def by blast

lemma early_exit:
  assumes "quiet ctx" "postgresPrecommitCategory ctx (Some e) (w, log) = (err, (w', log'))" "set evs \<subseteq> {Write True, Write False}"
  shows "log' = log" "body_ok evs zero zero err False"
  using precommit_quiet [OF assms(1,2)] precommit_known [of err] assms(3) by (auto simp: body_ok_def)

text \<open>Writing and committing, after earlier writes.\<close>

lemma commit_strict_body:
  assumes q: "quiet ctx"
    and c: "commit_strict ctx (logged_tx tx) (noted (\<lambda>e. Write (e = None)) f) zero r resultErr (w, log @ evs0) = (r', err, c, (w', log'))"
    and res: "resultErr = None \<or> resultErr = Some ErrRejected" and evs0: "set evs0 \<subseteq> {Write True}"
  shows "\<exists>evs. log' = log @ evs \<and> body_ok evs zero r' err c"
proof -
  obtain e1 w1 where wr: "f w = (e1, w1)" by (cases "f w")
  show ?thesis
  proof (cases e1)
    case (Some x)
    obtain e w2 log2 where p: "postgresPrecommitCategory ctx (Some x) (w1, log @ evs0 @ [Write False]) = (e, (w2, log2))"
      by (metis prod_cases3)
    have out: "r' = zero" "err = e" "c = False" "log' = log2"
      using c wr Some p by (simp_all add: commit_strict_def noted_def)
    have "set (evs0 @ [Write False]) \<subseteq> {Write True, Write False}" using evs0 by auto
    note ee = early_exit [OF q p this]
    show ?thesis using out ee(1) ee(2) [of zero] by (intro exI [of _ "evs0 @ [Write False]"]) simp
  next
    case None
    obtain e2 w2 where cm: "tx_commit tx w1 = (e2, w2)" by (cases "tx_commit tx w1")
    show ?thesis
    proof (cases e2)
      case (Some x)
      obtain ce w3 log3 where ct: "ctx (w2, log @ evs0 @ [Write True, Commit False]) = (ce, (w3, log3))" by (metis prod_cases3)
      have out: "r' = zero" "err = Some (UnknownOutcome ce)" "c = False" "log' = log3"
        using c wr None cm Some ct by (simp_all add: commit_strict_def noted_def logged_tx_def)
      show ?thesis using out quietD [OF q ct] evs0
        by (intro exI [of _ "evs0 @ [Write True, Commit False]"]) (auto simp: body_ok_def)
    next
      case none: None
      obtain e w3 log3 where p: "postgresPrecommitCategory ctx resultErr (w2, log @ evs0 @ [Write True, Commit True]) = (e, (w3, log3))"
        by (metis prod_cases3)
      have out: "err = e" "c = True" "log' = log3"
        using c wr None cm none p by (simp_all add: commit_strict_def noted_def logged_tx_def)
      have "e = None \<or> e = Some ErrRejected" using precommit_quiet(2,4) [OF q p] res by auto
      then show ?thesis using out precommit_quiet(1) [OF q p] evs0
        by (intro exI [of _ "evs0 @ [Write True, Commit True]"])
          (auto simp: body_ok_def intro!: exI [of _ "evs0 @ [Write True]"])
    qed
  qed
qed

text \<open>Loading a state writes at most the deletion of an expired row.\<close>

lemma load_strict_log:
  assumes "loadStateStrict (logged_tx tx) key now (w, log) = (x, (w', log'))"
  shows "\<exists>evs. log' = log @ evs \<and> set evs \<subseteq> {Write True, Write False} \<and> (\<forall>y. x = Inr y \<longrightarrow> set evs \<subseteq> {Write True})"
  using assms
  by (auto simp: loadStateStrict_def logged_tx_def silent_def noted_def Let_def
      split: scan.splits prod.splits option.splits if_splits)

lemma load_release_log:
  assumes "loadStateForReleaseStrict (logged_tx tx) key (w, log) = (x, (w', log'))"
  shows "log' = log"
  using assms
  by (auto simp: loadStateForReleaseStrict_def logged_tx_def silent_def Let_def split: scan.splits prod.splits if_splits)

lemma finish_settles:
  assumes q: "quiet ctx" and b: "log1 = log @ Begin True # evs" "body_ok evs zero r err c"
    and f: "finish_strict ctx (logged_tx tx) deadline zero (r, err, c, (w, log1)) = (r', err', (w', log'))"
  shows "\<exists>evs. log' = log @ evs \<and> settled evs err' (r' = zero)"
proof (cases c)
  case True
  then have "r' = r" "err' = err" "log' = log1" using f by (simp_all add: finish_strict_def)
  then show ?thesis using b True by (auto simp: settled_def body_ok_def)
next
  case False
  obtain e w1 where rb: "tx_rollback tx (Some deadline) w = (e, w1)" by (cases "tx_rollback tx (Some deadline) w")
  show ?thesis
  proof (cases e)
    case None
    then have "r' = r" "err' = err" "log' = log1 @ [Rollback True]"
      using f False rb by (simp_all add: finish_strict_def rollbackStrict_def logged_tx_def noted_def)
    then show ?thesis using b False by (auto simp: settled_def body_ok_def)
  next
    case (Some x)
    obtain ce w2 log2 where ct: "ctx (w1, log1 @ [Rollback False]) = (ce, (w2, log2))" by (metis prod_cases3)
    then have "r' = zero" "err' = Some (UnknownOutcome ce)" "log' = log1 @ [Rollback False]"
      using f False rb Some quietD [OF q ct] by (simp_all add: finish_strict_def rollbackStrict_def logged_tx_def noted_def)
    then show ?thesis using b False by (auto simp: settled_def body_ok_def)
  qed
qed

section \<open>The operations\<close>

lemma consume_errors: "snd (snd (consume st r reset)) \<in> {None, Some ErrRejected}"
  by (simp add: consume_def Let_def)

lemma mutate_errors:
  "snd (snd (mutateToken st r)) \<in> {None, Some ErrRejected}" "snd (snd (mutateFixed st r)) \<in> {None, Some ErrRejected}"
  "snd (snd (mutateSliding st r)) \<in> {None, Some ErrRejected}"
  using consume_errors by (auto simp: mutateToken_def mutateFixed_def mutateSliding_def Let_def case_prod_beta)

lemma strict_prepare_errors: "strict_prepare st r = Inl e \<Longrightarrow> e = ErrOverflow \<or> e = ErrCorrupt"
  by (auto simp: strict_prepare_def validateServerClockRange_def validateSlidingPositions_def Let_def
      split: if_splits option.splits prod.splits)

lemma mutateState_errors:
  assumes "mutateState cur r = (nxt, d, err)"
  shows "err \<in> {None, Some ErrRejected} \<and> nxt \<noteq> None \<or> err \<in> {Some ErrCorrupt, Some ErrOverflow}"
proof -
  have st: "state_for cur r True = Inl e \<Longrightarrow> e = ErrCorrupt" for e
    by (auto simp: state_for_def split: option.splits if_splits)
  have alg: "(case p_algorithm (r_Policy q) of TokenBucket \<Rightarrow> mutateToken s q | FixedWindow \<Rightarrow> mutateFixed s q
      | _ \<Rightarrow> mutateSliding s q) = (n, d', e) \<Longrightarrow> e \<in> {None, Some ErrRejected}" for q s n d' e
    using mutate_errors [of s q] by (auto split: algorithm.splits)
  show ?thesis
    using assms
    by (auto simp: mutateState_def mutateStateMode_def Let_def dest!: st strict_prepare_errors dest: alg
        split: if_splits sum.splits prod.splits)
qed

lemma decision_result_quiet:
  assumes q: "quiet ctx" and m: "mutateState cur r = (nxt, d0, err0)"
    and s: "strictPostgresDecisionResult ctx nxt d0 err0 (w, log) = ((d, err), (w', log'))"
  shows "log' = log" "err = None \<or> err = Some ErrRejected \<or> d = zero_Decision \<and> err \<in> Some ` precommit_errors"
proof -
  note me = mutateState_errors [OF m]
  have "log' = log \<and> (err = None \<or> err = Some ErrRejected \<or> d = zero_Decision \<and> err \<in> Some ` precommit_errors)"
  proof (cases "err0 \<noteq> None \<and> \<not> Is err0 ErrRejected")
    case True
    then obtain p: "postgresPrecommitCategory ctx err0 (w, log) = (err, (w', log'))" and "d = zero_Decision"
      using s by (auto simp: strictPostgresDecisionResult_def Let_def split: prod.splits)
    then show ?thesis using precommit_quiet [OF q p] True by auto
  next
    case False
    then have "err0 = None \<or> err0 = Some ErrRejected" using me by auto
    then show ?thesis using s False
      by (auto simp: strictPostgresDecisionResult_def pg_validateStrictDecisionTime_def precommit_errors_def split: if_splits)
  qed
  then show "log' = log" "err = None \<or> err = Some ErrRejected \<or> d = zero_Decision \<and> err \<in> Some ` precommit_errors" by blast+
qed

text \<open>The exits of a body before it writes its result.\<close>

lemma plain_exit: "e \<in> precommit_errors \<Longrightarrow> set evs \<subseteq> {Write True, Write False} \<Longrightarrow> body_ok evs zero zero (Some e) False"
  using precommit_known [of "Some e"] by (auto simp: body_ok_def)

text \<open>The common shape of admission and acquisition.\<close>

definition guarded ::
  "'w ctx \<Rightarrow> 'w nativeTransaction \<Rightarrow> string \<Rightarrow> time \<Rightarrow> go_error option \<Rightarrow>
   (persistedState option \<Rightarrow> 'w \<Rightarrow> ('r \<times> go_error option) \<times> 'w) \<Rightarrow>
   (persistedState option \<Rightarrow> 'w \<Rightarrow> go_error option \<times> 'w) \<Rightarrow> 'r \<Rightarrow> 'w \<Rightarrow> 'r \<times> go_error option \<times> bool \<times> 'w" where
  "guarded ctx tx key now check decide write zero w =
     (case check of
        Some err \<Rightarrow> (zero, Some err, False, w)
      | None \<Rightarrow>
        (case loadStateStrict tx key now w of
           (Inl err, w1) \<Rightarrow> let (e, w2) = postgresPrecommitCategory ctx (Some err) w1 in (zero, e, False, w2)
         | (Inr current, w1) \<Rightarrow>
           let ((r, e), w2) = decide current w1 in
           if e \<noteq> None \<and> \<not> Is e ErrRejected then (zero, e, False, w2)
           else commit_strict ctx tx (write current) zero r e w2))"

lemma guarded_body:
  assumes q: "quiet ctx" and check: "check = None \<or> check = Some ErrOverflow"
    and decide: "\<And>cur w log r e w' log'. decide cur (w, log) = ((r, e), (w', log')) \<Longrightarrow>
      log' = log \<and> (e = None \<or> e = Some ErrRejected \<or> e \<in> Some ` precommit_errors)"
    and wr: "\<And>cur. \<exists>f. write cur = noted (\<lambda>e. Write (e = None)) f"
  shows "runs_body zero (guarded ctx (logged_tx tx) key now check decide write zero)"
  unfolding runs_body_def
proof (intro allI impI)
  fix w log r err c w' log'
  assume a: "guarded ctx (logged_tx tx) key now check decide write zero (w, log) = (r, err, c, (w', log'))"
  have overflow: "body_ok [] zero zero (Some ErrOverflow) False" by (simp add: plain_exit precommit_errors_def)
  show "\<exists>evs. log' = log @ evs \<and> body_ok evs zero r err c"
  proof (cases check)
    case (Some e)
    then show ?thesis using a check overflow by (intro exI [of _ "[]"]) (auto simp: guarded_def)
  next
    case None
    obtain x w1 log1 where ld: "loadStateStrict (logged_tx tx) key now (w, log) = (x, (w1, log1))" by (metis prod_cases3)
    obtain evs where evs: "log1 = log @ evs" "set evs \<subseteq> {Write True, Write False}" "\<forall>y. x = Inr y \<longrightarrow> set evs \<subseteq> {Write True}"
      using load_strict_log [OF ld] by blast
    show ?thesis
    proof (cases x)
      case (Inl e)
      obtain e' w2 log2 where p: "postgresPrecommitCategory ctx (Some e) (w1, log1) = (e', (w2, log2))" by (metis prod_cases3)
      have "r = zero" "err = e'" "c = False" "log' = log2" using a None ld Inl p by (simp_all add: guarded_def)
      then show ?thesis using evs(1) early_exit(1) [OF q p evs(2)] early_exit(2) [OF q p evs(2), of zero] by auto
    next
      case (Inr cur)
      obtain r1 e1 w2 log2 where d: "decide cur (w1, log1) = ((r1, e1), (w2, log2))" by (metis prod.exhaust)
      note dr = decide [OF d]
      obtain f where f: "write cur = noted (\<lambda>e. Write (e = None)) f" using wr by blast
      show ?thesis
      proof (cases "e1 = None \<or> e1 = Some ErrRejected")
        case True
        then have "commit_strict ctx (logged_tx tx) (write cur) zero r1 e1 (w2, log @ evs) = (r, err, c, (w', log'))"
          using a None ld Inr d dr evs(1) by (auto simp: guarded_def)
        then show ?thesis using commit_strict_body [OF q _ True] evs(3) Inr f by simp
      next
        case False
        then obtain e where e: "e1 = Some e" "e \<in> precommit_errors" "\<not> errors_Is e ErrRejected"
          using dr by (auto simp: precommit_errors_def CanceledOutcome_def DeadlineOutcome_def strictOutcome_Is_def)
        then have "r = zero" "err = Some e" "c = False" "log' = log @ evs"
          using a None ld Inr d dr evs(1) by (simp_all add: guarded_def)
        then show ?thesis using plain_exit [OF e(2) evs(2), of zero] by blast
      qed
    qed
  qed
qed

lemma server_check: "(if b then validateServerClockRange t p else None) = None \<or>
    (if b then validateServerClockRange t p else None) = Some ErrOverflow"
  by (simp add: validateServerClockRange_def Let_def)

lemma admitStrict_guarded:
  "admitStrict_locked ctx executor tx serverNow key r =
     (let server = (po_Clock (ne_options executor) = ServerClock);
          r = (if server then r\<lparr>r_Now := serverNow\<rparr> else r); p = r_Policy r
      in guarded ctx tx key (r_Now r) (if server then validateServerClockRange (r_Now r) (p_period p) else None)
           (\<lambda>cur. strictPostgresDecisionResult ctx (fst (mutateState cur r)) (fst (snd (mutateState cur r))) (snd (snd (mutateState cur r))))
           (\<lambda>cur. let effective = time_UnixMicro (ps_ObservedMicros (the (fst (mutateState cur r)))) in
              tx_upsertState tx key (encodeState (the (fst (mutateState cur r)))) (time_Add effective (postgresAdmissionTTL p)) effective)
           zero_Decision)"
  unfolding fun_eq_iff admitStrict_locked_def guarded_def Let_def case_prod_unfold by simp

lemma admitStrict_body:
  assumes q: "quiet ctx"
  shows "runs_body zero_Decision (admitStrict_locked ctx executor (logged_tx tx) now key r)"
  unfolding admitStrict_guarded Let_def
proof (rule guarded_body [OF q server_check])
  fix cur w log d e w' log' and r1 :: request
  assume "strictPostgresDecisionResult ctx (fst (mutateState cur r1)) (fst (snd (mutateState cur r1)))
      (snd (snd (mutateState cur r1))) (w, log) = ((d, e), (w', log'))"
  then show "log' = log \<and> (e = None \<or> e = Some ErrRejected \<or> e \<in> Some ` precommit_errors)"
    using decision_result_quiet [OF q, of cur r1 "fst (mutateState cur r1)"] by (metis prod.collapse)
qed (auto simp: logged_tx_def)

lemma mutateLease_errors:
  assumes "mutateLease cur lr digest = (nxt, l, d, err)"
  shows "err \<in> {None, Some ErrRejected} \<and> nxt \<noteq> None \<or> err \<in> {Some ErrCorrupt, Some ErrOverflow, Some ErrLeaseNotOwned}"
proof -
  have st: "lease_state_for cur r True = Inl e \<Longrightarrow> e = ErrCorrupt" for r e
    by (auto simp: lease_state_for_def validateConcurrencyState_def split: option.splits if_splits)
  have dec: "decideLease c q k u m = (n, l', d', e) \<Longrightarrow> e \<in> {None, Some ErrRejected, Some ErrLeaseNotOwned}" for c q k u m n l' d' e
    by (auto simp: decideLease_def Let_def split: option.splits if_splits)
  show ?thesis
    using assms
    by (auto simp: mutateLease_def mutateLeaseMode_def validateServerClockRange_def Let_def dest!: st dest: dec
        split: if_splits sum.splits prod.splits option.splits)
qed

lemma lease_result_quiet:
  assumes q: "quiet ctx" and m: "mutateLease cur lr digest = (nxt, l0, d0, err0)"
    and s: "strictPostgresLeaseResult ctx nxt l0 d0 err0 (w, log) = ((l, d, err), (w', log'))"
  shows "log' = log \<and> (err = None \<or> err = Some ErrRejected \<or> err \<in> Some ` precommit_errors)"
proof -
  note me = mutateLease_errors [OF m]
  show ?thesis
  proof (cases "err0 \<noteq> None \<and> \<not> Is err0 ErrRejected")
    case True
    then obtain p: "postgresPrecommitCategory ctx err0 (w, log) = (err, (w', log'))"
      using s by (auto simp: strictPostgresLeaseResult_def Let_def split: prod.splits)
    then show ?thesis using precommit_quiet [OF q p] True by auto
  next
    case False
    then have "err0 = None \<or> err0 = Some ErrRejected" using me by auto
    then show ?thesis using s False
      by (auto simp: strictPostgresLeaseResult_def pg_validateStrictLeaseTime_def pg_validateStrictDecisionTime_def
          precommit_errors_def split: if_splits)
  qed
qed

lemma acquireStrict_guarded:
  "acquireStrict_locked ctx executor tx serverNow key lr digest =
     (let server = (po_Clock (ne_options executor) = ServerClock);
          lr = (if server then lr\<lparr>lr_Request := (lr_Request lr)\<lparr>r_Now := serverNow\<rparr>\<rparr> else lr); p = r_Policy (lr_Request lr)
      in guarded ctx tx key (r_Now (lr_Request lr))
           (if server then validateServerClockRange (r_Now (lr_Request lr)) (p_lease p) else None)
           (\<lambda>cur w. case mutateLease cur lr digest of (nxt, l0, d0, err0) \<Rightarrow>
              (case strictPostgresLeaseResult ctx nxt l0 d0 err0 w of ((l, d, e), w1) \<Rightarrow> (((l, d), e), w1)))
           (\<lambda>cur. let effective = time_UnixMicro (ps_ObservedMicros (the (fst (mutateLease cur lr digest)))) in
              tx_upsertState tx key (encodeState (the (fst (mutateLease cur lr digest))))
                (time_Add effective (postgresStateTTL (p_lease p))) effective)
           (zero_Lease, zero_Decision))"
  unfolding fun_eq_iff acquireStrict_locked_def guarded_def Let_def case_prod_unfold fst_conv snd_conv by simp

lemma acquireStrict_body:
  assumes q: "quiet ctx"
  shows "runs_body (zero_Lease, zero_Decision) (acquireStrict_locked ctx executor (logged_tx tx) now key lr digest)"
  unfolding acquireStrict_guarded Let_def
proof (rule guarded_body [OF q server_check])
  fix cur w log ld e w' log' and lr1 :: leaseRequest
  assume a: "(case mutateLease cur lr1 digest of (nxt, l0, d0, err0) \<Rightarrow>
      (case strictPostgresLeaseResult ctx nxt l0 d0 err0 (w, log) of ((l, d, e), w1) \<Rightarrow> (((l, d), e), w1))) = ((ld, e), (w', log'))"
  obtain nxt l0 d0 err0 where m: "mutateLease cur lr1 digest = (nxt, l0, d0, err0)" by (metis prod.exhaust)
  then obtain l d where "strictPostgresLeaseResult ctx nxt l0 d0 err0 (w, log) = ((l, d, e), (w', log'))"
    using a by (auto split: prod.splits)
  then show "log' = log \<and> (e = None \<or> e = Some ErrRejected \<or> e \<in> Some ` precommit_errors)"
    by (rule lease_result_quiet [OF q m])
qed (auto simp: logged_tx_def)

lemma releaseStrict_body:
  assumes q: "quiet ctx"
  shows "runs_body () (releaseStrict_locked ctx (logged_tx tx) now key l digest)"
  unfolding runs_body_def
proof (intro allI impI)
  fix w log u err c w' log'
  assume a: "releaseStrict_locked ctx (logged_tx tx) now key l digest (w, log) = (u, err, c, (w', log'))"
  obtain x w1 log1 where ld: "loadStateForReleaseStrict (logged_tx tx) key (w, log) = (x, (w1, log1))" by (metis prod_cases3)
  note ll = load_release_log [OF ld]
  have exit: "e \<in> precommit_errors \<Longrightarrow> body_ok [] () () (Some e) False" for e by (simp add: plain_exit)
  show "\<exists>evs. log' = log @ evs \<and> body_ok evs () u err c"
  proof (cases "\<exists>cur existing. x = Inr (Some cur) \<and> validateConcurrencyState cur (l_PolicyID l) = None \<and>
      map_of (ps_Leases cur) digest = Some existing \<and> \<not> (pl_Cost existing \<noteq> l_Cost l \<or> pl_ExpiresMicros existing \<noteq> UnixMicro (l_ExpiresAt l))")
    case True
    then obtain f where "commit_strict ctx (logged_tx tx) (noted (\<lambda>e. Write (e = None)) f) () () None (w1, log @ []) = (u, err, c, (w', log'))"
      using a ld ll by (auto simp: releaseStrict_locked_def Let_def logged_tx_def split: if_splits)
    then show ?thesis using commit_strict_body [OF q] by fastforce
  next
    case False
    show ?thesis
    proof (cases x)
      case (Inl e)
      obtain e' w2 log2 where p: "postgresPrecommitCategory ctx (Some e) (w1, log1) = (e', (w2, log2))" by (metis prod_cases3)
      show ?thesis using a ld Inl p ll early_exit(1) [OF q p, of "[]"] early_exit(2) [OF q p, of "[]" "()"]
        by (auto simp: releaseStrict_locked_def intro!: exI [of _ "[]"])
    next
      case (Inr cur)
      have corrupt: "validateConcurrencyState st i = Some e \<Longrightarrow> e = ErrCorrupt" for st i e
        by (auto simp: validateConcurrencyState_def split: if_splits)
      note a = a [unfolded releaseStrict_locked_def ld Inr]
      have "log' = log1 \<and> c = False \<and> (\<exists>e. err = Some e \<and> e \<in> precommit_errors)"
      proof (cases cur)
        case None
        then show ?thesis using a by (auto simp: precommit_errors_def)
      next
        case (Some st)
        show ?thesis
        proof (cases "validateConcurrencyState st (l_PolicyID l)")
          case (Some e)
          then have "Some e = err \<and> c = False \<and> log' = log1" using a \<open>cur = Some st\<close> by simp
          moreover have "e \<in> precommit_errors" using corrupt [OF Some] by (simp add: precommit_errors_def)
          ultimately show ?thesis by blast
        next
          case None
          then show ?thesis using a \<open>cur = Some st\<close> False Inr
            by (cases "map_of (ps_Leases st) digest") (auto simp: precommit_errors_def)
        qed
      qed
      then show ?thesis using exit ll by (intro exI [of _ "[]"]) auto
    qed
  qed
qed

definition with_log :: "'w nativeExecutor \<Rightarrow> 'w logged nativeExecutor" where
  "with_log executor = \<lparr>ne_database = logged_db (ne_database executor), ne_options = ne_options executor\<rparr>"

lemma beginLockedStrict_log:
  assumes q: "quiet ctx" "quiet clock"
    and b: "beginLockedStrict clock ctx (with_log executor) key T (w, log) = ((t, now, deadline, err), (w', log'))"
  shows "t = None \<and> unknown err \<and> log' = log @ [Begin False] \<or>
    (\<exists>tx. t = Some (logged_tx tx) \<and> log' = log @ [Begin True] \<and> (err = None \<or> err \<in> Some ` precommit_errors))"
proof (cases "fst (db_begin (ne_database executor) w)")
  case (Inl e)
  obtain w1 where w1: "db_begin (ne_database executor) w = (Inl e, w1)" using Inl by (metis prod.collapse)
  obtain ce w2 log2 where c: "ctx (w1, log @ [Begin False]) = (ce, (w2, log2))" by (metis prod_cases3)
  show ?thesis
    using b w1 c quietD [OF q(1) c] by (auto simp: beginLockedStrict_def with_log_def logged_db_def)
next
  case (Inr tx)
  let ?tx = "logged_tx tx" and ?ms = "decimal_digits (nat (lockMilliseconds (po_LockTimeout (ne_options executor)))) @ ''ms''"
  obtain w1 where w1: "db_begin (ne_database executor) w = (Inr tx, w1)" using Inr by (metis prod.collapse)
  obtain n0 w2 log2 where cl: "clock (w1, log @ [Begin True]) = (n0, (w2, log2))" by (metis prod_cases3)
  have l2: "log2 = log @ [Begin True]" using quietD [OF q(2) cl] .
  obtain e3 w3 where s3: "tx_setLockTimeout tx ?ms w2 = (e3, w3)" by (cases "tx_setLockTimeout tx ?ms w2")
  obtain x4 w4 where s4: "tx_lockAndTime tx (advisoryKey key) w3 = (x4, w4)" by (cases "tx_lockAndTime tx (advisoryKey key) w3")
  obtain p3 w3' log3 where p3: "\<And>e. e3 = Some e \<Longrightarrow> postgresPrecommitCategory ctx (Some e) (w3, log2) = (p3, (w3', log3))"
    by (metis option.inject prod_cases3)
  obtain p4 w4' log4 where p4: "\<And>e. x4 = Inl e \<Longrightarrow> postgresPrecommitCategory ctx (Some e) (w4, log2) = (p4, (w4', log4))"
    by (metis sum.inject(1) prod_cases3)
  have sel: "tx_setLockTimeout ?tx ?ms (w2, log2) = (e3, (w3, log2))"
    "tx_lockAndTime ?tx (advisoryKey key) (w3, log2) = (x4, (w4, log2))"
    using s3 s4 by (simp_all add: logged_tx_def silent_def)
  have bg: "db_begin (ne_database (with_log executor)) (w, log) = (Inr ?tx, (w1, log @ [Begin True]))"
    "ne_options (with_log executor) = ne_options executor"
    using w1 by (simp_all add: with_log_def logged_db_def)
  note b = b [unfolded beginLockedStrict_def bg Let_def]
  show ?thesis
  proof (cases e3)
    case (Some e)
    then show ?thesis using b cl sel p3 precommit_quiet [OF q(1) p3] l2 by auto
  next
    case None
    show ?thesis
    proof (cases x4)
      case (Inl e)
      then show ?thesis using b cl None sel p4 precommit_quiet [OF q(1) p4] l2 by auto
    next
      case (Inr t)
      then show ?thesis using b cl None sel l2 by auto
    qed
  qed
qed

lemma operation_settles:
  assumes q: "quiet ctx" "quiet clock" and body: "\<And>tx now. runs_body zero (body (logged_tx tx) now)"
    and op: "\<And>wl. operation wl = (case beginLockedStrict clock ctx (with_log executor) key T wl of
        ((None, now, deadline, err), w1) \<Rightarrow> (zero, err, w1)
      | ((Some tx, now, deadline, err), w1) \<Rightarrow>
          finish_strict ctx tx deadline zero (if err \<noteq> None then (zero, err, False, w1) else body tx now w1))"
  shows "settles zero operation"
  unfolding settles_def
proof (intro allI impI)
  fix w log r err w' log'
  assume a: "operation (w, log) = (r, err, (w', log'))"
  obtain t now deadline e w1 log1 where b: "beginLockedStrict clock ctx (with_log executor) key T (w, log) = ((t, now, deadline, e), (w1, log1))"
    by (metis prod.exhaust)
  note a = a [unfolded op b, simplified]
  from beginLockedStrict_log [OF q b] show "\<exists>evs. log' = log @ evs \<and> settled evs err (r = zero)"
  proof (elim disjE exE conjE)
    assume "t = None" "unknown e" "log1 = log @ [Begin False]"
    then show ?thesis using a by (intro exI [of _ "[Begin False]"]) (auto simp: settled_def)
  next
    fix tx
    assume t: "t = Some (logged_tx tx)" "log1 = log @ [Begin True]" "e = None"
    obtain r2 e2 c2 w2 log2 where bd: "body (logged_tx tx) now (w1, log1) = (r2, e2, c2, (w2, log2))" by (metis prod.exhaust)
    obtain evs where "log2 = log @ Begin True # evs" "body_ok evs zero r2 e2 c2"
      using runs_bodyD [OF body bd] t by auto
    then show ?thesis using a t bd by (intro finish_settles [OF q(1)]) simp_all
  next
    fix tx
    assume t: "t = Some (logged_tx tx)" "log1 = log @ [Begin True]" "e \<in> Some ` precommit_errors"
    then have "body_ok [] zero zero e False" "e \<noteq> None" using plain_exit [of _ "[]" zero] by auto
    then show ?thesis using a t by (intro finish_settles [OF q(1), of log1 log "[]"]) auto
  qed
qed

text \<open>C15. Strict operations on PostgreSQL settle their transactions. Whatever the
  database, the clock and the context do, an admission, an acquisition or a release
  begins at most one transaction and ends it: with a commit after a write, and then
  reports success or rejection; or with one rollback as its last action, and then
  reports an error and the zero result. The outcome is reported as unknown exactly if the
  beginning, the commit or the rollback failed, so that every other failure has
  changed nothing.\<close>

theorem strict_transactions:
  assumes "quiet ctx" and "quiet clock"
  shows "settles zero_Decision (pg_admitStrict clock ctx (with_log executor) key r timeout) \<and>
    settles (zero_Lease, zero_Decision) (pg_acquireStrict clock ctx (with_log executor) key lr digest timeout) \<and>
    settles () (\<lambda>w. ((), pg_releaseStrict clock ctx (with_log executor) key l digest timeout w))"
proof (intro conjI)
  show "settles zero_Decision (pg_admitStrict clock ctx (with_log executor) key r timeout)"
    by (rule operation_settles [OF assms, where body = "\<lambda>tx now. admitStrict_locked ctx (with_log executor) tx now key r"])
      (rule admitStrict_body [OF assms(1)], rule pg_admitStrict_def)
  show "settles (zero_Lease, zero_Decision) (pg_acquireStrict clock ctx (with_log executor) key lr digest timeout)"
    by (rule operation_settles [OF assms, where body = "\<lambda>tx now. acquireStrict_locked ctx (with_log executor) tx now key lr digest"])
      (rule acquireStrict_body [OF assms(1)], rule pg_acquireStrict_def)
  show "settles () (\<lambda>w. ((), pg_releaseStrict clock ctx (with_log executor) key l digest timeout w))"
    by (rule operation_settles [OF assms, where body = "\<lambda>tx now. releaseStrict_locked ctx tx now key l digest"
          and executor = executor and key = key and T = timeout])
      (rule releaseStrict_body [OF assms(1)], auto simp: pg_releaseStrict_def split: option.split prod.split)
qed

text \<open>A database of one table, with a committed and a working copy, at a fixed server time.\<close>

type_synonym rows = "(string \<times> document \<times> time) list"

definition table_tx :: "time \<Rightarrow> (rows \<times> rows) nativeTransaction" where
  "table_tx now =
     \<lparr>tx_setLockTimeout = \<lambda>s w. (None, w), tx_lockAndTime = \<lambda>k w. (Inr now, w),
      tx_selectState = \<lambda>k w. (case map_of (snd w) k of None \<Rightarrow> NoRows | Some row \<Rightarrow> Row row, w),
      tx_selectStateStrict = \<lambda>k n w. (case map_of (snd w) k of None \<Rightarrow> NoRows | Some (doc, t) \<Rightarrow> Row (doc, t, True), w),
      tx_deleteState = \<lambda>k w. (None, fst w, AList.delete k (snd w)),
      tx_upsertState = \<lambda>k doc t u w. (None, fst w, AList.update k (doc, t) (snd w)),
      tx_lockCommand = \<lambda>a b w. (None, w), tx_selectCommand = \<lambda>c n w. (NoRows, w), tx_lockBucket = \<lambda>k w. (None, w),
      tx_clockTimestamp = \<lambda>w. (Inr now, w), tx_insertCommand = \<lambda>c i x w. (None, w),
      tx_commit = \<lambda>w. (None, snd w, snd w), tx_rollback = \<lambda>t w. (None, fst w, fst w)\<rparr>"

definition table_db :: "time \<Rightarrow> (rows \<times> rows) nativeDatabase" where
  "table_db now = \<lparr>db_begin = \<lambda>w. (Inr (table_tx now), fst w, fst w), db_table = \<lambda>w. (Inr (Some ''rate_limit_states''), w),
     db_cleanup = \<lambda>n w. (Inr 0, w)\<rparr>"

definition table_executor :: "(rows \<times> rows) nativeExecutor" where
  "table_executor = \<lparr>ne_database = table_db 1700000000000000000,
     ne_options = \<lparr>po_Timeout = Second, po_LockTimeout = Second, po_Clock = ServerClock\<rparr>\<rparr>"

definition table_ctx :: "(rows \<times> rows) logged ctx" where "table_ctx = silent (\<lambda>w. (None, w))"

definition table_clock :: "(rows \<times> rows) logged clock" where "table_clock = silent (\<lambda>w. (1700000000000000000, w))"

definition table_admission :: "decision \<times> go_error option \<times> (rows \<times> rows) logged" where
  "table_admission = pg_admitStrict table_clock table_ctx (with_log table_executor) ''row'' first_request Second (([], []), [])"

lemma table_admission_log:
  "fst (snd table_admission) = None \<and> snd (snd (snd table_admission)) = [Begin True, Write True, Commit True]"
proof -
  define d where "d = fst (snd (mutateState None first_request))"
  note step = sample_first [folded d_def]
  have now: "first_request\<lparr>r_Now := 1700000000000000000\<rparr> = first_request" by code_simp
  have checks: "validateServerClockRange (r_Now first_request) (p_period (r_Policy first_request)) = None"
    "pg_validateStrictDecisionTime d (time_UnixMicro (ps_ObservedMicros first_state)) = None" unfolding d_def by code_simp+
  have opts: "ne_options (with_log table_executor) = ne_options table_executor" "po_Clock (ne_options table_executor) = ServerClock"
    by (simp_all add: with_log_def table_executor_def)
  have loaded: "loadStateStrict (logged_tx (table_tx t)) k n (w, log) = (Inr None, (w, log))" if "map_of (snd w) k = None" for t k n w log
    using that by (simp add: loadStateStrict_def logged_tx_def silent_def table_tx_def)
  have body: "admitStrict_locked table_ctx (with_log table_executor) (logged_tx (table_tx t)) 1700000000000000000 ''row'' first_request (([], []), log) =
      commit_strict table_ctx (logged_tx (table_tx t)) (tx_upsertState (logged_tx (table_tx t)) ''row'' (encodeState first_state)
        (time_Add (time_UnixMicro (ps_ObservedMicros first_state)) (postgresAdmissionTTL (r_Policy first_request)))
        (time_UnixMicro (ps_ObservedMicros first_state))) zero_Decision d None (([], []), log)" for t log
    unfolding admitStrict_locked_def opts
    by (simp add: now checks loaded step Let_def strictPostgresDecisionResult_def)
  have tx: "tx_setLockTimeout (logged_tx (table_tx t)) s wl = (None, wl)" "tx_lockAndTime (logged_tx (table_tx t)) k wl = (Inr t, wl)"
    "tx_upsertState (logged_tx (table_tx t)) key doc t1 t2 wl = (None, (fst (fst wl), AList.update key (doc, t1) (snd (fst wl))), snd wl @ [Write True])"
    "tx_commit (logged_tx (table_tx t)) wl = (None, (snd (fst wl), snd (fst wl)), snd wl @ [Commit True])" for t s wl k key doc t1 t2
    by (simp_all add: logged_tx_def table_tx_def silent_def noted_def)
  have "db_begin (ne_database (with_log table_executor)) (([], []), []) = (Inr (logged_tx (table_tx 1700000000000000000)), ([], []), [Begin True])"
    by (simp add: with_log_def table_executor_def logged_db_def table_db_def)
  then show ?thesis
    unfolding table_admission_def pg_admitStrict_def beginLockedStrict_def
    by (simp add: table_clock_def silent_def Let_def tx body commit_strict_def finish_strict_def postgresPrecommitCategory_def)
qed

theorem strict_transactions_witness:
  "quiet table_ctx \<and> quiet table_clock \<and> fst (snd table_admission) = None \<and>
   snd (snd (snd table_admission)) = [Begin True, Write True, Commit True] \<and>
   settles zero_Decision (pg_admitStrict table_clock table_ctx (with_log table_executor) ''row'' first_request Second)"
  using strict_transactions [of table_ctx table_clock table_executor "''row''" first_request Second] table_admission_log
  by (simp add: table_ctx_def table_clock_def quiet_silent)

end
