(* ===== verification/Postgres_Certain.thy ===== *)
theory Postgres_Certain
  imports Postgres_Outcomes
begin

text \<open>
  The strict service over the PostgreSQL store: every decision that the row transitions
  make is complete in the sense of the service, whatever the row held, so that the
  service reports an unknown outcome only for a transaction whose beginning, commit or
  rollback failed.
\<close>

section \<open>Complete decisions\<close>

lemma tokenDuration_nonneg: "0 \<le> tokenDuration tokens remainder p"
proof -
  have "0 \<le> int64_of (q * 1000)" if "\<not> q > uint64_of (MaxInt64 div Microsecond)" for q
  proof -
    have q: "unat q \<le> 9223372036854775" using that by (simp add: u64_less uint64_of_def)
    have "unat q * unat (1000 :: uint64) < 18446744073709551616" using q by simp
    then have "unat (q * 1000) = unat q * 1000" using unat_mult_lem [of q "1000 :: uint64"] by simp
    then show ?thesis using q int64_of_small [of "q * 1000"] by simp
  qed
  then show ?thesis by (auto simp: tokenDuration_def Let_def split: prod.splits)
qed

lemma replenish_tokens:
  assumes "unat (ps_Tokens st) \<le> unat (Limit (r_Policy r))"
  shows "unat (ps_Tokens (replenish st r)) \<le> unat (Limit (r_Policy r))"
proof -
  have "unat (ps_Tokens st + added) \<le> unat (Limit (r_Policy r))" if "\<not> added \<ge> Limit (r_Policy r) - ps_Tokens st" for added
  proof -
    have "unat added < unat (Limit (r_Policy r)) - unat (ps_Tokens st)" using that assms by (simp add: u64_le u64_sub)
    moreover from this have "unat (ps_Tokens st + added) = unat (ps_Tokens st) + unat added"
      using unat_less_2p64 [of "Limit (r_Policy r)"] by (intro u64_add) linarith
    ultimately show ?thesis by linarith
  qed
  then show ?thesis using assms by (auto simp: replenish_def Let_def split: prod.splits)
qed

lemma mutateToken_complete:
  assumes adm: "mutateToken st r = (st', d, err)" and tokens: "unat (ps_Tokens st) \<le> unat (Limit (r_Policy r))"
    and now: "zero_time < r_Now r"
  shows "complete r d err"
proof -
  let ?st = "replenish st r" and ?lim = "Limit (r_Policy r)"
  have t: "unat (ps_Tokens ?st) \<le> unat ?lim" using replenish_tokens [OF tokens] .
  have nz: "\<not> IsZero (time_Add (r_Now r) (tokenDuration a b (r_Policy r)))" for a b
    using now tokenDuration_nonneg [of a b "r_Policy r"] by (simp add: IsZero_def time_Add_def)
  have "\<not> ps_Tokens ?st < r_Cost r \<Longrightarrow> ps_Tokens ?st - r_Cost r \<le> ?lim - r_Cost r"
    using t by (simp add: u64_le u64_less u64_sub)
  then show ?thesis
    using adm nz tokenDuration_nonneg
    by (auto simp: mutateToken_def Let_def complete_def completeAllowed_def completeRejected_def zero_Decision_def
        split: if_splits)
qed

lemma consume_complete:
  assumes con: "consume st r reset = (st', d, err)" and "\<not> IsZero reset" "policy_wf (r_Policy r)" "0 < unat (r_Cost r)"
  shows "complete r d err"
proof -
  let ?lim = "Limit (r_Policy r)" and ?rem = "Limit (r_Policy r) - min (ps_Used st) (Limit (r_Policy r))"
  have rem: "unat ?rem = unat ?lim - unat (ps_Used st)" by (simp add: u64_sub u64_min)
  show ?thesis
  proof (cases "r_Cost r > ?rem")
    case True
    then show ?thesis
      using assms by (auto simp: consume_def Let_def complete_def completeRejected_def zero_Decision_def)
  next
    case False
    then have fits: "unat (ps_Used st) + unat (r_Cost r) \<le> unat ?lim" using rem assms(4) by (simp add: u64_less)
    then have "unat (ps_Used st + r_Cost r) = unat (ps_Used st) + unat (r_Cost r)"
      using unat_less_2p64 [of ?lim] by (intro u64_add) simp
    then have "?lim - (ps_Used st + r_Cost r) \<le> ?lim - r_Cost r" using fits by (simp add: u64_le u64_sub)
    then show ?thesis
      using assms False by (auto simp: consume_def Let_def complete_def completeAllowed_def zero_Decision_def)
  qed
qed

lemma micros_nonzero: "- 18014398509481982 \<le> us \<Longrightarrow> \<not> IsZero (time_UnixMicro us)"
  by (simp add: IsZero_def time_UnixMicro_def zero_time_def)

lemma mutateFixed_complete:
  assumes "mutateFixed st r = (st', d, err)" "windowed (r_Policy r)" "server_range (r_Policy r) (UnixMicro (r_Now r))"
    and "0 < unat (r_Cost r)"
  shows "complete r d err"
proof -
  let ?p = "r_Policy r" and ?t = "UnixMicro (r_Now r)"
  note w = pg_window_range [OF assms(2,3)] and per = windowed_period [OF windowed_facts [OF assms(2)]]
  obtain cur st1 where "consume cur r (time_UnixMicro (i64 (pg_window ?p ?t * int (period_us ?p) + Microseconds (p_period ?p)))) = (st1, d, err)"
    using assms(1) unfolding mutateFixed_def Let_def w(1) by (auto split: prod.splits)
  moreover have "?t < pg_window ?p ?t * int (period_us ?p) + int (period_us ?p)"
    using floor_multiple_bounds [OF per(2), of ?t] by (simp add: pg_window_def)
  then have "\<not> IsZero (time_UnixMicro (i64 (pg_window ?p ?t * int (period_us ?p) + Microseconds (p_period ?p))))"
    using w(2) per(1) assms(3) by (intro micros_nonzero) (simp add: server_range_def maxExactMicros_def)
  ultimately show ?thesis using consume_complete windowed_facts(1) [OF assms(2)] assms(4) by blast
qed

lemma sumSegments_earliest:
  "snd (sumSegments oldest gs u e) = e \<or>
   (\<exists>k < length gs. sg_Used (gs ! k) \<noteq> 0 \<and> oldest < sg_Index (gs ! k) \<and> snd (sumSegments oldest gs u e) = sg_Index (gs ! k))"
proof (induction gs arbitrary: u e)
  case (Cons g gs)
  let ?u = "if sg_Index g > oldest then u + sg_Used g else u"
  let ?e = "if sg_Index g > oldest \<and> sg_Used g \<noteq> 0 then min e (sg_Index g) else e"
  have step: "sumSegments oldest (g # gs) u e = sumSegments oldest gs ?u ?e" by simp
  from Cons.IH [of ?u ?e] show ?case
  proof (elim disjE exE conjE)
    assume s: "snd (sumSegments oldest gs ?u ?e) = ?e"
    show ?thesis unfolding step s by (auto simp: min_def intro!: exI [of _ 0])
  next
    fix k assume "k < length gs" "sg_Used (gs ! k) \<noteq> 0" "oldest < sg_Index (gs ! k)"
      "snd (sumSegments oldest gs ?u ?e) = sg_Index (gs ! k)"
    then show ?thesis unfolding step by (intro disjI2 exI [of _ "Suc k"]) simp
  qed
qed simp

lemma slidingPositionsLoop_used:
  "slidingPositionsLoop i oldest slot gs \<Longrightarrow> k < length gs \<Longrightarrow> sg_Used (gs ! k) \<noteq> 0 \<Longrightarrow> oldest < sg_Index (gs ! k) \<Longrightarrow>
   sg_Index (gs ! k) \<le> i"
  by (induction gs arbitrary: slot k) (auto simp: less_Suc_eq_0_disj split: if_splits)

lemma mutateSliding_complete:
  assumes adm: "mutateSliding st r = (st', d, err)" and p: "windowed (r_Policy r)"
    and t: "server_range (r_Policy r) (UnixMicro (r_Now r))" "micro_range (r_Now r)"
    and c: "0 < unat (r_Cost r)" and pos: "validateSlidingPositions st r = None"
  shows "complete r d err"
proof -
  let ?p = "r_Policy r" and ?t = "UnixMicro (r_Now r)"
  note ix = pg_index [OF p t] and w = pg_width_facts [OF p] and per = windowed_period [OF windowed_facts [OF p]]
  define e where "e = snd (sumSegments (pg_oldest ?p ?t) (ps_Segments st) 0 MaxInt64)"
  have b: "- 9007199254740991 \<le> ?t" "?t + int (period_us ?p) \<le> 9007199254740991" "int (period_us ?p) \<le> 9007199254740991"
    using t(1) per(3) by (simp_all add: server_range_def maxExactMicros_def)
  have nz: "\<not> IsZero (sliding_reset r e)"
  proof (cases "e = MaxInt64")
    case True
    have "- 9007199254740991000 \<le> r_Now r" using b(1) t(2) by simp
    then show ?thesis using True per b by (simp add: sliding_reset_def IsZero_def time_Add_def zero_time_def)
  next
    case False
    then have e: "pg_oldest ?p ?t < e" "e \<le> pg_seg ?p ?t"
      using sumSegments_earliest [of "pg_oldest ?p ?t" "ps_Segments st" 0 MaxInt64] pos slidingPositionsLoop_used
      by (auto simp: e_def validateSlidingPositions_def ix split: if_splits)
    have f: "?t - pg_width ?p < pg_seg ?p ?t * pg_width ?p \<and> pg_seg ?p ?t * pg_width ?p \<le> ?t"
      "?t - int (period_us ?p) - pg_width ?p < pg_oldest ?p ?t * pg_width ?p"
      unfolding pg_seg_def pg_oldest_def using floor_multiple_bounds [OF w(2)] by blast+
    have m: "(pg_oldest ?p ?t + 1) * pg_width ?p \<le> (e + 1) * pg_width ?p" "(e + 1) * pg_width ?p \<le> (pg_seg ?p ?t + 1) * pg_width ?p"
      using e w(2) by (intro mult_right_mono; simp)+
    then have lo: "?t - int (period_us ?p) < (e + 1) * pg_width ?p" "(e + 1) * pg_width ?p \<le> ?t + pg_width ?p"
      using f unfolding distrib_right by linarith+
    have "\<bar>e + 1\<bar> * 1 \<le> \<bar>e + 1\<bar> * pg_width ?p" using w(2) by (intro mult_left_mono) simp_all
    also have "\<dots> = \<bar>(e + 1) * pg_width ?p\<bar>" using w(2) by (simp add: abs_mult)
    finally have "\<bar>e + 1\<bar> \<le> \<bar>(e + 1) * pg_width ?p\<bar>" by simp
    then have "int64_range (e + 1)" "int64_range ((e + 1) * pg_width ?p)"
      using lo b w(4) by (intro int64_rangeI; linarith)+
    then have "i64 (i64 (e + 1) * sliding_width_us ?p) = (e + 1) * pg_width ?p" using w(1) by simp
    then show ?thesis
      using False lo b per by (simp add: sliding_reset_def IsZero_def time_Add_def zero_time_def time_UnixMicro_def)
  qed
  obtain used st1 cur where "consume cur r (sliding_reset r e) = (st1, d, err)"
    using adm unfolding mutateSliding_def Let_def ix e_def by (auto split: prod.splits)
  then show ?thesis using consume_complete nz windowed_facts(1) [OF p] c by blast
qed

text \<open>What a successful or rejected transition hands to its algorithm.\<close>

lemma mutateState_prepared:
  assumes m: "mutateState cur r = (Some st', d, err)" and p: "policy_wf (r_Policy r)" "p_algorithm (r_Policy r) \<noteq> Concurrency"
    and now: "micro_range (r_Now r)"
  obtains st r' where "strict_dispatch st r' = (st', d, err)" "r_Policy r' = r_Policy r" "r_Cost r' = r_Cost r"
    "micro_range (r_Now r')" "server_range (r_Policy r) (UnixMicro (r_Now r'))" "zero_time < r_Now r'" 
    "p_algorithm (r_Policy r) = TokenBucket \<Longrightarrow> unat (ps_Tokens st) \<le> unat (Limit (r_Policy r)) \<and> unat (ps_Remainder st) < period_us (r_Policy r)"
    "p_algorithm (r_Policy r) = SlidingWindow \<Longrightarrow> validateSlidingPositions st r' = None"
    "r_Now r' = r_Now r \<or> (\<exists>st0. cur = Some st0 \<and> UnixMicro (r_Now r) < ps_ObservedMicros st0)"
proof -
  obtain st where st: "state_for cur r True = Inr st"
    using m by (cases "state_for cur r True") (auto simp: mutateState_def mutateStateMode_def split: if_splits)
  define r' where "r' = clamp_now r (ps_ObservedMicros st)"
  obtain st1 where st1: "strict_prepare st r' = Inr st1"
    using m st by (cases "strict_prepare st r'") (auto simp: mutateState_def mutateStateMode_def r'_def Let_def split: if_splits)
  define st2 where "st2 = st1\<lparr>ps_ObservedMicros := UnixMicro (r_Now r'), ps_Revision := p_revision (r_Policy r')\<rparr>"
  have disp: "strict_dispatch st2 r' = (st', d, err)"
    using m st st1 unfolding st2_def
    by (auto simp: mutateState_def mutateStateMode_def r'_def [symmetric] strict_dispatch_def Let_def split: if_splits prod.splits algorithm.splits)
  have chk: "cur = None \<and> st = fresh_state r True \<or> strictStateCheck st r"
    using st by (auto simp: state_for_def split: option.splits if_splits)
  have "int64_range (ps_ObservedMicros st)"
  proof (cases "cur = None")
    case True
    then have "ps_ObservedMicros st = UnixMicro (r_Now r)"
      using st by (auto simp: state_for_def fresh_state_def recordWindowPeriod_def Let_def)
    then show ?thesis using now by (simp add: micro_range_def)
  next
    case False
    then show ?thesis using chk
      by (intro int64_rangeI) (auto simp: strictStateCheck_def validPersistedMicros_def maxExactMicros_def Let_def split: if_splits)
  qed
  note cl = UnixMicro_clamp [OF this, of r, folded r'_def]
  note now' = cl(4) [OF now]
  have rg: "server_range (r_Policy r) (UnixMicro (r_Now r'))"
    using st1 server_range_check [OF p] cl(2) by (auto simp: strict_prepare_def Let_def split: option.splits)
  have "- 9007199254740991 \<le> r_Now r' div 1000" using rg now' by (simp add: server_range_def maxExactMicros_def)
  then have pos: "zero_time < r_Now r'" by (simp add: zero_time_def)
  have tokens: "unat (ps_Tokens st2) \<le> unat (Limit (r_Policy r)) \<and> unat (ps_Remainder st2) < period_us (r_Policy r)"
    if alg: "p_algorithm (r_Policy r) = TokenBucket"
  proof -
    note per = token_policy_facts [of "r_Policy r", unfolded token_policy_def, OF conjI [OF p(1) alg]]
    have "ps_Algorithm st = TokenBucket"
      using st alg by (auto simp: state_for_def fresh_state_def recordWindowPeriod_def Let_def split: option.splits if_splits)
    then have "ps_Revision st = p_revision (r_Policy r) \<longrightarrow>
        unat (ps_Tokens st) \<le> unat (Limit (r_Policy r)) \<and> unat (ps_Remainder st) < period_us (r_Policy r)"
      using chk per(1,7) 
      by (auto simp: strictStateCheck_def fresh_state_def recordWindowPeriod_def zero_persistedState_def Let_def u64_less u64_le split: if_splits)
    moreover have "ps_Tokens st1 = (if ps_Revision st \<noteq> p_revision (r_Policy r) then min (ps_Tokens st) (Limit (r_Policy r)) else ps_Tokens st)"
      "ps_Remainder st1 = (if ps_Revision st \<noteq> p_revision (r_Policy r) then 0 else ps_Remainder st)"
      using st1 alg cl(2) by (auto simp: strict_prepare_def recordWindowPeriod_def Let_def split: option.splits if_splits prod.splits)
    ultimately show ?thesis using per(1) by (auto simp: u64_min st2_def)
  qed
  have sliding: "validateSlidingPositions st2 r' = None" if "p_algorithm (r_Policy r) = SlidingWindow"
  proof -
    have "validateSlidingPositions st r' = None" "ps_Segments st1 = ps_Segments st"
      using st1 that cl(2)
      by (auto simp: strict_prepare_def recordWindowPeriod_def Let_def split: option.splits if_splits prod.splits)
    then show ?thesis by (simp add: validateSlidingPositions_def st2_def)
  qed
  have "r_Now r' = r_Now r \<or> (\<exists>st0. cur = Some st0 \<and> UnixMicro (r_Now r) < ps_ObservedMicros st0)"
    using st by (auto simp: r'_def clamp_now_def state_for_def fresh_state_def recordWindowPeriod_def max_def Let_def split: option.splits if_splits)
  then show ?thesis using that [OF disp cl(2,3) now' rg pos tokens sliding] by blast
qed

lemma mutateState_complete:
  assumes m: "mutateState cur r = (Some st', d, err)" and p: "policy_wf (r_Policy r)" "p_algorithm (r_Policy r) \<noteq> Concurrency"
    and c: "0 < unat (r_Cost r)" and now: "micro_range (r_Now r)"
  shows "complete r d err"
proof (rule mutateState_prepared [OF m p now])
  fix st r'
  assume a: "strict_dispatch st r' = (st', d, err)" "r_Policy r' = r_Policy r" "r_Cost r' = r_Cost r"
    "micro_range (r_Now r')" "server_range (r_Policy r) (UnixMicro (r_Now r'))" "zero_time < r_Now r'" 
    "p_algorithm (r_Policy r) = TokenBucket \<Longrightarrow> unat (ps_Tokens st) \<le> unat (Limit (r_Policy r)) \<and> unat (ps_Remainder st) < period_us (r_Policy r)"
    "p_algorithm (r_Policy r) = SlidingWindow \<Longrightarrow> validateSlidingPositions st r' = None"
    "r_Now r' = r_Now r \<or> (\<exists>st0. cur = Some st0 \<and> UnixMicro (r_Now r) < ps_ObservedMicros st0)"
  have "complete r' d err"
  proof (cases "p_algorithm (r_Policy r)")
    case TokenBucket
    then show ?thesis using mutateToken_complete [of st r'] a by (auto simp: strict_dispatch_def)
  next
    case FixedWindow
    then show ?thesis using mutateFixed_complete [of st r'] a p c
      by (auto simp: strict_dispatch_def windowed_def usesWindowMetadata_def)
  next
    case SlidingWindow
    then show ?thesis using mutateSliding_complete [of st r'] a p c
      by (auto simp: strict_dispatch_def windowed_def usesWindowMetadata_def)
  qed (use p in \<open>auto simp: policy_wf_def\<close>)
  then show ?thesis using a(2,3) by (simp add: complete_def completeAllowed_def completeRejected_def)
qed

section \<open>A database that keeps its transactions\<close>

text \<open>
  The driver never returns the package's own sentinels, and reports server times within
  the range of \<^verbatim>\<open>timestamptz\<close>. A steady transaction can be committed and rolled back;
  each of its statements may fail.
\<close>

definition driver_error :: "go_error \<Rightarrow> bool" where
  "driver_error e \<longleftrightarrow> e \<notin> {ErrRejected, ErrLeaseNotFound, ErrLeaseNotOwned}"

definition fails_as_driver :: "('w \<Rightarrow> go_error option \<times> 'w) \<Rightarrow> bool" where
  "fails_as_driver f \<longleftrightarrow> (\<forall>w e w'. f w = (Some e, w') \<longrightarrow> driver_error e)"

definition steady_tx :: "'w nativeTransaction \<Rightarrow> bool" where
  "steady_tx tx \<longleftrightarrow>
     (\<forall>s. fails_as_driver (tx_setLockTimeout tx s)) \<and> (\<forall>k. fails_as_driver (tx_deleteState tx k)) \<and>
     (\<forall>k doc t u. fails_as_driver (tx_upsertState tx k doc t u)) \<and>
     (\<forall>k w. case fst (tx_lockAndTime tx k w) of Inl e \<Rightarrow> driver_error e | Inr t \<Rightarrow> micro_range t) \<and>
     (\<forall>k n w e. fst (tx_selectStateStrict tx k n w) = ScanError e \<longrightarrow> driver_error e) \<and>
     (\<forall>w. fst (tx_commit tx w) = None) \<and> (\<forall>t w. fst (tx_rollback tx t w) = None)"

definition steady_db :: "'w nativeDatabase \<Rightarrow> bool" where
  "steady_db db \<longleftrightarrow> (\<forall>w. case fst (db_begin db w) of Inl e \<Rightarrow> False | Inr tx \<Rightarrow> steady_tx tx)"

lemma steady_txD:
  assumes "steady_tx tx"
  shows "tx_setLockTimeout tx s w = (Some e, w') \<Longrightarrow> driver_error e" "tx_deleteState tx k w = (Some e, w') \<Longrightarrow> driver_error e"
    "tx_upsertState tx k doc t u w = (Some e, w') \<Longrightarrow> driver_error e" "fst (tx_selectStateStrict tx k n w) = ScanError e \<Longrightarrow> driver_error e"
    "tx_lockAndTime tx i w = (Inl e, w') \<Longrightarrow> driver_error e" "tx_lockAndTime tx i w = (Inr now, w') \<Longrightarrow> micro_range now"
    "fst (tx_commit tx w) = None" "fst (tx_rollback tx deadline w) = None"
proof -
  have "case fst (tx_lockAndTime tx i w) of Inl e \<Rightarrow> driver_error e | Inr t \<Rightarrow> micro_range t" using assms by (simp add: steady_tx_def)
  then show "tx_lockAndTime tx i w = (Inl e, w') \<Longrightarrow> driver_error e" "tx_lockAndTime tx i w = (Inr now, w') \<Longrightarrow> micro_range now"
    by simp_all
  note assms = assms [unfolded steady_tx_def fails_as_driver_def]
  show "tx_setLockTimeout tx s w = (Some e, w') \<Longrightarrow> driver_error e" "tx_deleteState tx k w = (Some e, w') \<Longrightarrow> driver_error e"
    "tx_upsertState tx k doc t u w = (Some e, w') \<Longrightarrow> driver_error e" "fst (tx_selectStateStrict tx k n w) = ScanError e \<Longrightarrow> driver_error e"
    "fst (tx_commit tx w) = None" "fst (tx_rollback tx deadline w) = None"
    using assms by metis+
qed

lemma precommit_declared:
  assumes "postgresPrecommitCategory ctx (Some e) w = (x, w')" "driver_error e"
  shows "declared r zero_Decision x"
proof -
  obtain ce w1 where c: "postgresStrictContext ctx w = (ce, w1)" by (cases "postgresStrictContext ctx w")
  have "ce \<in> {None, Some CanceledOutcome, Some DeadlineOutcome}"
    using c by (auto simp: postgresStrictContext_def Let_def split: prod.splits if_splits)
  then show ?thesis using assms c
    by (cases e) (auto simp: postgresPrecommitCategory_def driver_error_def declared_def Let_def split: option.splits)
qed

lemma loadStateStrict_error:
  assumes "loadStateStrict tx key now w = (Inl e, w')" "steady_tx tx"
  shows "driver_error e"
proof -
  have dec: "decodeState doc = Inl x \<Longrightarrow> driver_error x" for doc x
    by (auto simp: decodeState_def decodeStateMode_def corrupt_def stateDecodeError_def driver_error_def Let_def split: document.splits if_splits option.splits sum.splits)
  show ?thesis
    using assms(1) steady_txD(4) [OF assms(2), of key maxEncodedStateBytes w]
    by (auto simp: loadStateStrict_def map_sum_def driver_error_def split: prod.splits scan.splits if_splits option.splits sum.splits
        dest!: dec [unfolded driver_error_def] steady_txD(2) [OF assms(2), unfolded driver_error_def])
qed

lemma commit_declared:
  assumes "commit_strict ctx tx (tx_upsertState tx key doc t u) zero_Decision d0 e0 w = (d, err, c, w')" "steady_tx tx"
    and "declared r d0 e0" "e0 = None \<or> e0 = Some ErrRejected"
  shows "declared r d err"
proof (cases "tx_upsertState tx key doc t u w")
  case (Pair x w1)
  obtain y w2 where c: "tx_commit tx w1 = (y, w2)" by (cases "tx_commit tx w1")
  have y: "y = None" using c steady_txD(7) [OF assms(2), of w1] by simp
  show ?thesis
  proof (cases x)
    case (Some e)
    have "driver_error e" using steady_txD(3) [OF assms(2)] Pair Some by blast
    then show ?thesis using assms(1) Pair Some precommit_declared [of ctx e w1]
      by (auto simp: commit_strict_def Let_def split: prod.splits)
  next
    case None
    then show ?thesis using assms Pair c y
      by (auto simp: commit_strict_def postgresPrecommitCategory_def Let_def split: prod.splits)
  qed
qed

lemma declared_now: "declared (r\<lparr>r_Now := t\<rparr>) d err = declared r d err"
  by (simp add: declared_def complete_def completeAllowed_def completeRejected_def)

lemma admitStrict_declared:
  assumes a: "admitStrict_locked ctx executor tx serverNow key r w = (d, err, c, w')" and tx: "steady_tx tx"
    and p: "policy_wf (r_Policy r)" "p_algorithm (r_Policy r) \<noteq> Concurrency" "0 < unat (r_Cost r)"
    and now: "micro_range (r_Now r)" "micro_range serverNow"
  shows "declared r d err"
proof -
  define r1 where "r1 = (if po_Clock (ne_options executor) = ServerClock then r\<lparr>r_Now := serverNow\<rparr> else r)"
  have r1: "declared r1 = declared r" "r_Policy r1 = r_Policy r" "r_Cost r1 = r_Cost r" "micro_range (r_Now r1)"
    using now by (auto simp: r1_def declared_now fun_eq_iff)
  note a = a [unfolded admitStrict_locked_def Let_def r1_def [symmetric]]
  let ?chk = "if po_Clock (ne_options executor) = ServerClock then validateServerClockRange (r_Now r1) (p_period (r_Policy r1)) else None"
  obtain x w1 where ld: "loadStateStrict tx key (r_Now r1) w = (x, w1)" by (cases "loadStateStrict tx key (r_Now r1) w")
  show ?thesis
  proof (cases ?chk)
    case (Some e)
    then have "e = ErrOverflow" using server_check by (metis option.inject option.distinct(1))
    then show ?thesis using a Some by (auto simp: declared_def)
  next
    case check: None
    show ?thesis
    proof (cases x)
      case (Inl e)
      then show ?thesis using a check ld precommit_declared [of ctx e w1 _ _ r] loadStateStrict_error [OF _ tx, of key "r_Now r1" w e w1]
        by (auto split: prod.splits)
    next
      case (Inr cur)
      obtain nxt d0 e0 where m: "mutateState cur r1 = (nxt, d0, e0)" by (metis prod_cases3)
      obtain d1 e1 w2 where s: "strictPostgresDecisionResult ctx nxt d0 e0 w1 = ((d1, e1), w2)" by (metis prod.exhaust)
      show ?thesis
      proof (cases "e1 \<noteq> None \<and> \<not> Is e1 ErrRejected")
        case True
        then have "d = zero_Decision" "err = e1" using a check ld Inr m s by auto
        moreover have "e0 = None \<or> e0 = Some ErrRejected \<or> e0 = Some ErrCorrupt \<or> e0 = Some ErrOverflow"
          using mutateState_errors [OF m] by auto
        ultimately show ?thesis using s True
          by (auto simp: strictPostgresDecisionResult_def pg_validateStrictDecisionTime_def postgresPrecommitCategory_def
              declared_def split: if_splits)
      next
        case False
        then have e1: "e1 = e0 \<and> d1 = d0 \<and> (e0 = None \<or> e0 = Some ErrRejected)"
          using s mutateState_errors [OF m]
          by (auto simp: strictPostgresDecisionResult_def postgresPrecommitCategory_def pg_validateStrictDecisionTime_def split: if_splits)
        then obtain st where "nxt = Some st" using mutateState_errors [OF m] by auto
        then have "declared r d1 e1"
          using mutateState_complete [of cur r1 st d0 e0] m p r1 e1 by (auto simp: declared_def fun_eq_iff)
        moreover have "commit_strict ctx tx (tx_upsertState tx key (encodeState (the nxt))
            (time_Add (time_UnixMicro (ps_ObservedMicros (the nxt))) (postgresAdmissionTTL (r_Policy r1)))
            (time_UnixMicro (ps_ObservedMicros (the nxt)))) zero_Decision d1 e1 w2 = (d, err, c, w')"
          using a check ld Inr m s False by auto
        ultimately show ?thesis using commit_declared [OF _ tx] e1 by blast
      qed
    qed
  qed
qed

lemma beginLockedStrict_steady:
  assumes db: "steady_db (ne_database executor)"
    and b: "beginLockedStrict clock ctx executor key T w = ((t, now, deadline, err), w')"
  obtains tx where "t = Some tx" "steady_tx tx" "err = None \<Longrightarrow> micro_range now" "err \<noteq> None \<Longrightarrow> declared r zero_Decision err"
proof -
  have "case fst (db_begin (ne_database executor) w) of Inl e \<Rightarrow> False | Inr tx \<Rightarrow> steady_tx tx" using db by (simp add: steady_db_def)
  then obtain tx w1 where begun: "db_begin (ne_database executor) w = (Inr tx, w1)" and tx: "steady_tx tx"
    by (cases "db_begin (ne_database executor) w") (auto split: sum.splits)
  have zero: "micro_range zero_time" by (simp add: micro_range_def int64_range_def zero_time_def)
  have "t = Some tx \<and> (err = None \<longrightarrow> micro_range now) \<and> (err \<noteq> None \<longrightarrow> declared r zero_Decision err)"
    using b begun zero
    by (auto simp: beginLockedStrict_def Let_def split: prod.splits option.splits sum.splits
        dest!: steady_txD(1,5,6) [OF tx] dest: precommit_declared)
  then show ?thesis using that tx by blast
qed

lemma pg_admitStrict_declared:
  assumes a: "pg_admitStrict clock ctx executor key r T w = (d, err, w')" and db: "steady_db (ne_database executor)"
    and p: "policy_wf (r_Policy r)" "p_algorithm (r_Policy r) \<noteq> Concurrency" "0 < unat (r_Cost r)" "micro_range (r_Now r)"
  shows "declared r d err"
proof -
  obtain t now deadline e w1 where b: "beginLockedStrict clock ctx executor key T w = ((t, now, deadline, e), w1)"
    by (metis prod.exhaust)
  obtain tx where tx: "t = Some tx" "steady_tx tx" "e = None \<Longrightarrow> micro_range now" "e \<noteq> None \<Longrightarrow> declared r zero_Decision e"
    using beginLockedStrict_steady [OF db b, of r] by blast
  obtain d1 e1 c1 w2 where body: "(if e \<noteq> None then (zero_Decision, e, False, w1) else admitStrict_locked ctx executor tx now key r w1) = (d1, e1, c1, w2)"
    by (metis prod.exhaust)
  have "declared r d1 e1" using body tx admitStrict_declared [OF _ tx(2) p(1-4)] by (auto split: if_splits)
  moreover have "fst (rollbackStrict tx deadline w2) = None" using steady_txD(8) [OF tx(2)] by (simp add: rollbackStrict_def)
  then have "d = d1 \<and> err = e1" using a b tx(1) body
    by (auto simp: pg_admitStrict_def finish_strict_def split: prod.splits if_splits)
  ultimately show ?thesis by simp
qed

lemma pgStore_AdmitStrict_declared:
  assumes a: "pgStore_AdmitStrict sha256 withTimeout clock (Some s) (Some ctx) r w = (d, err, w')"
    and s: "pg_executor s = Some executor" "0 < pg_rollbackTimeout s" and db: "steady_db (ne_database executor)"
    and r: "request_typed r" "Request_Validate r = None"
  shows "declared r d err"
proof -
  obtain ce w1 where c: "postgresStrictContext ctx w = (ce, w1)" by (cases "postgresStrictContext ctx w")
  have ce: "ce \<in> {None, Some CanceledOutcome, Some DeadlineOutcome}"
    using c by (auto simp: postgresStrictContext_def Let_def split: prod.splits if_splits)
  have ok: "request_ok (normalize_now r)" using normalize_ok [OF r] by simp
  then have p: "policy_wf (r_Policy r)" "0 < unat (r_Cost r)" by (simp_all add: request_ok_def normalize_now_def)
  have now: "micro_range (r_Now (micro_now r))"
    using r(1) by (simp add: micro_now_def time_UnixMicro_def request_typed_def micro_range_def)
  have same: "r_Policy (micro_now r) = r_Policy r" "r_Cost (micro_now r) = r_Cost r" "declared (micro_now r) d err = declared r d err"
    by (simp_all add: micro_now_def declared_now)
  show ?thesis
  proof (cases "ce = None \<and> p_algorithm (r_Policy r) \<noteq> Concurrency")
    case True
    then have "pg_admitStrict clock (withTimeout ctx (po_Timeout (pg_options s))) executor
        (row_key sha256 (p_id (r_Policy r)) (r_Key r)) (micro_now r) (pg_rollbackTimeout s) w1 = (d, err, w')"
      using a s r(2) c by (simp add: pgStore_AdmitStrict_def pg_strictReady_def)
    then show ?thesis using pg_admitStrict_declared [OF _ db] True p now same by metis
  next
    case False
    then show ?thesis using a s r(2) c ce
      by (auto simp: pgStore_AdmitStrict_def pg_strictReady_def declared_def split: if_splits)
  qed
qed

end
