(* ===== verification/Postgres_Atomic.thy ===== *)
theory Postgres_Atomic
  imports Postgres_Certain
begin

text \<open>
  \<^verbatim>\<open>postgres/atomic.go\<close>: admission of several buckets in one transaction, with a receipt
  per command. \<open>sha256\<close> and the digest of an intent's JSON document are parameters. A
  receipt is kept as the decision it encodes; the JSON of its times is limited to the
  years 0 to 9999, and its length is computed, for strings without escapes, from the
  fields.
\<close>

section \<open>Receipts\<close>

definition maxAtomicReceiptBytes :: nat where "maxAtomicReceiptBytes = 16 * 1024"

definition rfc3339_ok :: "time \<Rightarrow> bool" where
  "rfc3339_ok t \<longleftrightarrow> - 62167219200 * Second \<le> t \<and> t < 253402300800 * Second"

text \<open>A fraction of a second is written without its trailing zeros.\<close>

definition rfc3339_length :: "time \<Rightarrow> nat" where
  "rfc3339_length t =
     (let ns = t mod Second in
      length ''2006-01-02T15:04:05Z'' +
      (if ns = 0 then 0 else 1 + 9 - length (takeWhile (\<lambda>k. ns mod 10 ^ Suc k = 0) [0..<9])))"

definition json_int_length :: "int \<Rightarrow> nat" where
  "json_int_length n = length (decimal_digits (nat \<bar>n\<bar>)) + (if n < 0 then 1 else 0)"

definition json_bool_length :: "bool \<Rightarrow> nat" where
  "json_bool_length b = (if b then length ''true'' else length ''false'')"

definition json_Decision_length :: "decision \<Rightarrow> nat" where
  "json_Decision_length d =
     length ''{\"Allowed\":'' + json_bool_length (d_Allowed d) +
     length '',\"Remaining\":'' + json_int_length (uint (d_Remaining d)) +
     length '',\"Limit\":'' + json_int_length (uint (d_Limit d)) +
     length '',\"Reset\":'' + (2 + rfc3339_length (d_Reset d)) +
     length '',\"RetryAfter\":'' + json_int_length (d_RetryAfter d) +
     length '',\"Reason\":'' + (2 + length (d_Reason d)) +
     length '',\"Backend\":'' + (2 + length (d_Backend d)) +
     length '',\"PolicyRevision\":'' + (2 + length (d_PolicyRevision d)) + 1"

definition json_receipt_length :: "atomicBatchDecision \<Rightarrow> nat" where
  "json_receipt_length d =
     length ''{\"CommandID\":'' + (2 + length (ad_CommandID d)) +
     length '',\"Allowed\":'' + json_bool_length (ad_Allowed d) +
     length '',\"Decisions\":['' + sum_list (map json_Decision_length (ad_Decisions d)) + (length (ad_Decisions d) - 1) + 2"

definition marshalReceipt :: "atomicBatchDecision \<Rightarrow> receipt option" where
  "marshalReceipt saved =
     (if \<not> list_all (\<lambda>d. rfc3339_ok (d_Reset d)) (ad_Decisions saved) \<or> json_receipt_length saved > maxAtomicReceiptBytes
      then None else Some (Receipt saved False))"

text \<open>The loop over a receipt's decisions: none if it is corrupt, else whether one is limited.\<close>

fun receiptLoop :: "bool \<Rightarrow> bool \<Rightarrow> (decision \<times> request) list \<Rightarrow> bool option" where
  "receiptLoop allowed limited [] = Some limited"
| "receiptLoop allowed limited ((d, r) # rest) =
     (if d_Limit d \<noteq> Limit (r_Policy r) \<or> d_Remaining d > d_Limit d \<or> d_Backend d \<noteq> ''postgres'' \<or>
         d_PolicyRevision d \<noteq> p_revision (r_Policy r) \<or> IsZero (d_Reset d) then None
      else if allowed then
        (if \<not> d_Allowed d \<or> d_Reason d \<noteq> ReasonAllowed \<or> d_RetryAfter d \<noteq> 0 \<or> d_Remaining d > d_Limit d - r_Cost r
         then None else receiptLoop allowed limited rest)
      else if d_Allowed d then None
      else if d_Reason d = ReasonLimited then
        (if d_Remaining d \<ge> r_Cost r \<or> d_RetryAfter d \<le> 0 \<or> d_RetryAfter d > tokenDuration (r_Cost r) 0 (r_Policy r)
         then None else receiptLoop allowed True rest)
      else if d_Reason d = ReasonAtomicRejected then
        (if d_Remaining d < r_Cost r \<or> d_RetryAfter d \<noteq> 0 then None else receiptLoop allowed limited rest)
      else None)"

definition decodeAtomicReceipt :: "receipt \<Rightarrow> atomicBatchRequest \<Rightarrow> atomicBatchDecision \<times> go_error option" where
  "decodeAtomicReceipt encoded a =
     (let bad = (zero_AtomicBatchDecision, Some ErrCorrupt) in
      case encoded of
        NoReceipt \<Rightarrow> bad
      | BadReceipt \<Rightarrow> bad
      | Receipt out trailing \<Rightarrow>
        if ad_CommandID out \<noteq> '''' \<or> length (ad_Decisions out) \<noteq> length (ab_Requests a) then bad
        else if trailing then bad
        else case receiptLoop (ad_Allowed out) False (zip (ad_Decisions out) (ab_Requests a)) of
          None \<Rightarrow> bad
        | Some limited \<Rightarrow>
          let out = out\<lparr>ad_CommandID := ab_CommandID a\<rparr> in
          if \<not> ad_Allowed out then (if \<not> limited then bad else (out, Some ErrRejected))
          else (out, None))"

section \<open>The intent\<close>

record atomicIntentEntry =
  ai_Policy :: policySpec
  ai_Key :: string
  ai_Kind :: string
  ai_Cost :: uint64

definition intent_entry :: "request \<Rightarrow> atomicIntentEntry" where
  "intent_entry r =
     (let p = r_Policy r in
      \<lparr>ai_Policy = \<lparr>s_ID = p_id p, s_Revision = p_revision p, s_Algorithm = p_algorithm p, s_Capacity = p_capacity p,
         s_Period = p_period p, s_Burst = p_burst p, s_MaxCost = p_maxCost p, s_FailureMode = p_failureMode p,
         s_Consistency = p_consistency p, s_Lease = p_lease p\<rparr>,
       ai_Key = key_String (r_Key r), ai_Kind = SubjectKind (r_Key r), ai_Cost = r_Cost r\<rparr>)"

definition atomicIntent ::
  "(nat \<times> clockPolicy \<times> atomicIntentEntry list \<Rightarrow> string) \<Rightarrow> atomicBatchRequest \<Rightarrow> clockPolicy \<Rightarrow> string" where
  "atomicIntent digest a clock = digest (1, clock, map intent_entry (ab_Requests a))"

section \<open>The transaction\<close>

definition int32_of :: "nat \<Rightarrow> int" where
  "int32_of n = (int n + 2147483648) mod 4294967296 - 2147483648"

definition commandLock :: "string \<Rightarrow> int \<times> int" where
  "commandLock command = (int32_of (bigEndian (take 4 command)), int32_of (bigEndian (take 4 (drop 4 command))))"

text \<open>The bucket locks in order, each once.\<close>

fun lockBuckets :: "'w nativeTransaction \<Rightarrow> int option \<Rightarrow> int list \<Rightarrow> 'w \<Rightarrow> go_error option \<times> 'w" where
  "lockBuckets tx previous [] w = (None, w)"
| "lockBuckets tx previous (key # rest) w =
     (if previous = Some key then lockBuckets tx (Some key) rest w
      else case tx_lockBucket tx key w of
        (Some err, w1) \<Rightarrow> (Some err, w1)
      | (None, w1) \<Rightarrow> lockBuckets tx (Some key) rest w1)"

fun loadStates :: "'w nativeTransaction \<Rightarrow> string list \<Rightarrow> time \<Rightarrow> 'w \<Rightarrow> (go_error + persistedState option list) \<times> 'w" where
  "loadStates tx [] now w = (Inr [], w)"
| "loadStates tx (key # rest) now w =
     (case loadStateStrict tx key now w of
        (Inl err, w1) \<Rightarrow> (Inl err, w1)
      | (Inr current, w1) \<Rightarrow>
        (case loadStates tx rest now w1 of
           (Inl err, w2) \<Rightarrow> (Inl err, w2)
         | (Inr states, w2) \<Rightarrow> (Inr (current # states), w2)))"

definition effective_now :: "time \<Rightarrow> persistedState option list \<Rightarrow> time" where
  "effective_now now states =
     foldl (\<lambda>now state. case state of
         Some st \<Rightarrow> if ps_ObservedMicros st > UnixMicro now then time_UnixMicro (ps_ObservedMicros st) else now
       | None \<Rightarrow> now) now states"

text \<open>The evaluation of every bucket: its next state, its decision, and whether all are allowed.\<close>

fun evaluateBuckets ::
  "'w ctx \<Rightarrow> time \<Rightarrow> (persistedState option \<times> request) list \<Rightarrow> 'w \<Rightarrow>
   (go_error + (persistedState \<times> decision) list \<times> bool) \<times> 'w" where
  "evaluateBuckets ctx now [] w = (Inr ([], True), w)"
| "evaluateBuckets ctx now ((state, r) # rest) w =
     (let r = r\<lparr>r_Now := now\<rparr>; (nxt, d0, err0) = mutateState state r;
          ((d, err), w1) = strictPostgresDecisionResult ctx nxt d0 err0 w
      in
      if err \<noteq> None \<and> \<not> Is err ErrRejected then (Inl (the err), w1)
      else case evaluateBuckets ctx now rest w1 of
        (Inl e, w2) \<Rightarrow> (Inl e, w2)
      | (Inr (out, allowed), w2) \<Rightarrow>
        (Inr ((the nxt, d\<lparr>d_Backend := ''postgres'', d_PolicyRevision := p_revision (r_Policy r)\<rparr>) # out, err = None \<and> allowed), w2))"

text \<open>A bucket that would have been admitted in a rejected batch.\<close>

definition restoreDecision :: "time \<Rightarrow> (persistedState \<times> decision) \<times> request \<Rightarrow> decision" where
  "restoreDecision now x =
     (let ((st, d), r) = x in
      if \<not> d_Allowed d then d
      else let tokens = ps_Tokens st + r_Cost r
      in d\<lparr>d_Allowed := False, d_Reason := ReasonAtomicRejected, d_Remaining := tokens,
            d_Reset := time_Add now (tokenDuration (Limit (r_Policy r) - tokens) (ps_Remainder st) (r_Policy r))\<rparr>)"

fun writeStates :: "'w nativeTransaction \<Rightarrow> (string \<times> persistedState \<times> request) list \<Rightarrow> 'w \<Rightarrow> go_error option \<times> 'w" where
  "writeStates tx [] w = (None, w)"
| "writeStates tx ((key, st, r) # rest) w =
     (let effective = time_UnixMicro (ps_ObservedMicros st) in
      case tx_upsertState tx key (encodeState st) (time_Add effective (postgresAdmissionTTL (r_Policy r))) effective w of
        (Some err, w1) \<Rightarrow> (Some err, w1)
      | (None, w1) \<Rightarrow> writeStates tx rest w1)"

text \<open>What an operation does after its transaction has begun: result, error, and whether it committed.\<close>

type_synonym ('w, 'r) body = "'w \<Rightarrow> 'r \<times> go_error option \<times> bool \<times> 'w"

definition precommit_exit :: "'w ctx \<Rightarrow> go_error \<Rightarrow> ('w, atomicBatchDecision) body" where
  "precommit_exit ctx err w =
     (let (e, w1) = postgresPrecommitCategory ctx (Some err) w in (zero_AtomicBatchDecision, e, False, w1))"

definition commit_exit ::
  "'w ctx \<Rightarrow> 'w nativeTransaction \<Rightarrow> atomicBatchDecision \<Rightarrow> go_error option \<Rightarrow> ('w, atomicBatchDecision) body" where
  "commit_exit ctx tx out resultErr w =
     (case tx_commit tx w of
        (Some err, w1) \<Rightarrow> let (ce, w2) = ctx w1 in (zero_AtomicBatchDecision, Some (UnknownOutcome ce), False, w2)
      | (None, w1) \<Rightarrow> (out, resultErr, True, w1))"

definition atomic_replay ::
  "'w ctx \<Rightarrow> 'w nativeTransaction \<Rightarrow> string \<Rightarrow> string \<times> receipt \<Rightarrow> atomicBatchRequest \<Rightarrow> ('w, atomicBatchDecision) body" where
  "atomic_replay ctx tx intent saved a w =
     (let (savedIntent, encoded) = saved in
      if savedIntent \<noteq> intent then (zero_AtomicBatchDecision, Some ErrInvalidRequest, False, w)
      else let (out, resultErr) = decodeAtomicReceipt encoded a in
      if resultErr \<noteq> None \<and> \<not> Is resultErr ErrRejected then (zero_AtomicBatchDecision, resultErr, False, w)
      else commit_exit ctx tx out resultErr w)"

definition atomic_record ::
  "'w ctx \<Rightarrow> 'w nativeTransaction \<Rightarrow> string \<Rightarrow> string \<Rightarrow> atomicBatchDecision \<Rightarrow> go_error option \<Rightarrow> ('w, atomicBatchDecision) body" where
  "atomic_record ctx tx command intent out resultErr w =
     (case marshalReceipt (out\<lparr>ad_CommandID := ''''\<rparr>) of
        None \<Rightarrow> (zero_AtomicBatchDecision, Some ErrCorrupt, False, w)
      | Some encoded \<Rightarrow>
        (case tx_insertCommand tx command intent encoded w of
           (Some err, w1) \<Rightarrow> precommit_exit ctx err w1
         | (None, w1) \<Rightarrow> commit_exit ctx tx out resultErr w1))"

text \<open>From the loaded states on.\<close>

definition atomic_decide ::
  "'w ctx \<Rightarrow> 'w nativeTransaction \<Rightarrow> string \<Rightarrow> string \<Rightarrow> string list \<Rightarrow> time \<Rightarrow> persistedState option list \<Rightarrow>
   atomicBatchRequest \<Rightarrow> ('w, atomicBatchDecision) body" where
  "atomic_decide ctx tx command intent buckets now0 states a w =
     (let now = effective_now now0 states; rs = ab_Requests a in
      case evaluateBuckets ctx now (zip states rs) w of
        (Inl err, w1) \<Rightarrow> (zero_AtomicBatchDecision, Some err, False, w1)
      | (Inr (out, allowed), w1) \<Rightarrow>
        let batch = \<lparr>ad_CommandID = ab_CommandID a, ad_Allowed = allowed, ad_Decisions = map snd out\<rparr> in
        if \<not> allowed
        then atomic_record ctx tx command intent (batch\<lparr>ad_Decisions := map (restoreDecision now) (zip out rs)\<rparr>)
               (Some ErrRejected) w1
        else (case writeStates tx (zip buckets (zip (map fst out) rs)) w1 of
            (Some err, w2) \<Rightarrow> precommit_exit ctx err w2
          | (None, w2) \<Rightarrow> atomic_record ctx tx command intent batch None w2))"

definition atomic_clock ::
  "'w nativeExecutor \<Rightarrow> 'w nativeTransaction \<Rightarrow> atomicBatchRequest \<Rightarrow> 'w \<Rightarrow> (go_error + time) \<times> 'w" where
  "atomic_clock executor tx a w =
     (if po_Clock (ne_options executor) = ServerClock
      then (case tx_clockTimestamp tx w of
              (Inl err, w1) \<Rightarrow> (Inl err, w1) | (Inr now, w1) \<Rightarrow> (Inr (time_UnixMicro (UnixMicro now)), w1))
      else (Inr (time_UnixMicro (UnixMicro (r_Now (hd (ab_Requests a))))), w))"

definition atomic_fresh ::
  "(string \<Rightarrow> string) \<Rightarrow> 'w ctx \<Rightarrow> 'w nativeExecutor \<Rightarrow> 'w nativeTransaction \<Rightarrow> string \<Rightarrow> string \<Rightarrow> atomicBatchRequest \<Rightarrow>
   ('w, atomicBatchDecision) body" where
  "atomic_fresh sha256 ctx executor tx command intent a w =
     (let buckets = map (\<lambda>r. row_key sha256 (p_id (r_Policy r)) (r_Key r)) (ab_Requests a) in
      case lockBuckets tx None (sort (map advisoryKey buckets)) w of
        (Some err, w1) \<Rightarrow> precommit_exit ctx err w1
      | (None, w1) \<Rightarrow>
        (case atomic_clock executor tx a w1 of
           (Inl err, w2) \<Rightarrow> precommit_exit ctx err w2
         | (Inr now, w2) \<Rightarrow>
           (case loadStates tx buckets now w2 of
              (Inl err, w3) \<Rightarrow> precommit_exit ctx err w3
            | (Inr states, w3) \<Rightarrow> atomic_decide ctx tx command intent buckets now states a w3)))"

definition atomic_locked ::
  "(string \<Rightarrow> string) \<Rightarrow> 'w ctx \<Rightarrow> 'w nativeExecutor \<Rightarrow> 'w nativeTransaction \<Rightarrow> string \<Rightarrow> string \<Rightarrow> atomicBatchRequest \<Rightarrow>
   ('w, atomicBatchDecision) body" where
  "atomic_locked sha256 ctx executor tx command intent a w =
     (let lockTimeout = decimal_digits (nat (lockMilliseconds (po_LockTimeout (ne_options executor)))) @ ''ms'';
          (lock0, lock1) = commandLock command
      in
      case tx_setLockTimeout tx lockTimeout w of
        (Some err, w1) \<Rightarrow> precommit_exit ctx err w1
      | (None, w1) \<Rightarrow>
        (case tx_lockCommand tx lock0 lock1 w1 of
           (Some err, w2) \<Rightarrow> precommit_exit ctx err w2
         | (None, w2) \<Rightarrow>
           (case tx_selectCommand tx command (int maxAtomicReceiptBytes) w2 of
              (Row saved, w3) \<Rightarrow> atomic_replay ctx tx intent saved a w3
            | (ScanError err, w3) \<Rightarrow> precommit_exit ctx err w3
            | (NoRows, w3) \<Rightarrow> atomic_fresh sha256 ctx executor tx command intent a w3)))"

definition admitAtomic ::
  "(string \<Rightarrow> string) \<Rightarrow> (nat \<times> clockPolicy \<times> atomicIntentEntry list \<Rightarrow> string) \<Rightarrow> 'w clock \<Rightarrow> 'w ctx \<Rightarrow> 'w nativeExecutor \<Rightarrow>
   atomicBatchRequest \<Rightarrow> duration \<Rightarrow> 'w \<Rightarrow> atomicBatchDecision \<times> go_error option \<times> 'w" where
  "admitAtomic sha256 digest clock ctx executor a rollbackTimeout w =
     (let command = sha256 (ab_CommandID a); intent = atomicIntent digest a (po_Clock (ne_options executor)) in
      case db_begin (ne_database executor) w of
        (Inl err, w1) \<Rightarrow> let (ce, w2) = ctx w1 in (zero_AtomicBatchDecision, Some (UnknownOutcome ce), w2)
      | (Inr tx, w1) \<Rightarrow>
        let (now0, w2) = clock w1
        in finish_strict ctx tx (time_Add now0 rollbackTimeout) zero_AtomicBatchDecision
             (atomic_locked sha256 ctx executor tx command intent a w2))"

definition AdmitAtomicStrict ::
  "(string \<Rightarrow> string) \<Rightarrow> (nat \<times> clockPolicy \<times> atomicIntentEntry list \<Rightarrow> string) \<Rightarrow> ('w ctx \<Rightarrow> duration \<Rightarrow> 'w ctx) \<Rightarrow> 'w clock \<Rightarrow>
   'w pgStore option \<Rightarrow> 'w ctx option \<Rightarrow> atomicBatchRequest \<Rightarrow> 'w \<Rightarrow> atomicBatchDecision \<times> go_error option \<times> 'w" where
  "AdmitAtomicStrict sha256 digest withTimeout clock store ctx0 a w =
     (case pg_strictReady store ctx0 of
        Inl err \<Rightarrow> (zero_AtomicBatchDecision, Some err, w)
      | Inr (s, native, ctx) \<Rightarrow>
        (case AtomicBatchRequest_Validate a of
           Some err \<Rightarrow> (zero_AtomicBatchDecision, Some err, w)
         | None \<Rightarrow>
           let (ce, w1) = postgresStrictContext ctx w in
           if ce \<noteq> None then (zero_AtomicBatchDecision, ce, w1)
           else admitAtomic sha256 digest clock (withTimeout ctx (po_Timeout (pg_options s))) native a (pg_rollbackTimeout s) w1))"

text \<open>The store as a backend of the strict service.\<close>

definition postgres_backend ::
  "(string \<Rightarrow> string) \<Rightarrow> (nat \<times> clockPolicy \<times> atomicIntentEntry list \<Rightarrow> string) \<Rightarrow> ('w ctx \<Rightarrow> duration \<Rightarrow> 'w ctx) \<Rightarrow> 'w clock \<Rightarrow>
   'w pgStore option \<Rightarrow> 'w strictBackend" where
  "postgres_backend sha256 digest withTimeout clock store =
     \<lparr>sb_Name = ''postgres'',
      sb_AdmitStrict = \<lambda>ctx. pgStore_AdmitStrict sha256 withTimeout clock store (Some ctx),
      sb_Lease = Some \<lparr>slb_AcquireStrict = \<lambda>ctx. pgStore_AcquireStrict sha256 withTimeout clock store (Some ctx),
                       slb_ReleaseStrict = \<lambda>ctx. pgStore_ReleaseStrict sha256 withTimeout clock store (Some ctx)\<rparr>,
      sb_Atomic = Some (\<lambda>ctx a w. let (out, err, w1) = AdmitAtomicStrict sha256 digest withTimeout clock store (Some ctx) a w
                                  in (Some (out, err), w1))\<rparr>"

end
