(* ===== verification/Postgres_Commands.thy ===== *)
theory Postgres_Commands
  imports Postgres_Atomic
begin

text \<open>
  What atomic admission promises: over any database with transactions, a command takes
  effect at most once. Its buckets are debited together or not at all, its receipt is
  recorded with them, and submitting it again returns the recorded outcome without
  another debit.
\<close>

section \<open>Decisions of token buckets\<close>

lemma tokenDuration_refill: "tokenDuration tokens remainder p = refillDuration tokens remainder p"
proof -
  have "int64_of (q * 1000) = i64 (int64_of q * Microsecond)" if "\<not> q > uint64_of (MaxInt64 div Microsecond)" for q
  proof -
    have q: "unat q \<le> 9223372036854775" using that by (simp add: u64_less uint64_of_def)
    have "unat q * unat (1000 :: uint64) < 18446744073709551616" using q by simp
    then have "unat (q * 1000) = unat q * 1000" using unat_mult_lem [of q "1000 :: uint64"] by simp
    moreover have "int64_of q = int (unat q)" using q by (intro int64_of_small) simp
    moreover have "int64_range (int (unat q) * 1000)" using q by (intro int64_rangeI) linarith+
    ultimately show ?thesis using q int64_of_small [of "q * 1000"] by simp
  qed
  then show ?thesis unfolding tokenDuration_def refillDuration_def Let_def by (auto split: prod.splits)
qed

lemma tokenDuration_bounds:
  assumes p: "token_policy p" and t: "0 < unat tokens" "unat tokens \<le> unat cost" "unat cost \<le> unat (Limit p)"
    and rem: "unat remainder < period_us p"
  shows "0 < tokenDuration tokens remainder p" "tokenDuration tokens remainder p \<le> tokenDuration cost 0 p"
proof -
  note pf = token_policy_facts [OF p]
  have l: "unat tokens \<le> unat (Limit p)" "unat (0 :: uint64) < period_us p" using t pf(1) by simp_all
  have "1 * period_us p \<le> unat tokens * period_us p" using t(1) by (intro mult_le_mono1) simp
  then have "\<not> unat tokens * period_us p \<le> unat remainder + unat (p_capacity p) * 0" using rem by linarith
  then have "\<not> tokenDuration tokens remainder p \<le> 1000 * int 0"
    unfolding tokenDuration_refill refillDuration_least [OF p l(1) rem, of 0] .
  then show "0 < tokenDuration tokens remainder p" by simp
  obtain e where e: "tokenDuration cost 0 p = 1000 * int e"
    using refillDuration_us [OF p t(3) l(2)] by (simp add: tokenDuration_refill)
  then have "unat cost * period_us p \<le> unat (p_capacity p) * e"
    using refillDuration_least [OF p t(3) l(2), of e] by (simp add: tokenDuration_refill)
  moreover have "unat tokens * period_us p \<le> unat cost * period_us p" using t(2) by (rule mult_le_mono1)
  ultimately have "unat tokens * period_us p \<le> unat remainder + unat (p_capacity p) * e" by linarith
  then show "tokenDuration tokens remainder p \<le> tokenDuration cost 0 p"
    using refillDuration_least [OF p l(1) rem, of e] e by (simp add: tokenDuration_refill)
qed

lemma replenish_remainder:
  assumes p: "token_policy (r_Policy r)" and rem: "unat (ps_Remainder st) < period_us (r_Policy r)"
  shows "unat (ps_Remainder (replenish st r)) < period_us (r_Policy r)"
proof -
  note pf = token_policy_facts [OF p]
  let ?per = "uint64_of (Microseconds (p_period (r_Policy r)))"
  have "unat (snd (bits_Div64 high low ?per)) < period_us (r_Policy r)" if "\<not> high \<ge> ?per" for high low
    using Div64_snd [of ?per high low] that pf by (simp add: u64_le)
  then show ?thesis using rem pf(1) by (auto simp: replenish_def Let_def split: prod.splits) (metis snd_conv)+
qed

lemma tokenDuration_limit:
  assumes p: "token_policy p" and t: "unat tokens \<le> unat (Limit p)" "unat remainder < period_us p"
  shows "tokenDuration tokens remainder p \<le> 9007199254740991000"
proof -
  note pf = token_policy_facts [OF p]
  have "unat tokens * period_us p \<le> unat (Limit p) * period_us p" using t(1) by (rule mult_le_mono1)
  also have "\<dots> \<le> unat (p_capacity p) * (unat (Limit p) * period_us p)" using pf(4) by simp
  finally have "tokenDuration tokens remainder p \<le> 1000 * int (unat (Limit p) * period_us p)"
    unfolding tokenDuration_refill refillDuration_least [OF p t] by linarith
  then show ?thesis using pf(2) by linarith
qed

definition exact_instant :: "time \<Rightarrow> bool" where
  "exact_instant now \<longleftrightarrow> micro_range now \<and> - maxExactMicros \<le> UnixMicro now \<and> UnixMicro now \<le> maxExactMicros"

lemma server_range_exact: "server_range p (UnixMicro now) \<Longrightarrow> micro_range now \<Longrightarrow> exact_instant now"
  by (simp add: exact_instant_def server_range_def)

lemma exact_instant_pos: "exact_instant now \<Longrightarrow> zero_time < now"
  by (auto simp: exact_instant_def maxExactMicros_def zero_time_def)

lemma token_reset:
  assumes p: "token_policy p" and now: "exact_instant now"
    and t: "unat tokens \<le> unat (Limit p)" "unat remainder < period_us p"
  shows "rfc3339_ok (time_Add now (tokenDuration tokens remainder p))" "\<not> IsZero (time_Add now (tokenDuration tokens remainder p))"
proof -
  have "- 9007199254740991 \<le> now div 1000" "now div 1000 \<le> 9007199254740991"
    using now by (auto simp: exact_instant_def maxExactMicros_def)
  then have "- 9007199254740991000 \<le> now" "now < 9007199254740992000" by linarith+
  then show "rfc3339_ok (time_Add now (tokenDuration tokens remainder p))" "\<not> IsZero (time_Add now (tokenDuration tokens remainder p))"
    using tokenDuration_limit [OF p t] tokenDuration_nonneg [of tokens remainder p]
    by (simp_all add: rfc3339_ok_def time_Add_def IsZero_def zero_time_def)
qed

lemma bucket_outcome:
  assumes m: "mutateState cur r = (Some st', d, err)" and p: "token_policy (r_Policy r)" and now: "micro_range (r_Now r)"
    and c: "0 < unat (r_Cost r)" "unat (r_Cost r) \<le> unat (Limit (r_Policy r))"
  shows "err = None \<Longrightarrow> unat (ps_Tokens st') + unat (r_Cost r) \<le> unat (Limit (r_Policy r)) \<and> d_RetryAfter d = 0"
    "err = Some ErrRejected \<Longrightarrow> 0 < d_RetryAfter d \<and> d_RetryAfter d \<le> tokenDuration (r_Cost r) 0 (r_Policy r)"
    "complete r d err" "err = None \<or> err = Some ErrRejected" "rfc3339_ok (d_Reset d)" "unat (ps_Remainder st') < period_us (r_Policy r)"
proof -
  have p': "policy_wf (r_Policy r)" "p_algorithm (r_Policy r) = TokenBucket" "p_algorithm (r_Policy r) \<noteq> Concurrency"
    using p by (simp_all add: token_policy_def)
  obtain st r' where s: "strict_dispatch st r' = (st', d, err)" "r_Policy r' = r_Policy r" "r_Cost r' = r_Cost r"
    "unat (ps_Tokens st) \<le> unat (Limit (r_Policy r)) \<and> unat (ps_Remainder st) < period_us (r_Policy r)"
    "server_range (r_Policy r) (UnixMicro (r_Now r'))" "micro_range (r_Now r')"
    using mutateState_prepared [OF m p'(1,3) now] p'(2) by metis
  have mt: "mutateToken st r' = (st', d, err)" using s(1,2) p'(2) by (simp add: strict_dispatch_def)
  have t: "unat (ps_Tokens (replenish st r')) \<le> unat (Limit (r_Policy r))" using replenish_tokens [of st r'] s by simp
  have rem: "unat (ps_Remainder (replenish st r')) < period_us (r_Policy r)" using replenish_remainder [of r' st] s p by simp
  show "complete r d err" by (rule mutateState_complete [OF m p'(1,3) c(1) now])
  show "unat (ps_Remainder st') < period_us (r_Policy r)" using mt rem by (auto simp: mutateToken_def Let_def split: if_splits)
  have "\<exists>x. unat x \<le> unat (Limit (r_Policy r)) \<and> d_Reset d = time_Add (r_Now r') (tokenDuration x (ps_Remainder (replenish st r')) (r_Policy r))"
  proof (cases "ps_Tokens (replenish st r') < r_Cost r'")
    case True
    then show ?thesis using mt s(2) t
      by (intro exI [of _ "Limit (r_Policy r) - ps_Tokens (replenish st r')"]) (auto simp: mutateToken_def Let_def u64_sub)
  next
    case False
    then have "unat (ps_Tokens (replenish st r') - r_Cost r') \<le> unat (Limit (r_Policy r))" using t by (simp add: u64_sub u64_less)
    then show ?thesis using mt s(2) False
      by (intro exI [of _ "Limit (r_Policy r) - (ps_Tokens (replenish st r') - r_Cost r')"]) (auto simp: mutateToken_def Let_def u64_sub)
  qed
  then show "rfc3339_ok (d_Reset d)" using token_reset [OF p server_range_exact [OF s(5,6)] _ rem] by auto
  show "err = None \<or> err = Some ErrRejected" using mt by (auto simp: mutateToken_def Let_def split: if_splits)
  show "unat (ps_Tokens st') + unat (r_Cost r) \<le> unat (Limit (r_Policy r)) \<and> d_RetryAfter d = 0" if "err = None"
    using mt that t s(3) by (auto simp: mutateToken_def Let_def u64_less u64_sub zero_Decision_def split: if_splits)
  show "0 < d_RetryAfter d \<and> d_RetryAfter d \<le> tokenDuration (r_Cost r) 0 (r_Policy r)" if "err = Some ErrRejected"
  proof -
    have less: "unat (ps_Tokens (replenish st r')) < unat (r_Cost r)"
      and d: "d_RetryAfter d = tokenDuration (r_Cost r - ps_Tokens (replenish st r')) (ps_Remainder (replenish st r')) (r_Policy r)"
      using mt that s by (auto simp: mutateToken_def Let_def u64_less split: if_splits)
    then have "unat (r_Cost r - ps_Tokens (replenish st r')) = unat (r_Cost r) - unat (ps_Tokens (replenish st r'))"
      by (intro u64_sub) simp
    then show ?thesis using tokenDuration_bounds [OF p _ _ c(2) rem] less d by simp
  qed
qed

section \<open>Receipts of evaluated buckets\<close>

definition bucket_request :: "request \<Rightarrow> bool" where
  "bucket_request r \<longleftrightarrow> token_policy (r_Policy r) \<and> 0 < unat (r_Cost r) \<and> unat (r_Cost r) \<le> unat (Limit (r_Policy r))"

definition item_ok :: "persistedState \<times> decision \<Rightarrow> request \<Rightarrow> bool" where
  "item_ok x r \<longleftrightarrow> (let (st, d) = x; p = r_Policy r in
     d_Limit d = Limit p \<and> d_Backend d = ''postgres'' \<and> d_PolicyRevision d = p_revision p \<and> \<not> IsZero (d_Reset d) \<and>
     rfc3339_ok (d_Reset d) \<and> unat (ps_Remainder st) < period_us p \<and>
     (if d_Allowed d
      then d_Reason d = ReasonAllowed \<and> d_RetryAfter d = 0 \<and> d_Remaining d \<le> Limit p - r_Cost r \<and>
           unat (ps_Tokens st) + unat (r_Cost r) \<le> unat (Limit p)
      else d_Reason d = ReasonLimited \<and> d_Remaining d < r_Cost r \<and> 0 < d_RetryAfter d \<and> d_RetryAfter d \<le> tokenDuration (r_Cost r) 0 p))"

lemma decision_result_pass:
  assumes "strictPostgresDecisionResult ctx nxt d0 err0 w = ((d, err), w')" "mutateState cur r = (nxt, d0, err0)"
    and "\<not> (err \<noteq> None \<and> \<not> Is err ErrRejected)"
  shows "err = err0" "d = d0" "w' = w" "\<exists>st. nxt = Some st"
proof -
  have "err = err0 \<and> d = d0 \<and> w' = w \<and> (\<exists>st. nxt = Some st)"
    using assms(1,3) mutateState_errors [OF assms(2)]
    by (auto simp: strictPostgresDecisionResult_def postgresPrecommitCategory_def pg_validateStrictDecisionTime_def split: if_splits)
  then show "err = err0" "d = d0" "w' = w" "\<exists>st. nxt = Some st" by blast+
qed

text \<open>What the evaluation returns: the states and decisions of every bucket at one instant.\<close>

lemma evaluateBuckets_item:
  assumes "evaluateBuckets ctx now ((cur, r) # rest) w = (Inr (out, allowed), w')"
  obtains st d0 err0 out1 allowed1 where "mutateState cur (r\<lparr>r_Now := now\<rparr>) = (Some st, d0, err0)"
    "out = (st, d0\<lparr>d_Backend := ''postgres'', d_PolicyRevision := p_revision (r_Policy r)\<rparr>) # out1"
    "allowed = (err0 = None \<and> allowed1)" "evaluateBuckets ctx now rest w = (Inr (out1, allowed1), w')"
proof -
  let ?r = "r\<lparr>r_Now := now\<rparr>"
  obtain nxt d0 err0 where m: "mutateState cur ?r = (nxt, d0, err0)" by (metis prod_cases3)
  obtain d err w1 where s: "strictPostgresDecisionResult ctx nxt d0 err0 w = ((d, err), w1)" by (metis prod.exhaust)
  have ok: "\<not> (err \<noteq> None \<and> \<not> Is err ErrRejected)" using assms m s by (auto split: if_splits)
  note pass = decision_result_pass [OF s m ok]
  obtain st where "nxt = Some st" using pass(4) by blast
  then show ?thesis using that assms m s ok pass(1-3)
    by (auto simp: Let_def split: if_splits prod.splits sum.splits)
qed

lemma evaluateBuckets_ok:
  assumes "evaluateBuckets ctx now (zip states rs) w = (Inr (out, allowed), w')" "length states = length rs"
    and "\<forall>r \<in> set rs. bucket_request r" "micro_range now"
  shows "list_all2 item_ok out rs \<and> allowed = list_all (\<lambda>x. d_Allowed (snd x)) out \<and> w' = w \<and>
    list_all2 (\<lambda>(cur, r) (st, d). \<exists>d0 err. mutateState cur (r\<lparr>r_Now := now\<rparr>) = (Some st, d0, err) \<and> (d_Allowed d \<longleftrightarrow> err = None)) (zip states rs) out"
  using assms
proof (induction states rs arbitrary: w out allowed rule: list_induct2')
  case (4 cur states r rs)
  obtain st d0 err0 out1 allowed1 where m: "mutateState cur (r\<lparr>r_Now := now\<rparr>) = (Some st, d0, err0)"
    and out: "out = (st, d0\<lparr>d_Backend := ''postgres'', d_PolicyRevision := p_revision (r_Policy r)\<rparr>) # out1"
      "allowed = (err0 = None \<and> allowed1)"
    and rest: "evaluateBuckets ctx now (zip states rs) w = (Inr (out1, allowed1), w')"
    using evaluateBuckets_item [OF 4(2) [unfolded zip_Cons_Cons]] by blast
  have b: "bucket_request r" using 4(4) by simp
  note bo = bucket_outcome [OF m, simplified, OF b [unfolded bucket_request_def, THEN conjunct1] 4(5)]
  note bo = bo [OF b [unfolded bucket_request_def, THEN conjunct2, THEN conjunct1] b [unfolded bucket_request_def, THEN conjunct2, THEN conjunct2]]
  have "item_ok (st, d0\<lparr>d_Backend := ''postgres'', d_PolicyRevision := p_revision (r_Policy r)\<rparr>) r \<and> (d_Allowed d0 \<longleftrightarrow> err0 = None)"
    using bo by (auto simp: item_ok_def complete_def completeAllowed_def completeRejected_def Let_def)
  then show ?case using 4(1) [OF rest] 4(3-5) m out by auto
qed simp_all

lemma receiptLoop_allowed:
  "list_all2 item_ok out rs \<Longrightarrow> list_all (\<lambda>x. d_Allowed (snd x)) out \<Longrightarrow>
   receiptLoop True limited (zip (map snd out) rs) = Some limited"
proof (induction rule: list_all2_induct)
  case (Cons x out r rs)
  have "r_Cost r \<le> Limit (r_Policy r)" using Cons by (auto simp: item_ok_def u64_le Let_def split: prod.splits)
  moreover have "b \<le> c - a \<Longrightarrow> a \<le> c \<Longrightarrow> \<not> c < (b :: uint64)" for a b c by (simp add: u64_le u64_less u64_sub)
  ultimately show ?case using Cons by (auto simp: item_ok_def Let_def not_less split: prod.splits)
qed simp

lemma receiptLoop_rejected:
  "list_all2 item_ok out rs \<Longrightarrow> exact_instant now \<Longrightarrow> \<forall>r \<in> set rs. bucket_request r \<Longrightarrow>
   receiptLoop False limited (zip (map (restoreDecision now) (zip out rs)) rs) =
     Some (limited \<or> \<not> list_all (\<lambda>x. d_Allowed (snd x)) out)"
proof (induction arbitrary: limited rule: list_all2_induct)
  case (Cons x out r rs)
  obtain st d where x: "x = (st, d)" by (cases x)
  let ?d = "restoreDecision now (x, r)" and ?p = "r_Policy r"
  have cost: "unat (r_Cost r) \<le> unat (Limit ?p)" using Cons.prems by (simp add: bucket_request_def)
  have base: "d_Limit ?d = Limit ?p" "d_Backend ?d = ''postgres''" "d_PolicyRevision ?d = p_revision ?p" "\<not> d_Allowed ?d"
    using Cons(1) by (auto simp: restoreDecision_def item_ok_def x Let_def)
  show ?case
  proof (cases "d_Allowed d")
    case True
    then have sum: "unat (ps_Tokens st + r_Cost r) = unat (ps_Tokens st) + unat (r_Cost r)"
      and le: "unat (ps_Tokens st) + unat (r_Cost r) \<le> unat (Limit ?p)"
      using Cons(1) unat_less_2p64 [of "Limit ?p"] by (auto intro!: u64_add simp: item_ok_def x Let_def)
    have "\<not> IsZero (d_Reset ?d)"
      using True exact_instant_pos [OF Cons.prems(1)] tokenDuration_nonneg [of "Limit ?p - (ps_Tokens st + r_Cost r)" "ps_Remainder st" ?p]
      by (simp add: restoreDecision_def x IsZero_def time_Add_def Let_def)
    moreover have "d_Reason ?d = ReasonAtomicRejected" "d_RetryAfter ?d = 0" "d_Remaining ?d = ps_Tokens st + r_Cost r"
      using True Cons(1) by (auto simp: restoreDecision_def item_ok_def x Let_def)
    ultimately show ?thesis using base Cons sum le True x by (simp add: u64_less)
  next
    case False
    then have "?d = d" by (simp add: restoreDecision_def x)
    then show ?thesis using base Cons(1) Cons.IH [OF Cons.prems(1), of True] Cons.prems(2) False x cost
      by (auto simp: item_ok_def u64_less u64_le Let_def)
  qed
qed simp

text \<open>The outcome of a run, decoded from its own receipt.\<close>

definition receipted :: "atomicBatchRequest \<Rightarrow> receipt \<Rightarrow> atomicBatchDecision \<Rightarrow> go_error option \<Rightarrow> bool" where
  "receipted a x out err \<longleftrightarrow> decodeAtomicReceipt x a = (out, err) \<and> (err = None \<or> err = Some ErrRejected)"

lemma receipted_allowed:
  assumes "list_all2 item_ok out (ab_Requests a)" "list_all (\<lambda>x. d_Allowed (snd x)) out"
    and "batch = \<lparr>ad_CommandID = ab_CommandID a, ad_Allowed = True, ad_Decisions = map snd out\<rparr>"
  shows "receipted a (Receipt (batch\<lparr>ad_CommandID := ''''\<rparr>) False) batch None"
  using receiptLoop_allowed [OF assms(1,2)] list_all2_lengthD [OF assms(1)] assms(3)
  by (simp add: receipted_def decodeAtomicReceipt_def)

lemma receipted_rejected:
  assumes "list_all2 item_ok out (ab_Requests a)" "\<not> list_all (\<lambda>x. d_Allowed (snd x)) out" "exact_instant now"
    "\<forall>r \<in> set (ab_Requests a). bucket_request r"
    and "batch = \<lparr>ad_CommandID = ab_CommandID a, ad_Allowed = False, ad_Decisions = map (restoreDecision now) (zip out (ab_Requests a))\<rparr>"
  shows "receipted a (Receipt (batch\<lparr>ad_CommandID := ''''\<rparr>) False) batch (Some ErrRejected)"
  using receiptLoop_rejected [OF assms(1,3,4), of False] list_all2_lengthD [OF assms(1)] assms(2,5)
  by (simp add: receipted_def decodeAtomicReceipt_def)

section \<open>Receipts fit\<close>

lemma decimal_digits_bounds: "n < 10 ^ Suc k \<Longrightarrow> length (decimal_digits n) \<le> Suc k"
proof (induction k arbitrary: n)
  case (Suc k)
  show ?case
  proof (cases "n < 10")
    case False
    have "n div 10 < 10 ^ Suc k" using Suc.prems by (simp add: less_mult_imp_div_less)
    then show ?thesis using Suc.IH [of "n div 10"] False by (subst decimal_digits.simps) simp
  qed (subst decimal_digits.simps, simp)
qed (subst decimal_digits.simps, simp)

lemma json_int_length: "int64_range n \<Longrightarrow> json_int_length n \<le> 20" "json_int_length (uint (w :: uint64)) \<le> 20"
proof -
  show "int64_range n \<Longrightarrow> json_int_length n \<le> 20"
  proof -
    assume "int64_range n"
    then have "nat \<bar>n\<bar> < 10 ^ Suc 18" by (simp add: int64_range_def abs_less_iff nat_less_iff)
    then show ?thesis using decimal_digits_bounds [of "nat \<bar>n\<bar>" 18] by (cases "n < 0") (simp_all add: json_int_length_def)
  qed
  show "json_int_length (uint w) \<le> 20"
    using decimal_digits_bounds [of "unat w" 19] unat_less_2p64 [of w] by (simp add: json_int_length_def)
qed

lemma rfc3339_length: "rfc3339_length t \<le> 30"
  by (simp add: rfc3339_length_def Let_def)

text \<open>A decision whose JSON is short: the fields of bounded size.\<close>

definition short_decision :: "decision \<Rightarrow> bool" where
  "short_decision d \<longleftrightarrow> rfc3339_ok (d_Reset d) \<and> int64_range (d_RetryAfter d) \<and> length (d_Reason d) \<le> 15 \<and>
     length (d_Backend d) \<le> 8 \<and> length (d_PolicyRevision d) \<le> 64"

lemma short_length: "short_decision d \<Longrightarrow> json_Decision_length d \<le> 286"
  using json_int_length(1) [of "d_RetryAfter d"] json_int_length(2) [of "d_Remaining d"] json_int_length(2) [of "d_Limit d"]
    rfc3339_length [of "d_Reset d"]
  by (auto simp: json_Decision_length_def json_bool_length_def short_decision_def)

lemma short_receipt:
  assumes "list_all short_decision ds" "length ds \<le> 16"
  shows "marshalReceipt \<lparr>ad_CommandID = [], ad_Allowed = b, ad_Decisions = ds\<rparr> =
    Some (Receipt \<lparr>ad_CommandID = [], ad_Allowed = b, ad_Decisions = ds\<rparr> False)"
proof -
  have "sum_list (map json_Decision_length ds) \<le> 286 * length ds"
    using assms(1) by (induction ds) (auto dest: short_length)
  then have "json_receipt_length \<lparr>ad_CommandID = [], ad_Allowed = b, ad_Decisions = ds\<rparr> \<le> maxAtomicReceiptBytes"
    using assms(2) unfolding json_receipt_length_def json_bool_length_def maxAtomicReceiptBytes_def by simp linarith
  moreover have "list_all (\<lambda>d. rfc3339_ok (d_Reset d)) ds" using assms(1) by (auto simp: list_all_iff short_decision_def)
  ultimately show ?thesis by (simp add: marshalReceipt_def)
qed

lemma item_short:
  assumes i: "item_ok (st, d) r" and b: "bucket_request r"
  shows "short_decision d" "exact_instant now \<Longrightarrow> short_decision (restoreDecision now ((st, d), r))"
proof -
  let ?p = "r_Policy r"
  have p: "token_policy ?p" and c: "unat (r_Cost r) \<le> unat (Limit ?p)" using b by (simp_all add: bucket_request_def)
  have rev: "length (p_revision ?p) \<le> 64"
    using p by (simp add: token_policy_def policy_wf_def validPolicyIdentifier_def MaxPolicyRevisionBytes_def)
  have zero: "unat (0 :: uint64) < period_us ?p" using token_policy_facts(1) [OF p] by simp
  have retry: "int64_range (d_RetryAfter d)"
    using i tokenDuration_limit [OF p c zero] by (auto simp: item_ok_def int64_range_def Let_def split: if_splits)
  show s: "short_decision d" using i rev retry by (auto simp: item_ok_def short_decision_def Let_def split: if_splits)
  show "short_decision (restoreDecision now ((st, d), r))" if now: "exact_instant now"
  proof (cases "d_Allowed d")
    case True
    have "rfc3339_ok (time_Add now (tokenDuration (Limit ?p - (ps_Tokens st + r_Cost r)) (ps_Remainder st) ?p))"
    proof (rule token_reset(1) [OF p now])
      have le: "unat (ps_Tokens st) + unat (r_Cost r) \<le> unat (Limit ?p)" using i True by (simp add: item_ok_def Let_def)
      then have "unat (ps_Tokens st + r_Cost r) = unat (ps_Tokens st) + unat (r_Cost r)"
        using unat_less_2p64 [of "Limit ?p"] by (intro u64_add) simp
      then show "unat (Limit ?p - (ps_Tokens st + r_Cost r)) \<le> unat (Limit ?p)" using le by (simp add: u64_sub)
      show "unat (ps_Remainder st) < period_us ?p" using i by (simp add: item_ok_def Let_def)
    qed
    then show ?thesis using s True by (simp add: restoreDecision_def short_decision_def Let_def)
  qed (use s in \<open>simp add: restoreDecision_def\<close>)
qed

lemma bucket_instant:
  assumes m: "mutateState cur r = (Some st', d, err)" and p: "token_policy (r_Policy r)" and now: "micro_range (r_Now r)"
    and obs: "\<And>st. cur = Some st \<Longrightarrow> ps_ObservedMicros st \<le> UnixMicro (r_Now r)"
  shows "exact_instant (r_Now r)"
proof -
  have p': "policy_wf (r_Policy r)" "p_algorithm (r_Policy r) \<noteq> Concurrency" using p by (simp_all add: token_policy_def)
  obtain r' :: request where "server_range (r_Policy r) (UnixMicro (r_Now r'))"
    "r_Now r' = r_Now r \<or> (\<exists>st0. cur = Some st0 \<and> UnixMicro (r_Now r) < ps_ObservedMicros st0)"
    using mutateState_prepared [OF m p' now] by metis
  then show ?thesis using obs server_range_exact now by force
qed

definition observed_typed :: "persistedState option list \<Rightarrow> bool" where
  "observed_typed states \<longleftrightarrow> (\<forall>st. Some st \<in> set states \<longrightarrow> int64_range (ps_ObservedMicros st))"

lemma effective_now_bounds:
  "observed_typed states \<Longrightarrow> micro_range now \<Longrightarrow>
   micro_range (effective_now now states) \<and> UnixMicro now \<le> UnixMicro (effective_now now states) \<and>
   (\<forall>st. Some st \<in> set states \<longrightarrow> ps_ObservedMicros st \<le> UnixMicro (effective_now now states))"
proof (induction states arbitrary: now)
  case (Cons x states)
  let ?n = "case x of Some st \<Rightarrow> if ps_ObservedMicros st > UnixMicro now then time_UnixMicro (ps_ObservedMicros st) else now | None \<Rightarrow> now"
  have u: "int64_range t \<Longrightarrow> micro_range (time_UnixMicro t) \<and> UnixMicro (time_UnixMicro t) = t" for t
    by (simp add: UnixMicro_def time_UnixMicro_def micro_range_def)
  have n: "micro_range ?n" "UnixMicro now \<le> UnixMicro ?n" "\<And>st. x = Some st \<Longrightarrow> ps_ObservedMicros st \<le> UnixMicro ?n"
    using Cons.prems u by (auto simp: observed_typed_def simp del: UnixMicro_range split: option.splits)
  have e: "effective_now now (x # states) = effective_now ?n states" by (simp add: effective_now_def)
  have "observed_typed states" using Cons.prems by (simp add: observed_typed_def)
  note ih = Cons.IH [OF this n(1)]
  show ?case unfolding e using ih n(2,3) by fastforce
qed (simp add: effective_now_def)

lemma evaluated_instant:
  assumes "evaluateBuckets ctx (effective_now now states) (zip states rs) w = (Inr (out, allowed), w')" "length states = length rs"
    and "\<forall>r \<in> set rs. bucket_request r" "micro_range now" "observed_typed states" "rs \<noteq> []"
  shows "exact_instant (effective_now now states)"
proof -
  let ?now = "effective_now now states"
  note e = effective_now_bounds [OF assms(5,4)]
  obtain cur ss r rr where c: "states = cur # ss" "rs = r # rr" using assms(2,6) by (metis length_0_conv neq_Nil_conv)
  obtain st d0 err0 where m: "mutateState cur (r\<lparr>r_Now := ?now\<rparr>) = (Some st, d0, err0)"
    using evaluateBuckets_item [OF assms(1) [unfolded c zip_Cons_Cons]] unfolding c by metis
  have "ps_ObservedMicros st1 \<le> UnixMicro ?now" if "cur = Some st1" for st1 using e c that by (simp del: UnixMicro_range)
  then show ?thesis using bucket_instant [OF m] assms(3) c e by (simp add: bucket_request_def)
qed

section \<open>A database with transactions\<close>

text \<open>
  What the package relies on: the committed tables and those the current transaction
  sees are a function of the world. Reading and locking change neither; a statement that
  succeeds changes what the transaction sees as its SQL says; a commit makes that the
  committed tables, and one that fails may or may not have; a rollback keeps the
  committed tables. Locks keep other transactions from the rows and the command in
  between.
\<close>

record tables =
  t_rows :: "string \<rightharpoonup> document \<times> time"
  t_commands :: "string \<rightharpoonup> string \<times> receipt"

definition keeps :: "('w \<Rightarrow> 'v) \<Rightarrow> ('w \<Rightarrow> 'a \<times> 'w) \<Rightarrow> bool" where
  "keeps view f \<longleftrightarrow> (\<forall>w x w'. f w = (x, w') \<longrightarrow> view w' = view w)"

definition performs :: "('w \<Rightarrow> tables \<times> tables) \<Rightarrow> (tables \<Rightarrow> tables) \<Rightarrow> ('w \<Rightarrow> go_error option \<times> 'w) \<Rightarrow> bool" where
  "performs view g f \<longleftrightarrow> (\<forall>w x w'. f w = (x, w') \<longrightarrow>
     fst (view w') = fst (view w) \<and> (x = None \<longrightarrow> snd (view w') = g (snd (view w))))"

definition put_row :: "string \<Rightarrow> (document \<times> time) option \<Rightarrow> tables \<Rightarrow> tables" where
  "put_row k x T = T\<lparr>t_rows := (t_rows T)(k := x)\<rparr>"

definition put_command :: "string \<Rightarrow> string \<times> receipt \<Rightarrow> tables \<Rightarrow> tables" where
  "put_command c x T = T\<lparr>t_commands := (t_commands T)(c \<mapsto> x)\<rparr>"

definition transactional :: "('w \<Rightarrow> tables \<times> tables) \<Rightarrow> 'w nativeTransaction \<Rightarrow> bool" where
  "transactional view tx \<longleftrightarrow>
     (\<forall>s. keeps view (tx_setLockTimeout tx s)) \<and> (\<forall>a b. keeps view (tx_lockCommand tx a b)) \<and>
     (\<forall>k. keeps view (tx_lockBucket tx k)) \<and> keeps view (tx_clockTimestamp tx) \<and>
     (\<forall>k n. keeps view (tx_selectStateStrict tx k n)) \<and> (\<forall>c n. keeps view (tx_selectCommand tx c n)) \<and>
     (\<forall>k n w doc t. fst (tx_selectStateStrict tx k n w) = Row (doc, t, True) \<longrightarrow> t_rows (snd (view w)) k = Some (doc, t)) \<and>
     (\<forall>k n w. fst (tx_selectStateStrict tx k n w) = NoRows \<longrightarrow> t_rows (snd (view w)) k = None) \<and>
     (\<forall>c n w saved. fst (tx_selectCommand tx c n w) = Row saved \<longrightarrow> t_commands (snd (view w)) c = Some saved) \<and>
     (\<forall>c n w. fst (tx_selectCommand tx c n w) = NoRows \<longrightarrow> t_commands (snd (view w)) c = None) \<and>
     (\<forall>k. performs view (put_row k None) (tx_deleteState tx k)) \<and>
     (\<forall>k doc t u. performs view (put_row k (Some (doc, t))) (tx_upsertState tx k doc t u)) \<and>
     (\<forall>c i x. performs view (put_command c (i, x)) (tx_insertCommand tx c i x)) \<and>
     (\<forall>w x w'. tx_commit tx w = (x, w') \<longrightarrow>
        (if x = None then view w' = (snd (view w), snd (view w)) else fst (view w') \<in> {fst (view w), snd (view w)})) \<and>
     (\<forall>d w x w'. tx_rollback tx d w = (x, w') \<longrightarrow> fst (view w') = fst (view w))"

definition transactional_db :: "('w \<Rightarrow> tables \<times> tables) \<Rightarrow> 'w nativeDatabase \<Rightarrow> bool" where
  "transactional_db view db \<longleftrightarrow> (\<forall>w x w'. db_begin db w = (x, w') \<longrightarrow> fst (view w') = fst (view w) \<and>
     (\<forall>tx. x = Inr tx \<longrightarrow> transactional view tx \<and> snd (view w') = fst (view w)))"

lemma keepsD: "keeps view f \<Longrightarrow> f w = (x, w') \<Longrightarrow> view w' = view w"
  by (auto simp: keeps_def)

lemma transactionalD:
  assumes "transactional view tx"
  shows "tx_setLockTimeout tx s w = (e, w') \<Longrightarrow> view w' = view w" "tx_lockCommand tx a b w = (e, w') \<Longrightarrow> view w' = view w"
    "tx_lockBucket tx i w = (e, w') \<Longrightarrow> view w' = view w" "tx_clockTimestamp tx w = (x1, w') \<Longrightarrow> view w' = view w"
    "tx_selectStateStrict tx k n w = (x2, w') \<Longrightarrow> view w' = view w" "tx_selectCommand tx c n w = (x3, w') \<Longrightarrow> view w' = view w"
    "tx_selectStateStrict tx k n w = (Row (doc, t, True), w') \<Longrightarrow> t_rows (snd (view w)) k = Some (doc, t)"
    "tx_selectStateStrict tx k n w = (NoRows, w') \<Longrightarrow> t_rows (snd (view w)) k = None"
    "tx_selectCommand tx c n w = (Row saved, w') \<Longrightarrow> t_commands (snd (view w)) c = Some saved"
    "tx_selectCommand tx c n w = (NoRows, w') \<Longrightarrow> t_commands (snd (view w)) c = None"
    "performs view (put_row k None) (tx_deleteState tx k)"
    "performs view (put_row k (Some (doc, t))) (tx_upsertState tx k doc t u)"
    "performs view (put_command c (j, y)) (tx_insertCommand tx c j y)"
    "tx_commit tx w = (None, w') \<Longrightarrow> view w' = (snd (view w), snd (view w))"
    "tx_commit tx w = (Some er, w') \<Longrightarrow> fst (view w') \<in> {fst (view w), snd (view w)}"
    "tx_rollback tx d w = (e, w') \<Longrightarrow> fst (view w') = fst (view w)"
proof -
  note t = assms [unfolded transactional_def keeps_def]
  show "tx_setLockTimeout tx s w = (e, w') \<Longrightarrow> view w' = view w" "tx_lockCommand tx a b w = (e, w') \<Longrightarrow> view w' = view w"
    "tx_lockBucket tx i w = (e, w') \<Longrightarrow> view w' = view w" "tx_clockTimestamp tx w = (x1, w') \<Longrightarrow> view w' = view w"
    "tx_selectStateStrict tx k n w = (x2, w') \<Longrightarrow> view w' = view w" "tx_selectCommand tx c n w = (x3, w') \<Longrightarrow> view w' = view w"
    "tx_selectStateStrict tx k n w = (Row (doc, t, True), w') \<Longrightarrow> t_rows (snd (view w)) k = Some (doc, t)"
    "tx_selectStateStrict tx k n w = (NoRows, w') \<Longrightarrow> t_rows (snd (view w)) k = None"
    "tx_selectCommand tx c n w = (Row saved, w') \<Longrightarrow> t_commands (snd (view w)) c = Some saved"
    "tx_selectCommand tx c n w = (NoRows, w') \<Longrightarrow> t_commands (snd (view w)) c = None"
    "performs view (put_row k None) (tx_deleteState tx k)"
    "performs view (put_row k (Some (doc, t))) (tx_upsertState tx k doc t u)"
    "performs view (put_command c (j, y)) (tx_insertCommand tx c j y)"
    "tx_commit tx w = (None, w') \<Longrightarrow> view w' = (snd (view w), snd (view w))"
    "tx_commit tx w = (Some er, w') \<Longrightarrow> fst (view w') \<in> {fst (view w), snd (view w)}"
    "tx_rollback tx d w = (e, w') \<Longrightarrow> fst (view w') = fst (view w)"
    using t by (metis fst_conv option.distinct(1))+
qed

lemma performsD:
  "performs view g f \<Longrightarrow> f w = (x, w') \<Longrightarrow> fst (view w') = fst (view w)"
  "performs view g f \<Longrightarrow> f w = (None, w') \<Longrightarrow> snd (view w') = g (snd (view w))"
  by (auto simp: performs_def)

section \<open>The steps of a command\<close>

lemma precommit_keeps:
  assumes "keeps view ctx" "postgresPrecommitCategory ctx (Some e) w = (x, w')"
  shows "view w' = view w" "x \<noteq> None"
proof -
  have c: "ctx w = (y, w') \<Longrightarrow> view w' = view w" for y w w' by (rule keepsD [OF assms(1)])
  have "postgresStrictContext ctx w = (y, w') \<Longrightarrow> view w' = view w" for y w w'
    by (auto simp: postgresStrictContext_def Let_def split: prod.splits if_splits dest!: c)
  then have "view w' = view w \<and> x \<noteq> None"
    using assms(2) by (cases e) (auto simp: postgresPrecommitCategory_def Let_def split: prod.splits option.splits if_splits)
  then show "view w' = view w" "x \<noteq> None" by blast+
qed

lemma lockBuckets_keeps:
  "transactional view tx \<Longrightarrow> lockBuckets tx previous locks w = (e, w') \<Longrightarrow> view w' = view w"
proof (induction locks arbitrary: previous w)
  case (Cons k ks)
  show ?case
  proof (cases "previous = Some k")
    case False
    obtain x w1 where l: "tx_lockBucket tx k w = (x, w1)" by (cases "tx_lockBucket tx k w")
    have "view w1 = view w" using transactionalD(3) [OF Cons.prems(1) l] .
    then show ?thesis using Cons False l by (auto split: option.splits)
  qed (use Cons in auto)
qed simp

lemma atomic_clock_keeps:
  assumes "transactional view tx" "atomic_clock executor tx a w = (x, w')"
  shows "view w' = view w" "x = Inr now \<Longrightarrow> micro_range now"
proof -
  have "micro_range (time_UnixMicro (UnixMicro t))" for t by (simp add: micro_range_def time_UnixMicro_def UnixMicro_def i64_def int64_range_def)
  then show "view w' = view w" "x = Inr now \<Longrightarrow> micro_range now"
    using assms(2) transactionalD(4) [OF assms(1)]
    by (auto simp: atomic_clock_def split: if_splits prod.splits sum.splits)
qed

text \<open>The state that a stored row stands for at an instant.\<close>

definition current_row :: "tables \<Rightarrow> time \<Rightarrow> string \<Rightarrow> persistedState option \<Rightarrow> bool" where
  "current_row T now k cur \<longleftrightarrow> (case t_rows T k of None \<Rightarrow> cur = None
     | Some (doc, t) \<Rightarrow> if t > now then \<exists>st. decodeState doc = Inr st \<and> cur = Some st else cur = None)"

lemma decodeState_observed: "decodeState doc = Inr st \<Longrightarrow> int64_range (ps_ObservedMicros st)"
  by (auto simp: decodeState_def decodeStateMode_def corrupt_def numbers_fit_def unmarshal_def Let_def
      split: document.splits if_splits)

lemma loadStateStrict_view:
  assumes tx: "transactional view tx" and l: "loadStateStrict tx k now w = (x, w')"
  shows "fst (view w') = fst (view w)"
    "x = Inr cur \<Longrightarrow> (snd (view w') = snd (view w) \<or> cur = None \<and> snd (view w') = put_row k None (snd (view w))) \<and>
       current_row (snd (view w)) now k cur \<and> (\<forall>st. cur = Some st \<longrightarrow> int64_range (ps_ObservedMicros st))"
proof -
  obtain s w1 where s: "tx_selectStateStrict tx k maxEncodedStateBytes w = (s, w1)" by (cases "tx_selectStateStrict tx k maxEncodedStateBytes w")
  note v = transactionalD(5) [OF tx s]
  have d: "tx_deleteState tx k w1 = (e, w2) \<Longrightarrow> fst (view w2) = fst (view w1) \<and> (e = None \<longrightarrow> snd (view w2) = put_row k None (snd (view w1)))" for e w2
    using performsD [OF transactionalD(11) [OF tx]] by blast
  have "fst (view w') = fst (view w) \<and> (x = Inr cur \<longrightarrow> (snd (view w') = snd (view w) \<or> cur = None \<and> snd (view w') = put_row k None (snd (view w))) \<and>
       current_row (snd (view w)) now k cur \<and> (\<forall>st. cur = Some st \<longrightarrow> int64_range (ps_ObservedMicros st)))"
  proof (cases s)
    case NoRows
    then show ?thesis using l s v transactionalD(8) [OF tx, of k maxEncodedStateBytes w w1] by (auto simp: loadStateStrict_def current_row_def)
  next
    case (ScanError e)
    then show ?thesis using l s v by (auto simp: loadStateStrict_def)
  next
    case (Row row)
    obtain doc t fits where row: "row = (doc, t, fits)" by (cases row)
    show ?thesis
    proof (cases fits)
      case True
      have r: "t_rows (snd (view w)) k = Some (doc, t)" using transactionalD(7) [OF tx, of k maxEncodedStateBytes w doc t w1] s Row row True by simp
      obtain e w2 where de: "tx_deleteState tx k w1 = (e, w2)" by (cases "tx_deleteState tx k w1")
      show ?thesis
        using l s v Row row True r de d [OF de] decodeState_observed
        by (auto simp: loadStateStrict_def current_row_def map_sum_def split: if_splits sum.splits option.splits)
    qed (use l s v Row row in \<open>auto simp: loadStateStrict_def\<close>)
  qed
  then show "fst (view w') = fst (view w)"
    "x = Inr cur \<Longrightarrow> (snd (view w') = snd (view w) \<or> cur = None \<and> snd (view w') = put_row k None (snd (view w))) \<and>
       current_row (snd (view w)) now k cur \<and> (\<forall>st. cur = Some st \<longrightarrow> int64_range (ps_ObservedMicros st))" by blast+
qed

lemma loadStates_view:
  assumes tx: "transactional view tx"
  shows "loadStates tx ks now w = (x, w') \<Longrightarrow> fst (view w') = fst (view w) \<and>
    (\<forall>states. x = Inr states \<longrightarrow> t_commands (snd (view w')) = t_commands (snd (view w)) \<and>
       t_rows (snd (view w')) \<subseteq>\<^sub>m t_rows (snd (view w)) \<and> list_all2 (current_row (snd (view w)) now) ks states \<and> observed_typed states)"
proof (induction ks arbitrary: w x w')
  case Nil
  then show ?case by (auto simp: observed_typed_def)
next
  case (Cons k ks)
  obtain y w1 where l: "loadStateStrict tx k now w = (y, w1)" by (cases "loadStateStrict tx k now w")
  note f = loadStateStrict_view [OF tx l]
  show ?case
  proof (cases y)
    case (Inl e)
    then show ?thesis using Cons.prems l f by auto
  next
    case (Inr cur)
    obtain z w2 where r: "loadStates tx ks now w1 = (z, w2)" by (cases "loadStates tx ks now w1")
    note ih = Cons.IH [OF r] and f2 = f(2) [OF Inr]
    have keep: "current_row (snd (view w1)) now k' c \<Longrightarrow> current_row (snd (view w)) now k' c" for k' c
      using f2 by (auto simp: current_row_def put_row_def split: option.splits if_splits)
    have sub: "t_commands (snd (view w1)) = t_commands (snd (view w))" "t_rows (snd (view w1)) \<subseteq>\<^sub>m t_rows (snd (view w))"
      using f2 by (auto simp: put_row_def map_le_def split: if_splits)
    show ?thesis
    proof (cases z)
      case (Inr states)
      then have "list_all2 (current_row (snd (view w)) now) ks states" using ih keep by (auto intro: list_all2_mono)
      then show ?thesis using Cons.prems l r Inr \<open>y = Inr cur\<close> ih f f2 sub by (auto simp: observed_typed_def intro: map_le_trans)
    qed (use Cons.prems l r Inr ih f in auto)
  qed
qed

lemma evaluateBuckets_keeps:
  assumes "keeps view ctx"
  shows "evaluateBuckets ctx now xs w = (x, w') \<Longrightarrow> view w' = view w"
proof (induction xs arbitrary: w x w')
  case (Cons y xs)
  obtain cur r where y: "y = (cur, r)" by (cases y)
  obtain nxt d0 err0 where m: "mutateState cur (r\<lparr>r_Now := now\<rparr>) = (nxt, d0, err0)" by (metis prod_cases3)
  obtain d err w1 where s: "strictPostgresDecisionResult ctx nxt d0 err0 w = ((d, err), w1)" by (metis prod.exhaust)
  have v: "view w1 = view w"
    using s precommit_keeps(1) [OF assms]
    by (auto simp: strictPostgresDecisionResult_def split: if_splits prod.splits option.splits)
  obtain z w2 where e: "evaluateBuckets ctx now xs w1 = (z, w2)" by (cases "evaluateBuckets ctx now xs w1")
  show ?case using Cons.prems Cons.IH [OF e] y m s v e by (auto simp: Let_def split: if_splits sum.splits)
qed simp

text \<open>Rows that hold the given states.\<close>

definition stored :: "tables \<Rightarrow> string \<times> persistedState \<times> request \<Rightarrow> bool" where
  "stored T x \<longleftrightarrow> (let (k, st, r) = x in
     t_rows T k = Some (encodeState st, time_Add (time_UnixMicro (ps_ObservedMicros st)) (postgresAdmissionTTL (r_Policy r))))"

lemma writeStates_view:
  assumes tx: "transactional view tx"
  shows "writeStates tx xs w = (e, w') \<Longrightarrow> fst (view w') = fst (view w) \<and>
    (e = None \<longrightarrow> t_commands (snd (view w')) = t_commands (snd (view w)) \<and>
      (\<forall>k. k \<notin> fst ` set xs \<longrightarrow> t_rows (snd (view w')) k = t_rows (snd (view w)) k) \<and>
      (distinct (map fst xs) \<longrightarrow> list_all (stored (snd (view w'))) xs))"
proof (induction xs arbitrary: w e w')
  case (Cons x xs)
  obtain k st r where x: "x = (k, st, r)" by (metis prod_cases3)
  let ?t = "time_UnixMicro (ps_ObservedMicros st)"
  obtain e1 w1 where u: "tx_upsertState tx k (encodeState st) (time_Add ?t (postgresAdmissionTTL (r_Policy r))) ?t w = (e1, w1)"
    by (metis surj_pair)
  note p = performsD [OF transactionalD(12) [OF tx]]
  note pu = p(1) [OF u]
  show ?case
  proof (cases e1)
    case (Some y)
    then show ?thesis using Cons.prems x u pu by (auto simp: Let_def)
  next
    case None
    have v: "snd (view w1) = put_row k (Some (encodeState st, time_Add ?t (postgresAdmissionTTL (r_Policy r)))) (snd (view w))"
      using p(2) u None by blast
    have rest: "writeStates tx xs w1 = (e, w')" using Cons.prems x u None by (simp add: Let_def)
    note ih = Cons.IH [OF rest]
    have "distinct (map fst (x # xs)) \<longrightarrow> e = None \<longrightarrow> stored (snd (view w')) x"
      using ih v x by (auto simp: stored_def put_row_def)
    then show ?thesis using ih v pu x by (auto simp: put_row_def)
  qed
qed simp

text \<open>The outcome of a command's body, before a deferred rollback.\<close>

definition all_debited :: "(string \<Rightarrow> string) \<Rightarrow> tables \<Rightarrow> tables \<Rightarrow> atomicBatchRequest \<Rightarrow> bool" where
  "all_debited sha256 T T' a \<longleftrightarrow>
     (\<exists>now0 now. list_all (\<lambda>r. \<exists>cur st d. current_row T now0 (row_key sha256 (p_id (r_Policy r)) (r_Key r)) cur \<and>
        mutateState cur (r\<lparr>r_Now := now\<rparr>) = (Some st, d, None) \<and>
        stored T' (row_key sha256 (p_id (r_Policy r)) (r_Key r), st, r)) (ab_Requests a))"

definition took_effect ::
  "(string \<Rightarrow> string) \<Rightarrow> string \<Rightarrow> string \<Rightarrow> tables \<Rightarrow> tables \<Rightarrow> atomicBatchRequest \<Rightarrow> atomicBatchDecision \<Rightarrow> go_error option \<Rightarrow> bool" where
  "took_effect sha256 command intent T T' a out err \<longleftrightarrow>
     (\<exists>x. t_commands T' command = Some (intent, x) \<and> receipted a x out err \<and>
        (t_commands T command = Some (intent, x) \<and> T' = T \<or>
         t_commands T command = None \<and> t_commands T' = (t_commands T)(command \<mapsto> (intent, x)) \<and>
         (if err = None then all_debited sha256 T T' a else t_rows T' \<subseteq>\<^sub>m t_rows T)))"

definition body_effect ::
  "(string \<Rightarrow> string) \<Rightarrow> string \<Rightarrow> string \<Rightarrow> ('w \<Rightarrow> tables \<times> tables) \<Rightarrow> tables \<Rightarrow> atomicBatchRequest \<Rightarrow>
   atomicBatchDecision \<times> go_error option \<times> bool \<times> 'w \<Rightarrow> bool" where
  "body_effect sha256 command intent view T a res \<longleftrightarrow> (let (out, err, committed, w) = res in
     if committed then took_effect sha256 command intent T (fst (view w)) a out err
     else out = zero_AtomicBatchDecision \<and> err \<noteq> None \<and>
       (fst (view w) = T \<or> unknown err \<and> t_commands T command = None))"

lemma precommit_effect:
  assumes "keeps view ctx" "fst (view w) = T"
  shows "body_effect sha256 command intent view T a (precommit_exit ctx e w)"
  using precommit_keeps [OF assms(1)] assms(2)
  by (auto simp: body_effect_def precommit_exit_def split: prod.splits)

lemma commit_effect:
  assumes tx: "transactional view tx" and ctx: "keeps view ctx" and w: "fst (view w) = T"
    and ok: "took_effect sha256 command intent T (snd (view w)) a out err" and new: "snd (view w) = T \<or> t_commands T command = None"
  shows "body_effect sha256 command intent view T a (commit_exit ctx tx out err w)"
proof -
  obtain e w1 where c: "tx_commit tx w = (e, w1)" by (cases "tx_commit tx w")
  show ?thesis
  proof (cases e)
    case None
    then show ?thesis using c transactionalD(14) [OF tx, of w w1] ok by (simp add: commit_exit_def body_effect_def)
  next
    case (Some x)
    obtain ce w2 where y: "ctx w1 = (ce, w2)" by (cases "ctx w1")
    show ?thesis using c Some y keepsD [OF ctx y] transactionalD(15) [OF tx, of w x w1] w new
      by (auto simp: commit_exit_def body_effect_def)
  qed
qed

lemma replay_effect:
  assumes tx: "transactional view tx" and ctx: "keeps view ctx" and w: "view w = (T, T)"
    and saved: "t_commands T command = Some saved"
  shows "body_effect sha256 command intent view T a (atomic_replay ctx tx intent saved a w)"
proof -
  obtain i x where s: "saved = (i, x)" by (cases saved)
  obtain out err where d: "decodeAtomicReceipt x a = (out, err)" by (cases "decodeAtomicReceipt x a")
  show ?thesis
  proof (cases "i = intent \<and> (err = None \<or> err = Some ErrRejected)")
    case True
    then have "atomic_replay ctx tx intent saved a w = commit_exit ctx tx out err w"
      using s d by (auto simp: atomic_replay_def)
    moreover have "took_effect sha256 command intent T (snd (view w)) a out err"
      using True saved s d w by (simp add: took_effect_def receipted_def)
    ultimately show ?thesis using commit_effect [OF tx ctx] w by simp
  next
    case False
    have "err = None \<or> err = Some ErrRejected \<or> err = Some ErrCorrupt"
      using d by (auto simp: decodeAtomicReceipt_def Let_def split: receipt.splits if_splits option.splits)
    then show ?thesis using s d w False by (auto simp: body_effect_def atomic_replay_def)
  qed
qed

lemma record_effect:
  assumes tx: "transactional view tx" and ctx: "keeps view ctx" and w: "fst (view w) = T"
    and new: "t_commands T command = None" "t_commands (snd (view w)) = t_commands T"
    and out: "receipted a (Receipt (out\<lparr>ad_CommandID := ''''\<rparr>) False) out err"
    and rows: "\<And>T'. t_rows T' = t_rows (snd (view w)) \<Longrightarrow> if err = None then all_debited sha256 T T' a else t_rows T' \<subseteq>\<^sub>m t_rows T"
  shows "body_effect sha256 command intent view T a (atomic_record ctx tx command intent out err w)"
proof (cases "marshalReceipt (out\<lparr>ad_CommandID := ''''\<rparr>)")
  case None
  then show ?thesis using w by (simp add: atomic_record_def body_effect_def)
next
  case (Some x)
  then have x: "x = Receipt (out\<lparr>ad_CommandID := ''''\<rparr>) False" by (auto simp: marshalReceipt_def split: if_splits)
  obtain e w1 where i: "tx_insertCommand tx command intent x w = (e, w1)" by (metis surj_pair)
  note p = performsD [OF transactionalD(13) [OF tx]]
  have w1: "fst (view w1) = T" using p(1) [OF i] w by simp
  show ?thesis
  proof (cases e)
    case (Some y)
    then show ?thesis using \<open>marshalReceipt _ = Some x\<close> i precommit_effect [OF ctx w1] by (simp add: atomic_record_def)
  next
    case None
    have v: "snd (view w1) = put_command command (intent, x) (snd (view w))" using p(2) i None by blast
    then have "took_effect sha256 command intent T (snd (view w1)) a out err"
      using new out x rows [of "snd (view w1)"] by (auto simp: took_effect_def put_command_def)
    then show ?thesis using \<open>marshalReceipt _ = Some x\<close> i None commit_effect [OF tx ctx w1] new(1) by (simp add: atomic_record_def)
  qed
qed

lemma debited:
  assumes "list_all2 (current_row T now0) (map key rs) states"
    and "list_all2 (\<lambda>(cur, r) (st, d). \<exists>d0 err. mutateState cur (r\<lparr>r_Now := now\<rparr>) = (Some st, d0, err) \<and> (d_Allowed d \<longleftrightarrow> err = None)) (zip states rs) out"
    and "list_all (\<lambda>x. d_Allowed (snd x)) out" "list_all (stored T') (zip (map key rs) (zip (map fst out) rs))"
  shows "list_all (\<lambda>r. \<exists>cur st d. current_row T now0 (key r) cur \<and> mutateState cur (r\<lparr>r_Now := now\<rparr>) = (Some st, d, None) \<and> stored T' (key r, st, r)) rs"
  using assms
proof (induction rs arbitrary: states out)
  case (Cons r rs)
  obtain cur ss where s: "states = cur # ss" "current_row T now0 (key r) cur" "list_all2 (current_row T now0) (map key rs) ss"
    using Cons.prems(1) by (cases states) auto
  obtain st d out1 where o: "out = (st, d) # out1" using Cons.prems(2) s(1) by (cases out) auto
  show ?case using Cons.IH [of ss out1] Cons.prems s o by auto
qed simp

lemma decide_effect:
  assumes tx: "transactional view tx" and ctx: "keeps view ctx" and w: "fst (view w) = T"
    and new: "t_commands T command = None" "t_commands (snd (view w)) = t_commands T" and sub: "t_rows (snd (view w)) \<subseteq>\<^sub>m t_rows T"
    and rs: "\<forall>r \<in> set (ab_Requests a). bucket_request r" "ab_Requests a \<noteq> []"
    and states: "list_all2 (current_row T now) buckets states" "observed_typed states" "micro_range now"
    and keys: "buckets = map (\<lambda>r. row_key sha256 (p_id (r_Policy r)) (r_Key r)) (ab_Requests a)" "distinct buckets"
  shows "body_effect sha256 command intent view T a (atomic_decide ctx tx command intent buckets now states a w)"
proof -
  let ?now = "effective_now now states" and ?rs = "ab_Requests a"
  have len: "length states = length ?rs" using list_all2_lengthD [OF states(1)] keys(1) by simp
  obtain x w1 where e: "evaluateBuckets ctx ?now (zip states ?rs) w = (x, w1)" by (metis surj_pair)
  note v1 = evaluateBuckets_keeps [OF ctx e]
  show ?thesis
  proof (cases x)
    case (Inl err)
    then show ?thesis using e v1 w by (simp add: atomic_decide_def body_effect_def Let_def)
  next
    case (Inr y)
    obtain out allowed where y: "y = (out, allowed)" by (cases y)
    note ev = e [unfolded Inr y]
    note ok = evaluateBuckets_ok [OF ev len rs(1) effective_now_bounds [OF states(2,3), THEN conjunct1]]
    note pos = evaluated_instant [OF ev len rs(1) states(3,2) rs(2)]
    show ?thesis
    proof (cases allowed)
      case False
      let ?batch = "\<lparr>ad_CommandID = ab_CommandID a, ad_Allowed = False, ad_Decisions = map (restoreDecision ?now) (zip out ?rs)\<rparr>"
      have "receipted a (Receipt (?batch\<lparr>ad_CommandID := ''''\<rparr>) False) ?batch (Some ErrRejected)"
        using receipted_rejected [OF _ _ pos rs(1) refl] ok False by blast
      then have "body_effect sha256 command intent view T a (atomic_record ctx tx command intent ?batch (Some ErrRejected) w1)"
        using record_effect [OF tx ctx, of w1 T command a ?batch "Some ErrRejected" sha256 intent] v1 w new sub by simp
      then show ?thesis using ev False by (simp add: atomic_decide_def Let_def)
    next
      case True
      let ?batch = "\<lparr>ad_CommandID = ab_CommandID a, ad_Allowed = True, ad_Decisions = map snd out\<rparr>"
      obtain we w2 where wr: "writeStates tx (zip buckets (zip (map fst out) ?rs)) w1 = (we, w2)" by (metis surj_pair)
      note wv = writeStates_view [OF tx wr]
      have w2: "fst (view w2) = T" using wv v1 w by simp
      show ?thesis
      proof (cases we)
        case (Some err)
        then show ?thesis using ev True wr precommit_effect [OF ctx w2] by (simp add: atomic_decide_def Let_def)
      next
        case None
        have len2: "length out = length ?rs" using ok list_all2_lengthD by blast
        then have "map fst (zip buckets (zip (map fst out) ?rs)) = buckets" using keys(1) by (simp add: map_fst_zip)
        then have st: "list_all (stored (snd (view w2))) (zip buckets (zip (map fst out) ?rs))" using wv None keys(2) by simp
        have "all_debited sha256 T T' a" if "t_rows T' = t_rows (snd (view w2))" for T'
        proof -
          have "list_all (stored T') (zip buckets (zip (map fst out) ?rs))" using st that by (simp add: stored_def [abs_def])
          then show ?thesis
            unfolding all_debited_def using debited [OF states(1) [unfolded keys(1)], of ?now out T'] ok True keys(1) by blast
        qed
        moreover have "receipted a (Receipt (?batch\<lparr>ad_CommandID := ''''\<rparr>) False) ?batch None"
          using receipted_allowed [OF _ _ refl] ok True by blast
        ultimately have "body_effect sha256 command intent view T a (atomic_record ctx tx command intent ?batch None w2)"
          using record_effect [OF tx ctx, of w2 T command a ?batch None sha256 intent] w2 new v1 wv None by simp
        then show ?thesis using ev True wr None by (simp add: atomic_decide_def Let_def)
      qed
    qed
  qed
qed

definition bucket_keys :: "(string \<Rightarrow> string) \<Rightarrow> atomicBatchRequest \<Rightarrow> string list" where
  "bucket_keys sha256 a = map (\<lambda>r. row_key sha256 (p_id (r_Policy r)) (r_Key r)) (ab_Requests a)"

lemma fresh_effect:
  assumes tx: "transactional view tx" and ctx: "keeps view ctx" and w: "view w = (T, T)" and new: "t_commands T command = None"
    and rs: "\<forall>r \<in> set (ab_Requests a). bucket_request r" "ab_Requests a \<noteq> []" "distinct (bucket_keys sha256 a)"
  shows "body_effect sha256 command intent view T a (atomic_fresh sha256 ctx executor tx command intent a w)"
proof -
  let ?keys = "bucket_keys sha256 a"
  obtain e1 w1 where l: "lockBuckets tx None (sort (map advisoryKey ?keys)) w = (e1, w1)" by (metis surj_pair)
  obtain x2 w2 where c: "atomic_clock executor tx a w1 = (x2, w2)" by (metis surj_pair)
  have v2: "view w1 = (T, T)" "view w2 = (T, T)" using lockBuckets_keeps [OF tx l] atomic_clock_keeps(1) [OF tx c] w by simp_all
  note unf = atomic_fresh_def [of sha256 ctx executor tx command intent a w, folded bucket_keys_def, unfolded Let_def l prod.case]
  show ?thesis
  proof (cases e1)
    case (Some y)
    then show ?thesis unfolding unf using precommit_effect [OF ctx] v2 by simp
  next
    case e1: None
    show ?thesis
    proof (cases x2)
      case (Inl y)
      then show ?thesis unfolding unf using e1 c precommit_effect [OF ctx] v2 by simp
    next
      case (Inr now)
      obtain x3 w3 where s: "loadStates tx ?keys now w2 = (x3, w3)" by (metis surj_pair)
      note ls = loadStates_view [OF tx s]
      show ?thesis
      proof (cases x3)
        case (Inl y)
        then show ?thesis unfolding unf using e1 Inr c s ls precommit_effect [OF ctx] v2 by simp
      next
        case x3: (Inr states)
        have "body_effect sha256 command intent view T a (atomic_decide ctx tx command intent ?keys now states a w3)"
          using decide_effect [OF tx ctx _ new _ _ rs(1,2) _ _ atomic_clock_keeps(2) [OF tx c Inr] bucket_keys_def rs(3)] ls x3 v2 by simp
        then show ?thesis unfolding unf using e1 Inr c s x3 by simp
      qed
    qed
  qed
qed

lemma locked_effect:
  assumes tx: "transactional view tx" and ctx: "keeps view ctx" and w: "view w = (T, T)"
    and rs: "\<forall>r \<in> set (ab_Requests a). bucket_request r" "ab_Requests a \<noteq> []" "distinct (bucket_keys sha256 a)"
  shows "body_effect sha256 command intent view T a (atomic_locked sha256 ctx executor tx command intent a w)"
proof -
  let ?t = "decimal_digits (nat (lockMilliseconds (po_LockTimeout (ne_options executor)))) @ ''ms''"
  obtain l0 l1 where cl: "commandLock command = (l0, l1)" by (cases "commandLock command")
  obtain e1 w1 where a1: "tx_setLockTimeout tx ?t w = (e1, w1)" by (metis surj_pair)
  obtain e2 w2 where a2: "tx_lockCommand tx l0 l1 w1 = (e2, w2)" by (metis surj_pair)
  obtain x3 w3 where a3: "tx_selectCommand tx command (int maxAtomicReceiptBytes) w2 = (x3, w3)" by (metis surj_pair)
  have v: "view w1 = (T, T)" "view w2 = (T, T)" "view w3 = (T, T)"
    using transactionalD(1) [OF tx a1] transactionalD(2) [OF tx a2] transactionalD(6) [OF tx a3] w by simp_all
  have p: "view w' = (T, T) \<Longrightarrow> body_effect sha256 command intent view T a (precommit_exit ctx e w')" for e w'
    using precommit_effect [OF ctx] by simp
  note unf = atomic_locked_def [of sha256 ctx executor tx command intent a w, unfolded Let_def cl a1 prod.case]
  show ?thesis
  proof (cases "e1 = None \<and> e2 = None")
    case False
    then show ?thesis unfolding unf using a2 p v by (auto split: option.splits)
  next
    case True
    show ?thesis
    proof (cases x3)
      case (Row saved)
      then have "t_commands T command = Some saved" using transactionalD(9) [OF tx, of command _ w2 saved w3] a3 v by simp
      then show ?thesis unfolding unf using True a2 a3 Row replay_effect [OF tx ctx v(3)] by simp
    next
      case NoRows
      then have "t_commands T command = None" using transactionalD(10) [OF tx, of command _ w2 w3] a3 v by simp
      then show ?thesis unfolding unf using True a2 a3 NoRows fresh_effect [OF tx ctx v(3) _ rs] by simp
    next
      case (ScanError e)
      then show ?thesis unfolding unf using True a2 a3 p v by simp
    qed
  qed
qed

text \<open>What a command leaves behind, whatever the transaction does.\<close>

definition command_effect ::
  "(string \<Rightarrow> string) \<Rightarrow> string \<Rightarrow> string \<Rightarrow> tables \<Rightarrow> tables \<Rightarrow> atomicBatchRequest \<Rightarrow> atomicBatchDecision \<Rightarrow> go_error option \<Rightarrow> bool" where
  "command_effect sha256 command intent T T' a out err \<longleftrightarrow>
     (if ad_Decisions out \<noteq> [] then took_effect sha256 command intent T T' a out err
      else err \<noteq> None \<and> (T' = T \<or> unknown err \<and> t_commands T command = None))"

lemma receipted_decisions: "receipted a x out err \<Longrightarrow> ab_Requests a \<noteq> [] \<Longrightarrow> ad_Decisions out \<noteq> []"
  by (auto simp: receipted_def decodeAtomicReceipt_def zero_AtomicBatchDecision_def Let_def
      split: receipt.splits if_splits option.splits)

lemma admitAtomic_effect:
  assumes db: "transactional_db view (ne_database executor)" and ctx: "keeps view ctx" "keeps view clock"
    and rs: "\<forall>r \<in> set (ab_Requests a). bucket_request r" "ab_Requests a \<noteq> []" "distinct (bucket_keys sha256 a)"
    and run: "admitAtomic sha256 digest clock ctx executor a timeout w = (out, err, w')"
  shows "command_effect sha256 (sha256 (ab_CommandID a)) (atomicIntent digest a (po_Clock (ne_options executor)))
    (fst (view w)) (fst (view w')) a out err"
proof -
  let ?command = "sha256 (ab_CommandID a)" and ?intent = "atomicIntent digest a (po_Clock (ne_options executor))" and ?T = "fst (view w)"
  obtain x w1 where b: "db_begin (ne_database executor) w = (x, w1)" by (metis surj_pair)
  have w1: "fst (view w1) = ?T" "\<And>tx. x = Inr tx \<Longrightarrow> transactional view tx \<and> snd (view w1) = ?T"
    using db b unfolding transactional_db_def by blast+
  show ?thesis
  proof (cases x)
    case (Inl e)
    then show ?thesis using run b w1 keepsD [OF ctx(1)]
      by (auto simp: admitAtomic_def command_effect_def zero_AtomicBatchDecision_def split: prod.splits)
  next
    case (Inr tx)
    obtain n w2 where c: "clock w1 = (n, w2)" by (metis surj_pair)
    have tx: "transactional view tx" and w2: "view w2 = (?T, ?T)"
      using w1 Inr keepsD [OF ctx(2) c] by (auto simp: prod_eq_iff)
    obtain out1 err1 c1 w3 where body: "atomic_locked sha256 ctx executor tx ?command ?intent a w2 = (out1, err1, c1, w3)" by (metis prod.exhaust)
    note be = locked_effect [OF tx ctx(1) w2 rs, of ?command ?intent executor, unfolded body]
    have fin: "finish_strict ctx tx (time_Add n timeout) zero_AtomicBatchDecision (out1, err1, c1, w3) = (out, err, w')"
      using run b Inr c body by (simp add: admitAtomic_def Let_def)
    show ?thesis
    proof (cases c1)
      case True
      then have "took_effect sha256 ?command ?intent ?T (fst (view w')) a out err"
        using be fin by (auto simp: body_effect_def finish_strict_def)
      moreover from this have "ad_Decisions out \<noteq> []" using receipted_decisions rs(2) by (auto simp: took_effect_def)
      ultimately show ?thesis by (simp add: command_effect_def)
    next
      case False
      obtain e4 w4 where r: "tx_rollback tx (Some (time_Add n timeout)) w3 = (e4, w4)" by (metis surj_pair)
      have z: "ad_Decisions zero_AtomicBatchDecision = []" by (simp add: zero_AtomicBatchDecision_def)
      show ?thesis
        using be fin False r transactionalD(16) [OF tx r] keepsD [OF ctx(1)] z
        by (auto simp: body_effect_def finish_strict_def rollbackStrict_def command_effect_def split: option.splits prod.splits)
    qed
  qed
qed

lemma atomic_bucket:
  assumes "AtomicBatchRequest_Validate a = None" "\<forall>r \<in> set (ab_Requests a). request_typed r"
  shows "\<forall>r \<in> set (ab_Requests a). bucket_request r" "ab_Requests a \<noteq> []"
proof -
  note v = AtomicBatchRequest_Validate_iff [OF assms(2), THEN iffD1, OF assms(1)]
  show "ab_Requests a \<noteq> []" using v by auto
  show "\<forall>r \<in> set (ab_Requests a). bucket_request r"
  proof
    fix r assume r: "r \<in> set (ab_Requests a)"
    then have "Request_Validate r = None" "p_algorithm (r_Policy r) = TokenBucket" "request_typed r"
      using v assms(2) by (auto simp: atomic_item_ok_def)
    then have ok: "request_ok (normalize_now r)" "p_algorithm (r_Policy r) = TokenBucket" using normalize_ok [of r] by simp_all
    then have p: "policy_wf (r_Policy r)" "0 < unat (r_Cost r)" "unat (r_Cost r) \<le> unat (p_maxCost (r_Policy r))"
      by (simp_all add: request_ok_def normalize_now_def)
    then have "unat (r_Cost r) \<le> unat (Limit (r_Policy r))" using policy_wf_Limit [OF p(1)] by (simp add: policy_wf_def)
    then show "bucket_request r" using ok p by (simp add: bucket_request_def token_policy_def)
  qed
qed

section \<open>Commands\<close>

text \<open>C6. An atomic command takes effect as a whole or not at all. Over any database with
  transactions and for any valid batch: if the command returns decisions, then its
  receipt is in the committed tables together with either the debit of every bucket,
  each from the state its row stood for and at one common instant, when all are
  admitted, or, when the batch is rejected, no change of a row except the removal of
  expired ones; a command already recorded changes nothing. If it returns no decision,
  the committed tables are unchanged, unless the outcome is reported as unknown.\<close>

theorem atomic_all_or_nothing:
  assumes "transactional_db view (ne_database executor)" "keeps view ctx" "keeps view clock"
    and "AtomicBatchRequest_Validate a = None" "\<forall>r \<in> set (ab_Requests a). request_typed r" "distinct (bucket_keys sha256 a)"
    and "admitAtomic sha256 digest clock ctx executor a timeout w = (out, err, w')"
  shows "command_effect sha256 (sha256 (ab_CommandID a)) (atomicIntent digest a (po_Clock (ne_options executor)))
    (fst (view w)) (fst (view w')) a out err"
  using admitAtomic_effect [OF assms(1-3) atomic_bucket [OF assms(4,5)] assms(6,7)] .

lemma intent_entry_eq: "intent_entry r = intent_entry r' \<Longrightarrow> r_Policy r = r_Policy r' \<and> r_Cost r = r_Cost r'"
  by (auto simp: intent_entry_def Let_def intro!: policy.equality)

lemma receiptLoop_intent:
  "map intent_entry rs = map intent_entry rs' \<Longrightarrow> receiptLoop allowed limited (zip ds rs) = receiptLoop allowed limited (zip ds rs')"
proof (induction ds arbitrary: rs rs' allowed limited)
  case (Cons d ds)
  show ?case
  proof (cases rs)
    case (Cons r rr)
    then obtain r' rr' where r': "rs' = r' # rr'" "intent_entry r = intent_entry r'" "map intent_entry rr = map intent_entry rr'"
      using Cons.prems by (cases rs') auto
    show ?thesis using Cons r' intent_entry_eq [OF r'(2)] Cons.IH [OF r'(3)] by simp
  qed (use Cons.prems in simp)
qed simp

lemma receipt_intent:
  assumes "map intent_entry (ab_Requests a) = map intent_entry (ab_Requests a')" "ab_CommandID a = ab_CommandID a'"
  shows "decodeAtomicReceipt x a = decodeAtomicReceipt x a'"
proof -
  have len: "length (ab_Requests a) = length (ab_Requests a')" using assms(1) map_eq_imp_length_eq by blast
  show ?thesis unfolding decodeAtomicReceipt_def assms(2) receiptLoop_intent [OF assms(1)] len ..
qed

text \<open>C5. A command takes effect at most once. When a first submission has returned
  decisions and its record is kept, submitting the same command with the same intent
  again, at any later instant and through any context, never changes the committed
  tables, and if it returns decisions they are those of the first submission, with the
  same error: a retry cannot debit again, and an admission cannot turn into a rejection
  or the other way round.\<close>

theorem atomic_exactly_once:
  assumes db: "transactional_db view (ne_database executor)"
    and k: "keeps view ctx" "keeps view clock" "keeps view ctx'" "keeps view clock'"
    and a: "AtomicBatchRequest_Validate a = None" "\<forall>r \<in> set (ab_Requests a). request_typed r" "distinct (bucket_keys sha256 a)"
    and a': "AtomicBatchRequest_Validate a' = None" "\<forall>r \<in> set (ab_Requests a'). request_typed r" "distinct (bucket_keys sha256 a')"
    and same: "ab_CommandID a' = ab_CommandID a" "map intent_entry (ab_Requests a') = map intent_entry (ab_Requests a)"
    and run: "admitAtomic sha256 digest clock ctx executor a timeout w = (out, err, w1)" "ad_Decisions out \<noteq> []"
    and kept: "t_commands (fst (view w2)) (sha256 (ab_CommandID a)) = t_commands (fst (view w1)) (sha256 (ab_CommandID a))"
    and again: "admitAtomic sha256 digest clock' ctx' executor a' timeout' w2 = (out', err', w3)"
  shows "fst (view w3) = fst (view w2) \<and> (ad_Decisions out' \<noteq> [] \<longrightarrow> out' = out \<and> err' = err)"
proof -
  let ?c = "sha256 (ab_CommandID a)" and ?i = "atomicIntent digest a (po_Clock (ne_options executor))"
  have i: "atomicIntent digest a' (po_Clock (ne_options executor)) = ?i" using same(2) by (simp add: atomicIntent_def)
  have "took_effect sha256 ?c ?i (fst (view w)) (fst (view w1)) a out err"
    using admitAtomic_effect [OF db k(1,2) atomic_bucket [OF a(1,2)] a(3) run(1)] run(2) by (simp add: command_effect_def)
  then obtain x where x: "t_commands (fst (view w2)) ?c = Some (?i, x)" "decodeAtomicReceipt x a = (out, err)"
    using kept by (auto simp: took_effect_def receipted_def)
  have "decodeAtomicReceipt x a' = (out, err)" using receipt_intent [OF same(2,1), of x] x(2) by simp
  then show ?thesis
    using admitAtomic_effect [OF db k(3,4) atomic_bucket [OF a'(1,2)] a'(3) again, unfolded same(1) i] x
    by (auto simp: command_effect_def took_effect_def receipted_def split: if_splits)
qed

section \<open>A sample\<close>

lemma fresh_admitted:
  assumes b: "bucket_request r" and now: "micro_range (r_Now r)" "server_range (r_Policy r) (UnixMicro (r_Now r))"
  shows "\<exists>st d. mutateState None r = (Some st, d, None) \<and> r_Now r \<le> d_Reset d \<and> ps_ObservedMicros st = UnixMicro (r_Now r)"
proof -
  let ?p = "r_Policy r" and ?st = "fresh_state r True"
  have p: "token_policy ?p" "policy_wf ?p" "p_algorithm ?p = TokenBucket" using b by (simp_all add: bucket_request_def token_policy_def)
  have f: "family [?p]" using p by (simp add: family_def)
  have st: "state_for None r True = Inr ?st" by (simp add: state_for_def)
  have valid: "validPersistedMicros (UnixMicro (r_Now r))"
    using now(2) token_policy_facts(1) [OF p(1)] by (simp add: server_range_def validPersistedMicros_def del: UnixMicro_range)
  have c: "clamp_now r (ps_ObservedMicros ?st) = r"
    by (simp add: clamp_now_def fresh_state_def recordWindowPeriod_def Let_def)
  have "strict_prepare ?st r = Inr (carried_state ?st r)"
    using strict_prepare_row [OF f _ _ fresh_row [OF p(2) _ valid], of r] p now
    by (simp add: fresh_state_def recordWindowPeriod_def usesWindowMetadata_def Let_def)
  then have m: "mutateState None r = (case mutateToken (observed_state ?st r) r of (st', d, err) \<Rightarrow> (Some st', d, err))"
    using mutateState_form [OF st, of True] c p(3) by (simp add: strict_dispatch_def)
  have s: "pg_token_inv ?p (observed_state ?st r)" "ps_LastMicros (observed_state ?st r) = UnixMicro (r_Now r)"
    "pg_level ?p (observed_state ?st r) = unat (Limit ?p) * period_us ?p" "ps_ObservedMicros (observed_state ?st r) = UnixMicro (r_Now r)"
    using p token_policy_facts(1) [OF p(1)]
    by (simp_all add: observed_state_def carried_state_def fresh_state_def recordWindowPeriod_def usesWindowMetadata_def
        zero_persistedState_def pg_token_inv_def pg_level_def Let_def)
  obtain st' d err where t: "mutateToken (observed_state ?st r) r = (st', d, err)" by (metis prod_cases3)
  have "unat (r_Cost r) * period_us ?p \<le> unat (Limit ?p) * period_us ?p" using b by (intro mult_le_mono1) (simp add: bucket_request_def)
  then have "err = None" using mutateToken_law(3) [OF s(1) _ _ t] s(2,3) b by (simp add: bucket_request_def)
  moreover have "r_Now r \<le> d_Reset d"
    using t tokenDuration_nonneg by (auto simp: mutateToken_def time_Add_def Let_def split: if_splits)
  moreover have "ps_ObservedMicros (replenish x r) = ps_ObservedMicros x" for x by (simp add: replenish_def Let_def split: prod.split)
  then have "ps_ObservedMicros st' = UnixMicro (r_Now r)" using t s(4) by (auto simp: mutateToken_def Let_def split: if_splits)
  ultimately show ?thesis using m t by simp
qed

text \<open>The two tables, committed and as the transaction sees them, at a fixed server time.\<close>

definition command_tx :: "(tables \<times> tables) nativeTransaction" where
  "command_tx =
     \<lparr>tx_setLockTimeout = \<lambda>s w. (None, w), tx_lockAndTime = \<lambda>k w. (Inr 1700000000000000000, w),
      tx_selectState = \<lambda>k w. (case t_rows (snd w) k of None \<Rightarrow> NoRows | Some row \<Rightarrow> Row row, w),
      tx_selectStateStrict = \<lambda>k n w. (case t_rows (snd w) k of None \<Rightarrow> NoRows | Some (doc, t) \<Rightarrow> Row (doc, t, True), w),
      tx_deleteState = \<lambda>k w. (None, fst w, put_row k None (snd w)),
      tx_upsertState = \<lambda>k doc t u w. (None, fst w, put_row k (Some (doc, t)) (snd w)),
      tx_lockCommand = \<lambda>a b w. (None, w),
      tx_selectCommand = \<lambda>c n w. (case t_commands (snd w) c of None \<Rightarrow> NoRows | Some saved \<Rightarrow> Row saved, w),
      tx_lockBucket = \<lambda>k w. (None, w), tx_clockTimestamp = \<lambda>w. (Inr 1700000000000000000, w),
      tx_insertCommand = \<lambda>c i x w. (None, fst w, put_command c (i, x) (snd w)),
      tx_commit = \<lambda>w. (None, snd w, snd w), tx_rollback = \<lambda>d w. (None, fst w, fst w)\<rparr>"

definition command_executor :: "(tables \<times> tables) nativeExecutor" where
  "command_executor =
     \<lparr>ne_database = \<lparr>db_begin = \<lambda>w. (Inr command_tx, fst w, fst w), db_table = \<lambda>w. (Inr None, w), db_cleanup = \<lambda>n w. (Inr 0, w)\<rparr>,
      ne_options = \<lparr>po_Timeout = Second, po_LockTimeout = Second, po_Clock = ServerClock\<rparr>\<rparr>"

definition no_tables :: tables where "no_tables = \<lparr>t_rows = \<lambda>k. None, t_commands = \<lambda>c. None\<rparr>"

definition sample_digest :: "nat \<times> clockPolicy \<times> atomicIntentEntry list \<Rightarrow> string" where "sample_digest x = ''intent''"

definition sample_run :: "tables \<times> tables \<Rightarrow> atomicBatchDecision \<times> go_error option \<times> tables \<times> tables" where
  "sample_run w = admitAtomic id sample_digest (\<lambda>w. (0, w)) live_ctx command_executor sample_atomic Second w"

lemma command_db: "transactional_db id (ne_database command_executor)"
proof -
  have "transactional id command_tx"
    by (auto simp: transactional_def keeps_def performs_def command_tx_def split: option.splits)
  then show ?thesis by (simp add: transactional_db_def command_executor_def)
qed

lemma command_tx_simps:
  "tx_setLockTimeout command_tx s w = (None, w)" "tx_lockCommand command_tx x y w = (None, w)" "tx_lockBucket command_tx k w = (None, w)"
  "tx_clockTimestamp command_tx w = (Inr 1700000000000000000, w)"
  "tx_selectStateStrict command_tx key n w = (case t_rows (snd w) key of None \<Rightarrow> NoRows | Some (doc, t) \<Rightarrow> Row (doc, t, True), w)"
  "tx_upsertState command_tx key doc t u w = (None, fst w, put_row key (Some (doc, t)) (snd w))"
  "tx_selectCommand command_tx c n w = (case t_commands (snd w) c of None \<Rightarrow> NoRows | Some saved \<Rightarrow> Row saved, w)"
  "tx_insertCommand command_tx c i rc w = (None, fst w, put_command c (i, rc) (snd w))"
  "tx_commit command_tx w = (None, snd w, snd w)"
  by (simp_all add: command_tx_def)

definition sample_bucket :: request where
  "sample_bucket = sample_request\<lparr>r_Policy := sample_policy\<lparr>p_failureMode := FailClosed, p_consistency := ConsistencyStrong\<rparr>\<rparr>"

lemma sample_command:
  "AtomicBatchRequest_Validate sample_atomic = None" "\<forall>r \<in> set (ab_Requests sample_atomic). request_typed r"
  "distinct (bucket_keys id sample_atomic)" "ab_Requests sample_atomic = [sample_bucket]" "bucket_request sample_bucket"
proof -
  show rs: "ab_Requests sample_atomic = [sample_bucket]" by (simp add: sample_atomic_def sample_bucket_def)
  then show "distinct (bucket_keys id sample_atomic)" by (simp add: bucket_keys_def)
  have "policy_wf (r_Policy sample_bucket)"
    using sample_policy_wf by (simp add: policy_wf_def sample_bucket_def sample_policy_def period_us_def)
  then show typed: "\<forall>r \<in> set (ab_Requests sample_atomic). request_typed r"
    unfolding rs by (simp add: request_typed_def sample_bucket_def sample_request_def micro_range_def int64_range_def)
  have "Request_Validate sample_bucket = None"
    by (simp add: Request_Validate_def sample_bucket_def sample_request_def sample_key_def sample_policy_def IsZero_def zero_time_def
        UnixMicro_def i64_def maxExact_def request_duration_def Let_def)
  then show v: "AtomicBatchRequest_Validate sample_atomic = None"
    using AtomicBatchRequest_Validate_iff [OF typed] unfolding rs
    by (simp add: sample_atomic_def atomic_item_ok_def atomicCommandID_def atomicCommandChar_def in_range_def)
      (simp add: sample_bucket_def sample_policy_def)
  show "bucket_request sample_bucket" using atomic_bucket(1) [OF v typed] unfolding rs by simp
qed

lemma sample_evaluated:
  obtains st d where "\<And>w. evaluateBuckets live_ctx 1700000000000000000 [(None, sample_bucket)] w = (Inr ([(st, d)], True), w)"
    "item_ok (st, d) sample_bucket"
proof -
  let ?r = sample_bucket
  have now: "?r\<lparr>r_Now := 1700000000000000000\<rparr> = ?r" "r_Now ?r = 1700000000000000000" by (simp_all add: sample_bucket_def sample_request_def)
  have rg: "micro_range (r_Now ?r)" "server_range (r_Policy ?r) (UnixMicro (r_Now ?r))"
    by (simp_all add: now micro_range_def int64_range_def server_range_def maxExactMicros_def UnixMicro_def i64_def)
      (simp add: sample_bucket_def sample_policy_def period_us_def)
  obtain st d where m: "mutateState None ?r = (Some st, d, None)" and d: "r_Now ?r \<le> d_Reset d" "ps_ObservedMicros st = UnixMicro (r_Now ?r)"
    using fresh_admitted [OF sample_command(5) rg] by blast
  define d' where "d' = d\<lparr>d_Backend := ''postgres'', d_PolicyRevision := p_revision (r_Policy ?r)\<rparr>"
  have "time_UnixMicro (ps_ObservedMicros st) = 1700000000000000000"
    unfolding d(2) now(2) by (simp add: time_UnixMicro_def UnixMicro_def i64_def)
  then have chk: "strictPostgresDecisionResult live_ctx (Some st) d None w = ((d, None), w)" for w
    using d(1) now(2) by (simp add: strictPostgresDecisionResult_def pg_validateStrictDecisionTime_def)
  have ev: "evaluateBuckets live_ctx 1700000000000000000 [(None, ?r)] w = (Inr ([(st, d')], True), w)" for w
    by (simp add: now m chk d'_def)
  have "item_ok (st, d') ?r"
    using evaluateBuckets_ok [of live_ctx 1700000000000000000 "[None]" "[?r]" "()", simplified, OF ev [simplified]] sample_command(5) rg(1) now(2) by simp
  then show ?thesis using that ev by blast
qed

lemma sample_run_decides:
  "\<exists>out w1. sample_run (no_tables, no_tables) = (out, None, w1) \<and> ad_Decisions out \<noteq> []"
proof -
  let ?r = sample_bucket and ?k = "row_key id (p_id (r_Policy sample_bucket)) (r_Key sample_bucket)"
  obtain st d' where ev: "\<And>w :: tables \<times> tables. evaluateBuckets live_ctx 1700000000000000000 [(None, ?r)] w = (Inr ([(st, d')], True), w)"
    and "item_ok (st, d') ?r" using sample_evaluated by blast
  then have marshal: "marshalReceipt \<lparr>ad_CommandID = [], ad_Allowed = True, ad_Decisions = [d']\<rparr> =
      Some (Receipt \<lparr>ad_CommandID = [], ad_Allowed = True, ad_Decisions = [d']\<rparr> False)"
    using short_receipt [of "[d']" True] item_short(1) [OF _ sample_command(5)] by simp
  have load: "loadStates command_tx [?k] t (no_tables, no_tables) = (Inr [None], no_tables, no_tables)" for t
    by (simp add: loadStateStrict_def command_tx_simps no_tables_def)
  have clock: "atomic_clock command_executor command_tx sample_atomic w = (Inr 1700000000000000000, w)" for w
    by (simp add: atomic_clock_def command_executor_def command_tx_simps time_UnixMicro_def UnixMicro_def i64_def)
  have "\<exists>w1. atomic_decide live_ctx command_tx c i [?k] 1700000000000000000 [None] sample_atomic (no_tables, no_tables) =
      (\<lparr>ad_CommandID = ab_CommandID sample_atomic, ad_Allowed = True, ad_Decisions = [d']\<rparr>, None, True, w1)" for c i
    by (simp add: atomic_decide_def effective_now_def sample_command(4) ev command_tx_simps atomic_record_def marshal commit_exit_def Let_def
        del: evaluateBuckets.simps)
  then have fresh: "\<exists>w1. atomic_fresh id live_ctx command_executor command_tx c i sample_atomic (no_tables, no_tables) =
      (\<lparr>ad_CommandID = ab_CommandID sample_atomic, ad_Allowed = True, ad_Decisions = [d']\<rparr>, None, True, w1)" for c i
    by (simp add: atomic_fresh_def sample_command(4) command_tx_simps clock load Let_def del: loadStates.simps)
  have none: "t_commands no_tables c = None" for c by (simp add: no_tables_def)
  have "\<exists>w1. atomic_locked id live_ctx command_executor command_tx (id (ab_CommandID sample_atomic))
      (atomicIntent sample_digest sample_atomic (po_Clock (ne_options command_executor))) sample_atomic (no_tables, no_tables) =
      (\<lparr>ad_CommandID = ab_CommandID sample_atomic, ad_Allowed = True, ad_Decisions = [d']\<rparr>, None, True, w1)"
    using fresh by (simp add: atomic_locked_def command_tx_simps none split: prod.split)
  then obtain w1 where "atomic_locked id live_ctx command_executor command_tx (id (ab_CommandID sample_atomic))
      (atomicIntent sample_digest sample_atomic (po_Clock (ne_options command_executor))) sample_atomic (no_tables, no_tables) =
      (\<lparr>ad_CommandID = ab_CommandID sample_atomic, ad_Allowed = True, ad_Decisions = [d']\<rparr>, None, True, w1)" by blast
  moreover have "db_begin (ne_database command_executor) w = (Inr command_tx, fst w, fst w)" for w by (simp add: command_executor_def)
  ultimately show ?thesis by (simp add: sample_run_def admitAtomic_def finish_strict_def Let_def)
qed

theorem atomic_all_or_nothing_witness:
  "\<exists>out w'. sample_run (no_tables, no_tables) = (out, None, w') \<and> ad_Decisions out \<noteq> [] \<and>
     command_effect id (ab_CommandID sample_atomic) ''intent'' no_tables (fst w') sample_atomic out None"
proof -
  obtain out w1 where run: "sample_run (no_tables, no_tables) = (out, None, w1)" "ad_Decisions out \<noteq> []"
    using sample_run_decides by blast
  have "keeps id (live_ctx :: (tables \<times> tables) ctx)" "keeps id (\<lambda>w :: tables \<times> tables. (0 :: time, w))"
    by (simp_all add: keeps_def live_ctx_def)
  then show ?thesis
    using atomic_all_or_nothing [OF command_db _ _ sample_command(1-3) run(1) [unfolded sample_run_def]] run
    by (simp add: atomicIntent_def sample_digest_def)
qed

text \<open>The same command, one second later.\<close>

definition retried :: atomicBatchRequest where
  "retried = sample_atomic\<lparr>ab_Requests := [sample_bucket\<lparr>r_Now := 1700000001000000000\<rparr>]\<rparr>"

lemma retried_command:
  "AtomicBatchRequest_Validate retried = None" "\<forall>r \<in> set (ab_Requests retried). request_typed r"
  "distinct (bucket_keys id retried)" "ab_CommandID retried = ab_CommandID sample_atomic"
  "map intent_entry (ab_Requests retried) = map intent_entry (ab_Requests sample_atomic)"
proof -
  show rs: "map intent_entry (ab_Requests retried) = map intent_entry (ab_Requests sample_atomic)"
    "ab_CommandID retried = ab_CommandID sample_atomic"
    by (simp_all add: retried_def sample_command(4) intent_entry_def Let_def)
  show "distinct (bucket_keys id retried)" by (simp add: bucket_keys_def retried_def)
  have "policy_wf (r_Policy sample_bucket)" using sample_command(5) by (simp add: bucket_request_def token_policy_def)
  then show typed: "\<forall>r \<in> set (ab_Requests retried). request_typed r"
    by (simp add: request_typed_def retried_def micro_range_def int64_range_def)
  have "Request_Validate (sample_bucket\<lparr>r_Now := 1700000001000000000\<rparr>) = None"
    by (simp add: Request_Validate_def sample_bucket_def sample_request_def sample_key_def sample_policy_def IsZero_def zero_time_def
        UnixMicro_def i64_def maxExact_def request_duration_def Let_def)
  then show "AtomicBatchRequest_Validate retried = None"
    using AtomicBatchRequest_Validate_iff [OF typed]
    by (simp add: retried_def sample_atomic_def atomic_item_ok_def atomicCommandID_def atomicCommandChar_def in_range_def)
      (simp add: sample_bucket_def sample_policy_def)
qed

theorem atomic_exactly_once_witness:
  "\<exists>out w1 out' err' w3. sample_run (no_tables, no_tables) = (out, None, w1) \<and> ad_Decisions out \<noteq> [] \<and>
     admitAtomic id sample_digest (\<lambda>w. (0, w)) live_ctx command_executor retried Second w1 = (out', err', w3) \<and>
     fst w3 = fst w1 \<and> (ad_Decisions out' \<noteq> [] \<longrightarrow> out' = out \<and> err' = None)"
proof -
  obtain out w1 where run: "sample_run (no_tables, no_tables) = (out, None, w1)" "ad_Decisions out \<noteq> []"
    using sample_run_decides by blast
  obtain out' err' w3 where again: "admitAtomic id sample_digest (\<lambda>w. (0, w)) live_ctx command_executor retried Second w1 = (out', err', w3)"
    by (metis prod_cases3)
  have k: "keeps id (live_ctx :: (tables \<times> tables) ctx)" "keeps id (\<lambda>w :: tables \<times> tables. (0 :: time, w))"
    by (simp_all add: keeps_def live_ctx_def)
  have "fst w3 = fst w1 \<and> (ad_Decisions out' \<noteq> [] \<longrightarrow> out' = out \<and> err' = None)"
    using atomic_exactly_once [OF command_db k k sample_command(1-3) retried_command run(1) [unfolded sample_run_def] run(2) refl again]
    by simp
  then show ?thesis using run again by blast
qed

section \<open>Every receipt can be kept and read\<close>

definition batch_result :: "atomicBatchRequest \<Rightarrow> time \<Rightarrow> (persistedState \<times> decision) list \<Rightarrow> bool \<Rightarrow> atomicBatchDecision" where
  "batch_result a now out allowed =
     \<lparr>ad_CommandID = ab_CommandID a, ad_Allowed = allowed,
      ad_Decisions = (if allowed then map snd out else map (restoreDecision now) (zip out (ab_Requests a)))\<rparr>"

text \<open>C20. Every outcome of an atomic batch can be recorded and read back. Whenever all
  buckets of a valid batch have been evaluated, admitted or not, the receipt of the
  outcome fits the 16 KiB of its column and the years of its time format, and decoding
  it under the same batch gives back exactly the outcome: the branch that drops a
  decided batch as corrupt is never taken.\<close>

theorem atomic_receipt_roundtrip:
  assumes a: "AtomicBatchRequest_Validate a = None" "\<forall>r \<in> set (ab_Requests a). request_typed r"
    and states: "length states = length (ab_Requests a)" "observed_typed states" "micro_range now0" "now = effective_now now0 states"
    and ev: "evaluateBuckets ctx now (zip states (ab_Requests a)) w = (Inr (out, allowed), w')"
  shows "\<exists>x. marshalReceipt ((batch_result a now out allowed)\<lparr>ad_CommandID := ''''\<rparr>) = Some x \<and>
    decodeAtomicReceipt x a = (batch_result a now out allowed, if allowed then None else Some ErrRejected)"
proof -
  note b = atomic_bucket [OF a]
  have now: "exact_instant now" using evaluated_instant [OF _ states(1) b(1) states(3,2) b(2)] ev states(4) by simp
  have ok: "list_all2 item_ok out (ab_Requests a)" "allowed = list_all (\<lambda>x. d_Allowed (snd x)) out"
    using evaluateBuckets_ok [OF ev states(1) b(1)] now by (auto simp: exact_instant_def)
  have len: "length out = length (ab_Requests a)" using list_all2_lengthD [OF ok(1)] .
  have "length (ab_Requests a) \<le> 16" using AtomicBatchRequest_Validate_iff [OF a(2)] a(1) by simp
  moreover have "list_all short_decision (map snd out) \<and> list_all short_decision (map (restoreDecision now) (zip out (ab_Requests a)))"
    using ok(1) b(1) now by (induction rule: list_all2_induct) (auto simp: item_short)
  ultimately have "marshalReceipt ((batch_result a now out allowed)\<lparr>ad_CommandID := ''''\<rparr>) =
      Some (Receipt ((batch_result a now out allowed)\<lparr>ad_CommandID := ''''\<rparr>) False)"
    using len by (auto simp: batch_result_def intro!: short_receipt)
  moreover have "receipted a (Receipt ((batch_result a now out allowed)\<lparr>ad_CommandID := ''''\<rparr>) False) (batch_result a now out allowed)
      (if allowed then None else Some ErrRejected)"
    using receipted_allowed [OF ok(1) _ refl] receipted_rejected [OF ok(1) _ now b(1) refl] ok(2) by (auto simp: batch_result_def)
  ultimately show ?thesis by (auto simp: receipted_def)
qed

theorem atomic_receipt_roundtrip_witness:
  "\<exists>out allowed x. evaluateBuckets live_ctx 1700000000000000000 [(None, sample_bucket)] () = (Inr (out, allowed), ()) \<and>
     marshalReceipt ((batch_result sample_atomic 1700000000000000000 out allowed)\<lparr>ad_CommandID := ''''\<rparr>) = Some x \<and>
     decodeAtomicReceipt x sample_atomic = (batch_result sample_atomic 1700000000000000000 out allowed, if allowed then None else Some ErrRejected)"
proof -
  obtain out allowed where ev: "evaluateBuckets live_ctx 1700000000000000000 [(None, sample_bucket)] () = (Inr (out, allowed), ())"
    using sample_evaluated [where ?'a = unit] by blast
  have o: "observed_typed [None]" "micro_range 1700000000000000000" "1700000000000000000 = effective_now 1700000000000000000 [None]"
    by (simp_all add: observed_typed_def micro_range_def int64_range_def effective_now_def)
  have z: "evaluateBuckets live_ctx 1700000000000000000 (zip [None] (ab_Requests sample_atomic)) () = (Inr (out, allowed), ())"
    "length [None :: persistedState option] = length (ab_Requests sample_atomic)"
    using ev by (simp_all add: sample_command(4) del: evaluateBuckets.simps)
  show ?thesis using atomic_receipt_roundtrip [OF sample_command(1,2) z(2) o z(1)] ev by blast
qed

end
