(* ===== verification/Floats.thy ===== *)
theory Floats
  imports Go_Runtime Complex_Main
begin

text \<open>
  Binary64 arithmetic as the sources use it: the numbers of the Lua scripts and
  \<open>Duration.Seconds\<close>. A finite double is a rational; an operation rounds the
  exact result to 53 significant bits, ties to even. The values that occur are
  0 or between 2^-60 and 2^120 in size, so that neither overflow nor gradual
  underflow arises and \<open>fl\<close> needs no bounds on the exponent.
\<close>

section \<open>Rounding\<close>

fun ilog2 :: "nat \<Rightarrow> nat" where
  "ilog2 n = (if n < 2 then 0 else Suc (ilog2 (n div 2)))"

declare ilog2.simps [simp del]

definition binexp :: "rat \<Rightarrow> int" where
  "binexp x =
     (let (p, q) = quotient_of \<bar>x\<bar>; e = int (ilog2 (nat p)) - int (ilog2 (nat q)) in
      if 2 powi e \<le> \<bar>x\<bar> then e else e - 1)"

definition round_even :: "rat \<Rightarrow> int" where
  "round_even x =
     (let n = \<lfloor>x\<rfloor>; r = x - of_int n in
      if r < 1 / 2 then n else if r > 1 / 2 then n + 1 else if even n then n else n + 1)"

definition fl :: "rat \<Rightarrow> rat" where
  "fl x = (if x = 0 then 0 else let u = 2 powi (binexp x - 52) in of_int (round_even (x / u)) * u)"

section \<open>The exponent\<close>

lemma ilog2_bounds: "0 < n \<Longrightarrow> 2 ^ ilog2 n \<le> n \<and> n < 2 ^ Suc (ilog2 n)"
proof (induction n rule: ilog2.induct)
  case (1 n)
  show ?case
  proof (cases "n < 2")
    case True
    then show ?thesis using "1.prems" by (subst (1 2) ilog2.simps) simp
  next
    case False
    then have ih: "2 ^ ilog2 (n div 2) \<le> n div 2" "n div 2 < 2 ^ Suc (ilog2 (n div 2))" using 1 by auto
    have e: "ilog2 n = Suc (ilog2 (n div 2))" using False by (subst ilog2.simps) simp
    show ?thesis using ih unfolding e power_Suc by linarith
  qed
qed

lemma binexp_bounds:
  assumes "x \<noteq> 0"
  shows "2 powi (binexp x) \<le> \<bar>x\<bar>" "\<bar>x\<bar> < 2 powi (binexp x + 1)"
proof -
  obtain p q where pq: "quotient_of \<bar>x\<bar> = (p, q)" by (cases "quotient_of \<bar>x\<bar>")
  have q: "0 < q" using quotient_of_denom_pos [OF pq] .
  have x: "\<bar>x\<bar> = of_int p / of_int q" using quotient_of_div [OF pq] .
  then have p: "0 < p" using assms q by (metis abs_eq_0 abs_ge_zero less_le of_int_0_less_iff zero_less_abs_iff zero_less_divide_iff of_int_pos order_less_asym)
  define a b where "a = ilog2 (nat p)" and "b = ilog2 (nat q)"
  define e where "e = int a - int b"
  have pb: "2 ^ a \<le> p" "p < 2 * 2 ^ a"
    using ilog2_bounds [of "nat p"] p by (simp_all add: a_def nat_le_iff nat_less_iff flip: of_nat_le_iff [where 'a = int])
  have qb: "2 ^ b \<le> q" "q < 2 * 2 ^ b"
    using ilog2_bounds [of "nat q"] q by (simp_all add: b_def nat_le_iff nat_less_iff flip: of_nat_le_iff [where 'a = int])
  have e: "(2 :: rat) powi e = 2 ^ a / 2 ^ b"
    by (simp add: e_def power_int_diff)
  have pr: "(2 :: rat) ^ a \<le> of_int p" "of_int p < (2 :: rat) * 2 ^ a"
    using pb by (metis of_int_le_iff of_int_numeral of_int_power) (metis pb(2) of_int_less_iff of_int_mult of_int_numeral of_int_power)
  have qr: "(2 :: rat) ^ b \<le> of_int q" "of_int q < (2 :: rat) * 2 ^ b"
    using qb by (metis of_int_le_iff of_int_numeral of_int_power) (metis qb(2) of_int_less_iff of_int_mult of_int_numeral of_int_power)
  have hi: "\<bar>x\<bar> < 2 * 2 powi e"
  proof -
    have "\<bar>x\<bar> < (2 * 2 ^ a) / 2 ^ b"
      unfolding x using pr qr q p by (intro frac_less) auto
    then show ?thesis by (simp add: e)
  qed
  have lo: "2 powi e / 2 \<le> \<bar>x\<bar>"
  proof -
    have "2 ^ a / (2 * 2 ^ b) \<le> of_int p / (of_int q :: rat)"
      using pr qr q p by (intro frac_le) auto
    then show ?thesis by (simp add: e x)
  qed
  have be: "binexp x = (if 2 powi e \<le> \<bar>x\<bar> then e else e - 1)"
    by (simp add: binexp_def pq e_def a_def b_def)
  have "(2 :: rat) powi (e - 1) = 2 powi e / 2" "(2 :: rat) powi (e + 1) = 2 * 2 powi e"
    by (simp_all add: power_int_diff power_int_add)
  then show "2 powi (binexp x) \<le> \<bar>x\<bar>" "\<bar>x\<bar> < 2 powi (binexp x + 1)"
    using hi lo by (auto simp: be)
qed

section \<open>Rounding to integers\<close>

lemma round_even_of_int [simp]: "round_even (of_int n) = n"
  by (simp add: round_even_def)

lemma round_even_error: "\<bar>of_int (round_even x) - x\<bar> \<le> 1 / 2"
proof -
  have "0 \<le> x - of_int \<lfloor>x\<rfloor>" "x - of_int \<lfloor>x\<rfloor> < 1" by linarith+
  then show ?thesis by (auto simp: round_even_def Let_def abs_le_iff)
qed

lemma round_even_ge: "of_int n \<le> x \<Longrightarrow> n \<le> round_even x"
  using le_floor_iff [of n x] by (auto simp: round_even_def Let_def)

lemma round_even_le: "x \<le> of_int n \<Longrightarrow> round_even x \<le> n"
proof -
  assume le: "x \<le> of_int n"
  then have f: "\<lfloor>x\<rfloor> \<le> n" by linarith
  show ?thesis
  proof (cases "\<lfloor>x\<rfloor> = n")
    case True
    then have "x = of_int n" using le by linarith
    then show ?thesis by simp
  next
    case False
    then show ?thesis using f by (auto simp: round_even_def Let_def)
  qed
qed

section \<open>What rounding keeps\<close>

lemma powi_split: "(2 :: rat) powi (e - 52) * 2 ^ 52 = 2 powi e"
proof -
  have "(2 :: rat) powi (e - 52) * 2 powi 52 = 2 powi ((e - 52) + 52)"
    by (rule power_int_add [symmetric]) simp
  then show ?thesis by simp
qed

text \<open>An integer of at most 53 bits, or a power of two, is a multiple of the unit of any number it is near.\<close>

lemma small_multiple:
  assumes "e \<le> 52"
  shows "\<exists>m. of_int n = of_int m * (2 :: rat) powi (e - 52)"
proof -
  define k where "k = nat (52 - e)"
  have k: "e - 52 = - int k" using assms by (simp add: k_def)
  have "of_int n = of_int (n * 2 ^ k) * (2 :: rat) powi (e - 52)"
    by (simp add: k power_int_minus)
  then show ?thesis by blast
qed

lemma fl_multiple:
  assumes "x \<noteq> 0" and y: "y = of_int m * 2 powi (binexp x - 52)"
  shows "y \<le> x \<Longrightarrow> y \<le> fl x" "x \<le> y \<Longrightarrow> fl x \<le> y"
proof -
  let ?u = "(2 :: rat) powi (binexp x - 52)"
  have u: "0 < ?u" by simp
  have f: "fl x = of_int (round_even (x / ?u)) * ?u" using assms(1) by (simp add: fl_def Let_def)
  { assume "y \<le> x"
    then have "of_int m \<le> x / ?u" using u by (simp add: y pos_le_divide_eq)
    then have "m \<le> round_even (x / ?u)" by (rule round_even_ge)
    then show "y \<le> fl x" unfolding f y using u by (intro mult_right_mono) simp_all }
  { assume "x \<le> y"
    then have "x / ?u \<le> of_int m" using u by (simp add: y pos_divide_le_eq)
    then have "round_even (x / ?u) \<le> m" by (rule round_even_le)
    then show "fl x \<le> y" unfolding f y using u by (intro mult_right_mono) simp_all }
qed

lemma fl_error:
  assumes "x \<noteq> 0"
  shows "\<bar>fl x - x\<bar> \<le> 2 powi (binexp x - 52) / 2"
proof -
  let ?u = "(2 :: rat) powi (binexp x - 52)"
  have u: "0 < ?u" by simp
  have "fl x - x = (of_int (round_even (x / ?u)) - x / ?u) * ?u"
    using assms u by (simp add: fl_def Let_def left_diff_distrib)
  then have "\<bar>fl x - x\<bar> = \<bar>of_int (round_even (x / ?u)) - x / ?u\<bar> * ?u"
    using u by (simp add: abs_mult)
  also have "\<dots> \<le> (1 / 2) * ?u" by (intro mult_right_mono round_even_error) (use u in simp)
  finally show ?thesis by simp
qed

lemma fl_minus: "fl (- x) = - fl x"
proof -
  have "binexp (- x) = binexp x" by (simp add: binexp_def)
  moreover have "round_even (- y) = - round_even y" for y
  proof (cases "y = of_int \<lfloor>y\<rfloor>")
    case True
    then show ?thesis by (metis of_int_minus round_even_of_int)
  next
    case False
    then have f: "\<lfloor>- y\<rfloor> = - \<lfloor>y\<rfloor> - 1" by linarith
    show ?thesis unfolding round_even_def f by (auto simp: Let_def)
  qed
  ultimately show ?thesis by (simp add: fl_def Let_def)
qed

lemma big_exponent:
  assumes "x \<noteq> 0" "53 \<le> binexp x"
  shows "9007199254740992 \<le> \<bar>x\<bar>"
proof -
  have "(2 :: rat) powi 53 \<le> 2 powi (binexp x)" using assms(2) by (intro power_int_increasing) simp_all
  then show ?thesis using binexp_bounds(1) [OF assms(1)] by simp
qed

text \<open>Rounding never crosses an integer of at most 53 bits.\<close>

lemma fl_ge:
  assumes n: "of_int n \<le> x" "\<bar>n\<bar> \<le> 9007199254740992"
  shows "of_int n \<le> fl x"
proof (cases "x = 0")
  case True
  then show ?thesis using n by (simp add: fl_def)
next
  case False
  show ?thesis
  proof (cases "binexp x \<le> 52")
    case True
    then show ?thesis using small_multiple [OF True, of n] fl_multiple(1) [OF False] n(1) by metis
  next
    case big: False
    then have b: "9007199254740992 \<le> \<bar>x\<bar>" using big_exponent [OF False] by simp
    show ?thesis
    proof (cases "0 < x")
      case True
      have y: "2 powi (binexp x) = of_int (2 ^ 52) * (2 :: rat) powi (binexp x - 52)"
        using powi_split [of "binexp x"] by (simp add: mult.commute)
      have "2 powi (binexp x) \<le> fl x" using fl_multiple(1) [OF False y] binexp_bounds(1) [OF False] True by simp
      moreover have "(2 :: rat) powi 53 \<le> 2 powi (binexp x)" using big by (intro power_int_increasing) simp_all
      moreover have "(of_int n :: rat) \<le> of_int 9007199254740992" using n(2) unfolding of_int_le_iff by linarith
      ultimately show ?thesis by simp
    next
      case neg: False
      have "- (9007199254740992 :: rat) \<le> of_int n"
        using n(2) by (metis abs_le_iff minus_le_iff of_int_le_iff of_int_minus of_int_numeral)
      then have x: "x = of_int n" using n(1) b neg by linarith
      have "\<bar>x\<bar> = 9007199254740992" using b x \<open>- (9007199254740992 :: rat) \<le> of_int n\<close> neg by linarith
      have e: "binexp x = 53"
      proof (rule ccontr)
        assume "binexp x \<noteq> 53"
        then have "(2 :: rat) powi 54 \<le> 2 powi (binexp x)" using big by (intro power_int_increasing) simp_all
        then show False using binexp_bounds(1) [OF False] \<open>\<bar>x\<bar> = 9007199254740992\<close> by simp
      qed
      have "rat_of_int n = of_int (- 9007199254740992)" using \<open>\<bar>x\<bar> = 9007199254740992\<close> neg x by simp
      then have nn: "n = - 9007199254740992" unfolding of_int_eq_iff .
      have "of_int n = of_int (- 4503599627370496) * (2 :: rat) powi (binexp x - 52)"
        unfolding e nn by simp
      then show ?thesis using fl_multiple(1) [OF False] n(1) by metis
    qed
  qed
qed

lemma fl_le: "x \<le> of_int n \<Longrightarrow> \<bar>n\<bar> \<le> 9007199254740992 \<Longrightarrow> fl x \<le> of_int n"
  using fl_ge [of "- n" "- x"] by (simp add: fl_minus)

lemma fl_int: "\<bar>n\<bar> \<le> 9007199254740992 \<Longrightarrow> fl (of_int n) = of_int n"
  by (intro antisym fl_ge fl_le) simp_all

lemma div_mult_le: "0 < b \<Longrightarrow> a div b * b \<le> (a :: int)"
  using minus_mod_eq_div_mult [of a b] pos_mod_sign [of b a] by linarith

lemma div_mult_less: "0 < b \<Longrightarrow> (a :: int) < (a div b + 1) * b"
  using minus_mod_eq_div_mult [of a b] pos_mod_bound [of b a] unfolding distrib_right by linarith

lemma abs_div_le:
  assumes b: "0 < b"
  shows "\<bar>a div b\<bar> \<le> \<bar>a :: int\<bar>"
proof (cases "0 \<le> a")
  case True
  then have q: "0 \<le> a div b" using b by (simp add: pos_imp_zdiv_nonneg_iff)
  then have "a div b * 1 \<le> a div b * b" using b by (intro mult_left_mono) simp_all
  then show ?thesis using div_mult_le [OF b, of a] q True by linarith
next
  case False
  then have q: "a div b + 1 \<le> 0" using b div_neg_pos_less0 [of a b] by linarith
  then have "(a div b + 1) * b \<le> (a div b + 1) * 1" using b by (intro mult_left_mono_neg) simp_all
  then show ?thesis using div_mult_less [OF b, of a] q False unfolding mult_1_right by linarith
qed

text \<open>
  Floored division of integers is exact: rounding the quotient cannot reach the
  next integer while the dividend has at most 53 bits.
\<close>

lemma fl_div_less:
  assumes a: "\<bar>a\<bar> \<le> 9007199254740992" and b: "0 < b"
  shows "fl (of_int a / of_int b) < of_int (a div b + 1)"
proof (rule ccontr)
  define x :: rat where "x = of_int a / of_int b"
  assume "\<not> ?thesis"
  then have ge: "of_int (a div b + 1) \<le> fl x" by (simp add: x_def)
  have br: "(0 :: rat) < of_int b" using b by simp
  have "a + 1 \<le> (a div b + 1) * b" using div_mult_less [OF b, of a] by simp
  then have "of_int (a + 1) \<le> of_int (a div b + 1) * (of_int b :: rat)" by (metis of_int_le_iff of_int_mult)
  then have gap: "x + 1 / of_int b \<le> of_int (a div b + 1)"
    using br by (simp add: x_def pos_divide_le_eq flip: add_divide_distrib)
  have inv: "0 < 1 / (of_int b :: rat)" using br by simp
  have x0: "x \<noteq> 0"
  proof
    assume "x = 0"
    then show False using ge gap inv by (simp add: fl_def)
  qed
  have err: "1 / of_int b \<le> (2 :: rat) powi (binexp x - 52) / 2"
    using fl_error [OF x0] ge gap by linarith
  have "\<bar>x\<bar> \<le> 9007199254740992 / of_int b"
  proof -
    have "\<bar>of_int a\<bar> \<le> (9007199254740992 :: rat)" using a by (metis of_int_abs of_int_le_iff of_int_numeral)
    then show ?thesis using br by (simp add: x_def abs_divide divide_right_mono)
  qed
  also have "\<dots> = 9007199254740992 * (1 / of_int b)" by simp
  also have "\<dots> \<le> 9007199254740992 * (2 powi (binexp x - 52) / 2)" using err by (rule mult_left_mono) simp
  also have "\<dots> = 2 powi (binexp x)" using powi_split [of "binexp x"] by simp
  finally have eq: "\<bar>x\<bar> = 2 powi (binexp x)" using binexp_bounds(1) [OF x0] by simp
  have "x = of_int (if 0 < x then 2 ^ 52 else - (2 ^ 52)) * 2 powi (binexp x - 52)"
    using eq powi_split [of "binexp x"] by (auto simp: mult.commute abs_if split: if_splits)
  then have "fl x \<le> x" using fl_multiple(2) [OF x0] by blast
  then show False using ge gap inv by linarith
qed

lemma fl_div_floor:
  assumes a: "\<bar>a\<bar> \<le> 9007199254740992" and b: "0 < b"
  shows "\<lfloor>fl (of_int a / of_int b)\<rfloor> = a div b"
proof (rule floor_unique)
  have br: "(0 :: rat) < of_int b" using b by simp
  have "a div b * b \<le> a" by (rule div_mult_le [OF b])
  then have "of_int (a div b) * of_int b \<le> (of_int a :: rat)" by (metis of_int_le_iff of_int_mult)
  then have "of_int (a div b) \<le> (of_int a / of_int b :: rat)" using br by (simp add: pos_le_divide_eq)
  moreover have "\<bar>a div b\<bar> \<le> 9007199254740992" using abs_div_le [OF b, of a] a by linarith
  ultimately show "of_int (a div b) \<le> fl (of_int a / of_int b)" by (rule fl_ge)
  show "fl (of_int a / of_int b) < of_int (a div b) + 1" using fl_div_less [OF assms] by simp
qed

end
