(* ===== verification/Go_Text.thy ===== *)
theory Go_Text
  imports Policy
begin

text \<open>
  Packages \<open>strconv\<close> and \<open>strings\<close> as far as the sources use them, on strings as
  lists of bytes: decimal formatting and parsing of 64-bit integers, \<open>ParseBool\<close>,
  \<open>Split\<close> at a byte and \<open>TrimSpace\<close>. A parsing error is \<open>None\<close>.
\<close>

section \<open>strconv\<close>

definition FormatInt :: "int \<Rightarrow> string" where
  "FormatInt n = (if n < 0 then CHR ''-'' # decimal_digits (nat (- n)) else decimal_digits (nat n))"

definition FormatUint :: "uint64 \<Rightarrow> string" where
  "FormatUint u = decimal_digits (unat u)"

definition digits_value :: "string \<Rightarrow> nat" where
  "digits_value s = foldl (\<lambda>n c. n * 10 + (of_char c - 48)) 0 s"

definition all_digits :: "string \<Rightarrow> bool" where
  "all_digits s \<longleftrightarrow> s \<noteq> [] \<and> list_all digit s"

definition ParseUint :: "string \<Rightarrow> uint64 option" where
  "ParseUint s =
     (if all_digits s \<and> digits_value s < 18446744073709551616 then Some (of_nat (digits_value s)) else None)"

definition ParseInt :: "string \<Rightarrow> int option" where
  "ParseInt s =
     (let neg = (s \<noteq> [] \<and> hd s = CHR ''-''); signed = (s \<noteq> [] \<and> hd s \<in> {CHR ''+'', CHR ''-''});
          body = (if signed then tl s else s); v = int (digits_value body)
      in
      if \<not> all_digits body then None
      else if neg then (if v \<le> 9223372036854775808 then Some (- v) else None)
      else if v < 9223372036854775808 then Some v else None)"

definition ParseBool :: "string \<Rightarrow> bool option" where
  "ParseBool s =
     (if s \<in> {''1'', ''t'', ''T'', ''TRUE'', ''true'', ''True''} then Some True
      else if s \<in> {''0'', ''f'', ''F'', ''FALSE'', ''false'', ''False''} then Some False
      else None)"

lemma of_char_digit: "n < 10 \<Longrightarrow> (of_char (char_of (48 + n) :: char) :: nat) = 48 + n"
  by (simp add: of_char_of)

lemma digit_char: "(n :: nat) < 10 \<Longrightarrow> digit (char_of (48 + n))"
  by (simp add: in_range_def of_char_digit)

lemma digits_value_snoc: "digits_value (s @ [c]) = digits_value s * 10 + (of_char c - 48)"
  by (simp add: digits_value_def)

lemma all_digits_decimal [simp]: "all_digits (decimal_digits n)"
proof (induction n rule: decimal_digits.induct)
  case (1 n)
  show ?case
  proof (cases "n < 10")
    case True
    then show ?thesis by (subst decimal_digits.simps) (simp add: all_digits_def digit_char)
  next
    case False
    then show ?thesis using 1 digit_char [of "n mod 10"] by (subst decimal_digits.simps) (simp add: all_digits_def)
  qed
qed

lemma digits_value_decimal [simp]: "digits_value (decimal_digits n) = n"
proof (induction n rule: decimal_digits.induct)
  case (1 n)
  show ?case
  proof (cases "n < 10")
    case True
    then show ?thesis by (subst decimal_digits.simps) (simp add: digits_value_def of_char_digit)
  next
    case False
    then have "digits_value (decimal_digits n) = (n div 10) * 10 + n mod 10"
      using 1 of_char_digit [of "n mod 10"] by (subst decimal_digits.simps) (simp add: digits_value_snoc)
    then show ?thesis by simp
  qed
qed

lemma decimal_digits_hd: "hd (decimal_digits n) \<notin> {CHR ''-'', CHR ''+''}" "decimal_digits n \<noteq> []"
  using all_digits_decimal [of n] by (cases "decimal_digits n", auto simp: all_digits_def in_range_def)

lemma Parse_FormatUint [simp]: "ParseUint (FormatUint u) = Some u"
  using unat_less_2p64 [of u] by (simp add: ParseUint_def FormatUint_def)

lemma ParseUint_decimal: "n < 18446744073709551616 \<Longrightarrow> ParseUint (decimal_digits n) = Some (of_nat n)"
  by (simp add: ParseUint_def)

lemma Parse_FormatInt:
  assumes "int64_range n"
  shows "ParseInt (FormatInt n) = Some n"
proof (cases "n < 0")
  case True
  then show ?thesis using assms by (simp add: ParseInt_def FormatInt_def int64_range_def)
next
  case False
  then show ?thesis using assms decimal_digits_hd [of "nat n"]
    by (auto simp: ParseInt_def FormatInt_def int64_range_def Let_def)
qed

lemma decimal_digits_inj [simp]: "decimal_digits m = decimal_digits n \<longleftrightarrow> m = n"
  by (metis digits_value_decimal)

section \<open>strings\<close>

fun split_at :: "char \<Rightarrow> string \<Rightarrow> string list" where
  "split_at sep [] = [[]]"
| "split_at sep (c # cs) =
     (if c = sep then [] # split_at sep cs
      else case split_at sep cs of p # ps \<Rightarrow> (c # p) # ps | [] \<Rightarrow> [[c]])"

text \<open>The UTF-8 encodings of the code points \<open>unicode.IsSpace\<close> accepts.\<close>

definition space_encodings :: "string list" where
  "space_encodings =
     [[CHR 0x09], [CHR 0x0A], [CHR 0x0B], [CHR 0x0C], [CHR 0x0D], [CHR 0x20],
      [CHR 0xC2, CHR 0x85], [CHR 0xC2, CHR 0xA0], [CHR 0xE1, CHR 0x9A, CHR 0x80]] @
     map (\<lambda>n. [CHR 0xE2, CHR 0x80, char_of n]) [128..<139] @
     [[CHR 0xE2, CHR 0x80, CHR 0xA8], [CHR 0xE2, CHR 0x80, CHR 0xA9], [CHR 0xE2, CHR 0x80, CHR 0xAF],
      [CHR 0xE2, CHR 0x81, CHR 0x9F], [CHR 0xE3, CHR 0x80, CHR 0x80]]"

definition leading_space :: "string list \<Rightarrow> string \<Rightarrow> string option" where
  "leading_space spaces s = List.find (\<lambda>e. e \<noteq> [] \<and> take (length e) s = e) spaces"

function trim_left :: "string list \<Rightarrow> string \<Rightarrow> string" where
  "trim_left spaces s =
     (case leading_space spaces s of None \<Rightarrow> s | Some e \<Rightarrow> trim_left spaces (drop (length e) s))"
  by pat_completeness auto

lemma leading_space_shorter:
  assumes "leading_space spaces s = Some e"
  shows "length (drop (length e) s) < length s"
proof -
  have "e \<noteq> []" "take (length e) s = e" using assms by (auto simp: leading_space_def find_Some_iff)
  then have "0 < length e" "length e \<le> length s" by (simp, metis length_take min.absorb_iff2 min.commute)
  then show ?thesis unfolding length_drop by linarith
qed

termination trim_left
  by (relation "measure (\<lambda>(spaces, s). length s)") (simp, simp only: in_measure prod.case leading_space_shorter)

declare trim_left.simps [simp del]

definition TrimSpace :: "string \<Rightarrow> string" where
  "TrimSpace s = rev (trim_left (map rev space_encodings) (rev (trim_left space_encodings s)))"

end
