(* ===== verification/Valkey_Scripts.thy ===== *)
theory Valkey_Scripts
  imports Floats Go_Text
begin

text \<open>
  \<^verbatim>\<open>valkey/scripts.go\<close>: the Lua scripts that run on the server. The commands a
  script calls are the functions of a record on a server state \<open>'s\<close>; what they do
  is documented by Valkey and stated as hypotheses where it matters. A Lua number
  is a double (theory \<open>Floats\<close>), \<open>false\<close> from \<open>HGET\<close> is \<open>None\<close>, and a Lua table
  used as a set is a list. A script ends with a reply or with a runtime error;
  either way the commands it has executed stay executed.

  \<open>tonumber\<close> reads decimal integers; what it makes of other texts is the C
  library's \<open>strtod\<close>, a parameter. \<open>strict\<close> is the flag in front of each body.
\<close>

section \<open>Lua\<close>

definition lua_add :: "rat \<Rightarrow> rat \<Rightarrow> rat" where "lua_add a b = fl (a + b)"
definition lua_sub :: "rat \<Rightarrow> rat \<Rightarrow> rat" where "lua_sub a b = fl (a - b)"
definition lua_mul :: "rat \<Rightarrow> rat \<Rightarrow> rat" where "lua_mul a b = fl (a * b)"
definition lua_div :: "rat \<Rightarrow> rat \<Rightarrow> rat" where "lua_div a b = fl (a / b)"
definition lua_floor :: "rat \<Rightarrow> rat" where "lua_floor a = of_int \<lfloor>a\<rfloor>"
definition lua_mod :: "rat \<Rightarrow> rat \<Rightarrow> rat" where
  "lua_mod a b = lua_sub a (lua_mul (lua_floor (lua_div a b)) b)"

definition integer_text :: "rat \<Rightarrow> string" where
  "integer_text x = FormatInt (round_even x)"

definition decimal_int :: "string \<Rightarrow> bool" where
  "decimal_int s \<longleftrightarrow> all_digits (if s \<noteq> [] \<and> hd s = CHR ''-'' then tl s else s)"

definition decimal_value :: "string \<Rightarrow> int" where
  "decimal_value s =
     (if s \<noteq> [] \<and> hd s = CHR ''-'' then - int (digits_value (tl s)) else int (digits_value s))"

definition tonumber :: "(string \<Rightarrow> rat option) \<Rightarrow> string option \<Rightarrow> rat option" where
  "tonumber strtod value =
     (case value of
        None \<Rightarrow> None
      | Some s \<Rightarrow> if decimal_int s then Some (fl (of_int (decimal_value s))) else strtod s)"

datatype 'a lua = Return "string list" | Raise | Value 'a

definition max_exact :: rat where "max_exact = 9007199254740991"
definition max_state_bytes :: nat where "max_state_bytes = 131072"
definition max_allocator_bytes :: int where "max_allocator_bytes = 1048576"

text \<open>\<open>canonical_unsigned\<close>, \<open>canonical_signed\<close> and \<open>valid_lease_field\<close>; \<open>^[1-9][0-9]*$\<close> is \<open>positive_digits\<close>.\<close>

definition positive_digits :: "string \<Rightarrow> bool" where
  "positive_digits s \<longleftrightarrow> all_digits s \<and> hd s \<noteq> CHR ''0''"

definition canonical_unsigned :: "string option \<Rightarrow> bool" where
  "canonical_unsigned value =
     (case value of None \<Rightarrow> False | Some s \<Rightarrow> length s \<le> 16 \<and> (s = ''0'' \<or> positive_digits s))"

definition canonical_signed :: "string option \<Rightarrow> bool" where
  "canonical_signed value =
     (if canonical_unsigned value then True
      else case value of
        None \<Rightarrow> False
      | Some s \<Rightarrow> \<not> (length s > 17 \<or> take 1 s \<noteq> ''-'') \<and> positive_digits (drop 1 s))"

definition hex_char :: "char \<Rightarrow> bool" where
  "hex_char c \<longleftrightarrow> digit c \<or> in_range 97 102 c"

definition valid_lease_field :: "string \<Rightarrow> bool" where
  "valid_lease_field s \<longleftrightarrow> length s = 66 \<and> take 2 s = ''l:'' \<and> list_all hex_char (drop 2 s)"

text \<open>\<open>string.find(encoded, ':')\<close> and the two parts.\<close>

definition has_separator :: "string \<Rightarrow> bool" where "has_separator s \<longleftrightarrow> CHR '':'' \<in> set s"
definition before_separator :: "string \<Rightarrow> string" where "before_separator s = takeWhile (\<lambda>c. c \<noteq> CHR '':'') s"
definition after_separator :: "string \<Rightarrow> string" where "after_separator s = tl (dropWhile (\<lambda>c. c \<noteq> CHR '':'') s)"

section \<open>The server\<close>

record 's server =
  vk_TIME :: "'s \<Rightarrow> int \<times> int"
  vk_EXISTS :: "'s \<Rightarrow> string \<Rightarrow> bool"
  vk_MEMORY_USAGE :: "'s \<Rightarrow> string \<Rightarrow> int option"
  vk_HGET :: "'s \<Rightarrow> string \<Rightarrow> string \<Rightarrow> string option"
  vk_HLEN :: "'s \<Rightarrow> string \<Rightarrow> nat"
  vk_HKEYS :: "'s \<Rightarrow> string \<Rightarrow> string list"
  vk_HSTRLEN :: "'s \<Rightarrow> string \<Rightarrow> string \<Rightarrow> nat"
  vk_HGETALL :: "'s \<Rightarrow> string \<Rightarrow> (string \<times> string) list"
  vk_HSET :: "string \<Rightarrow> (string \<times> string) list \<Rightarrow> 's \<Rightarrow> 's"
  vk_HDEL :: "string \<Rightarrow> string \<Rightarrow> 's \<Rightarrow> 's"
  vk_DEL :: "string \<Rightarrow> 's \<Rightarrow> 's"
  vk_PEXPIRE :: "string \<Rightarrow> int \<Rightarrow> 's \<Rightarrow> 's"

definition script_clock :: "'s server \<Rightarrow> bool \<Rightarrow> rat \<Rightarrow> 's \<Rightarrow> rat" where
  "script_clock srv server_clock now s =
     (if server_clock
      then let (sec, usec) = vk_TIME srv s in lua_add (lua_mul (fl (of_int sec)) 1000000) (fl (of_int usec))
      else now)"

definition too_large :: "'s server \<Rightarrow> string \<Rightarrow> 's \<Rightarrow> bool" where
  "too_large srv key s =
     (case vk_MEMORY_USAGE srv s key of None \<Rightarrow> True | Some n \<Rightarrow> n > max_allocator_bytes)"

definition foreign_hash :: "'s server \<Rightarrow> string \<Rightarrow> string \<Rightarrow> string \<Rightarrow> string \<Rightarrow> 's \<Rightarrow> bool" where
  "foreign_hash srv key schema policy_id algorithm s \<longleftrightarrow>
     vk_HGET srv s key ''schema'' \<noteq> Some schema \<or> vk_HGET srv s key ''policy_id'' \<noteq> Some policy_id \<or>
     vk_HGET srv s key ''algorithm'' \<noteq> Some algorithm"

section \<open>Admission\<close>

record admitArgs =
  aa_schema :: string
  aa_algorithm :: string
  aa_policy_id :: string
  aa_revision :: string
  aa_capacity :: rat
  aa_burst :: rat
  aa_period :: rat
  aa_cost :: rat
  aa_now :: rat
  aa_server_clock :: bool
  aa_ttl :: rat

text \<open>Arithmetic on a missing argument raises; the Go code always passes eleven or twelve.\<close>

definition admit_args :: "(string \<Rightarrow> rat option) \<Rightarrow> string list \<Rightarrow> admitArgs option" where
  "admit_args strtod argv =
     (if length argv < 11 then None
      else let num = (\<lambda>i. tonumber strtod (Some (argv ! i))) in
      case (num 4, num 5, num 6, num 7, num 8, num 10) of
        (Some capacity, Some burst, Some period, Some cost, Some now, Some ttl) \<Rightarrow>
          Some \<lparr>aa_schema = argv ! 0, aa_algorithm = argv ! 1, aa_policy_id = argv ! 2, aa_revision = argv ! 3,
                aa_capacity = capacity, aa_burst = burst, aa_period = period, aa_cost = cost, aa_now = now,
                aa_server_clock = (argv ! 9 = ''1''), aa_ttl = ttl\<rparr>
      | _ \<Rightarrow> None)"

definition aa_limit :: "admitArgs \<Rightarrow> rat" where
  "aa_limit a = lua_add (aa_capacity a) (aa_burst a)"

definition refusal :: "string \<Rightarrow> string list" where
  "refusal reason = [''-1'', ''0'', ''0'', ''0'', ''0'', reason]"

definition lua_ceiling :: "bool \<Rightarrow> rat \<Rightarrow> rat \<Rightarrow> rat" where
  "lua_ceiling strict value divisor =
     (if strict then lua_add (lua_floor (lua_div (lua_sub value 1) divisor)) 1
      else lua_floor (lua_div (lua_sub (lua_add value divisor) 1) divisor))"

definition window_start :: "rat \<Rightarrow> rat \<Rightarrow> rat" where
  "window_start now period = lua_mul (lua_floor (lua_div now period)) period"

definition window_overflow :: "bool \<Rightarrow> admitArgs \<Rightarrow> rat \<Rightarrow> bool" where
  "window_overflow strict a now \<longleftrightarrow>
     strict \<and> aa_algorithm a = ''fixed_window'' \<and>
     (window_start now (aa_period a) < - max_exact \<or> window_start now (aa_period a) > max_exact)"

definition admit_overflow :: "bool \<Rightarrow> admitArgs \<Rightarrow> rat \<Rightarrow> bool" where
  "admit_overflow strict a now \<longleftrightarrow>
     aa_period a \<le> 0 \<or> aa_capacity a \<le> 0 \<or> aa_cost a \<le> 0 \<or> aa_limit a > max_exact \<or>
     (strict \<and> (now < - max_exact \<or> now > max_exact \<or> aa_period a > max_exact \<or>
                now > lua_sub max_exact (aa_period a))) \<or>
     window_overflow strict a now"

definition new_fields :: "bool \<Rightarrow> admitArgs \<Rightarrow> rat \<Rightarrow> (string \<times> string) list" where
  "new_fields strict a now =
     [(''schema'', aa_schema a), (''policy_id'', aa_policy_id a), (''algorithm'', aa_algorithm a),
      (''revision'', aa_revision a), (''tokens'', integer_text (aa_limit a)), (''remainder'', ''0''),
      (''last'', integer_text now), (''window'', ''0''), (''used'', ''0'')]"

definition admit_open :: "bool \<Rightarrow> 's server \<Rightarrow> string \<Rightarrow> admitArgs \<Rightarrow> rat \<Rightarrow> 's \<Rightarrow> 's lua" where
  "admit_open strict srv key a now s =
     (if vk_EXISTS srv s key
      then if strict \<and> too_large srv key s then Return (refusal ''corrupt'')
           else if foreign_hash srv key (aa_schema a) (aa_policy_id a) (aa_algorithm a) s
           then Return (refusal ''corrupt'')
           else Value s
      else let s1 = vk_HSET srv key (new_fields strict a now) s in
           Value (if strict
                  then vk_HSET srv key [(''period'', integer_text (aa_period a)), (''carried'', ''0'')] s1
                  else s1))"

definition bucket_field :: "nat \<Rightarrow> string" where
  "bucket_field slot = CHR ''b'' # decimal_digits slot"

definition allowed_fields :: "string \<Rightarrow> string list" where
  "allowed_fields algorithm =
     [''schema'', ''policy_id'', ''algorithm'', ''revision'', ''tokens'', ''remainder'', ''last'',
      ''window'', ''used'', ''period'', ''carried''] @
     (if algorithm = ''sliding_window'' then map bucket_field [0..<16] else [])"

fun fields_bounded :: "'s server \<Rightarrow> string \<Rightarrow> (string \<Rightarrow> bool) \<Rightarrow> 's \<Rightarrow> nat \<Rightarrow> string list \<Rightarrow> bool" where
  "fields_bounded srv key allowed s bytes [] = True"
| "fields_bounded srv key allowed s bytes (field # rest) =
     (let value_bytes = vk_HSTRLEN srv s key field; bytes = bytes + length field + value_bytes in
      \<not> (length field > 66 \<or> value_bytes > 128 \<or> bytes > max_state_bytes \<or> \<not> allowed field) \<and>
      fields_bounded srv key allowed s bytes rest)"

definition admit_fields :: "bool \<Rightarrow> 's server \<Rightarrow> string \<Rightarrow> admitArgs \<Rightarrow> 's \<Rightarrow> bool" where
  "admit_fields strict srv key a s \<longleftrightarrow>
     \<not> strict \<or>
     (let allowed = allowed_fields (aa_algorithm a);
          max_fields = (if aa_algorithm a = ''sliding_window'' then 27 else 11)
      in \<not> vk_HLEN srv s key > max_fields \<and>
         fields_bounded srv key (\<lambda>f. f \<in> set allowed) s 0 (vk_HKEYS srv s key))"

text \<open>What the script has read before it turns to the algorithm.\<close>

record stored =
  sd_revision :: "string option"
  sd_carried :: bool
  sd_now :: rat

definition not_exact :: "rat \<Rightarrow> bool" where
  "not_exact x \<longleftrightarrow> x \<noteq> lua_floor x \<or> x < - max_exact \<or> x > max_exact"

definition not_exact_unsigned :: "rat \<Rightarrow> bool" where
  "not_exact_unsigned x \<longleftrightarrow> x \<noteq> lua_floor x \<or> x < 0 \<or> x > max_exact"

definition corrupt_period ::
  "(string \<Rightarrow> rat option) \<Rightarrow> admitArgs \<Rightarrow> string option \<Rightarrow> bool" where
  "corrupt_period strtod a raw \<longleftrightarrow>
     (aa_algorithm a = ''fixed_window'' \<or> aa_algorithm a = ''sliding_window'') \<and> raw \<noteq> None \<and>
     (\<not> canonical_unsigned raw \<or> tonumber strtod raw = None \<or>
      the (tonumber strtod raw) \<noteq> lua_floor (the (tonumber strtod raw)) \<or>
      the (tonumber strtod raw) \<noteq> aa_period a)"

definition corrupt_observed :: "(string \<Rightarrow> rat option) \<Rightarrow> string option \<Rightarrow> bool" where
  "corrupt_observed strtod raw \<longleftrightarrow>
     \<not> canonical_signed raw \<or> tonumber strtod raw = None \<or> not_exact (the (tonumber strtod raw))"

definition admit_stored ::
  "bool \<Rightarrow> (string \<Rightarrow> rat option) \<Rightarrow> 's server \<Rightarrow> string \<Rightarrow> admitArgs \<Rightarrow> rat \<Rightarrow> 's \<Rightarrow> stored lua" where
  "admit_stored strict strtod srv key a now s =
     (let stored_period_raw = vk_HGET srv s key ''period'';
          carried_raw = vk_HGET srv s key ''carried'';
          observed_raw = vk_HGET srv s key ''last''
      in
      if strict \<and> (corrupt_period strtod a stored_period_raw \<or>
                   (carried_raw \<noteq> None \<and> carried_raw \<noteq> Some ''0'' \<and> carried_raw \<noteq> Some ''1''))
      then Return (refusal ''corrupt'')
      else if strict \<and> corrupt_observed strtod observed_raw then Return (refusal ''corrupt'')
      else case tonumber strtod observed_raw of
        None \<Rightarrow> Raise
      | Some observed \<Rightarrow>
        let now = (if now < observed then observed else now) in
        if strict \<and> now > lua_sub max_exact (aa_period a) then Return (refusal ''overflow'')
        else if window_overflow strict a now then Return (refusal ''overflow'')
        else Value \<lparr>sd_revision = vk_HGET srv s key ''revision'', sd_carried = (carried_raw = Some ''1''), sd_now = now\<rparr>)"

text \<open>The outcome of an algorithm.\<close>

record verdict =
  vd_allowed :: bool
  vd_remaining :: rat
  vd_reset :: rat
  vd_retry :: rat
  vd_carried :: bool

definition corrupt_token ::
  "(string \<Rightarrow> rat option) \<Rightarrow> admitArgs \<Rightarrow> bool \<Rightarrow> string option \<Rightarrow> string option \<Rightarrow> string option \<Rightarrow> bool" where
  "corrupt_token strtod a same tokens_raw remainder_raw last_raw \<longleftrightarrow>
     \<not> canonical_unsigned tokens_raw \<or> \<not> canonical_unsigned remainder_raw \<or> \<not> canonical_signed last_raw \<or>
     tonumber strtod tokens_raw = None \<or> tonumber strtod remainder_raw = None \<or> tonumber strtod last_raw = None \<or>
     not_exact_unsigned (the (tonumber strtod tokens_raw)) \<or> not_exact_unsigned (the (tonumber strtod remainder_raw)) \<or>
     (same \<and> the (tonumber strtod remainder_raw) \<ge> aa_period a) \<or> not_exact (the (tonumber strtod last_raw)) \<or>
     (same \<and> the (tonumber strtod tokens_raw) > aa_limit a)"

definition lua_refill :: "admitArgs \<Rightarrow> rat \<Rightarrow> rat \<Rightarrow> rat \<Rightarrow> rat \<Rightarrow> rat \<times> rat" where
  "lua_refill a now tokens remainder prior =
     (let elapsed = max 0 (lua_sub now prior); limit = aa_limit a in
      if elapsed > 0 \<and> tokens < limit
      then if elapsed > lua_floor (lua_div (lua_sub max_exact remainder) (aa_capacity a))
           then (limit, 0)
           else let numerator = lua_add (lua_mul elapsed (aa_capacity a)) remainder;
                    added = lua_floor (lua_div numerator (aa_period a));
                    remainder = lua_mod numerator (aa_period a);
                    tokens = min limit (lua_add tokens added)
                in (tokens, if tokens = limit then 0 else remainder)
      else (tokens, remainder))"

definition lua_token ::
  "bool \<Rightarrow> admitArgs \<Rightarrow> rat \<Rightarrow> bool \<Rightarrow> rat \<Rightarrow> rat \<Rightarrow> rat \<Rightarrow> verdict \<times> rat \<times> rat" where
  "lua_token strict a now carried tokens0 remainder0 prior =
     (let (tokens1, remainder) = lua_refill a now tokens0 remainder0 prior;
          allowed = (tokens1 \<ge> aa_cost a);
          tokens = (if allowed then lua_sub tokens1 (aa_cost a) else tokens1);
          retry = (if allowed then 0
                   else lua_ceiling strict (lua_sub (lua_mul (lua_sub (aa_cost a) tokens) (aa_period a)) remainder)
                          (aa_capacity a));
          full = lua_sub (lua_mul (lua_sub (aa_limit a) tokens) (aa_period a)) remainder;
          reset = lua_add now (max 0 (lua_ceiling strict full (aa_capacity a)))
      in (\<lparr>vd_allowed = allowed, vd_remaining = tokens, vd_reset = reset, vd_retry = retry, vd_carried = carried\<rparr>,
          tokens, remainder))"

definition admit_token ::
  "bool \<Rightarrow> (string \<Rightarrow> rat option) \<Rightarrow> 's server \<Rightarrow> string \<Rightarrow> admitArgs \<Rightarrow> stored \<Rightarrow> 's \<Rightarrow> verdict lua \<times> 's" where
  "admit_token strict strtod srv key a sd s =
     (let tokens_raw = vk_HGET srv s key ''tokens''; remainder_raw = vk_HGET srv s key ''remainder'';
          last_raw = vk_HGET srv s key ''last''; now = sd_now sd; same = (sd_revision sd = Some (aa_revision a))
      in
      if strict \<and> corrupt_token strtod a same tokens_raw remainder_raw last_raw
      then (Return (refusal ''corrupt''), s)
      else case (tonumber strtod tokens_raw, tonumber strtod remainder_raw, tonumber strtod last_raw) of
        (Some tokens, Some remainder, Some prior) \<Rightarrow>
          let (tokens, remainder, prior) =
                (if strict \<and> \<not> same then (min tokens (aa_limit a), 0, now) else (tokens, remainder, prior));
              (v, tokens, remainder) = lua_token strict a now (sd_carried sd) tokens remainder prior
          in (Value v, vk_HSET srv key [(''tokens'', integer_text tokens), (''remainder'', integer_text remainder),
                                        (''last'', integer_text now)] s)
      | _ \<Rightarrow> (Raise, s))"

definition corrupt_fixed ::
  "(string \<Rightarrow> rat option) \<Rightarrow> admitArgs \<Rightarrow> bool \<Rightarrow> bool \<Rightarrow> string option \<Rightarrow> string option \<Rightarrow> bool" where
  "corrupt_fixed strtod a same carried stored_raw used_raw \<longleftrightarrow>
     \<not> canonical_signed stored_raw \<or> \<not> canonical_unsigned used_raw \<or>
     tonumber strtod stored_raw = None \<or> tonumber strtod used_raw = None \<or>
     not_exact (the (tonumber strtod stored_raw)) \<or> not_exact_unsigned (the (tonumber strtod used_raw)) \<or>
     (same \<and> the (tonumber strtod used_raw) > aa_limit a \<and> \<not> carried)"

definition lua_fixed :: "bool \<Rightarrow> admitArgs \<Rightarrow> rat \<Rightarrow> bool \<Rightarrow> bool \<Rightarrow> rat option \<Rightarrow> rat \<Rightarrow> verdict \<times> rat \<times> rat" where
  "lua_fixed strict a now same carried0 stored used0 =
     (let window = window_start now (aa_period a); limit = aa_limit a;
          carried1 = (if strict \<and> \<not> same then used0 > limit else carried0);
          used1 = (if stored \<noteq> Some window then 0 else used0);
          carried2 = (if stored \<noteq> Some window then False else carried1);
          remaining = max 0 (lua_sub limit used1);
          reset = lua_add window (aa_period a);
          allowed = (aa_cost a \<le> remaining);
          used = (if allowed then lua_add used1 (aa_cost a) else used1)
      in (\<lparr>vd_allowed = allowed, vd_remaining = (if allowed then lua_sub limit used else remaining), vd_reset = reset,
           vd_retry = (if allowed then 0 else max 0 (lua_sub reset now)),
           vd_carried = (if used \<le> limit then False else carried2)\<rparr>, window, used))"

definition admit_fixed ::
  "bool \<Rightarrow> (string \<Rightarrow> rat option) \<Rightarrow> 's server \<Rightarrow> string \<Rightarrow> admitArgs \<Rightarrow> stored \<Rightarrow> 's \<Rightarrow> verdict lua \<times> 's" where
  "admit_fixed strict strtod srv key a sd s =
     (let stored_raw = vk_HGET srv s key ''window''; used_raw = vk_HGET srv s key ''used'';
          same = (sd_revision sd = Some (aa_revision a))
      in
      if strict \<and> corrupt_fixed strtod a same (sd_carried sd) stored_raw used_raw
      then (Return (refusal ''corrupt''), s)
      else case (if tonumber strtod stored_raw \<noteq> Some (window_start (sd_now sd) (aa_period a)) \<and>
                    tonumber strtod used_raw = None then Some 0 else tonumber strtod used_raw) of
        None \<Rightarrow> (Raise, s)
      | Some used \<Rightarrow>
        let (v, window, used) =
              lua_fixed strict a (sd_now sd) same (sd_carried sd) (tonumber strtod stored_raw) used
        in (Value v, vk_HSET srv key [(''window'', integer_text window), (''used'', integer_text used)] s))"

text \<open>
  The loop over the sixteen segments: the usage, the earliest used segment, the
  expired fields and the segments seen. A released script deletes expired fields
  on the way, a strict one after the checks.
\<close>

definition corrupt_segment :: "(string \<Rightarrow> rat option) \<Rightarrow> string \<Rightarrow> string \<Rightarrow> bool" where
  "corrupt_segment strtod idx_raw value_raw \<longleftrightarrow>
     \<not> canonical_signed (Some idx_raw) \<or> \<not> canonical_unsigned (Some value_raw) \<or>
     tonumber strtod (Some idx_raw) = None \<or> tonumber strtod (Some value_raw) = None \<or>
     not_exact (the (tonumber strtod (Some idx_raw))) \<or>
     not_exact_unsigned (the (tonumber strtod (Some value_raw)))"

fun sliding_scan ::
  "bool \<Rightarrow> (string \<Rightarrow> rat option) \<Rightarrow> 's server \<Rightarrow> string \<Rightarrow> rat \<Rightarrow> rat \<Rightarrow> nat list \<Rightarrow>
   rat \<Rightarrow> rat option \<Rightarrow> string list \<Rightarrow> rat list \<Rightarrow> 's \<Rightarrow> (rat \<times> rat option \<times> string list) lua \<times> 's" where
  "sliding_scan strict strtod srv key current oldest [] used earliest expired seen s =
     (Value (used, earliest, expired), s)"
| "sliding_scan strict strtod srv key current oldest (slot # slots) used earliest expired seen s =
     (let field = bucket_field slot in
      case vk_HGET srv s key field of
        None \<Rightarrow> sliding_scan strict strtod srv key current oldest slots used earliest expired seen s
      | Some encoded \<Rightarrow>
        if \<not> has_separator encoded
        then (if strict then Return (refusal ''corrupt'') else Raise, s)
        else let idx_raw = before_separator encoded; value_raw = after_separator encoded in
        if strict \<and> corrupt_segment strtod idx_raw value_raw then (Return (refusal ''corrupt''), s)
        else case (tonumber strtod (Some idx_raw), tonumber strtod (Some value_raw)) of
          (None, _) \<Rightarrow> (Raise, s)
        | (Some idx, None) \<Rightarrow>
            if idx \<le> oldest
            then sliding_scan strict strtod srv key current oldest slots used earliest expired seen (vk_HDEL srv key field s)
            else (Raise, s)
        | (Some idx, Some value) \<Rightarrow>
            let active = (strict \<and> value > 0 \<and> idx > oldest) in
            if active \<and> (idx > current \<or> lua_mod idx 16 \<noteq> of_nat slot \<or> idx \<in> set seen)
            then (Return (refusal ''corrupt''), s)
            else let seen = (if active then idx # seen else seen) in
            if idx \<le> oldest
            then if strict
                 then sliding_scan strict strtod srv key current oldest slots used earliest (expired @ [field]) seen s
                 else sliding_scan strict strtod srv key current oldest slots used earliest expired seen
                        (vk_HDEL srv key field s)
            else if strict \<and> value > lua_sub max_exact used then (Return (refusal ''corrupt''), s)
            else sliding_scan strict strtod srv key current oldest slots (lua_add used value)
                   (if value > 0 \<and> (case earliest of None \<Rightarrow> True | Some e \<Rightarrow> idx < e) then Some idx else earliest)
                   expired seen s)"

definition delete_fields :: "'s server \<Rightarrow> string \<Rightarrow> string list \<Rightarrow> 's \<Rightarrow> 's" where
  "delete_fields srv key fs s = fold (vk_HDEL srv key) fs s"

text \<open>The value of the current segment before it is increased; \<open>None\<close> makes the addition raise.\<close>

definition segment_value :: "(string \<Rightarrow> rat option) \<Rightarrow> rat \<Rightarrow> string option \<Rightarrow> rat option" where
  "segment_value strtod current encoded =
     (case encoded of
        None \<Rightarrow> Some 0
      | Some e \<Rightarrow>
        let prefix = before_separator e; suffix = rev (takeWhile (\<lambda>c. c \<noteq> CHR '':'') (rev e)) in
        if prefix \<noteq> [] \<and> tonumber strtod (Some prefix) = Some current
        then (if suffix = [] then None else tonumber strtod (Some suffix))
        else Some 0)"

definition sliding_width :: "rat \<Rightarrow> rat" where
  "sliding_width period = lua_floor (lua_div (lua_add period 15) 16)"

definition admit_sliding ::
  "bool \<Rightarrow> (string \<Rightarrow> rat option) \<Rightarrow> 's server \<Rightarrow> string \<Rightarrow> admitArgs \<Rightarrow> stored \<Rightarrow> 's \<Rightarrow> verdict lua \<times> 's" where
  "admit_sliding strict strtod srv key a sd s =
     (let now = sd_now sd; period = aa_period a; limit = aa_limit a; width = sliding_width period;
          current = lua_floor (lua_div now width); oldest = lua_floor (lua_div (lua_sub now period) width);
          same = (sd_revision sd = Some (aa_revision a))
      in
      case sliding_scan strict strtod srv key current oldest [0..<16] 0 None [] [] s of
        (Return reply, s1) \<Rightarrow> (Return reply, s1)
      | (Raise, s1) \<Rightarrow> (Raise, s1)
      | (Value (used, earliest, expired), s1) \<Rightarrow>
        if strict \<and> same \<and> used > limit \<and> \<not> sd_carried sd then (Return (refusal ''corrupt''), s1)
        else let carried = (if strict \<and> \<not> same then used > limit else sd_carried sd);
                 s2 = (if strict then delete_fields srv key expired s1 else s1);
                 carried = (if used \<le> limit then False else carried);
                 remaining = max 0 (lua_sub limit used);
                 reset = (case earliest of
                            None \<Rightarrow> lua_add now period
                          | Some e \<Rightarrow> lua_add (lua_mul (lua_add e 1) width) period)
        in
        if aa_cost a \<le> remaining
        then let field = bucket_field (nat (round_even (lua_mod current 16))) in
             case segment_value strtod current (vk_HGET srv s2 key field) of
               None \<Rightarrow> (Raise, s2)
             | Some value \<Rightarrow>
               (Value \<lparr>vd_allowed = True, vd_remaining = lua_sub remaining (aa_cost a), vd_reset = reset, vd_retry = 0,
                       vd_carried = carried\<rparr>,
                vk_HSET srv key [(field, integer_text current @ CHR '':'' # integer_text (lua_add value (aa_cost a)))] s2)
        else (Value \<lparr>vd_allowed = False, vd_remaining = remaining, vd_reset = reset,
                     vd_retry = max 0 (lua_sub reset now), vd_carried = carried\<rparr>, s2))"

definition admit_algorithm ::
  "bool \<Rightarrow> (string \<Rightarrow> rat option) \<Rightarrow> 's server \<Rightarrow> string \<Rightarrow> admitArgs \<Rightarrow> stored \<Rightarrow> 's \<Rightarrow> verdict lua \<times> 's" where
  "admit_algorithm strict strtod srv key a sd s =
     (if aa_algorithm a = ''token_bucket'' then admit_token strict strtod srv key a sd s
      else if aa_algorithm a = ''fixed_window'' then admit_fixed strict strtod srv key a sd s
      else if aa_algorithm a = ''sliding_window'' then admit_sliding strict strtod srv key a sd s
      else (Return (refusal ''corrupt''), s))"

definition admit_reply :: "bool \<Rightarrow> admitArgs \<Rightarrow> rat \<Rightarrow> verdict \<Rightarrow> string list" where
  "admit_reply strict a now v =
     (if vd_allowed v
      then [''1'', integer_text (vd_remaining v), integer_text (aa_limit a), integer_text (vd_reset v), ''0'', ''allowed'']
      else [''0'', integer_text (vd_remaining v), integer_text (aa_limit a), integer_text (vd_reset v),
            integer_text (vd_retry v), ''limited'']) @
     (if strict then [integer_text now] else [])"

definition admit_finish :: "bool \<Rightarrow> 's server \<Rightarrow> string \<Rightarrow> admitArgs \<Rightarrow> rat \<Rightarrow> verdict \<Rightarrow> 's \<Rightarrow> 's" where
  "admit_finish strict srv key a now v s =
     vk_PEXPIRE srv key (round_even (aa_ttl a))
       (vk_HSET srv key
          (if strict
           then [(''last'', integer_text now), (''revision'', aa_revision a), (''period'', integer_text (aa_period a)),
                 (''carried'', if vd_carried v then ''1'' else ''0'')]
           else [(''last'', integer_text now)]) s)"

text \<open>The whole script: the reply, \<open>None\<close> for a runtime error, and the server afterwards.\<close>

definition admitScript ::
  "bool \<Rightarrow> (string \<Rightarrow> rat option) \<Rightarrow> 's server \<Rightarrow> string \<Rightarrow> string list \<Rightarrow> 's \<Rightarrow> string list option \<times> 's" where
  "admitScript strict strtod srv key argv s =
     (case admit_args strtod argv of
        None \<Rightarrow> (None, s)
      | Some a \<Rightarrow>
        let now = script_clock srv (aa_server_clock a) (aa_now a) s in
        if admit_overflow strict a now then (Some (refusal ''overflow''), s)
        else case admit_open strict srv key a now s of
          Return reply \<Rightarrow> (Some reply, s)
        | Raise \<Rightarrow> (None, s)
        | Value s1 \<Rightarrow>
          if \<not> admit_fields strict srv key a s1 then (Some (refusal ''corrupt''), s1)
          else case admit_stored strict strtod srv key a now s1 of
            Return reply \<Rightarrow> (Some reply, s1)
          | Raise \<Rightarrow> (None, s1)
          | Value sd \<Rightarrow>
            let s2 = (if strict then s1 else vk_HSET srv key [(''revision'', aa_revision a)] s1) in
            case admit_algorithm strict strtod srv key a sd s2 of
              (Return reply, s3) \<Rightarrow> (Some reply, s3)
            | (Raise, s3) \<Rightarrow> (None, s3)
            | (Value v, s3) \<Rightarrow>
              (Some (admit_reply strict a (sd_now sd) v), admit_finish strict srv key a (sd_now sd) v s3))"

section \<open>Leases\<close>

record leaseArgs =
  la_schema :: string
  la_policy_id :: string
  la_revision :: string
  la_limit :: rat
  la_cost :: rat
  la_now :: rat
  la_lease_us :: rat
  la_ttl_ms :: rat
  la_server_clock :: bool
  la_field :: string

definition lease_args :: "(string \<Rightarrow> rat option) \<Rightarrow> string list \<Rightarrow> leaseArgs option" where
  "lease_args strtod argv =
     (if length argv < 10 then None
      else let num = (\<lambda>i. tonumber strtod (Some (argv ! i))) in
      case (num 3, num 4, num 5, num 6, num 7) of
        (Some limit, Some cost, Some now, Some duration_us, Some ttl_ms) \<Rightarrow>
          Some \<lparr>la_schema = argv ! 0, la_policy_id = argv ! 1, la_revision = argv ! 2, la_limit = limit,
                la_cost = cost, la_now = now, la_lease_us = duration_us, la_ttl_ms = ttl_ms,
                la_server_clock = (argv ! 8 = ''1''), la_field = ''l:'' @ argv ! 9\<rparr>
      | _ \<Rightarrow> None)"

definition lease_refusal :: "string \<Rightarrow> string list" where
  "lease_refusal reason = [''-1'', ''0'', ''0'', ''0'', ''0'', reason, ''0'']"

definition lease_overflow :: "bool \<Rightarrow> leaseArgs \<Rightarrow> rat \<Rightarrow> bool" where
  "lease_overflow strict a now \<longleftrightarrow>
     strict \<and> (now < - max_exact \<or> now > max_exact \<or> la_lease_us a \<le> 0 \<or> la_lease_us a > max_exact \<or>
               now > lua_sub max_exact (la_lease_us a))"

definition acquire_open :: "bool \<Rightarrow> 's server \<Rightarrow> string \<Rightarrow> leaseArgs \<Rightarrow> rat \<Rightarrow> 's \<Rightarrow> 's lua" where
  "acquire_open strict srv key a now s =
     (if vk_EXISTS srv s key
      then if strict \<and> too_large srv key s then Return (lease_refusal ''corrupt'')
           else if foreign_hash srv key (la_schema a) (la_policy_id a) ''concurrency'' s
           then Return (lease_refusal ''corrupt'')
           else Value s
      else Value (vk_HSET srv key
             [(''schema'', la_schema a), (''policy_id'', la_policy_id a), (''algorithm'', ''concurrency''),
              (''revision'', la_revision a), (''last'', integer_text now)] s))"

definition lease_meta_fields :: "string list" where
  "lease_meta_fields = [''schema'', ''policy_id'', ''algorithm'', ''revision'', ''last'']"

definition max_lease_fields :: nat where "max_lease_fields = 1029"

fun pairs_bounded :: "(string \<Rightarrow> bool) \<Rightarrow> nat \<Rightarrow> (string \<times> string) list \<Rightarrow> bool" where
  "pairs_bounded allowed bytes [] = True"
| "pairs_bounded allowed bytes ((field, value) # rest) =
     (let bytes = bytes + length field + length value in
      \<not> (length field > 66 \<or> length value > 128 \<or> bytes > max_state_bytes \<or> \<not> allowed field) \<and>
      pairs_bounded allowed bytes rest)"

definition corrupt_lease :: "(string \<Rightarrow> rat option) \<Rightarrow> string \<Rightarrow> string \<Rightarrow> bool" where
  "corrupt_lease strtod cost_raw expires_raw \<longleftrightarrow>
     \<not> canonical_unsigned (Some cost_raw) \<or> \<not> canonical_signed (Some expires_raw) \<or>
     tonumber strtod (Some cost_raw) = None \<or> tonumber strtod (Some expires_raw) = None \<or>
     the (tonumber strtod (Some cost_raw)) \<noteq> lua_floor (the (tonumber strtod (Some cost_raw))) \<or>
     not_exact (the (tonumber strtod (Some expires_raw))) \<or>
     the (tonumber strtod (Some cost_raw)) \<le> 0 \<or> the (tonumber strtod (Some cost_raw)) > 1024"

text \<open>
  The loop over the leases: the cost in use, the earliest expiry (0 for none) and
  the expired fields. Missing numbers make a released script raise where it compares
  or adds them.
\<close>

fun lease_scan ::
  "bool \<Rightarrow> (string \<Rightarrow> rat option) \<Rightarrow> 's server \<Rightarrow> string \<Rightarrow> rat \<Rightarrow> (string \<times> string) list \<Rightarrow>
   rat \<Rightarrow> rat \<Rightarrow> string list \<Rightarrow> 's \<Rightarrow> (rat \<times> rat \<times> string list) lua \<times> 's" where
  "lease_scan strict strtod srv key now [] used earliest expired s = (Value (used, earliest, expired), s)"
| "lease_scan strict strtod srv key now ((field, encoded) # rest) used earliest expired s =
     (if take 2 field \<noteq> ''l:'' then lease_scan strict strtod srv key now rest used earliest expired s
      else if \<not> has_separator encoded
      then (if strict then Return (lease_refusal ''corrupt'') else Raise, s)
      else let cost_raw = before_separator encoded; expires_raw = after_separator encoded in
      if strict \<and> corrupt_lease strtod cost_raw expires_raw then (Return (lease_refusal ''corrupt''), s)
      else case tonumber strtod (Some expires_raw) of
        None \<Rightarrow> (Raise, s)
      | Some expires \<Rightarrow>
        if expires \<le> now
        then if strict
             then lease_scan strict strtod srv key now rest used earliest (expired @ [field]) s
             else lease_scan strict strtod srv key now rest used earliest expired (vk_HDEL srv key field s)
        else case tonumber strtod (Some cost_raw) of
          None \<Rightarrow> (Raise, s)
        | Some lease_cost \<Rightarrow>
          if lease_cost \<le> 0 \<or> lease_cost > lua_sub 1024 used then (Return (lease_refusal ''corrupt''), s)
          else lease_scan strict strtod srv key now rest (lua_add used lease_cost)
                 (if earliest = 0 \<or> expires < earliest then expires else earliest) expired s)"

definition lease_reply :: "bool \<Rightarrow> string list \<Rightarrow> rat \<Rightarrow> string list" where
  "lease_reply strict reply now = reply @ (if strict then [integer_text now] else [])"

text \<open>The last part of the script, when the expired leases are gone.\<close>

definition acquire_decide ::
  "bool \<Rightarrow> (string \<Rightarrow> rat option) \<Rightarrow> 's server \<Rightarrow> string \<Rightarrow> leaseArgs \<Rightarrow> rat \<Rightarrow> rat \<Rightarrow> rat \<Rightarrow> 's \<Rightarrow>
   string list option \<times> 's" where
  "acquire_decide strict strtod srv key a now used earliest s =
     (case vk_HGET srv s key (la_field a) of
        Some existing \<Rightarrow>
          if \<not> has_separator existing then (None, s)
          else let cost_raw = before_separator existing; expires_raw = after_separator existing in
          if strict \<and> (\<not> canonical_unsigned (Some cost_raw) \<or> \<not> canonical_signed (Some expires_raw))
          then (Some (lease_refusal ''corrupt''), s)
          else if tonumber strtod (Some cost_raw) \<noteq> Some (la_cost a)
          then (Some (lease_refusal ''not_owned''), s)
          else let s1 = vk_PEXPIRE srv key (round_even (la_ttl_ms a)) s in
          (case tonumber strtod (Some expires_raw) of
             None \<Rightarrow> (None, s1)
           | Some expires \<Rightarrow>
             (Some (lease_reply strict
                [''1'', integer_text (lua_sub (la_limit a) (min used (la_limit a))), integer_text (la_limit a),
                 integer_text expires, ''0'', ''allowed'', integer_text expires] now), s1))
      | None \<Rightarrow>
          let remaining = max 0 (lua_sub (la_limit a) used) in
          if la_cost a > remaining
          then (Some (lease_reply strict
                 [''0'', integer_text remaining, integer_text (la_limit a), integer_text earliest,
                  integer_text (max 0 (lua_sub earliest now)), ''limited'', ''0''] now), s)
          else let expires = lua_add now (la_lease_us a);
                   s1 = vk_HSET srv key [(la_field a, integer_text (la_cost a) @ CHR '':'' # integer_text expires)] s
          in (Some (lease_reply strict
                [''1'', integer_text (lua_sub remaining (la_cost a)), integer_text (la_limit a), integer_text expires,
                 ''0'', ''allowed'', integer_text expires] now),
              vk_PEXPIRE srv key (round_even (la_ttl_ms a)) s1))"

text \<open>The part between the opening of the hash and the decision.\<close>

definition acquire_body ::
  "bool \<Rightarrow> (string \<Rightarrow> rat option) \<Rightarrow> 's server \<Rightarrow> string \<Rightarrow> leaseArgs \<Rightarrow> rat \<Rightarrow> 's \<Rightarrow> string list option \<times> 's" where
  "acquire_body strict strtod srv key a now0 s =
     (if vk_HLEN srv s key > max_lease_fields then (Some (lease_refusal ''corrupt''), s)
      else let pairs = vk_HGETALL srv s key; observed_raw = vk_HGET srv s key ''last'' in
      if strict \<and> \<not> pairs_bounded (\<lambda>f. f \<in> set lease_meta_fields \<or> valid_lease_field f) 0 pairs
      then (Some (lease_refusal ''corrupt''), s)
      else if strict \<and> corrupt_observed strtod observed_raw then (Some (lease_refusal ''corrupt''), s)
      else case tonumber strtod observed_raw of
        None \<Rightarrow> (None, s)
      | Some observed \<Rightarrow>
        let now = (if now0 < observed then observed else now0) in
        if strict \<and> now > lua_sub max_exact (la_lease_us a) then (Some (lease_refusal ''overflow''), s)
        else let s1 = (if strict then s
                       else vk_HSET srv key [(''revision'', la_revision a)]
                              (vk_HSET srv key [(''last'', integer_text now)] s))
        in case lease_scan strict strtod srv key now pairs 0 0 [] s1 of
          (Return reply, s2) \<Rightarrow> (Some reply, s2)
        | (Raise, s2) \<Rightarrow> (None, s2)
        | (Value (used, earliest, expired), s2) \<Rightarrow>
          let s3 = (if strict
                    then vk_HSET srv key [(''last'', integer_text now), (''revision'', la_revision a)]
                           (delete_fields srv key expired s2)
                    else s2)
          in acquire_decide strict strtod srv key a now used earliest s3)"

definition acquireLeaseScript ::
  "bool \<Rightarrow> (string \<Rightarrow> rat option) \<Rightarrow> 's server \<Rightarrow> string \<Rightarrow> string list \<Rightarrow> 's \<Rightarrow> string list option \<times> 's" where
  "acquireLeaseScript strict strtod srv key argv s =
     (case lease_args strtod argv of
        None \<Rightarrow> (None, s)
      | Some a \<Rightarrow>
        let now = script_clock srv (la_server_clock a) (la_now a) s in
        if lease_overflow strict a now then (Some (lease_refusal ''overflow''), s)
        else case acquire_open strict srv key a now s of
          Return reply \<Rightarrow> (Some reply, s)
        | Raise \<Rightarrow> (None, s)
        | Value s1 \<Rightarrow> acquire_body strict strtod srv key a now s1)"

text \<open>The strict checks of a release: every field and every lease of the hash.\<close>

fun release_scan ::
  "(string \<Rightarrow> rat option) \<Rightarrow> (string \<times> string) list \<Rightarrow> rat \<Rightarrow> nat \<Rightarrow> bool" where
  "release_scan strtod [] used bytes = True"
| "release_scan strtod ((name, value) # rest) used bytes =
     (let bytes = bytes + length name + length value in
      if length name > 66 \<or> length value > 128 \<or> bytes > max_state_bytes then False
      else if name \<in> set lease_meta_fields then release_scan strtod rest used bytes
      else if \<not> valid_lease_field name then False
      else if \<not> has_separator value then False
      else let cost_raw = before_separator value; expires_raw = after_separator value in
      if corrupt_lease strtod cost_raw expires_raw \<or> the (tonumber strtod (Some cost_raw)) > lua_sub 1024 used then False
      else release_scan strtod rest (lua_add used (the (tonumber strtod (Some cost_raw)))) bytes)"

definition release_checks :: "(string \<Rightarrow> rat option) \<Rightarrow> 's server \<Rightarrow> string \<Rightarrow> 's \<Rightarrow> bool" where
  "release_checks strtod srv key s \<longleftrightarrow>
     \<not> vk_HLEN srv s key > max_lease_fields \<and> \<not> corrupt_observed strtod (vk_HGET srv s key ''last'') \<and>
     release_scan strtod (vk_HGETALL srv s key) 0 0"

text \<open>\<open>ARGV\<close> of a release: schema, policy, lease digest, cost, expiry.\<close>

definition releaseLeaseScript ::
  "bool \<Rightarrow> (string \<Rightarrow> rat option) \<Rightarrow> 's server \<Rightarrow> string \<Rightarrow> string list \<Rightarrow> 's \<Rightarrow> string list option \<times> 's" where
  "releaseLeaseScript strict strtod srv key argv s =
     (if length argv < 5 then (None, s)
      else if \<not> vk_EXISTS srv s key then (Some [''not_found''], s)
      else if strict \<and> too_large srv key s then (Some [''corrupt''], s)
      else if foreign_hash srv key (argv ! 0) (argv ! 1) ''concurrency'' s
      then (Some [if strict then ''corrupt'' else ''not_found''], s)
      else if strict \<and> \<not> release_checks strtod srv key s then (Some [''corrupt''], s)
      else let field = ''l:'' @ argv ! 2 in
      case vk_HGET srv s key field of
        None \<Rightarrow> (Some [''not_found''], s)
      | Some existing \<Rightarrow>
        if existing \<noteq> argv ! 3 @ CHR '':'' # argv ! 4 then (Some [''not_owned''], s)
        else let s1 = vk_HDEL srv key field s in
        (Some [''ok''], if vk_HLEN srv s1 key = 5 then vk_DEL srv key s1 else s1))"

end
