(* ===== verification/Valkey_Store.thy ===== *)
theory Valkey_Store
  imports Valkey_Scripts Memory_Strict
begin

text \<open>
  \<^verbatim>\<open>valkey/store.go\<close>, \<^verbatim>\<open>lease.go\<close>, \<^verbatim>\<open>native.go\<close> and \<^verbatim>\<open>strict.go\<close>: the Go side of the
  Valkey backend. The client of package \<open>valkey-go\<close> is a record of functions on a
  world \<open>'w\<close>: running one of the six scripts, \<open>INFO server\<close> and
  \<open>CONFIG GET maxmemory-policy\<close>. \<open>sha256\<close> and the derivation of a context with a
  deadline are parameters. A nil interface and a typed nil are both \<open>None\<close>.
\<close>

section \<open>Options and interfaces\<close>

definition MaxPrefixBytes :: nat where "MaxPrefixBytes = 64"

datatype vkClockPolicy = VkClientClock | VkServerClock | VkOtherClock

record vkOptions =
  vo_Prefix :: string
  vo_Timeout :: duration
  vo_Clock :: vkClockPolicy

record 'w leaseExecutor =
  le_acquire :: "'w ctx \<Rightarrow> string list \<Rightarrow> string list \<Rightarrow> 'w \<Rightarrow> (go_error + string list) \<times> 'w"
  le_release :: "'w ctx \<Rightarrow> string list \<Rightarrow> string list \<Rightarrow> 'w \<Rightarrow> (go_error + string list) \<times> 'w"

record 'w startupChecks =
  sc_info :: "'w ctx \<Rightarrow> 'w \<Rightarrow> (go_error + string) \<times> 'w"
  sc_config :: "'w ctx \<Rightarrow> 'w \<Rightarrow> (go_error + (string \<times> string) list) \<times> 'w"

text \<open>
  \<open>ex_lease\<close> and \<open>ex_native\<close> are the outcomes of the type assertions to
  \<open>leaseExecutor\<close> and \<open>*nativeExecutor\<close>.
\<close>

record 'w vkExecutor =
  ex_exec :: "'w ctx \<Rightarrow> string list \<Rightarrow> string list \<Rightarrow> 'w \<Rightarrow> (go_error + string list) \<times> 'w"
  ex_lease :: "'w leaseExecutor option"
  ex_native :: "'w startupChecks option"

record 'w vkStore =
  vs_executor :: "'w vkExecutor option"
  vs_options :: vkOptions

definition unsafe_prefix_chars :: "char set" where
  "unsafe_prefix_chars = {CHR ''{'', CHR ''}'', NUL, CHR 0x0D, CHR 0x0A, CHR 0x20}"

definition vk_newStore :: "'w vkExecutor option \<Rightarrow> vkOptions \<Rightarrow> go_error + 'w vkStore" where
  "vk_newStore executor options =
     (let bad = Inl (Wrapped ''safe prefix, timeout, clock, and executor are required'' ErrInvalidPolicy) in
      if executor = None then bad
      else if vo_Prefix options = [] then bad
      else if length (vo_Prefix options) > MaxPrefixBytes then bad
      else if vo_Timeout options < 1 then bad
      else if list_ex (\<lambda>c. c \<in> unsafe_prefix_chars) (vo_Prefix options) then bad
      else if vo_Clock options = VkOtherClock then bad
      else Inr \<lparr>vs_executor = executor, vs_options = options\<rparr>)"

section \<open>Keys, arguments and replies\<close>

definition vk_hashed_key :: "(string \<Rightarrow> string) \<Rightarrow> string \<Rightarrow> string \<Rightarrow> key \<Rightarrow> string" where
  "vk_hashed_key sha256 prefix policyID k =
     prefix @ '':{'' @ hex_EncodeToString (sha256 (state_key policyID k)) @ ''}''"

definition vk_key :: "(string \<Rightarrow> string) \<Rightarrow> 'w vkStore \<Rightarrow> request \<Rightarrow> string" where
  "vk_key sha256 st r = vk_hashed_key sha256 (vo_Prefix (vs_options st)) (p_id (r_Policy r)) (r_Key r)"

definition algorithm_text :: "algorithm \<Rightarrow> string" where
  "algorithm_text alg =
     (case alg of TokenBucket \<Rightarrow> ''token_bucket'' | FixedWindow \<Rightarrow> ''fixed_window''
      | SlidingWindow \<Rightarrow> ''sliding_window'' | Concurrency \<Rightarrow> ''concurrency'' | UnknownAlgorithm s \<Rightarrow> s)"

definition clock_flag :: "vkClockPolicy \<Rightarrow> string" where
  "clock_flag c = (if c = VkServerClock then ''1'' else ''0'')"

definition vk_args :: "'w vkStore \<Rightarrow> request \<Rightarrow> string list" where
  "vk_args st r =
     (let p = r_Policy r; ttl = max (i64 (p_period p * 2)) Second in
      [''1'', algorithm_text (p_algorithm p), p_id p, p_revision p, FormatUint (p_capacity p), FormatUint (p_burst p),
       FormatInt (Microseconds (p_period p)), FormatUint (r_Cost r), FormatInt (UnixMicro (r_Now r)),
       clock_flag (vo_Clock (vs_options st)), FormatInt (Milliseconds ttl)])"

definition corrupt_reply :: "string \<Rightarrow> decision \<times> go_error option" where
  "corrupt_reply what = (zero_Decision, Some (Wrapped what ErrCorrupt))"

definition decodeDecision :: "string list \<Rightarrow> decision \<times> go_error option" where
  "decodeDecision reply =
     (if length reply \<noteq> 6 then corrupt_reply ''decision field count''
      else if reply ! 0 = ''-1''
      then (zero_Decision, Some (if reply ! 5 = ''overflow'' then ErrOverflow else ErrCorrupt))
      else case ParseBool (reply ! 0) of
        None \<Rightarrow> corrupt_reply ''allowed''
      | Some allowed \<Rightarrow>
      case ParseUint (reply ! 1) of
        None \<Rightarrow> corrupt_reply ''remaining''
      | Some remaining \<Rightarrow>
      case ParseUint (reply ! 2) of
        None \<Rightarrow> corrupt_reply ''limit''
      | Some limit \<Rightarrow>
      case ParseInt (reply ! 3) of
        None \<Rightarrow> corrupt_reply ''reset''
      | Some resetMicros \<Rightarrow>
      case ParseInt (reply ! 4) of
        None \<Rightarrow> corrupt_reply ''retry-after''
      | Some retryMicros \<Rightarrow>
        if retryMicros < 0 then corrupt_reply ''retry-after''
        else if reply ! 5 \<noteq> ReasonAllowed \<and> reply ! 5 \<noteq> ReasonLimited then corrupt_reply ''reason''
        else let d = zero_Decision\<lparr>d_Allowed := allowed, d_Remaining := remaining, d_Limit := limit,
                       d_Reset := time_UnixMicro resetMicros, d_RetryAfter := i64 (retryMicros * Microsecond),
                       d_Reason := reply ! 5\<rparr>
        in (d, if allowed then None else Some ErrRejected))"

section \<open>Released operations\<close>

text \<open>
  \<open>executor\<close> is the executor of the store; on a store without one, which no
  constructor returns, the released methods panic.
\<close>

definition transport_error :: "'w ctx \<Rightarrow> go_error \<Rightarrow> 'w \<Rightarrow> go_error \<times> 'w" where
  "transport_error ctx err w =
     (let (c, w1) = ctx w in
      (if Is c ContextDeadlineExceeded \<or> errors_Is err ContextDeadlineExceeded then ErrDeadline else ErrUnavailable, w1))"

definition vkStore_Admit ::
  "(string \<Rightarrow> string) \<Rightarrow> ('w ctx \<Rightarrow> duration \<Rightarrow> 'w ctx) \<Rightarrow> 'w vkExecutor \<Rightarrow> 'w vkStore \<Rightarrow> 'w ctx \<Rightarrow> request \<Rightarrow> 'w \<Rightarrow>
   decision \<times> go_error option \<times> 'w" where
  "vkStore_Admit sha256 withTimeout executor st ctx r w =
     (case Request_Validate r of
        Some err \<Rightarrow> (zero_Decision, Some err, w)
      | None \<Rightarrow>
        if p_algorithm (r_Policy r) = Concurrency then (zero_Decision, Some ErrUnsupported, w)
        else let callCtx = withTimeout ctx (vo_Timeout (vs_options st)) in
        case ex_exec executor callCtx [vk_key sha256 st r] (vk_args st r) w of
          (Inl err, w1) \<Rightarrow> let (e, w2) = transport_error callCtx err w1 in (zero_Decision, Some e, w2)
        | (Inr reply, w1) \<Rightarrow> let (d, err) = decodeDecision reply in (d, err, w1))"

definition vkLease :: "leaseRequest \<Rightarrow> time \<Rightarrow> lease" where
  "vkLease lr expires =
     \<lparr>l_ID = lr_LeaseID lr, l_Key = r_Key (lr_Request lr), l_PolicyID = p_id (r_Policy (lr_Request lr)),
      l_PolicyRevision = p_revision (r_Policy (lr_Request lr)), l_Cost = r_Cost (lr_Request lr),
      l_ExpiresAt = expires, l_Backend = ''valkey''\<rparr>"

definition decodeLeaseReply :: "string list \<Rightarrow> leaseRequest \<Rightarrow> lease \<times> decision \<times> go_error option" where
  "decodeLeaseReply reply lr =
     (if length reply \<noteq> 7 then (zero_Lease, zero_Decision, Some ErrCorrupt)
      else if reply ! 5 = ''not_owned'' then (zero_Lease, zero_Decision, Some ErrLeaseNotOwned)
      else let (d, err) = decodeDecision (take 6 reply) in
      case ParseInt (reply ! 6) of
        None \<Rightarrow> (zero_Lease, zero_Decision, Some ErrCorrupt)
      | Some expiresMicros \<Rightarrow> (vkLease lr (time_UnixMicro expiresMicros), d, err))"

text \<open>The arguments of an acquisition, with the retention in milliseconds.\<close>

definition vk_lease_args :: "(string \<Rightarrow> string) \<Rightarrow> 'w vkStore \<Rightarrow> leaseRequest \<Rightarrow> duration \<Rightarrow> string list" where
  "vk_lease_args sha256 st lr ttl =
     (let r = lr_Request lr; p = r_Policy r in
      [''1'', p_id p, p_revision p, FormatUint (Limit p), FormatUint (r_Cost r), FormatInt (UnixMicro (r_Now r)),
       FormatInt (Microseconds (p_lease p)), FormatInt (Milliseconds ttl), clock_flag (vo_Clock (vs_options st)),
       hex_EncodeToString (sha256 (lr_LeaseID lr))])"

definition vkStore_Acquire ::
  "(string \<Rightarrow> string) \<Rightarrow> ('w ctx \<Rightarrow> duration \<Rightarrow> 'w ctx) \<Rightarrow> 'w vkExecutor \<Rightarrow> 'w vkStore \<Rightarrow> 'w ctx \<Rightarrow> leaseRequest \<Rightarrow> 'w \<Rightarrow>
   lease \<times> decision \<times> go_error option \<times> 'w" where
  "vkStore_Acquire sha256 withTimeout executor st ctx lr w =
     (case LeaseRequest_Validate lr of
        Some err \<Rightarrow> (zero_Lease, zero_Decision, Some err, w)
      | None \<Rightarrow>
        (case ex_lease executor of
           None \<Rightarrow> (zero_Lease, zero_Decision, Some ErrUnsupported, w)
         | Some le \<Rightarrow>
           let callCtx = withTimeout ctx (vo_Timeout (vs_options st));
               ttl = max (i64 (p_lease (r_Policy (lr_Request lr)) * 2)) Second
           in case le_acquire le callCtx [vk_key sha256 st (lr_Request lr)] (vk_lease_args sha256 st lr ttl) w of
             (Inl err, w1) \<Rightarrow> let (e, w2) = transport_error callCtx err w1 in (zero_Lease, zero_Decision, Some e, w2)
           | (Inr reply, w1) \<Rightarrow> let (l, d, err) = decodeLeaseReply reply lr in (l, d, err, w1)))"

definition vk_release_args :: "(string \<Rightarrow> string) \<Rightarrow> lease \<Rightarrow> string list" where
  "vk_release_args sha256 l =
     [''1'', l_PolicyID l, hex_EncodeToString (sha256 (l_ID l)), FormatUint (l_Cost l),
      FormatInt (UnixMicro (l_ExpiresAt l))]"

definition vkStore_Release ::
  "(string \<Rightarrow> string) \<Rightarrow> ('w ctx \<Rightarrow> duration \<Rightarrow> 'w ctx) \<Rightarrow> 'w vkExecutor \<Rightarrow> 'w vkStore \<Rightarrow> 'w ctx \<Rightarrow> lease \<Rightarrow> 'w \<Rightarrow>
   go_error option \<times> 'w" where
  "vkStore_Release sha256 withTimeout executor st ctx l w =
     (if l_ID l = '''' then (Some ErrInvalidRequest, w)
      else if l_PolicyID l = '''' then (Some ErrInvalidRequest, w)
      else if key_String (l_Key l) = '''' then (Some ErrInvalidRequest, w)
      else if l_Cost l = 0 then (Some ErrInvalidRequest, w)
      else case ex_lease executor of
        None \<Rightarrow> (Some ErrUnsupported, w)
      | Some le \<Rightarrow>
        let callCtx = withTimeout ctx (vo_Timeout (vs_options st));
            key = vk_hashed_key sha256 (vo_Prefix (vs_options st)) (l_PolicyID l) (l_Key l)
        in case le_release le callCtx [key] (vk_release_args sha256 l) w of
          (Inl err, w1) \<Rightarrow> let (e, w2) = transport_error callCtx err w1 in (Some e, w2)
        | (Inr reply, w1) \<Rightarrow>
          (if length reply \<noteq> 1 then Some ErrCorrupt
           else if reply ! 0 = ''ok'' then None
           else if reply ! 0 = ''not_found'' then Some ErrLeaseNotFound
           else if reply ! 0 = ''not_owned'' then Some ErrLeaseNotOwned
           else Some ErrCorrupt, w1))"

section \<open>The native executor\<close>

datatype vkScript = AdmitScript bool | AcquireScript bool | ReleaseScript bool

text \<open>A message of the reply is its text or the error \<open>ToString\<close> gives.\<close>

record 'w vkClient =
  vc_Exec :: "vkScript \<Rightarrow> 'w ctx \<Rightarrow> string list \<Rightarrow> string list \<Rightarrow> 'w \<Rightarrow> (go_error + (go_error + string) list) \<times> 'w"
  vc_Info :: "'w ctx \<Rightarrow> 'w \<Rightarrow> (go_error + string) \<times> 'w"
  vc_Config :: "'w ctx \<Rightarrow> 'w \<Rightarrow> (go_error + (string \<times> string) list) \<times> 'w"

fun decodeScriptMessages :: "(go_error + string) list \<Rightarrow> go_error + string list" where
  "decodeScriptMessages [] = Inr []"
| "decodeScriptMessages (m # ms) =
     (case m of
        Inl err \<Rightarrow> Inl err
      | Inr value \<Rightarrow> (case decodeScriptMessages ms of Inl err \<Rightarrow> Inl err | Inr values \<Rightarrow> Inr (value # values)))"

definition executeScript ::
  "'w vkClient \<Rightarrow> vkScript \<Rightarrow> 'w ctx \<Rightarrow> string list \<Rightarrow> string list \<Rightarrow> 'w \<Rightarrow> (go_error + string list) \<times> 'w" where
  "executeScript client script ctx ks args w =
     (case vc_Exec client script ctx ks args w of
        (Inl err, w1) \<Rightarrow> (Inl err, w1)
      | (Inr messages, w1) \<Rightarrow> (decodeScriptMessages messages, w1))"

definition native_exec ::
  "'w vkClient \<Rightarrow> 'w ctx \<Rightarrow> string list \<Rightarrow> string list \<Rightarrow> 'w \<Rightarrow> (go_error + string list) \<times> 'w" where
  "native_exec client ctx ks args w =
     executeScript client (AdmitScript (length args = 12 \<and> args ! 11 = ''strict'')) ctx ks args w"

definition native_acquire ::
  "'w vkClient \<Rightarrow> 'w ctx \<Rightarrow> string list \<Rightarrow> string list \<Rightarrow> 'w \<Rightarrow> (go_error + string list) \<times> 'w" where
  "native_acquire client ctx ks args w =
     executeScript client (AcquireScript (length args = 11 \<and> args ! 10 = ''strict'')) ctx ks args w"

definition native_release ::
  "'w vkClient \<Rightarrow> 'w ctx \<Rightarrow> string list \<Rightarrow> string list \<Rightarrow> 'w \<Rightarrow> (go_error + string list) \<times> 'w" where
  "native_release client ctx ks args w =
     executeScript client (ReleaseScript (length args = 6 \<and> args ! 5 = ''strict'')) ctx ks args w"

definition native_executor :: "'w vkClient \<Rightarrow> 'w vkExecutor" where
  "native_executor client =
     \<lparr>ex_exec = native_exec client,
      ex_lease = Some \<lparr>le_acquire = native_acquire client, le_release = native_release client\<rparr>,
      ex_native = Some \<lparr>sc_info = vc_Info client, sc_config = vc_Config client\<rparr>\<rparr>"

definition vk_New :: "'w vkClient option \<Rightarrow> vkOptions \<Rightarrow> go_error + 'w vkStore" where
  "vk_New client options =
     (case client of
        None \<Rightarrow> Inl (Wrapped ''native Valkey client is required'' ErrInvalidPolicy)
      | Some c \<Rightarrow> vk_newStore (Some (native_executor c)) options)"

fun valkeyMajor_lines :: "string list \<Rightarrow> int option" where
  "valkeyMajor_lines [] = None"
| "valkeyMajor_lines (line # rest) =
     (let text = TrimSpace line; prefix = ''valkey_version:'' in
      if take (length prefix) text \<noteq> prefix then valkeyMajor_lines rest
      else ParseInt (takeWhile (\<lambda>c. c \<noteq> CHR ''.'') (drop (length prefix) text)))"

definition valkeyMajor :: "string \<Rightarrow> int option" where
  "valkeyMajor info = valkeyMajor_lines (split_at (CHR 0x0A) info)"

definition vk_Check :: "'w vkStore \<Rightarrow> 'w ctx \<Rightarrow> 'w \<Rightarrow> go_error option \<times> 'w" where
  "vk_Check st ctx w =
     (case Option.bind (vs_executor st) ex_native of
        None \<Rightarrow> (Some (Wrapped ''startup check requires native client'' ErrUnsupported), w)
      | Some native \<Rightarrow>
        (case sc_info native ctx w of
           (Inl err, w1) \<Rightarrow> (Some (Wrapped ''server info'' ErrUnavailable), w1)
         | (Inr info, w1) \<Rightarrow>
           (case valkeyMajor info of
              None \<Rightarrow> (Some (Wrapped ''Valkey 9 or newer required'' ErrUnavailable), w1)
            | Some major \<Rightarrow>
              if major < 9 then (Some (Wrapped ''Valkey 9 or newer required'' ErrUnavailable), w1)
              else (case sc_config native ctx w1 of
                      (Inl err, w2) \<Rightarrow> (Some (Wrapped ''eviction policy'' ErrUnavailable), w2)
                    | (Inr config, w2) \<Rightarrow>
                      if map_of config ''maxmemory-policy'' \<noteq> Some ''noeviction''
                      then (Some (Wrapped ''maxmemory-policy must be noeviction'' ErrUnavailable), w2)
                      else (None, w2)))))"

definition openChecked :: "'w ctx \<Rightarrow> (go_error + 'w vkStore) \<Rightarrow> 'w \<Rightarrow> (go_error + 'w vkStore) \<times> 'w" where
  "openChecked ctx constructed w =
     (case constructed of
        Inl err \<Rightarrow> (Inl err, w)
      | Inr st \<Rightarrow> (case vk_Check st ctx w of (Some err, w1) \<Rightarrow> (Inl err, w1) | (None, w1) \<Rightarrow> (Inr st, w1)))"

definition vk_Open :: "'w ctx \<Rightarrow> 'w vkClient option \<Rightarrow> vkOptions \<Rightarrow> 'w \<Rightarrow> (go_error + 'w vkStore) \<times> 'w" where
  "vk_Open ctx client options w = openChecked ctx (vk_New client options) w"

section \<open>Strict operations\<close>

definition valkeyStateTTL :: "duration \<Rightarrow> duration" where
  "valkeyStateTTL duration = (if duration > MaxInt64 div 2 then MaxInt64 else max (i64 (duration * 2)) Second)"

definition vk_strictReady :: "'w vkStore option \<Rightarrow> 'w ctx option \<Rightarrow> go_error + 'w vkStore \<times> 'w vkExecutor \<times> 'w ctx" where
  "vk_strictReady st ctx =
     (case st of
        None \<Rightarrow> Inl (Wrapped ''backend is nil or uninitialized'' ErrInvalidPolicy)
      | Some s \<Rightarrow>
        (case vs_executor s of
           None \<Rightarrow> Inl (Wrapped ''backend is nil or uninitialized'' ErrInvalidPolicy)
         | Some executor \<Rightarrow>
           (case ctx of None \<Rightarrow> Inl context_required | Some c \<Rightarrow> Inr (s, executor, c))))"

definition vk_strictContext :: "'w ctx \<Rightarrow> 'w \<Rightarrow> go_error option \<times> 'w" where
  "vk_strictContext ctx w =
     (let (e, w1) = ctx w in
      if e = Some ContextCanceled then (Some CanceledOutcome, w1)
      else let (e2, w2) = ctx w1 in
      (if e2 = Some ContextDeadlineExceeded then Some DeadlineOutcome else None, w2))"

definition strictValkeyCategory :: "go_error option \<Rightarrow> go_error option" where
  "strictValkeyCategory err =
     (case err of
        None \<Rightarrow> None
      | Some e \<Rightarrow>
        Some (if errors_Is e ErrRejected then ErrRejected
              else if errors_Is e ErrOverflow then ErrOverflow
              else if errors_Is e ErrCorrupt then ErrCorrupt
              else if errors_Is e ErrLeaseNotFound then ErrLeaseNotFound
              else if errors_Is e ErrLeaseNotOwned then ErrLeaseNotOwned
              else ErrCorrupt))"

definition unknown_decision :: "decision \<times> go_error option" where
  "unknown_decision = (zero_Decision, Some (UnknownOutcome None))"

definition decodeStrictDecisionReply :: "string list \<Rightarrow> decision \<times> go_error option" where
  "decodeStrictDecisionReply reply =
     (if length reply = 6 \<and> reply ! 0 = ''-1''
      then let (d, err) = decodeDecision reply in (d, strictValkeyCategory err)
      else if length reply \<noteq> 7 then unknown_decision
      else case ParseInt (reply ! 6) of
        None \<Rightarrow> unknown_decision
      | Some effectiveMicros \<Rightarrow>
        let (d, resultErr) = decodeDecision (take 6 reply) in
        if resultErr \<noteq> None \<and> \<not> Is resultErr ErrRejected then unknown_decision
        else if \<not> IsZero (d_Reset d) \<and> d_Reset d < time_UnixMicro effectiveMicros then unknown_decision
        else (d, strictValkeyCategory resultErr))"

definition vkStore_AdmitStrict ::
  "(string \<Rightarrow> string) \<Rightarrow> ('w ctx \<Rightarrow> duration \<Rightarrow> 'w ctx) \<Rightarrow> 'w vkStore option \<Rightarrow> 'w ctx option \<Rightarrow> request \<Rightarrow> 'w \<Rightarrow>
   decision \<times> go_error option \<times> 'w" where
  "vkStore_AdmitStrict sha256 withTimeout store ctx0 r w =
     (case vk_strictReady store ctx0 of
        Inl err \<Rightarrow> (zero_Decision, Some err, w)
      | Inr (st, executor, ctx) \<Rightarrow>
        (case Request_Validate r of
           Some err \<Rightarrow> (zero_Decision, Some err, w)
         | None \<Rightarrow>
           (case vk_strictContext ctx w of
              (Some err, w1) \<Rightarrow> (zero_Decision, Some err, w1)
            | (None, w1) \<Rightarrow>
              if p_algorithm (r_Policy r) = Concurrency then (zero_Decision, Some ErrUnsupported, w1)
              else let callCtx = withTimeout ctx (vo_Timeout (vs_options st));
                       args = (vk_args st r)[10 := FormatInt (Milliseconds (valkeyStateTTL (p_period (r_Policy r))))] @ [''strict'']
              in case ex_exec executor callCtx [vk_key sha256 st r] args w1 of
                (Inl err, w2) \<Rightarrow> let (c, w3) = callCtx w2 in (zero_Decision, Some (UnknownOutcome c), w3)
              | (Inr reply, w2) \<Rightarrow> let (d, err) = decodeStrictDecisionReply reply in (d, err, w2))))"

definition unknown_lease :: "lease \<times> decision \<times> go_error option" where
  "unknown_lease = (zero_Lease, zero_Decision, Some (UnknownOutcome None))"

definition decodeStrictLeaseReply :: "string list \<Rightarrow> leaseRequest \<Rightarrow> lease \<times> decision \<times> go_error option" where
  "decodeStrictLeaseReply reply lr =
     (if length reply = 7 \<and> reply ! 0 = ''-1''
      then if reply ! 5 = ''overflow'' then (zero_Lease, zero_Decision, Some ErrOverflow)
           else if reply ! 5 = ''not_found'' then (zero_Lease, zero_Decision, Some ErrLeaseNotFound)
           else if reply ! 5 = ''not_owned'' then (zero_Lease, zero_Decision, Some ErrLeaseNotOwned)
           else if reply ! 5 = ''corrupt'' then (zero_Lease, zero_Decision, Some ErrCorrupt)
           else unknown_lease
      else if length reply \<noteq> 8 then unknown_lease
      else case ParseInt (reply ! 7) of
        None \<Rightarrow> unknown_lease
      | Some effectiveMicros \<Rightarrow>
        let (l, d, resultErr) = decodeLeaseReply (take 7 reply) lr; effectiveTime = time_UnixMicro effectiveMicros in
        if resultErr \<noteq> None \<and> \<not> Is resultErr ErrRejected then unknown_lease
        else if \<not> IsZero (d_Reset d) \<and> d_Reset d < effectiveTime then unknown_lease
        else if Is resultErr ErrRejected then (zero_Lease, d, Some ErrRejected)
        else if \<not> IsZero (l_ExpiresAt l) \<and> (\<not> l_ExpiresAt l > effectiveTime \<or> l_ExpiresAt l \<noteq> d_Reset d)
        then unknown_lease
        else (l, d, strictValkeyCategory resultErr))"

definition vkStore_AcquireStrict ::
  "(string \<Rightarrow> string) \<Rightarrow> ('w ctx \<Rightarrow> duration \<Rightarrow> 'w ctx) \<Rightarrow> 'w vkStore option \<Rightarrow> 'w ctx option \<Rightarrow> leaseRequest \<Rightarrow> 'w \<Rightarrow>
   lease \<times> decision \<times> go_error option \<times> 'w" where
  "vkStore_AcquireStrict sha256 withTimeout store ctx0 lr w =
     (case vk_strictReady store ctx0 of
        Inl err \<Rightarrow> (zero_Lease, zero_Decision, Some err, w)
      | Inr (st, executor, ctx) \<Rightarrow>
        (case LeaseRequest_Validate lr of
           Some err \<Rightarrow> (zero_Lease, zero_Decision, Some err, w)
         | None \<Rightarrow>
           (case vk_strictContext ctx w of
              (Some err, w1) \<Rightarrow> (zero_Lease, zero_Decision, Some err, w1)
            | (None, w1) \<Rightarrow>
              (case ex_lease executor of
                 None \<Rightarrow> (zero_Lease, zero_Decision, Some ErrUnsupported, w1)
               | Some le \<Rightarrow>
                 let callCtx = withTimeout ctx (vo_Timeout (vs_options st));
                     args = vk_lease_args sha256 st lr (valkeyStateTTL (p_lease (r_Policy (lr_Request lr)))) @ [''strict'']
                 in case le_acquire le callCtx [vk_key sha256 st (lr_Request lr)] args w1 of
                   (Inl err, w2) \<Rightarrow> let (c, w3) = callCtx w2 in (zero_Lease, zero_Decision, Some (UnknownOutcome c), w3)
                 | (Inr reply, w2) \<Rightarrow> let (l, d, err) = decodeStrictLeaseReply reply lr in (l, d, err, w2)))))"

definition vkStore_ReleaseStrict ::
  "(string \<Rightarrow> string) \<Rightarrow> ('w ctx \<Rightarrow> duration \<Rightarrow> 'w ctx) \<Rightarrow> 'w vkStore option \<Rightarrow> 'w ctx option \<Rightarrow> lease \<Rightarrow> 'w \<Rightarrow>
   go_error option \<times> 'w" where
  "vkStore_ReleaseStrict sha256 withTimeout store ctx0 l w =
     (case vk_strictReady store ctx0 of
        Inl err \<Rightarrow> (Some err, w)
      | Inr (st, executor, ctx) \<Rightarrow>
        if l_ID l = '''' \<or> l_PolicyID l = '''' \<or> key_String (l_Key l) = '''' \<or> l_Cost l = 0 \<or> IsZero (l_ExpiresAt l)
        then (Some ErrInvalidRequest, w)
        else case vk_strictContext ctx w of
          (Some err, w1) \<Rightarrow> (Some err, w1)
        | (None, w1) \<Rightarrow>
          (case ex_lease executor of
             None \<Rightarrow> (Some ErrUnsupported, w1)
           | Some le \<Rightarrow>
             let callCtx = withTimeout ctx (vo_Timeout (vs_options st));
                 key = vk_hashed_key sha256 (vo_Prefix (vs_options st)) (l_PolicyID l) (l_Key l)
             in case le_release le callCtx [key] (vk_release_args sha256 l @ [''strict'']) w1 of
               (Inl err, w2) \<Rightarrow> let (c, w3) = callCtx w2 in (Some (UnknownOutcome c), w3)
             | (Inr reply, w2) \<Rightarrow>
               (if length reply \<noteq> 1 then Some (UnknownOutcome None)
                else if reply ! 0 = ''ok'' then None
                else if reply ! 0 = ''not_found'' then Some ErrLeaseNotFound
                else if reply ! 0 = ''not_owned'' then Some ErrLeaseNotOwned
                else if reply ! 0 = ''corrupt'' then Some ErrCorrupt
                else Some (UnknownOutcome None), w2)))"

definition strictValkeyPredispatchCategory :: "'w ctx \<Rightarrow> go_error \<Rightarrow> 'w \<Rightarrow> go_error \<times> 'w" where
  "strictValkeyPredispatchCategory ctx err w =
     (case vk_strictContext ctx w of
        (Some e, w1) \<Rightarrow> (e, w1)
      | (None, w1) \<Rightarrow>
        (if err = ContextCanceled then CanceledOutcome
         else if err = ContextDeadlineExceeded then DeadlineOutcome
         else case err of
             NilBackendError \<Rightarrow> ErrUnavailable
           | BackendError category \<Rightarrow> if category = None then ErrUnavailable else err
           | _ \<Rightarrow>
             if err \<in> {ErrRejected, ErrOverflow, ErrCorrupt, ErrUnsupported, ErrLeaseNotFound, ErrLeaseNotOwned} then err
             else ErrUnavailable, w1))"

definition vk_CheckStrict :: "'w vkStore option \<Rightarrow> 'w ctx option \<Rightarrow> 'w \<Rightarrow> go_error option \<times> 'w" where
  "vk_CheckStrict store ctx0 w =
     (case vk_strictReady store ctx0 of
        Inl err \<Rightarrow> (Some err, w)
      | Inr (st, executor, ctx) \<Rightarrow>
        (case vk_strictContext ctx w of
           (Some err, w1) \<Rightarrow> (Some err, w1)
         | (None, w1) \<Rightarrow>
           (case ex_native executor of
              None \<Rightarrow> (Some ErrUnsupported, w1)
            | Some native \<Rightarrow>
              (case sc_info native ctx w1 of
                 (Inl err, w2) \<Rightarrow> let (e, w3) = strictValkeyPredispatchCategory ctx err w2 in (Some e, w3)
               | (Inr info, w2) \<Rightarrow>
                 if (case valkeyMajor info of None \<Rightarrow> True | Some major \<Rightarrow> major < 9) then (Some ErrUnavailable, w2)
                 else (case sc_config native ctx w2 of
                         (Inl err, w3) \<Rightarrow> let (e, w4) = strictValkeyPredispatchCategory ctx err w3 in (Some e, w4)
                       | (Inr config, w3) \<Rightarrow>
                         (if map_of config ''maxmemory-policy'' \<noteq> Some ''noeviction'' then Some ErrUnavailable else None, w3))))))"

definition vk_NewStrict :: "'w vkClient option \<Rightarrow> vkOptions \<Rightarrow> go_error + 'w vkStore" where
  "vk_NewStrict client options =
     (if client = None then Inl (Wrapped ''Valkey client is required'' ErrInvalidPolicy) else vk_New client options)"

definition vk_OpenStrict ::
  "'w ctx option \<Rightarrow> 'w vkClient option \<Rightarrow> vkOptions \<Rightarrow> 'w \<Rightarrow> (go_error + 'w vkStore) \<times> 'w" where
  "vk_OpenStrict ctx client options w =
     (if ctx = None then (Inl context_required, w)
      else case vk_NewStrict client options of
        Inl err \<Rightarrow> (Inl err, w)
      | Inr st \<Rightarrow>
        (case vk_CheckStrict (Some st) ctx w of (Some err, w1) \<Rightarrow> (Inl err, w1) | (None, w1) \<Rightarrow> (Inr st, w1)))"

text \<open>The store as a backend of the strict service and of the compatibility service.\<close>

definition valkey_backend ::
  "(string \<Rightarrow> string) \<Rightarrow> ('w ctx \<Rightarrow> duration \<Rightarrow> 'w ctx) \<Rightarrow> 'w vkStore option \<Rightarrow> 'w strictBackend" where
  "valkey_backend sha256 withTimeout store =
     \<lparr>sb_Name = ''valkey'',
      sb_AdmitStrict = (\<lambda>ctx r w. vkStore_AdmitStrict sha256 withTimeout store (Some ctx) r w),
      sb_Lease = Some \<lparr>slb_AcquireStrict = (\<lambda>ctx lr w. vkStore_AcquireStrict sha256 withTimeout store (Some ctx) lr w),
                       slb_ReleaseStrict = (\<lambda>ctx l w. vkStore_ReleaseStrict sha256 withTimeout store (Some ctx) l w)\<rparr>,
      sb_Atomic = None\<rparr>"

end
