(* ===== verification/Valkey_Token.thy ===== *)
theory Valkey_Token
  imports Valkey_Store Token_Bucket
begin

text \<open>
  The arithmetic of the strict scripts is exact. Lua computes with doubles; under a
  policy that \<open>NewPolicy\<close> accepts every number a strict script computes before it
  announces a reset time is an integer of at most 53 bits, so rounding changes
  nothing, and the token bucket of the script meets the contract of theory
  \<open>Token_Bucket\<close>.
\<close>

section \<open>Lua arithmetic on exact integers\<close>

abbreviation (input) exact :: "int \<Rightarrow> bool" where
  "exact n \<equiv> \<bar>n\<bar> \<le> 9007199254740992"

named_theorems lua_exact \<open>Lua operations on integers that stay exact\<close>

lemma lua_add_int [lua_exact]: "exact (a + b) \<Longrightarrow> lua_add (of_int a) (of_int b) = of_int (a + b)"
  by (simp add: lua_add_def fl_int flip: of_int_add)

lemma lua_sub_int [lua_exact]: "exact (a - b) \<Longrightarrow> lua_sub (of_int a) (of_int b) = of_int (a - b)"
  by (simp add: lua_sub_def fl_int flip: of_int_diff)

lemma lua_mul_int [lua_exact]: "exact (a * b) \<Longrightarrow> lua_mul (of_int a) (of_int b) = of_int (a * b)"
  by (simp add: lua_mul_def fl_int flip: of_int_mult)

lemma lua_floor_div [lua_exact]: "exact a \<Longrightarrow> 0 < b \<Longrightarrow> lua_floor (lua_div (of_int a) (of_int b)) = of_int (a div b)"
  by (simp add: lua_floor_def lua_div_def fl_div_floor)

lemma lua_floor_int [simp]: "lua_floor (of_int a) = of_int a"
  by (simp add: lua_floor_def)

lemma lua_mod_int [lua_exact]:
  assumes "exact a" "0 \<le> a" "0 < b"
  shows "lua_mod (of_int a) (of_int b) = of_int (a mod b)"
proof -
  have q: "0 \<le> a div b" using assms by (simp add: pos_imp_zdiv_nonneg_iff)
  then have "0 \<le> a div b * b" using assms by simp
  moreover have "a div b * b \<le> a" by (rule div_mult_le [OF assms(3)])
  ultimately have r: "exact (a div b * b)" "exact (a - a div b * b)" using assms by linarith+
  show ?thesis
    unfolding lua_mod_def lua_floor_div [OF assms(1,3)] lua_mul_int [OF r(1)] lua_sub_int [OF r(2)] minus_div_mult_eq_mod ..
qed

lemma max_exact_int: "max_exact = of_int 9007199254740991"
  by (simp add: max_exact_def)

lemma integer_text_int [simp]: "integer_text (of_int n) = FormatInt n"
  by (simp add: integer_text_def)

text \<open>Rounding an integer gives an integer, of about the same size.\<close>

lemma fl_bound: "\<bar>fl x\<bar> \<le> 2 * \<bar>x\<bar>"
proof (cases "x = 0")
  case False
  have "(2 :: rat) powi (binexp x - 52) \<le> 2 powi (binexp x)" by (intro power_int_increasing) simp_all
  then have "(2 :: rat) powi (binexp x - 52) / 2 \<le> \<bar>x\<bar>" using binexp_bounds(1) [OF False] by simp
  then show ?thesis using fl_error [OF False] by linarith
qed (simp add: fl_def)

lemma fl_of_int: "\<exists>m. fl (of_int n) = of_int m"
proof (cases "exact n")
  case True
  then show ?thesis using fl_int by blast
next
  case False
  let ?x = "of_int n :: rat"
  have n0: "?x \<noteq> 0" using False by auto
  have "52 \<le> binexp ?x"
  proof (rule ccontr)
    assume "\<not> ?thesis"
    then have "(2 :: rat) powi (binexp ?x + 1) \<le> 2 powi 52" by (intro power_int_increasing) simp_all
    then have "\<bar>?x\<bar> < of_int 4503599627370496" using binexp_bounds(2) [OF n0] by simp
    then have "\<bar>n\<bar> < 4503599627370496" unfolding of_int_abs [symmetric] of_int_less_iff .
    then show False using False by linarith
  qed
  then have "(2 :: rat) powi (binexp ?x - 52) = of_int (2 ^ nat (binexp ?x - 52))"
    by (simp add: power_int_def)
  then show ?thesis using n0 by (simp add: fl_def Let_def) (metis of_int_mult of_int_power of_int_numeral)
qed

lemma fl_of_int_ge: "m \<le> n \<Longrightarrow> exact m \<Longrightarrow> of_int m \<le> fl (of_int n)"
  by (rule fl_ge) (simp_all only: of_int_le_iff)

lemma lua_add_ge: "exact a \<Longrightarrow> 0 \<le> b \<Longrightarrow> of_int a \<le> lua_add (of_int a) (of_int b)"
  unfolding lua_add_def by (rule fl_ge) simp_all

section \<open>Numbers in texts\<close>

lemma digit_not_minus: "all_digits s \<Longrightarrow> hd s \<noteq> CHR ''-''"
  by (cases s) (auto simp: all_digits_def in_range_def)

lemma decimal_FormatInt [simp]: "decimal_int (FormatInt n)" "decimal_value (FormatInt n) = n"
  using digit_not_minus [OF all_digits_decimal [of "nat n"]] decimal_digits_hd(2) [of "nat n"]
  by (auto simp: decimal_int_def decimal_value_def FormatInt_def)

lemma tonumber_FormatInt: "exact n \<Longrightarrow> tonumber strtod (Some (FormatInt n)) = Some (of_int n)"
  by (simp add: tonumber_def fl_int)

lemma FormatUint_Int: "FormatUint u = FormatInt (int (unat u))"
  by (simp add: FormatUint_def FormatInt_def)

lemma not_exact_int: "\<not> not_exact x \<Longrightarrow> \<exists>n. x = of_int n \<and> \<bar>n\<bar> \<le> 9007199254740991"
proof -
  assume e: "\<not> not_exact x"
  then have x: "x = of_int \<lfloor>x\<rfloor>" by (simp add: not_exact_def lua_floor_def)
  have "of_int (- 9007199254740991) \<le> (of_int \<lfloor>x\<rfloor> :: rat)" "(of_int \<lfloor>x\<rfloor> :: rat) \<le> of_int 9007199254740991"
    using e x by (simp_all add: not_exact_def max_exact_def)
  then have "\<bar>\<lfloor>x\<rfloor>\<bar> \<le> 9007199254740991" unfolding of_int_le_iff by linarith
  then show ?thesis using x by blast
qed

lemma not_exact_unsigned_int:
  "\<not> not_exact_unsigned x \<Longrightarrow> \<exists>n. x = of_int n \<and> 0 \<le> n \<and> n \<le> 9007199254740991"
proof -
  assume e: "\<not> not_exact_unsigned x"
  then have "\<not> not_exact x" "0 \<le> x" by (simp_all add: not_exact_def not_exact_unsigned_def max_exact_def)
  then show ?thesis using not_exact_int by force
qed

section \<open>The token bucket\<close>

text \<open>The arguments of a strict admission under a policy.\<close>

definition policy_args :: "policy \<Rightarrow> int \<Rightarrow> int \<Rightarrow> bool \<Rightarrow> int \<Rightarrow> admitArgs" where
  "policy_args p cost now server_clock ttl =
     \<lparr>aa_schema = ''1'', aa_algorithm = algorithm_text (p_algorithm p), aa_policy_id = p_id p, aa_revision = p_revision p,
      aa_capacity = of_int (int (unat (p_capacity p))), aa_burst = of_int (int (unat (p_burst p))),
      aa_period = of_int (int (period_us p)), aa_cost = of_int cost, aa_now = of_int now,
      aa_server_clock = server_clock, aa_ttl = fl (of_int ttl)\<rparr>"

lemma policy_args_limit:
  assumes "policy_wf p"
  shows "aa_limit (policy_args p cost now server_clock ttl) = of_int (int (unat (Limit p)))"
proof -
  have "unat (p_capacity p) + unat (p_burst p) \<le> 9007199254740991" using assms by (simp add: policy_wf_def)
  then have "exact (int (unat (p_capacity p)) + int (unat (p_burst p)))" by linarith
  then show ?thesis
    unfolding aa_limit_def policy_args_def admitArgs.simps policy_wf_Limit [OF assms] of_nat_add by (rule lua_add_int)
qed

text \<open>The numbers of a policy that bound the arithmetic.\<close>

definition policy_numbers :: "int \<Rightarrow> int \<Rightarrow> int \<Rightarrow> admitArgs \<Rightarrow> bool" where
  "policy_numbers C L P a \<longleftrightarrow> 1 \<le> C \<and> C \<le> L \<and> 1 \<le> P \<and> L * P \<le> 9007199254740991 \<and>
     aa_capacity a = of_int C \<and> aa_limit a = of_int L \<and> aa_period a = of_int P"

lemma policy_numbersD:
  assumes "policy_numbers C L P a"
  shows "1 \<le> C" "C \<le> L" "1 \<le> P" "L * P \<le> 9007199254740991"
    "aa_capacity a = of_int C" "aa_limit a = of_int L" "aa_period a = of_int P"
  using assms by (simp_all add: policy_numbers_def)

lemma numbers_bounds:
  assumes pn: "policy_numbers C L P a"
  shows "L \<le> 9007199254740991" "P \<le> 9007199254740991" "C \<le> 9007199254740991" "1 \<le> L"
proof -
  note C = policy_numbersD(1,2) [OF pn] and P = policy_numbersD(3) [OF pn] and LP = policy_numbersD(4) [OF pn]
  have "L * 1 \<le> L * P" using C P by (intro mult_left_mono) linarith+
  then show "L \<le> 9007199254740991" using LP by linarith
  then show "C \<le> 9007199254740991" using C by linarith
  have "1 * P \<le> L * P" using C P by (intro mult_right_mono) linarith+
  then show "P \<le> 9007199254740991" using LP by linarith
  show "1 \<le> L" using C by linarith
qed

lemma part_bounds:
  "policy_numbers C L P a \<Longrightarrow> 0 \<le> x \<Longrightarrow> x \<le> L \<Longrightarrow> 0 \<le> x * P \<and> x * P \<le> 9007199254740991"
  using mult_right_mono [of x L P] mult_nonneg_nonneg [of x P] policy_numbersD(3,4) [of C L P a] by linarith

text \<open>
  Refilling is exact: when the test against overflow says the bucket is full it
  would have filled, and otherwise every intermediate number is exact.
\<close>

lemma refill_exact:
  assumes pn: "policy_numbers C L P a" and t: "0 \<le> t" "t \<le> L" and r: "0 \<le> r" "r < P" and now: "prior \<le> now" "exact now" "exact prior"
  shows "\<exists>t' r'. lua_refill a (of_int now) (of_int t) (of_int r) (of_int prior) = (of_int t', of_int r') \<and>
    0 \<le> t' \<and> t' \<le> L \<and> 0 \<le> r' \<and> r' < P \<and> (t = L \<and> t' = t \<and> r' = r \<or>
      t < L \<and> (t' = L \<longrightarrow> r' = 0) \<and> t' * P + r' = min (L * P) (t * P + r + C * (now - prior)))"
proof -
  note C = policy_numbersD(1,2) [OF pn] and P = policy_numbersD(3) [OF pn] and LP = policy_numbersD(4) [OF pn]
    and args = policy_numbersD(5-7) [OF pn] and bounds = numbers_bounds [OF pn]
  let ?M = "9007199254740991 :: int"
  obtain e where e: "lua_sub (of_int now) (of_int prior) = of_int e"
    using fl_of_int [of "now - prior"] by (auto simp: lua_sub_def)
  have small: "e = now - prior \<or> ?M < e \<and> ?M < now - prior"
  proof (cases "exact (now - prior)")
    case True
    then show ?thesis using e lua_sub_int [OF True] by simp
  next
    case False
    then have big: "9007199254740992 \<le> now - prior" using now by linarith
    then have "of_int 9007199254740992 \<le> fl (of_int (now - prior))" by (rule fl_of_int_ge) simp
    then have "(of_int 9007199254740992 :: rat) \<le> of_int e" using e by (simp only: lua_sub_def of_int_diff)
    then show ?thesis using big unfolding of_int_le_iff by linarith
  qed
  then have e0: "0 \<le> e" using now by linarith
  have el: "max 0 (lua_sub (of_int now) (of_int prior)) = of_int e" using e e0 by simp
  define q where "q = (?M - r) div C"
  have Mr: "exact (?M - r)" "0 \<le> ?M - r" using r bounds(2) by linarith+
  have q: "lua_floor (lua_div (lua_sub max_exact (of_int r)) (of_int C)) = of_int q"
    unfolding max_exact_int lua_sub_int [OF Mr(1)] q_def using C Mr by (intro lua_floor_div) linarith+
  note unfold = lua_refill_def Let_def el args q of_int_less_iff of_int_0_less_iff
  show ?thesis
  proof (cases "0 < e \<and> t < L")
    case False
    then have *: "lua_refill a (of_int now) (of_int t) (of_int r) (of_int prior) = (of_int t, of_int r)"
      unfolding unfold by (rule if_not_P)
    show ?thesis
    proof (cases "t < L")
      case True
      then have "now = prior" using False e0 small now by linarith
      moreover have "(t + 1) * P \<le> L * P" using True P by (intro mult_right_mono) linarith+
      ultimately show ?thesis using * True t r by (auto simp: distrib_right)
    qed (use * t r in auto)
  next
    case True
    show ?thesis
    proof (cases "q < e")
      case sat: True
      have "L * P \<le> r + C * (now - prior)"
      proof (cases "e = now - prior")
        case True
        have "?M - r < (q + 1) * C" unfolding q_def using C by (intro div_mult_less) linarith
        also have "\<dots> \<le> e * C" using sat C by (intro mult_right_mono) linarith+
        finally show ?thesis using LP True by (simp add: mult.commute)
      next
        case False
        then have "1 * ?M \<le> C * (now - prior)" using small C by (intro mult_mono) linarith+
        then show ?thesis using LP r by linarith
      qed
      moreover have "0 \<le> t * P" using t P by simp
      moreover have "lua_refill a (of_int now) (of_int t) (of_int r) (of_int prior) = (of_int L, of_int 0)"
        unfolding unfold using True sat by simp
      ultimately show ?thesis using True C P bounds(4) by force
    next
      case False
      have qC: "q * C \<le> ?M - r" unfolding q_def using C by (intro div_mult_le) linarith
      moreover have "e * C \<le> q * C" using False C by (intro mult_right_mono) linarith+
      moreover have "0 \<le> e * C" using e0 C by simp
      ultimately have num: "e * C + r \<le> ?M" "0 \<le> e * C + r" "exact (e * C)" "exact (e * C + r)" using r by linarith+
      define ad rm where "ad = (e * C + r) div P" and "rm = (e * C + r) mod P"
      have split: "e * C + r = ad * P + rm" "0 \<le> rm" "rm < P" "0 \<le> ad"
        using P num by (simp_all add: ad_def rm_def pos_imp_zdiv_nonneg_iff)
      have d: "e = now - prior"
      proof -
        have "e * 1 \<le> e * C" using e0 C by (intro mult_left_mono) linarith+
        then show ?thesis using small num r by linarith
      qed
      have tok: "min (of_int L) (lua_add (of_int t) (of_int ad)) = of_int (min L (t + ad))"
      proof (cases "exact (t + ad)")
        case True
        then show ?thesis by (simp add: lua_add_int min_def)
      next
        case big: False
        then have "9007199254740992 \<le> t + ad" using t split by linarith
        then have "of_int 9007199254740992 \<le> fl (of_int (t + ad))" by (rule fl_of_int_ge) simp
        moreover have "(of_int L :: rat) \<le> of_int 9007199254740992" using bounds unfolding of_int_le_iff by linarith
        ultimately have "(of_int L :: rat) \<le> lua_add (of_int t) (of_int ad)" by (simp only: lua_add_def of_int_add order_trans)
        then show ?thesis using big t split bounds by (simp add: min_def)
      qed
      have add: "lua_floor (lua_div (of_int (e * C + r)) (of_int P)) = of_int ad"
        "lua_mod (of_int (e * C + r)) (of_int P) = of_int rm"
        unfolding ad_def rm_def using P by (intro lua_floor_div lua_mod_int num, linarith)+
      have *: "lua_refill a (of_int now) (of_int t) (of_int r) (of_int prior) =
          (of_int (min L (t + ad)), of_int (if L \<le> t + ad then 0 else rm))"
        unfolding unfold lua_mul_int [OF num(3)] lua_add_int [OF num(4)] add tok using True False by (auto simp: min_def)
      have total: "t * P + r + C * (now - prior) = (t + ad) * P + rm"
        using split d by (simp add: algebra_simps)
      show ?thesis
      proof (cases "L \<le> t + ad")
        case full: True
        then have "L * P \<le> (t + ad) * P" using P by (intro mult_right_mono) linarith+
        then have "min (L * P) ((t + ad) * P + rm) = L * P" using split by linarith
        then show ?thesis using * full True P bounds(4) unfolding total by auto
      next
        case part: False
        then have "(t + ad + 1) * P \<le> L * P" using P by (intro mult_right_mono) linarith+
        then have "(t + ad) * P + rm \<le> L * P" using split by (simp add: distrib_right)
        then show ?thesis using * part True split t unfolding total by auto
      qed
    qed
  qed
qed

lemma ceiling_exact:
  assumes pn: "policy_numbers C L P a" and "\<bar>v\<bar> \<le> 9007199254740991"
  shows "lua_ceiling True (of_int v) (aa_capacity a) = of_int ((v - 1) div C + 1)"
    "(v - 1) div C + 1 \<le> 9007199254740991" "0 < v \<Longrightarrow> 0 \<le> (v - 1) div C + 1"
proof -
  note C = policy_numbersD(1,2) [OF pn] and P = policy_numbersD(3) [OF pn] and LP = policy_numbersD(4) [OF pn]
    and args = policy_numbersD(5-7) [OF pn] and bounds = numbers_bounds [OF pn]
  have c: "0 < C" using C by linarith
  have v: "exact (v - 1)" using assms(2) by linarith
  have q: "\<bar>(v - 1) div C\<bar> \<le> \<bar>v - 1\<bar>" by (rule abs_div_le [OF c])
  have up: "(v - 1) div C + 1 \<le> 9007199254740991"
  proof (cases "0 < v")
    case False
    then have "(v - 1) div C < 0" using c by (intro div_neg_pos_less0) linarith+
    then show ?thesis by linarith
  qed (use q assms(2) in linarith)
  then have e: "exact ((v - 1) div C + 1)" using q assms(2) by linarith
  have "lua_ceiling True (of_int v) (of_int C) = lua_add (lua_floor (lua_div (lua_sub (of_int v) (of_int 1)) (of_int C))) (of_int 1)"
    by (simp add: lua_ceiling_def)
  also have "\<dots> = of_int ((v - 1) div C + 1)"
    unfolding lua_sub_int [OF v] lua_floor_div [OF v c] lua_add_int [OF e] ..
  finally show "lua_ceiling True (of_int v) (aa_capacity a) = of_int ((v - 1) div C + 1)" by (simp only: args)
  show "(v - 1) div C + 1 \<le> 9007199254740991" by (rule up)
  show "0 < v \<Longrightarrow> 0 \<le> (v - 1) div C + 1"
  proof -
    assume "0 < v"
    then have "0 \<le> (v - 1) div C" using c by (simp add: pos_imp_zdiv_nonneg_iff)
    then show ?thesis by linarith
  qed
qed

text \<open>The time to gather \<open>x\<close> tokens, less a fraction, is exact as well.\<close>

lemma need_exact:
  assumes pn: "policy_numbers C L P a" and "0 \<le> x" "x \<le> L" "0 \<le> r" "r < P"
  shows "lua_sub (lua_mul (of_int x) (aa_period a)) (of_int r) = of_int (x * P - r)" "\<bar>x * P - r\<bar> \<le> 9007199254740991"
    "0 < x \<Longrightarrow> 0 < x * P - r"
proof -
  note C = policy_numbersD(1,2) [OF pn] and P = policy_numbersD(3) [OF pn] and LP = policy_numbersD(4) [OF pn]
    and args = policy_numbersD(5-7) [OF pn] and bounds = numbers_bounds [OF pn]
  have x: "0 \<le> x * P \<and> x * P \<le> 9007199254740991" using assms part_bounds [OF pn] by blast
  then have e: "exact (x * P)" by linarith
  show b: "\<bar>x * P - r\<bar> \<le> 9007199254740991" using x assms bounds(2) by linarith
  then have e': "exact (x * P - r)" by linarith
  show "lua_sub (lua_mul (of_int x) (aa_period a)) (of_int r) = of_int (x * P - r)"
    unfolding args lua_mul_int [OF e] lua_sub_int [OF e'] ..
  show "0 < x \<Longrightarrow> 0 < x * P - r"
  proof -
    assume "0 < x"
    then have "1 * P \<le> x * P" using P by (intro mult_right_mono) linarith+
    then show ?thesis using assms by linarith
  qed
qed

text \<open>An announced instant may need more than 53 bits; it is rounded to an integer, not before now.\<close>

lemma announce:
  assumes "exact n" "0 \<le> k" "k \<le> 9007199254740991"
  shows "\<exists>m. lua_add (of_int n) (of_int k) = of_int m \<and> n \<le> m \<and> \<bar>m\<bar> \<le> 36028797018963968"
proof -
  obtain m where m: "fl (of_int (n + k)) = of_int m" using fl_of_int by blast
  then have "lua_add (of_int n) (of_int k) = of_int m" by (simp add: lua_add_def)
  moreover have "(of_int n :: rat) \<le> of_int m" unfolding m [symmetric] using assms by (intro fl_of_int_ge) linarith+
  moreover have "\<bar>m\<bar> \<le> 36028797018963968"
  proof -
    have "(of_int \<bar>m\<bar> :: rat) \<le> 2 * \<bar>of_int (n + k)\<bar>" using fl_bound [of "of_int (n + k)"] m by simp
    then have "(of_int \<bar>m\<bar> :: rat) \<le> of_int (2 * \<bar>n + k\<bar>)" by simp
    then have m: "\<bar>m\<bar> \<le> 2 * \<bar>n + k\<bar>" unfolding of_int_le_iff .
    have "\<bar>n + k\<bar> \<le> 18014398509481983" using assms by linarith
    then have "2 * \<bar>n + k\<bar> \<le> 2 * 18014398509481983" by (rule mult_left_mono) simp
    then show ?thesis using m by simp
  qed
  ultimately show ?thesis unfolding of_int_le_iff by blast
qed

lemma token_exact:
  assumes pn: "policy_numbers C L P a" and K: "1 \<le> K" "K \<le> L" "aa_cost a = of_int K"
    and t: "0 \<le> t" "t \<le> L" and r: "0 \<le> r" "r < P" and now: "prior \<le> now" "exact now" "exact prior"
  shows "\<exists>t1 t' r' reset retry.
    lua_refill a (of_int now) (of_int t) (of_int r) (of_int prior) = (of_int t1, of_int r') \<and>
    t' = (if K \<le> t1 then t1 - K else t1) \<and>
    lua_token True a (of_int now) cy (of_int t) (of_int r) (of_int prior) =
      (\<lparr>vd_allowed = (K \<le> t1), vd_remaining = of_int t', vd_reset = of_int reset, vd_retry = of_int retry,
        vd_carried = cy\<rparr>, of_int t', of_int r') \<and>
    0 \<le> t' \<and> t' \<le> (if K \<le> t1 then L - K else K - 1) \<and> now \<le> reset \<and> \<bar>reset\<bar> \<le> 36028797018963968 \<and>
    retry = (if K \<le> t1 then 0 else ((K - t1) * P - r' - 1) div C + 1) \<and> 0 \<le> retry \<and> retry \<le> 9007199254740991"
proof -
  note C = policy_numbersD(1,2) [OF pn] and P = policy_numbersD(3) [OF pn] and LP = policy_numbersD(4) [OF pn]
    and args = policy_numbersD(5-7) [OF pn] and bounds = numbers_bounds [OF pn]
  obtain t1 r' where f: "lua_refill a (of_int now) (of_int t) (of_int r) (of_int prior) = (of_int t1, of_int r')"
    and b: "0 \<le> t1" "t1 \<le> L" "0 \<le> r'" "r' < P" using refill_exact [OF pn t r now] by blast
  define t' where "t' = (if K \<le> t1 then t1 - K else t1)"
  have b': "0 \<le> t'" "t' \<le> L" "0 \<le> L - t'" "L - t' \<le> L" using b K by (auto simp: t'_def)
  have full: "lua_sub (of_int L) (of_int t') = of_int (L - t')" using b' bounds by (intro lua_sub_int) linarith
  note need = need_exact [OF pn b'(3,4) b(3,4)]
  note ceil = ceiling_exact [OF pn need(2)]
  obtain reset where reset: "lua_add (of_int now) (of_int (max 0 (((L - t') * P - r' - 1) div C + 1))) = of_int reset"
    "now \<le> reset" "\<bar>reset\<bar> \<le> 36028797018963968"
    using announce [OF now(2), of "max 0 (((L - t') * P - r' - 1) div C + 1)"] ceil(2) by auto
  have mx: "max 0 (of_int x :: rat) = of_int (max 0 x)" for x by (simp add: max_def)
  note unfold = lua_token_def Let_def f prod.case K(3) of_int_le_iff if_True if_False args(2) full need(1) ceil(1) mx reset(1)
  show ?thesis
  proof (cases "K \<le> t1")
    case True
    have "lua_sub (of_int t1) (of_int K) = of_int t'"
      using True b bounds K by (simp add: t'_def lua_sub_int)
    then have "lua_token True a (of_int now) cy (of_int t) (of_int r) (of_int prior) =
      (\<lparr>vd_allowed = (K \<le> t1), vd_remaining = of_int t', vd_reset = of_int reset, vd_retry = of_int 0,
        vd_carried = cy\<rparr>, of_int t', of_int r')"
      by (simp only: unfold True of_int_0)
    moreover have "t' \<le> L - K" using True b by (simp add: t'_def)
    ultimately show ?thesis
      using True f b' reset(2,3) t'_def
      by (intro exI [of _ t1] exI [of _ t'] exI [of _ r'] exI [of _ reset] exI [of _ 0] conjI) simp_all
  next
    case False
    have x: "0 \<le> K - t1" "K - t1 \<le> L" "0 < K - t1" using False K b by linarith+
    note need' = need_exact [OF pn x(1,2) b(3,4)]
    note ceil' = ceiling_exact [OF pn need'(2)]
    have sub: "lua_sub (of_int K) (of_int t1) = of_int (K - t1)" using x bounds by (intro lua_sub_int) linarith
    have t1: "t' = t1" using False by (simp add: t'_def)
    have "lua_token True a (of_int now) cy (of_int t) (of_int r) (of_int prior) =
      (\<lparr>vd_allowed = (K \<le> t1), vd_remaining = of_int t', vd_reset = of_int reset,
        vd_retry = of_int (((K - t1) * P - r' - 1) div C + 1), vd_carried = cy\<rparr>, of_int t', of_int r')"
      by (simp only: unfold [unfolded t1] False sub need'(1) ceil'(1) t1)
    then show ?thesis
      using False f b' reset(2,3) t1 ceil'(2) ceil'(3) [OF need'(3) [OF x(3)]] x(3)
      by (intro exI [of _ t1] exI [of _ t'] exI [of _ r'] exI [of _ reset] exI [of _ "((K - t1) * P - r' - 1) div C + 1"] conjI)
        simp_all
  qed
qed

section \<open>The contract\<close>

lemma numbers_of_policy:
  assumes "policy_wf p" "p_algorithm p \<noteq> Concurrency"
  shows "policy_numbers (int (unat (p_capacity p))) (int (unat (Limit p))) (int (period_us p)) (policy_args p cost now sc ttl)"
proof -
  note per = policy_wf_period [OF assms]
  have "int (unat (Limit p)) * int (period_us p) \<le> 9007199254740991"
    using per(4) by (metis of_nat_le_iff of_nat_mult of_nat_numeral)
  moreover have "1 \<le> int (unat (p_capacity p))" "int (unat (p_capacity p)) \<le> int (unat (Limit p))" "1 \<le> int (period_us p)"
    using per(2) policy_wf_capacity [OF assms(1)] by linarith+
  ultimately show ?thesis
    unfolding policy_numbers_def policy_args_limit [OF assms(1)] by (simp only: policy_args_def admitArgs.simps simp_thms)
qed

text \<open>
  A bucket as the hash keeps it: tokens and remainder as Lua numbers, and the instant
  they hold for. A step runs the token bucket of the strict script.
\<close>

type_synonym luaBucket = "rat \<times> rat \<times> int"

definition lua_step :: "policy \<Rightarrow> int \<Rightarrow> nat \<Rightarrow> luaBucket \<Rightarrow> bool \<times> luaBucket" where
  "lua_step p now cost b =
     (case b of (tokens, remainder, prior) \<Rightarrow>
        (case lua_token True (policy_args p (int cost) now False 0) (of_int now) False tokens remainder (of_int prior) of
           (v, tokens', remainder') \<Rightarrow> (vd_allowed v, tokens', remainder', now)))"

definition lua_bucket_inv :: "policy \<Rightarrow> luaBucket \<Rightarrow> bool" where
  "lua_bucket_inv p b \<longleftrightarrow>
     (case b of (tokens, remainder, prior) \<Rightarrow> token_policy p \<and> exact prior \<and>
        of_int \<lfloor>tokens\<rfloor> = tokens \<and> 0 \<le> \<lfloor>tokens\<rfloor> \<and> \<lfloor>tokens\<rfloor> \<le> int (pol_lim p) \<and>
        of_int \<lfloor>remainder\<rfloor> = remainder \<and> 0 \<le> \<lfloor>remainder\<rfloor> \<and> \<lfloor>remainder\<rfloor> < int (period_us p) \<and>
        (\<lfloor>tokens\<rfloor> = int (pol_lim p) \<longrightarrow> \<lfloor>remainder\<rfloor> = 0))"

definition lua_level :: "policy \<Rightarrow> luaBucket \<Rightarrow> nat" where
  "lua_level p b = (case b of (tokens, remainder, prior) \<Rightarrow> nat (\<lfloor>tokens\<rfloor> * int (period_us p) + \<lfloor>remainder\<rfloor>))"

lemma lua_bucketE:
  assumes "lua_bucket_inv p b"
  obtains x y prior where "b = (of_int x, of_int y, prior)" "token_policy p" "exact prior" "0 \<le> x" "x \<le> int (pol_lim p)"
    "0 \<le> y" "y < int (period_us p)" "x = int (pol_lim p) \<longrightarrow> y = 0" "int (lua_level p b) = x * int (period_us p) + y"
proof -
  obtain t r prior where b: "b = (t, r, prior)" by (cases b)
  show ?thesis
    using assms unfolding b lua_bucket_inv_def lua_level_def prod.case
    by (intro that [of "\<lfloor>t\<rfloor>" "\<lfloor>r\<rfloor>" prior]) (auto simp: b lua_level_def)
qed

lemma lua_bucketI:
  assumes "token_policy p" "exact prior" "0 \<le> x" "x \<le> int (pol_lim p)" "0 \<le> y" "y < int (period_us p)"
    "x = int (pol_lim p) \<longrightarrow> y = 0"
  shows "lua_bucket_inv p (of_int x, of_int y, prior)" "int (lua_level p (of_int x, of_int y, prior)) = x * int (period_us p) + y"
  using assms by (simp_all add: lua_bucket_inv_def lua_level_def)

text \<open>A whole number of tokens is in the bucket exactly when its level covers them.\<close>

lemma covers_int:
  fixes t K P y :: int
  assumes "0 \<le> y" "y < P"
  shows "K \<le> t \<longleftrightarrow> K * P \<le> t * P + y"
proof
  assume "K \<le> t"
  then have "K * P \<le> t * P" using assms by (intro mult_right_mono) linarith+
  then show "K * P \<le> t * P + y" using assms by linarith
next
  assume le: "K * P \<le> t * P + y"
  show "K \<le> t"
  proof (rule ccontr)
    assume "\<not> K \<le> t"
    then have "(t + 1) * P \<le> K * P" using assms by (intro mult_right_mono) linarith+
    then show False using le assms by (simp add: distrib_right)
  qed
qed

lemma lua_step_law:
  assumes inv: "lua_bucket_inv p b" and now: "exact now" "snd (snd b) \<le> now" and c: "0 < c" "c \<le> pol_lim p"
    and st: "lua_step p now c b = (ok, b')"
  defines "refilled \<equiv> min (int (pol_lim p) * int (period_us p)) (int (lua_level p b) + int (pol_cap p) * (now - snd (snd b)))"
  shows "lua_bucket_inv p b'" "snd (snd b') = now" "ok \<longleftrightarrow> int c * int (period_us p) \<le> refilled"
    "int (lua_level p b') + (if ok then int c * int (period_us p) else 0) = refilled"
proof -
  obtain x y prior where b: "b = (of_int x, of_int y, prior)" and tp: "token_policy p" and pr: "exact prior"
    and x: "0 \<le> x" "x \<le> int (pol_lim p)" and y: "0 \<le> y" "y < int (period_us p)" and full: "x = int (pol_lim p) \<longrightarrow> y = 0"
    and lv: "int (lua_level p b) = x * int (period_us p) + y" by (rule lua_bucketE [OF inv])
  let ?a = "policy_args p (int c) now False 0" and ?L = "int (pol_lim p)" and ?P = "int (period_us p)" and ?C = "int (pol_cap p)"
  have pn: "policy_numbers ?C ?L ?P ?a"
    using numbers_of_policy [of p] tp by (simp add: token_policy_def)
  have later: "prior \<le> now" using now b by simp
  have K: "1 \<le> int c" "int c \<le> ?L" "aa_cost ?a = of_int (int c)"
    using c unfolding of_nat_le_iff by (simp_all add: policy_args_def)
  obtain t1 r' where f: "lua_refill ?a (of_int now) (of_int x) (of_int y) (of_int prior) = (of_int t1, of_int r')"
    and t1: "0 \<le> t1" "t1 \<le> ?L" and r': "0 \<le> r'" "r' < ?P"
    and d: "x = ?L \<and> t1 = x \<and> r' = y \<or> x < ?L \<and> (t1 = ?L \<longrightarrow> r' = 0) \<and> t1 * ?P + r' = min (?L * ?P) (x * ?P + y + ?C * (now - prior))"
    using refill_exact [OF pn x y later now(1) pr] by blast
  have "0 \<le> ?C * (now - prior)" using later by simp
  then have lev: "t1 * ?P + r' = refilled" and top: "t1 = ?L \<longrightarrow> r' = 0"
    using d full unfolding refilled_def lv by (auto simp: b)
  define t' where "t' = (if int c \<le> t1 then t1 - int c else t1)"
  obtain v where tok: "lua_token True ?a (of_int now) False (of_int x) (of_int y) (of_int prior) = (v, of_int t', of_int r')"
    and v: "vd_allowed v = (int c \<le> t1)"
    using token_exact [OF pn K x y later now(1) pr, of False] f unfolding t'_def by auto
  have b': "b' = (of_int t', of_int r', now)" "ok = (int c \<le> t1)"
    using st tok v by (simp_all add: lua_step_def b)
  have "0 \<le> t'" "t' \<le> ?L" "t' = ?L \<longrightarrow> r' = 0" using t1 top c by (auto simp: t'_def)
  note new = lua_bucketI [OF tp now(1) this(1,2) r' this(3)]
  show "lua_bucket_inv p b'" "snd (snd b') = now" using new(1) b' by simp_all
  show "ok \<longleftrightarrow> int c * ?P \<le> refilled" unfolding b'(2) lev [symmetric] by (rule covers_int [OF r'])
  show "int (lua_level p b') + (if ok then int c * ?P else 0) = refilled"
    unfolding b'(1) new(2) unfolding b'(2) lev [symmetric] t'_def by (simp add: left_diff_distrib)
qed

interpretation lua_bucket:
  token_bucket lua_step lua_bucket_inv lua_level "\<lambda>b. snd (snd b)" "\<lambda>p t. exact t" pol_cap period_us pol_lim
proof
  show "lua_level p s \<le> pol_lim p * period_us p" if inv: "lua_bucket_inv p s" for p s
  proof -
    from inv obtain x y prior where b: "x \<le> int (pol_lim p)" "y < int (period_us p)" "x = int (pol_lim p) \<longrightarrow> y = 0"
      "int (lua_level p s) = x * int (period_us p) + y" by (rule lua_bucketE)
    have "x * int (period_us p) + y \<le> int (pol_lim p) * int (period_us p)"
    proof (cases "x = int (pol_lim p)")
      case False
      then have "(x + 1) * int (period_us p) \<le> int (pol_lim p) * int (period_us p)" using b by (intro mult_right_mono) linarith+
      then show ?thesis using b by (simp add: distrib_right)
    qed (use b in simp)
    then show ?thesis using b(4) by (metis of_nat_le_iff of_nat_mult)
  qed
next
  fix p s t c b s'
  assume a: "lua_bucket_inv p s" "exact t" "snd (snd s) \<le> t" "0 < c" "c \<le> pol_lim p" "lua_step p t c s = (b, s')"
  have r: "min (int (pol_lim p) * int (period_us p)) (int (lua_level p s) + int (pol_cap p) * (t - snd (snd s))) =
      int (min (pol_lim p * period_us p) (lua_level p s + pol_cap p * nat (t - snd (snd s))))"
    using a(3) by (simp add: of_nat_min)
  note law = lua_step_law [OF a, unfolded r]
  have "b \<longleftrightarrow> c * period_us p \<le> min (pol_lim p * period_us p) (lua_level p s + pol_cap p * nat (t - snd (snd s)))"
    unfolding law(3) of_nat_mult [symmetric] of_nat_le_iff ..
  moreover have "lua_level p s' + (if b then c * period_us p else 0) =
      min (pol_lim p * period_us p) (lua_level p s + pol_cap p * nat (t - snd (snd s)))"
    using law(4) by (cases b) (simp_all only: if_True if_False of_nat_mult [symmetric] of_nat_add [symmetric] of_nat_eq_iff add_0_right of_nat_0 [symmetric])
  ultimately show "lua_bucket_inv p s' \<and> snd (snd s') = t \<and>
    (b \<longleftrightarrow> c * period_us p \<le> min (pol_lim p * period_us p) (lua_level p s + pol_cap p * nat (t - snd (snd s)))) \<and>
    lua_level p s' + (if b then c * period_us p else 0) =
      min (pol_lim p * period_us p) (lua_level p s + pol_cap p * nat (t - snd (snd s)))"
    using law(1,2) by blast
qed



end
