(* ===== verification/Valkey_Certain.thy ===== *)
theory Valkey_Certain
  imports Valkey_Token
begin

text \<open>
  Whatever the hash of a key holds, a strict admission script neither raises a
  runtime error nor returns a reply the Go side cannot read: the strict service over
  Valkey knows the outcome of every admission that reaches the server and returns.
\<close>

section \<open>Arguments\<close>

lemma tonumber_uint: "unat u \<le> 9007199254740991 \<Longrightarrow> tonumber strtod (Some (FormatUint u)) = Some (of_int (int (unat u)))"
  unfolding FormatUint_Int by (rule tonumber_FormatInt) linarith

text \<open>The arguments a strict admission passes.\<close>

definition strict_args :: "'w vkStore \<Rightarrow> request \<Rightarrow> string list" where
  "strict_args st r =
     (vk_args st r)[10 := FormatInt (Milliseconds (valkeyStateTTL (p_period (r_Policy r))))] @ [''strict'']"

lemma admit_args_policy:
  assumes r: "request_ok r" "micro_range (r_Now r)" "p_algorithm (r_Policy r) \<noteq> Concurrency"
  shows "admit_args strtod (strict_args st r) = Some (policy_args (r_Policy r) (int (unat (r_Cost r))) (r_Now r div 1000)
    (vo_Clock (vs_options st) = VkServerClock) (Milliseconds (valkeyStateTTL (p_period (r_Policy r)))))"
proof -
  let ?p = "r_Policy r"
  have wf: "policy_wf ?p" using r by (simp add: request_ok_def)
  note per = policy_wf_period [OF wf r(3)]
  have b: "unat (p_capacity ?p) + unat (p_burst ?p) \<le> 9007199254740991" "unat (r_Cost r) \<le> unat (p_maxCost ?p)"
    "unat (p_maxCost ?p) \<le> unat (p_capacity ?p) + unat (p_burst ?p)"
    using wf r(1) by (simp_all add: policy_wf_def request_ok_def)
  have now: "exact (r_Now r div 1000)"
    using r(1) dur_us_bounds [OF wf] by (simp add: request_ok_def maxExact_def abs_le_iff)
  have mic: "Microseconds (p_period ?p) = int (period_us ?p)" using per(1,3) by (simp add: duration_wf_def)
  have flag: "clock_flag c = ''1'' \<longleftrightarrow> c = VkServerClock" for c by (simp add: clock_flag_def)
  note num = tonumber_uint [of "p_capacity ?p"] tonumber_uint [of "p_burst ?p"] tonumber_uint [of "r_Cost r"]
    tonumber_FormatInt [OF now] tonumber_FormatInt [of "int (period_us ?p)"]
  have ttl: "tonumber strtod (Some (FormatInt n)) = Some (fl (of_int n))" for n by (simp add: tonumber_def)
  have P: "fl (of_int (int (period_us ?p))) = of_int (int (period_us ?p))" using per(5) by (intro fl_int) linarith
  show ?thesis
    using b per(5)
    by (simp add: admit_args_def strict_args_def vk_args_def Let_def num r(2) mic ttl P flag policy_args_def nth_append
        del: of_int_of_nat_eq)
qed

section \<open>Verdicts\<close>

text \<open>A verdict the reply can carry: exact numbers in the ranges the Go side reads.\<close>

definition verdict_ok :: "int \<Rightarrow> int \<Rightarrow> int \<Rightarrow> verdict \<Rightarrow> bool" where
  "verdict_ok L K n v \<longleftrightarrow> (\<exists>rem reset retry.
     vd_remaining v = of_int rem \<and> vd_reset v = of_int reset \<and> vd_retry v = of_int retry \<and>
     0 \<le> rem \<and> rem \<le> (if vd_allowed v then L - K else K - 1) \<and> n \<le> reset \<and> \<bar>reset\<bar> \<le> 36028797018963968 \<and>
     0 \<le> retry \<and> retry \<le> 9223372036854775)"

lemma verdict_okI:
  assumes "0 \<le> rem" "rem \<le> (if al then L - K else K - 1)" "n \<le> reset" "\<bar>reset\<bar> \<le> 36028797018963968"
    "0 \<le> retry" "retry \<le> 9223372036854775"
  shows "verdict_ok L K n \<lparr>vd_allowed = al, vd_remaining = of_int rem, vd_reset = of_int reset, vd_retry = of_int retry, vd_carried = cy\<rparr>"
  unfolding verdict_ok_def using assms by (intro exI [of _ rem] exI [of _ reset] exI [of _ retry]) simp

text \<open>The instants the theorem is about: from the year 2000 on, with room for the period.\<close>

definition year_2000 :: int where "year_2000 = 946684800000000"

definition instant_ok :: "int \<Rightarrow> int \<Rightarrow> bool" where
  "instant_ok P n \<longleftrightarrow> year_2000 \<le> n \<and> n \<le> 9007199254740991 - P"

lemma corrupt_token_numbers:
  assumes "\<not> corrupt_token strtod a same tr rr lr" "aa_limit a = of_int L" "aa_period a = of_int P"
  shows "\<exists>t r l. tonumber strtod tr = Some (of_int t) \<and> tonumber strtod rr = Some (of_int r) \<and>
    tonumber strtod lr = Some (of_int l) \<and> 0 \<le> t \<and> 0 \<le> r \<and> \<bar>l\<bar> \<le> 9007199254740991 \<and> (same \<longrightarrow> t \<le> L \<and> r < P)"
proof -
  obtain x y z where n: "tonumber strtod tr = Some x" "tonumber strtod rr = Some y" "tonumber strtod lr = Some z"
    and c: "\<not> not_exact_unsigned x" "\<not> not_exact_unsigned y" "\<not> not_exact z" "same \<Longrightarrow> x \<le> of_int L \<and> y < of_int P"
    using assms by (auto simp: corrupt_token_def not_le not_less)
  show ?thesis
    using n c(4) not_exact_unsigned_int [OF c(1)] not_exact_unsigned_int [OF c(2)] not_exact_int [OF c(3)] by auto
qed

lemma admit_token_ok:
  assumes pn: "policy_numbers C L P a" and K: "1 \<le> K" "K \<le> L" "aa_cost a = of_int K" and n: "instant_ok P n"
    and now: "sd_now sd = of_int n" and last: "\<And>l. tonumber strtod (vk_HGET srv s key ''last'') = Some (of_int l) \<Longrightarrow> l \<le> n"
  shows "fst (admit_token True strtod srv key a sd s) = Return (refusal ''corrupt'') \<or>
    (\<exists>v. fst (admit_token True strtod srv key a sd s) = Value v \<and> verdict_ok L K n v)"
proof (cases "corrupt_token strtod a (sd_revision sd = Some (aa_revision a)) (vk_HGET srv s key ''tokens'')
    (vk_HGET srv s key ''remainder'') (vk_HGET srv s key ''last'')")
  case True
  then show ?thesis by (simp add: admit_token_def)
next
  case False
  let ?same = "sd_revision sd = Some (aa_revision a)"
  note pd = policy_numbersD [OF pn] and bd = numbers_bounds [OF pn]
  obtain t r l where num: "tonumber strtod (vk_HGET srv s key ''tokens'') = Some (of_int t)"
      "tonumber strtod (vk_HGET srv s key ''remainder'') = Some (of_int r)"
      "tonumber strtod (vk_HGET srv s key ''last'') = Some (of_int l)"
    and b: "0 \<le> t" "0 \<le> r" "\<bar>l\<bar> \<le> 9007199254740991" "?same \<Longrightarrow> t \<le> L \<and> r < P"
    using corrupt_token_numbers [OF False pd(6,7)] by blast
  have ln: "l \<le> n" using last num by blast
  define t0 r0 l0 where "t0 = (if ?same then t else min t L)" and "r0 = (if ?same then r else 0)" and "l0 = (if ?same then l else n)"
  have 0: "0 \<le> t0" "t0 \<le> L" "0 \<le> r0" "r0 < P" "l0 \<le> n" "exact n" "exact l0"
    using b pd bd ln n by (auto simp: t0_def r0_def l0_def instant_ok_def year_2000_def)
  have sel: "(if \<not> ?same then (min (of_int t) (aa_limit a), 0, of_int n) else (of_int t, of_int r, of_int l)) =
      (of_int t0, of_int r0, of_int l0 :: rat)"
    by (simp add: t0_def r0_def l0_def pd(6) min_def)
  obtain t1 t' r' reset retry where tok:
      "lua_token True a (of_int n) (sd_carried sd) (of_int t0) (of_int r0) (of_int l0) =
      (\<lparr>vd_allowed = (K \<le> t1), vd_remaining = of_int t', vd_reset = of_int reset, vd_retry = of_int retry,
        vd_carried = sd_carried sd\<rparr>, of_int t', of_int r')"
    and v: "0 \<le> t'" "t' \<le> (if K \<le> t1 then L - K else K - 1)" "n \<le> reset" "\<bar>reset\<bar> \<le> 36028797018963968"
      "0 \<le> retry" "retry \<le> 9007199254740991"
    using token_exact [OF pn K 0(1-7), of "sd_carried sd"] by metis
  have "fst (admit_token True strtod srv key a sd s) = Value \<lparr>vd_allowed = (K \<le> t1), vd_remaining = of_int t',
      vd_reset = of_int reset, vd_retry = of_int retry, vd_carried = sd_carried sd\<rparr>"
    by (simp only: admit_token_def Let_def now num option.case prod.case False simp_thms if_False sel tok fst_conv)
  then show ?thesis using v by (auto simp: verdict_ok_def)
qed

lemma of_int_max0: "max 0 (of_int x :: rat) = of_int (max 0 x)"
  by (simp add: max_def)

lemma window_exact:
  assumes "0 \<le> n" "n \<le> 9007199254740991 - P" "1 \<le> P"
  shows "window_start (of_int n) (of_int P) = of_int (n div P * P)" "0 \<le> n div P * P" "n div P * P \<le> n" "n < n div P * P + P"
    "lua_add (of_int (n div P * P)) (of_int P) = of_int (n div P * P + P)"
proof -
  have p: "0 < P" using assms by linarith
  have "0 \<le> n div P" using assms by (simp add: pos_imp_zdiv_nonneg_iff)
  then show w: "0 \<le> n div P * P" using p by simp
  show w': "n div P * P \<le> n" by (rule div_mult_le [OF p])
  have e: "exact n" "exact (n div P * P)" "exact (n div P * P + P)" using w w' assms by linarith+
  show "window_start (of_int n) (of_int P) = of_int (n div P * P)"
    unfolding window_start_def lua_floor_div [OF e(1) p] lua_mul_int [OF e(2)] ..
  show "lua_add (of_int (n div P * P)) (of_int P) = of_int (n div P * P + P)" by (rule lua_add_int [OF e(3)])
  show "n < n div P * P + P" using div_mult_less [OF p, of n] by (simp add: distrib_right)
qed

text \<open>The remaining units and the decision on them, for both windows.\<close>

lemma window_units:
  assumes "0 \<le> u" "u \<le> 9007199254740991" "1 \<le> L" "L \<le> 9007199254740991" "1 \<le> K" "K \<le> L"
  shows "max 0 (lua_sub (of_int L) (of_int u)) = of_int (max 0 (L - u))"
    "K \<le> max 0 (L - u) \<Longrightarrow> lua_add (of_int u) (of_int K) = of_int (u + K)"
    "K \<le> max 0 (L - u) \<Longrightarrow> lua_sub (of_int L) (of_int (u + K)) = of_int (L - (u + K))"
    "K \<le> max 0 (L - u) \<Longrightarrow> lua_sub (of_int (max 0 (L - u))) (of_int K) = of_int (L - u - K)"
proof -
  have "lua_sub (of_int L) (of_int u) = of_int (L - u)" using assms by (intro lua_sub_int) linarith
  then show "max 0 (lua_sub (of_int L) (of_int u)) = of_int (max 0 (L - u))" by (simp only: of_int_max0)
  assume k: "K \<le> max 0 (L - u)"
  then have m: "max 0 (L - u) = L - u" using assms by linarith
  show "lua_add (of_int u) (of_int K) = of_int (u + K)" using k assms by (intro lua_add_int) linarith
  show "lua_sub (of_int L) (of_int (u + K)) = of_int (L - (u + K))" using k assms by (intro lua_sub_int) linarith
  show "lua_sub (of_int (max 0 (L - u))) (of_int K) = of_int (L - u - K)"
    unfolding m using k assms by (intro lua_sub_int) linarith
qed

lemma lua_fixed_ok:
  assumes pn: "policy_numbers C L P a" and K: "1 \<le> K" "K \<le> L" "aa_cost a = of_int K" and n: "instant_ok P n"
    and u: "0 \<le> u" "u \<le> 9007199254740991"
  shows "verdict_ok L K n (fst (lua_fixed True a (of_int n) same cy stored (of_int u)))"
proof -
  note pd = policy_numbersD [OF pn] and bd = numbers_bounds [OF pn]
  have n': "0 \<le> n" "n \<le> 9007199254740991 - P" using n by (simp_all add: instant_ok_def year_2000_def)
  note w = window_exact [OF n' pd(3)]
  let ?w = "n div P * P"
  define u1 where "u1 = (if stored \<noteq> Some (of_int ?w) then 0 else u)"
  have u1: "0 \<le> u1" "u1 \<le> 9007199254740991" and s1: "(if stored \<noteq> Some (of_int ?w) then 0 else of_int u) = (of_int u1 :: rat)"
    using u by (simp_all add: u1_def)
  note units = window_units [OF u1 bd(4,1) K(1,2)]
  have retry: "max 0 (lua_sub (of_int (?w + P)) (of_int n)) = of_int (?w + P - n)"
  proof -
    have "lua_sub (of_int (?w + P)) (of_int n) = of_int (?w + P - n)" using w n' pd(3) bd(2) by (intro lua_sub_int) linarith
    moreover have "max 0 (?w + P - n) = ?w + P - n" using w by linarith
    ultimately show ?thesis by (simp only: of_int_max0)
  qed
  have allowed: "of_int K \<le> (of_int (max 0 (L - u1)) :: rat) \<longleftrightarrow> K \<le> max 0 (L - u1)" by (rule of_int_le_iff)
  note unfold = lua_fixed_def Let_def pd(6,7) w(1) w(5) s1 units(1) K(3) allowed retry fst_conv verdict.simps
  show ?thesis
  proof (cases "K \<le> max 0 (L - u1)")
    case True
    then have m: "max 0 (L - u1) = L - u1" using K by linarith
    show ?thesis
      unfolding verdict_ok_def
      by (intro exI [of _ "L - (u1 + K)"] exI [of _ "?w + P"] exI [of _ 0])
        (simp only: unfold True if_True units(2,3), use True m K w pd bd n' u1 in auto)
  next
    case False
    show ?thesis
      unfolding verdict_ok_def
      by (intro exI [of _ "max 0 (L - u1)"] exI [of _ "?w + P"] exI [of _ "?w + P - n"])
        (simp only: unfold False if_False, use False K w pd bd n' u1 in auto)
  qed
qed

lemma admit_fixed_ok:
  assumes pn: "policy_numbers C L P a" and K: "1 \<le> K" "K \<le> L" "aa_cost a = of_int K" and n: "instant_ok P n"
    and now: "sd_now sd = of_int n"
  shows "fst (admit_fixed True strtod srv key a sd s) = Return (refusal ''corrupt'') \<or>
    (\<exists>v. fst (admit_fixed True strtod srv key a sd s) = Value v \<and> verdict_ok L K n v)"
proof (cases "corrupt_fixed strtod a (sd_revision sd = Some (aa_revision a)) (sd_carried sd) (vk_HGET srv s key ''window'')
    (vk_HGET srv s key ''used'')")
  case True
  then show ?thesis by (simp add: admit_fixed_def)
next
  case False
  then obtain x where x: "tonumber strtod (vk_HGET srv s key ''used'') = Some x" "\<not> not_exact_unsigned x"
    by (auto simp: corrupt_fixed_def)
  obtain u where u: "x = of_int u" "0 \<le> u" "u \<le> 9007199254740991" using not_exact_unsigned_int [OF x(2)] by blast
  let ?f = "lua_fixed True a (of_int n) (sd_revision sd = Some (aa_revision a)) (sd_carried sd)
      (tonumber strtod (vk_HGET srv s key ''window'')) (of_int u)"
  have "fst (admit_fixed True strtod srv key a sd s) = Value (fst ?f)"
    by (cases ?f) (simp add: admit_fixed_def Let_def now False x(1) u(1))
  then show ?thesis using lua_fixed_ok [OF pn K n u(2,3)] by blast
qed

text \<open>The segments a strict scan accepts.\<close>

definition segments_ok :: "(string \<Rightarrow> rat option) \<Rightarrow> 's server \<Rightarrow> string \<Rightarrow> nat list \<Rightarrow> 's \<Rightarrow> bool" where
  "segments_ok strtod srv key slots s \<longleftrightarrow>
     (\<forall>slot \<in> set slots. \<forall>enc. vk_HGET srv s key (bucket_field slot) = Some enc \<longrightarrow>
        has_separator enc \<and> \<not> corrupt_segment strtod (before_separator enc) (after_separator enc))"

definition earliest_ok :: "int \<Rightarrow> int \<Rightarrow> rat option \<Rightarrow> bool" where
  "earliest_ok old cur e \<longleftrightarrow> (\<forall>x. e = Some x \<longrightarrow> (\<exists>i. x = of_int i \<and> old < i \<and> i \<le> cur))"

lemma scan_ok:
  assumes "sliding_scan True strtod srv key (of_int cur) (of_int old) slots (of_int used) earliest xd sn s = (x, s')"
    and "0 \<le> used" "used \<le> 9007199254740991" "earliest_ok old cur earliest"
  shows "s' = s \<and> (x = Return (refusal ''corrupt'') \<or> (\<exists>u e ex. x = Value (of_int u, e, ex) \<and> 0 \<le> u \<and> u \<le> 9007199254740991 \<and>
    earliest_ok old cur e \<and> segments_ok strtod srv key slots s))"
  using assms
proof (induction slots arbitrary: used earliest xd sn)
  case Nil
  then show ?case by (auto simp: segments_ok_def)
next
  case (Cons slot slots)
  show ?case
  proof (cases "vk_HGET srv s key (bucket_field slot)")
    case None
    then show ?thesis using Cons.IH [OF _ Cons.prems(2-4)] Cons.prems(1) by (auto simp: segments_ok_def)
  next
    case (Some enc)
    show ?thesis
    proof (cases "has_separator enc \<and> \<not> corrupt_segment strtod (before_separator enc) (after_separator enc)")
      case False
      then show ?thesis using Cons.prems(1) Some by (auto simp: Let_def split: if_splits)
    next
      case True
      then obtain y z where n: "tonumber strtod (Some (before_separator enc)) = Some y"
          "tonumber strtod (Some (after_separator enc)) = Some z" "\<not> not_exact y" "\<not> not_exact_unsigned z"
        by (auto simp: corrupt_segment_def)
      obtain i where i: "y = of_int i" using not_exact_int [OF n(3)] by blast
      obtain v where v: "z = of_int v" "0 \<le> v" using not_exact_unsigned_int [OF n(4)] by blast
      have seg: "segments_ok strtod srv key slots s \<Longrightarrow> segments_ok strtod srv key (slot # slots) s"
        using True Some by (simp add: segments_ok_def)
      have M: "lua_sub max_exact (of_int used) = of_int (9007199254740991 - used)"
        unfolding max_exact_int using Cons.prems by (intro lua_sub_int) linarith
      let ?sn = "if 0 < v \<and> old < i then of_int i # sn else sn"
      let ?e = "if 0 < v \<and> (case earliest of None \<Rightarrow> True | Some e \<Rightarrow> of_int i < e) then Some (of_int i) else earliest"
      let ?bad = "(0 < v \<and> old < i) \<and> (cur < i \<or> lua_mod (of_int i) 16 \<noteq> of_nat slot \<or> of_int i \<in> set sn)"
      have st: "(if ?bad then (Return (refusal ''corrupt''), s)
          else if i \<le> old
          then sliding_scan True strtod srv key (of_int cur) (of_int old) slots (of_int used) earliest (xd @ [bucket_field slot]) ?sn s
          else if 9007199254740991 - used < v then (Return (refusal ''corrupt''), s)
          else sliding_scan True strtod srv key (of_int cur) (of_int old) slots (lua_add (of_int used) (of_int v)) ?e xd ?sn s) = (x, s')"
        using Cons.prems(1)
        by (simp only: sliding_scan.simps Let_def Some option.case n(1,2) prod.case i v(1) M True simp_thms if_True if_False
            of_int_less_iff of_int_le_iff of_int_0_less_iff)
      consider (bad) "x = Return (refusal ''corrupt'')" "s' = s"
        | (old) ex se where "sliding_scan True strtod srv key (of_int cur) (of_int old) slots (of_int used) earliest ex se s = (x, s')"
        | (new) ex se where "old < i" "v \<le> 9007199254740991 - used" "0 < v \<Longrightarrow> i \<le> cur"
            "sliding_scan True strtod srv key (of_int cur) (of_int old) slots (lua_add (of_int used) (of_int v)) ?e ex se s = (x, s')"
      proof (cases ?bad)
        case True
        from st [unfolded if_P [OF True]] show ?thesis using that(1) by simp
      next
        case ok: False
        show ?thesis
        proof (cases "i \<le> old")
          case True
          then show ?thesis using st ok that(2) by (simp only: if_True if_False)
        next
          case False
          show ?thesis
          proof (cases "9007199254740991 - used < v")
            case True
            then show ?thesis using st ok False that(1) by (simp only: if_True if_False prod.inject)
          next
            case fits: False
            then have "sliding_scan True strtod srv key (of_int cur) (of_int old) slots (lua_add (of_int used) (of_int v)) ?e xd ?sn s = (x, s')"
              using st ok False by (simp only: if_False)
            then show ?thesis using that(3) ok False fits by (meson leI)
          qed
        qed
      qed
      then show ?thesis
      proof cases
        case bad
        then show ?thesis by simp
      next
        case old
        then show ?thesis using Cons.IH [OF old Cons.prems(2-4)] seg by blast
      next
        case new
        have add: "lua_add (of_int used) (of_int v) = of_int (used + v)" using new Cons.prems v by (intro lua_add_int) linarith
        have e: "earliest_ok old cur (if 0 < v \<and> (case earliest of None \<Rightarrow> True | Some e \<Rightarrow> of_int i < e) then Some (of_int i) else earliest)"
          using Cons.prems(4) new(1,3) by (auto simp: earliest_ok_def)
        show ?thesis using Cons.IH [OF new(4) [unfolded add] _ _ e] new(2) Cons.prems(2) v(2) seg by force
      qed
    qed
  qed
qed

section \<open>What the server documents\<close>

text \<open>
  The commands on hashes, as the Valkey documentation states them: \<open>HSET\<close> sets the
  fields it names (the last value for a field wins) and keeps the others, \<open>HDEL\<close>
  removes a field, a key exists while its hash has a field, \<open>HGETALL\<close> lists each
  field once with its value, and setting a positive time to live changes no field.
  No command touches another key, and \<open>TIME\<close> is the Unix time of a server that runs
  between the years 2000 and 2255.
\<close>

definition hash_server :: "'s server \<Rightarrow> bool" where
  "hash_server srv \<longleftrightarrow>
     (\<forall>s key. vk_EXISTS srv s key \<longleftrightarrow> vk_HGETALL srv s key \<noteq> []) \<and>
     (\<forall>s key. distinct (map fst (vk_HGETALL srv s key))) \<and>
     (\<forall>s key. vk_HGET srv s key = map_of (vk_HGETALL srv s key)) \<and>
     (\<forall>s key. vk_HKEYS srv s key = map fst (vk_HGETALL srv s key)) \<and>
     (\<forall>s key. vk_HLEN srv s key = length (vk_HGETALL srv s key)) \<and>
     (\<forall>s key f. vk_HSTRLEN srv s key f = (case vk_HGET srv s key f of None \<Rightarrow> 0 | Some v \<Rightarrow> length v)) \<and>
     (\<forall>s key key' fs. vk_HGET srv (vk_HSET srv key fs s) key' =
        (if key' = key then vk_HGET srv s key ++ map_of (rev fs) else vk_HGET srv s key')) \<and>
     (\<forall>s key key' f. vk_HGET srv (vk_HDEL srv key f s) key' =
        (if key' = key then (vk_HGET srv s key)(f := None) else vk_HGET srv s key')) \<and>
     (\<forall>s key key'. vk_HGET srv (vk_DEL srv key s) key' = (if key' = key then Map.empty else vk_HGET srv s key')) \<and>
     (\<forall>s key key' ttl. 0 < ttl \<longrightarrow> vk_HGET srv (vk_PEXPIRE srv key ttl s) key' = vk_HGET srv s key') \<and>
     (\<forall>s sec usec. vk_TIME srv s = (sec, usec) \<longrightarrow>
        year_2000 \<le> sec * 1000000 + usec \<and> 0 \<le> usec \<and> usec < 1000000 \<and> sec < 9000000000)"

lemma hash_serverD:
  assumes "hash_server srv"
  shows "vk_EXISTS srv s key \<longleftrightarrow> vk_HGETALL srv s key \<noteq> []" "distinct (map fst (vk_HGETALL srv s key))"
    "vk_HGET srv s key = map_of (vk_HGETALL srv s key)" "vk_HKEYS srv s key = map fst (vk_HGETALL srv s key)"
    "vk_HLEN srv s key = length (vk_HGETALL srv s key)"
    "vk_HSTRLEN srv s key f = (case vk_HGET srv s key f of None \<Rightarrow> 0 | Some v \<Rightarrow> length v)"
    "vk_HGET srv (vk_HSET srv key fs s) key' =
      (if key' = key then vk_HGET srv s key ++ map_of (rev fs) else vk_HGET srv s key')"
    "vk_HGET srv (vk_HDEL srv key f s) key' = (if key' = key then (vk_HGET srv s key)(f := None) else vk_HGET srv s key')"
    "vk_HGET srv (vk_DEL srv key s) key' = (if key' = key then Map.empty else vk_HGET srv s key')"
    "0 < ttl \<Longrightarrow> vk_HGET srv (vk_PEXPIRE srv key ttl s) key' = vk_HGET srv s key'"
    "vk_TIME srv s = (sec, usec) \<Longrightarrow> year_2000 \<le> sec * 1000000 + usec \<and> 0 \<le> usec \<and> usec < 1000000 \<and> sec < 9000000000"
  using assms unfolding hash_server_def by metis+

lemma delete_fields_HGET:
  assumes "hash_server srv"
  shows "vk_HGET srv (delete_fields srv key fs s) key f = (if f \<in> set fs then None else vk_HGET srv s key f)"
proof (induction fs arbitrary: s)
  case (Cons g fs)
  then show ?case using hash_serverD(8) [OF assms, of key g s key] by (auto simp: delete_fields_def)
qed (simp add: delete_fields_def)

section \<open>Sliding windows\<close>

lemma canonical_digits: "canonical_unsigned (Some s) \<Longrightarrow> all_digits s"
  by (auto simp: canonical_unsigned_def positive_digits_def all_digits_def in_range_def)

lemma separator_split: "has_separator e \<Longrightarrow> e = before_separator e @ CHR '':'' # after_separator e"
  by (induction e) (auto simp: has_separator_def before_separator_def after_separator_def)

lemma segment_value_ok:
  assumes "has_separator e" "\<not> corrupt_segment strtod (before_separator e) (after_separator e)"
  shows "segment_value strtod c (Some e) \<noteq> None"
proof -
  have a: "all_digits (after_separator e)" "tonumber strtod (Some (after_separator e)) \<noteq> None"
    using assms(2) canonical_digits by (auto simp: corrupt_segment_def)
  then have "CHR '':'' \<notin> set (after_separator e)" by (auto simp: all_digits_def in_range_def list_all_iff)
  then have "takeWhile (\<lambda>c. c \<noteq> CHR '':'') (rev (after_separator e) @ CHR '':'' # rev (before_separator e)) = rev (after_separator e)"
    by (subst takeWhile_append2) auto
  moreover have "rev e = rev (after_separator e) @ CHR '':'' # rev (before_separator e)"
    by (subst separator_split [OF assms(1)]) simp
  ultimately have "rev (takeWhile (\<lambda>c. c \<noteq> CHR '':'') (rev e)) = after_separator e" by simp
  then show ?thesis using a by (auto simp: segment_value_def Let_def all_digits_def)
qed

lemma fl_near:
  assumes "\<bar>n\<bar> < 18014398509481984"
  shows "\<bar>fl (of_int n) - of_int n\<bar> \<le> 1"
proof (cases "n = 0")
  case False
  let ?x = "of_int n :: rat"
  have x0: "?x \<noteq> 0" using False by simp
  have "binexp ?x \<le> 53"
  proof (rule ccontr)
    assume "\<not> ?thesis"
    then have "(2 :: rat) powi 54 \<le> 2 powi (binexp ?x)" by (intro power_int_increasing) simp_all
    then have "of_int 18014398509481984 \<le> (of_int \<bar>n\<bar> :: rat)" using binexp_bounds(1) [OF x0] by simp
    then show False using assms unfolding of_int_le_iff by linarith
  qed
  then have "(2 :: rat) powi (binexp ?x - 52) \<le> 2 powi 1" by (intro power_int_increasing) simp_all
  then show ?thesis using fl_error [OF x0] by simp
qed (simp add: fl_def)

text \<open>The numbers of a sliding window at an instant.\<close>

lemma sliding_numbers:
  assumes n: "instant_ok P n" and P: "1 \<le> P"
  defines "W \<equiv> (P + 15) div 16"
  shows "sliding_width (of_int P) = of_int W" "1 \<le> W" "W \<le> P" "16 * W \<le> P + 15"
    "lua_floor (lua_div (of_int n) (of_int W)) = of_int (n div W)"
    "lua_floor (lua_div (lua_sub (of_int n) (of_int P)) (of_int W)) = of_int ((n - P) div W)"
    "n div W * W \<le> n" "n - P < ((n - P) div W + 1) * W" "0 \<le> n div W"
proof -
  have r: "946684800000000 \<le> n" "n \<le> 9007199254740991 - P" using n by (simp_all add: instant_ok_def year_2000_def)
  show W: "1 \<le> W" "W \<le> P" "16 * W \<le> P + 15" using P unfolding W_def by linarith+
  have e: "exact (P + 15)" "exact n" "exact (n - P)" using r P by linarith+
  have "sliding_width (of_int P) = lua_floor (lua_div (lua_add (of_int P) (of_int 15)) (of_int 16))" by (simp add: sliding_width_def)
  also have "\<dots> = of_int W" unfolding lua_add_int [OF e(1)] W_def using e(1) by (intro lua_floor_div) simp_all
  finally show "sliding_width (of_int P) = of_int W" .
  show "lua_floor (lua_div (of_int n) (of_int W)) = of_int (n div W)" using e(2) W by (intro lua_floor_div) linarith+
  show "lua_floor (lua_div (lua_sub (of_int n) (of_int P)) (of_int W)) = of_int ((n - P) div W)"
    unfolding lua_sub_int [OF e(3)] using e(3) W by (intro lua_floor_div) linarith+
  show "n div W * W \<le> n" "n - P < ((n - P) div W + 1) * W" using W by (intro div_mult_le div_mult_less, linarith)+
  show "0 \<le> n div W" using r W by (simp add: pos_imp_zdiv_nonneg_iff)
qed

definition sliding_announced :: "rat \<Rightarrow> rat \<Rightarrow> rat \<Rightarrow> rat option \<Rightarrow> rat" where
  "sliding_announced now period width e =
     (case e of None \<Rightarrow> lua_add now period | Some i \<Rightarrow> lua_add (lua_mul (lua_add i 1) width) period)"

lemma sliding_announced_ok:
  assumes n: "instant_ok P n" and P: "1 \<le> P" and W: "W = (P + 15) div 16" and e: "earliest_ok ((n - P) div W) (n div W) e"
  shows "\<exists>m. sliding_announced (of_int n) (of_int P) (of_int W) e = of_int m \<and> n \<le> m \<and> \<bar>m\<bar> \<le> 36028797018963968 \<and>
    max 0 (lua_sub (of_int m) (of_int n)) = of_int (m - n) \<and> m - n \<le> 9223372036854775"
proof -
  note num = sliding_numbers [OF n P, folded W]
  have r: "946684800000000 \<le> n" "n \<le> 9007199254740991 - P" using n by (simp_all add: instant_ok_def year_2000_def)
  have "\<exists>y. sliding_announced (of_int n) (of_int P) (of_int W) e = fl (of_int (y + P)) \<and> n - P \<le> y \<and> y \<le> n + W"
  proof (cases e)
    case None
    have "sliding_announced (of_int n) (of_int P) (of_int W) e = fl (of_int (n + P))"
      using None by (simp only: sliding_announced_def option.case lua_add_def of_int_add)
    then show ?thesis using num(2) P by (intro exI [of _ n]) simp
  next
    case (Some x)
    then obtain i where i: "x = of_int i" "(n - P) div W < i" "i \<le> n div W" using e by (auto simp: earliest_ok_def)
    have lo: "((n - P) div W + 1) * W \<le> (i + 1) * W" "(i + 1) * W \<le> (n div W + 1) * W"
      using i num(2) by (intro mult_right_mono; linarith)+
    then have y: "n - P \<le> (i + 1) * W" "(i + 1) * W \<le> n + W" using num(7,8) by (simp_all add: distrib_right)
    have "\<bar>(n - P) div W\<bar> \<le> \<bar>n - P\<bar>" "\<bar>n div W\<bar> \<le> \<bar>n\<bar>" using num(2) by (intro abs_div_le, linarith)+
    then have ex: "exact (i + 1)" "exact ((i + 1) * W)" using i r y num(2-4) P by linarith+
    have one: "lua_add x 1 = of_int (i + 1)" using lua_add_int [OF ex(1)] i(1) by simp
    have "sliding_announced (of_int n) (of_int P) (of_int W) e = fl (of_int ((i + 1) * W + P))"
      unfolding sliding_announced_def Some option.case one lua_mul_int [OF ex(2)] by (simp only: lua_add_def of_int_add)
    then show ?thesis using y by blast
  qed
  then obtain y where y: "sliding_announced (of_int n) (of_int P) (of_int W) e = fl (of_int (y + P))" "n - P \<le> y" "y \<le> n + W" by blast
  obtain m where m: "fl (of_int (y + P)) = of_int m" using fl_of_int by blast
  have "\<bar>y + P\<bar> < 18014398509481984" using y r num(3) P by linarith
  from fl_near [OF this] have "\<bar>of_int m - of_int (y + P)\<bar> \<le> (of_int 1 :: rat)" unfolding m by simp
  then have near: "\<bar>m - (y + P)\<bar> \<le> 1" unfolding of_int_diff [symmetric] of_int_abs [symmetric] of_int_le_iff .
  have nm: "n \<le> m"
  proof -
    have "(of_int n :: rat) \<le> fl (of_int (y + P))" using y(2) r P by (intro fl_of_int_ge) linarith+
    then show ?thesis unfolding m of_int_le_iff .
  qed
  have d: "m - n \<le> W + P + 1" using near y by linarith
  have W: "W \<le> 503782153421312" "P \<le> 8060514454740991" using num(4) r by linarith+
  have "lua_sub (of_int m) (of_int n) = of_int (m - n)" using d W nm by (intro lua_sub_int) linarith
  moreover have "max 0 (m - n) = m - n" using nm by simp
  ultimately have "max 0 (lua_sub (of_int m) (of_int n)) = of_int (m - n)" by (simp only: of_int_max0)
  moreover have "m - n \<le> 9223372036854775" "\<bar>m\<bar> \<le> 36028797018963968" using d W nm r by linarith+
  ultimately show ?thesis using y(1) m nm by metis
qed

lemma admit_sliding_ok:
  assumes srv: "hash_server srv" and pn: "policy_numbers C L P a" and K: "1 \<le> K" "K \<le> L" "aa_cost a = of_int K"
    and n: "instant_ok P n" and now: "sd_now sd = of_int n"
  shows "fst (admit_sliding True strtod srv key a sd s) = Return (refusal ''corrupt'') \<or>
    (\<exists>v. fst (admit_sliding True strtod srv key a sd s) = Value v \<and> verdict_ok L K n v)"
proof -
  note pd = policy_numbersD [OF pn] and bd = numbers_bounds [OF pn]
  define W where "W = (P + 15) div 16"
  note num = sliding_numbers [OF n pd(3), folded W_def]
  let ?cur = "n div W" and ?old = "(n - P) div W"
  obtain x s1 where scan: "sliding_scan True strtod srv key (of_int ?cur) (of_int ?old) [0..<16] 0 None [] [] s = (x, s1)"
    by (cases "sliding_scan True strtod srv key (of_int ?cur) (of_int ?old) [0..<16] 0 None [] [] s")
  have s1: "s1 = s" and x: "x = Return (refusal ''corrupt'') \<or> (\<exists>u e ex. x = Value (of_int u, e, ex) \<and> 0 \<le> u \<and>
      u \<le> 9007199254740991 \<and> earliest_ok ?old ?cur e \<and> segments_ok strtod srv key [0..<16] s)"
    using scan_ok [of strtod srv key ?cur ?old "[0..<16]" 0 None "[]" "[]" s x s1] scan by (auto simp: earliest_ok_def)
  note unfold = admit_sliding_def Let_def now pd(6,7) num(1,5,6) scan s1 lua.case prod.case sliding_announced_def [symmetric] simp_thms if_True
  show ?thesis
  proof (cases "x = Return (refusal ''corrupt'')")
    case True
    then show ?thesis by (simp only: unfold fst_conv)
  next
    case False
    then obtain u e ex where v: "x = Value (of_int u, e, ex)" "0 \<le> u" "u \<le> 9007199254740991" "earliest_ok ?old ?cur e"
      and seg: "segments_ok strtod srv key [0..<16] s" using x by blast
    obtain m where m: "sliding_announced (of_int n) (of_int P) (of_int W) e = of_int m" "n \<le> m" "\<bar>m\<bar> \<le> 36028797018963968"
        "max 0 (lua_sub (of_int m) (of_int n)) = of_int (m - n)" "m - n \<le> 9223372036854775"
      using sliding_announced_ok [OF n pd(3) W_def v(4)] by blast
    note units = window_units [OF v(2,3) bd(4,1) K(1,2)]
    define s2 where "s2 = delete_fields srv key ex s"
    have "lua_mod (of_int ?cur) 16 = of_int (?cur mod 16)"
    proof -
      have "exact ?cur" using abs_div_le [of W n] num(2) n pd(3) by (simp add: instant_ok_def year_2000_def)
      then show ?thesis using lua_mod_int [of ?cur 16] num(9) by simp
    qed
    then have slot: "nat (round_even (lua_mod (of_int ?cur) 16)) \<in> set [0..<16]" by (simp add: nat_less_iff)
    have val: "segment_value strtod (of_int ?cur) (vk_HGET srv s2 key (bucket_field (nat (round_even (lua_mod (of_int ?cur) 16))))) \<noteq> None"
    proof (cases "vk_HGET srv s2 key (bucket_field (nat (round_even (lua_mod (of_int ?cur) 16))))")
      case (Some enc)
      then have "vk_HGET srv s key (bucket_field (nat (round_even (lua_mod (of_int ?cur) 16)))) = Some enc"
        using delete_fields_HGET [OF srv] by (simp add: s2_def split: if_splits)
      then show ?thesis using seg slot Some segment_value_ok by (auto simp: segments_ok_def)
    qed (simp add: segment_value_def)
    then obtain y where y: "segment_value strtod (of_int ?cur)
        (vk_HGET srv s2 key (bucket_field (nat (round_even (lua_mod (of_int ?cur) 16))))) = Some y" by blast
    let ?bad = "sd_revision sd = Some (aa_revision a) \<and> of_int L < (of_int u :: rat) \<and> \<not> sd_carried sd"
    show ?thesis
    proof (cases ?bad)
      case True
      then show ?thesis by (simp only: unfold v(1) fst_conv)
    next
      case fine: False
      show ?thesis
      proof (cases "K \<le> max 0 (L - u)")
        case True
        have "\<exists>cy. fst (admit_sliding True strtod srv key a sd s) =
            Value \<lparr>vd_allowed = True, vd_remaining = of_int (L - u - K), vd_reset = of_int m, vd_retry = of_int 0, vd_carried = cy\<rparr>"
          by (simp only: unfold v(1) fine if_False units(1) K(3) of_int_le_iff True units(4) m(1) s2_def [symmetric] y option.case
              fst_conv lua.inject verdict.iffs of_int_0 ex_simps)
        moreover have "verdict_ok L K n \<lparr>vd_allowed = True, vd_remaining = of_int (L - u - K), vd_reset = of_int m,
            vd_retry = of_int 0, vd_carried = cy\<rparr>" for cy
          using True K v(2) m(2,3) by (intro verdict_okI) (linarith | simp)+
        ultimately show ?thesis by metis
      next
        case False
        have "\<exists>cy. fst (admit_sliding True strtod srv key a sd s) =
            Value \<lparr>vd_allowed = False, vd_remaining = of_int (max 0 (L - u)), vd_reset = of_int m, vd_retry = of_int (m - n), vd_carried = cy\<rparr>"
          by (simp only: unfold v(1) fine if_False units(1) K(3) of_int_le_iff False m(1,4) fst_conv lua.inject verdict.iffs ex_simps)
        moreover have "verdict_ok L K n \<lparr>vd_allowed = False, vd_remaining = of_int (max 0 (L - u)), vd_reset = of_int m,
            vd_retry = of_int (m - n), vd_carried = cy\<rparr>" for cy
          using False m(2,3,5) by (intro verdict_okI) (linarith | simp)+
        ultimately show ?thesis by metis
      qed
    qed
  qed
qed

section \<open>The script and the reply\<close>

lemma script_clock_ok:
  assumes srv: "hash_server srv" and now: "year_2000 \<le> m" "\<not> sc \<Longrightarrow> x = of_int m"
  shows "\<exists>n. script_clock srv sc x s = of_int n \<and> year_2000 \<le> n"
proof (cases sc)
  case True
  obtain sec usec where t: "vk_TIME srv s = (sec, usec)" by (cases "vk_TIME srv s")
  note law = hash_serverD(11) [OF srv t, unfolded year_2000_def]
  have e: "exact sec" "exact usec" "exact (sec * 1000000)" "exact (sec * 1000000 + usec)" using law by linarith+
  have "lua_mul (of_int sec) 1000000 = of_int (sec * 1000000)" using lua_mul_int [OF e(3)] by simp
  then have "script_clock srv sc x s = of_int (sec * 1000000 + usec)"
    using True t e(1,2) by (simp only: script_clock_def if_True prod.case Let_def fl_int lua_add_int [OF e(4)])
  then show ?thesis using law unfolding year_2000_def by blast
qed (use now in \<open>auto simp: script_clock_def\<close>)

lemma admit_overflow_bound:
  assumes pn: "policy_numbers C L P a" and "\<not> admit_overflow True a (of_int n)"
  shows "n \<le> 9007199254740991 - P"
proof -
  note pd = policy_numbersD [OF pn] and bd = numbers_bounds [OF pn]
  have "lua_sub max_exact (of_int P) = of_int (9007199254740991 - P)"
    unfolding max_exact_int using pd bd by (intro lua_sub_int) linarith
  then have "(of_int n :: rat) \<le> of_int (9007199254740991 - P)"
    using assms(2) pd(7) by (simp add: admit_overflow_def not_less)
  then show ?thesis unfolding of_int_le_iff .
qed

lemma admit_stored_ok:
  assumes pn: "policy_numbers C L P a" and n0: "year_2000 \<le> n0"
  shows "admit_stored True strtod srv key a (of_int n0) s \<in> {Return (refusal ''corrupt''), Return (refusal ''overflow'')} \<or>
    (\<exists>sd n. admit_stored True strtod srv key a (of_int n0) s = Value sd \<and> sd_now sd = of_int n \<and> instant_ok P n \<and>
      (\<forall>l. tonumber strtod (vk_HGET srv s key ''last'') = Some (of_int l) \<longrightarrow> l \<le> n))"
proof (cases "corrupt_observed strtod (vk_HGET srv s key ''last'')")
  case True
  then show ?thesis by (simp add: admit_stored_def Let_def)
next
  case False
  note pd = policy_numbersD [OF pn] and bd = numbers_bounds [OF pn]
  obtain x where x: "tonumber strtod (vk_HGET srv s key ''last'') = Some x" "\<not> not_exact x"
    using False by (auto simp: corrupt_observed_def)
  obtain l where l: "x = of_int l" "\<bar>l\<bar> \<le> 9007199254740991" using not_exact_int [OF x(2)] by blast
  define n where "n = max n0 l"
  have sel: "(if of_int n0 < (of_int l :: rat) then of_int l else of_int n0) = (of_int n :: rat)" by (simp add: n_def max_def)
  have M: "lua_sub max_exact (of_int P) = of_int (9007199254740991 - P)"
    unfolding max_exact_int using pd bd by (intro lua_sub_int) linarith
  have "year_2000 \<le> n" "l \<le> n" using n0 by (simp_all add: n_def)
  then show ?thesis
    using False x(1) l(1) sel M pd(7)
    by (auto simp: admit_stored_def Let_def instant_ok_def simp del: of_int_diff)
qed

lemma admit_algorithm_ok:
  assumes srv: "hash_server srv" and p: "policy_wf p" "p_algorithm p \<noteq> Concurrency"
    and K: "1 \<le> K" "K \<le> int (unat (Limit p))" and sd: "sd_now sd = of_int n" "instant_ok (int (period_us p)) n"
    and last: "\<forall>l. tonumber strtod (vk_HGET srv s key ''last'') = Some (of_int l) \<longrightarrow> l \<le> n"
    and a_def: "a = policy_args p K now sc ttl"
  shows "fst (admit_algorithm True strtod srv key a sd s) = Return (refusal ''corrupt'') \<or>
    (\<exists>v. fst (admit_algorithm True strtod srv key a sd s) = Value v \<and> verdict_ok (int (unat (Limit p))) K n v)"
proof -
  have pn: "policy_numbers (int (unat (p_capacity p))) (int (unat (Limit p))) (int (period_us p)) a"
    unfolding a_def by (rule numbers_of_policy [OF p])
  have c: "aa_cost a = of_int K" "aa_algorithm a = algorithm_text (p_algorithm p)" by (simp_all add: a_def policy_args_def)
  have "p_algorithm p \<in> {TokenBucket, FixedWindow, SlidingWindow}" using p by (auto simp: policy_wf_def)
  then consider "admit_algorithm True strtod srv key a sd s = admit_token True strtod srv key a sd s"
    | "admit_algorithm True strtod srv key a sd s = admit_fixed True strtod srv key a sd s"
    | "admit_algorithm True strtod srv key a sd s = admit_sliding True strtod srv key a sd s"
    by (auto simp: admit_algorithm_def c(2) algorithm_text_def)
  then show ?thesis
  proof cases
    case 1
    show ?thesis unfolding 1 by (rule admit_token_ok [OF pn K c(1) sd(2,1)]) (use last in blast)
  next
    case 2
    show ?thesis unfolding 2 by (rule admit_fixed_ok [OF pn K c(1) sd(2,1)])
  next
    case 3
    show ?thesis unfolding 3 by (rule admit_sliding_ok [OF srv pn K c(1) sd(2,1)])
  qed
qed

text \<open>Every strict script run on the arguments of a valid request ends with a reply of one of three kinds.\<close>

lemma strict_script_replies:
  assumes srv: "hash_server srv" and r: "request_ok r" "micro_range (r_Now r)" "p_algorithm (r_Policy r) \<noteq> Concurrency"
    and now: "year_2000 \<le> r_Now r div 1000"
  defines "L \<equiv> int (unat (Limit (r_Policy r)))"
  shows "\<exists>reply s'. admitScript True strtod srv key (strict_args st r) s = (Some reply, s') \<and>
    (reply = refusal ''overflow'' \<or> reply = refusal ''corrupt'' \<or>
     (\<exists>a n v. reply = admit_reply True a (of_int n) v \<and> aa_limit a = of_int L \<and> 0 \<le> n \<and> n \<le> 9007199254740991 \<and>
        verdict_ok L (int (unat (r_Cost r))) n v))"
proof -
  let ?p = "r_Policy r" and ?K = "int (unat (r_Cost r))" and ?P = "int (period_us (r_Policy r))"
  have wf: "policy_wf ?p" using r by (simp add: request_ok_def)
  have "unat (p_maxCost ?p) \<le> unat (Limit ?p)" using wf by (simp add: policy_wf_Limit) (simp add: policy_wf_def)
  then have K: "1 \<le> ?K" "?K \<le> int (unat (Limit ?p))" using r(1) unfolding request_ok_def by linarith+
  define a where "a = policy_args ?p ?K (r_Now r div 1000) (vo_Clock (vs_options st) = VkServerClock)
    (Milliseconds (valkeyStateTTL (p_period ?p)))"
  have args: "admit_args strtod (strict_args st r) = Some a" unfolding a_def by (rule admit_args_policy [OF r])
  have pn: "policy_numbers (int (unat (p_capacity ?p))) L ?P a"
    unfolding a_def L_def by (rule numbers_of_policy [OF wf r(3)])
  obtain n0 where n0: "script_clock srv (aa_server_clock a) (aa_now a) s = of_int n0" "year_2000 \<le> n0"
    using script_clock_ok [OF srv now, of "aa_server_clock a" "aa_now a"] by (auto simp: a_def policy_args_def)
  note unfold = admitScript_def args option.case Let_def n0(1)
  show ?thesis
  proof (cases "admit_overflow True a (of_int n0)")
    case True
    then show ?thesis by (simp only: unfold if_True) blast
  next
    case fits: False
    show ?thesis
    proof (cases "admit_open True srv key a (of_int n0) s")
      case (Return reply)
      then have "reply = refusal ''corrupt''" by (auto simp: admit_open_def Let_def split: if_splits)
      then show ?thesis by (simp only: unfold fits if_False Return lua.case) blast
    next
      case Raise
      then show ?thesis by (simp add: admit_open_def Let_def split: if_splits)
    next
      case (Value s1)
      note unfold' = unfold fits if_False Value lua.case
      show ?thesis
      proof (cases "admit_fields True srv key a s1")
        case False
        then show ?thesis by (simp only: unfold' if_True simp_thms) blast
      next
        case fields: True
        consider (stop) reply where "admit_stored True strtod srv key a (of_int n0) s1 = Return reply"
            "reply \<in> {refusal ''corrupt'', refusal ''overflow''}"
          | (go) sd n where "admit_stored True strtod srv key a (of_int n0) s1 = Value sd" "sd_now sd = of_int n" "instant_ok ?P n"
            "\<forall>l. tonumber strtod (vk_HGET srv s1 key ''last'') = Some (of_int l) \<longrightarrow> l \<le> n"
          using admit_stored_ok [OF pn n0(2), of strtod srv key s1] by blast
        then show ?thesis
        proof cases
          case stop
          then show ?thesis using fields by (simp only: unfold' simp_thms if_False) blast
        next
          case go
          obtain x s2 where alg: "admit_algorithm True strtod srv key a sd s1 = (x, s2)"
            by (cases "admit_algorithm True strtod srv key a sd s1")
          have n: "0 \<le> n" "n \<le> 9007199254740991" using go(3) by (simp_all add: instant_ok_def year_2000_def)
          have "x = Return (refusal ''corrupt'') \<or> (\<exists>v. x = Value v \<and> verdict_ok L ?K n v)"
            using admit_algorithm_ok [OF srv wf r(3) K go(2,3,4) a_def] alg unfolding L_def by simp
          then show ?thesis
          proof
            assume "x = Return (refusal ''corrupt'')"
            then show ?thesis using fields go alg by (simp only: unfold' simp_thms if_False if_True prod.case) blast
          next
            assume "\<exists>v. x = Value v \<and> verdict_ok L ?K n v"
            then obtain v where v: "x = Value v" "verdict_ok L ?K n v" by blast
            then have "admitScript True strtod srv key (strict_args st r) s =
                (Some (admit_reply True a (of_int n) v), admit_finish True srv key a (of_int n) v s2)"
              using fields go alg by (simp only: unfold' simp_thms if_False if_True prod.case)
            then show ?thesis using v n policy_numbersD(6) [OF pn] by blast
          qed
        qed
      qed
    qed
  qed
qed

lemma ParseUint_FormatInt: "0 \<le> n \<Longrightarrow> n < 18446744073709551616 \<Longrightarrow> ParseUint (FormatInt n) = Some (of_nat (nat n))"
  unfolding FormatInt_def by (simp add: ParseUint_decimal nat_less_iff)

lemma decode_verdict:
  assumes v: "verdict_ok L K n v" and a: "aa_limit a = of_int L" and n: "0 \<le> n" "n \<le> 9007199254740991"
    and L: "L = int (unat (Limit (r_Policy r)))" "L \<le> 9007199254740991" and K: "K = int (unat (r_Cost r))" "K \<le> L"
  shows "\<exists>d err. decodeStrictDecisionReply (admit_reply True a (of_int n) v) = (d, err) \<and> complete r d err \<and>
    d_Allowed d = vd_allowed v"
proof -
  obtain rem reset retry where e: "vd_remaining v = of_int rem" "vd_reset v = of_int reset" "vd_retry v = of_int retry"
    and b: "0 \<le> rem" "rem \<le> (if vd_allowed v then L - K else K - 1)" "n \<le> reset" "\<bar>reset\<bar> \<le> 36028797018963968"
      "0 \<le> retry" "retry \<le> 9223372036854775"
    using v unfolding verdict_ok_def by blast
  have L0: "0 \<le> L" "0 \<le> K" using L K by simp_all
  have rm: "rem \<le> 9007199254740991" using b(2) L(2) K(2) L0 by (simp split: if_splits)
  have rng: "int64_range reset" "int64_range retry" "int64_range n" "int64_range (retry * 1000)"
    using b n by (auto simp: int64_range_def)
  have parse: "ParseUint (FormatInt rem) = Some (of_nat (nat rem))" "ParseUint (FormatInt L) = Some (Limit (r_Policy r))"
    "ParseInt (FormatInt reset) = Some reset" "ParseInt (FormatInt retry) = Some retry" "ParseInt (FormatInt n) = Some n"
    using ParseUint_FormatInt [of rem] ParseUint_FormatInt [of L] L0 b(1) rm L rng by (simp_all add: Parse_FormatInt)
  have zero: "ParseInt ''0'' = Some 0" by (simp add: ParseInt_def all_digits_def in_range_def digits_value_def)
  have rs: "\<not> IsZero (time_UnixMicro reset)" "\<not> time_UnixMicro reset < time_UnixMicro n"
    using b(3) n by (simp_all add: IsZero_def zero_time_def time_UnixMicro_def)
  have un: "unat (of_nat (nat rem) :: uint64) = nat rem" using rm by (intro u64_of_nat) (simp add: nat_less_iff)
  show ?thesis
  proof (cases "vd_allowed v")
    case True
    have sub: "unat (Limit (r_Policy r) - r_Cost r) = unat (Limit (r_Policy r)) - unat (r_Cost r)" using K L by (intro u64_sub) linarith
    have "rem \<le> L - K" using b(2) True by simp
    then have "(of_nat (nat rem) :: uint64) \<le> Limit (r_Policy r) - r_Cost r"
      unfolding u64_le un sub using b(1) L(1) K by linarith
    then show ?thesis using True rs
      by (simp add: admit_reply_def e a parse zero decodeStrictDecisionReply_def decodeDecision_def ParseBool_def Let_def
          strictValkeyCategory_def complete_def completeAllowed_def i64_def)
  next
    case False
    have "rem \<le> K - 1" using b(2) False by simp
    then have "(of_nat (nat rem) :: uint64) < r_Cost r" unfolding u64_less un using b(1) K(1) by linarith
    then show ?thesis using False rs b(5) rng(4)
      by (simp add: admit_reply_def e a parse zero decodeStrictDecisionReply_def decodeDecision_def ParseBool_def Let_def
          strictValkeyCategory_def complete_def completeRejected_def)
  qed
qed

lemma decode_refusal:
  "decodeStrictDecisionReply (refusal ''overflow'') = (zero_Decision, Some ErrOverflow)"
  "decodeStrictDecisionReply (refusal ''corrupt'') = (zero_Decision, Some ErrCorrupt)"
  by (simp_all add: refusal_def decodeStrictDecisionReply_def decodeDecision_def strictValkeyCategory_def)

section \<open>The store\<close>

text \<open>
  A client that reaches its server: running a script returns the script's reply, or
  an error if the script ended with a runtime error. \<open>view\<close> is the server's state in
  the world of the caller.
\<close>

definition runs_scripts ::
  "('w \<Rightarrow> 's) \<Rightarrow> (string \<Rightarrow> rat option) \<Rightarrow> 's server \<Rightarrow> 'w vkClient \<Rightarrow> bool" where
  "runs_scripts view strtod srv client \<longleftrightarrow>
     (\<forall>strict ctx key args w reply s'. admitScript strict strtod srv key args (view w) = (Some reply, s') \<longrightarrow>
        (\<exists>w'. vc_Exec client (AdmitScript strict) ctx [key] args w = (Inr (map Inr reply), w') \<and> view w' = s')) \<and>
     (\<forall>strict ctx key args w reply s'. acquireLeaseScript strict strtod srv key args (view w) = (Some reply, s') \<longrightarrow>
        (\<exists>w'. vc_Exec client (AcquireScript strict) ctx [key] args w = (Inr (map Inr reply), w') \<and> view w' = s')) \<and>
     (\<forall>strict ctx key args w reply s'. releaseLeaseScript strict strtod srv key args (view w) = (Some reply, s') \<longrightarrow>
        (\<exists>w'. vc_Exec client (ReleaseScript strict) ctx [key] args w = (Inr (map Inr reply), w') \<and> view w' = s'))"

lemma runs_scriptsD:
  assumes "runs_scripts view strtod srv client"
  shows "admitScript strict strtod srv key args (view w) = (Some reply, s') \<Longrightarrow>
      \<exists>w'. vc_Exec client (AdmitScript strict) ctx [key] args w = (Inr (map Inr reply), w') \<and> view w' = s'"
    "acquireLeaseScript strict strtod srv key args (view w) = (Some reply, s') \<Longrightarrow>
      \<exists>w'. vc_Exec client (AcquireScript strict) ctx [key] args w = (Inr (map Inr reply), w') \<and> view w' = s'"
    "releaseLeaseScript strict strtod srv key args (view w) = (Some reply, s') \<Longrightarrow>
      \<exists>w'. vc_Exec client (ReleaseScript strict) ctx [key] args w = (Inr (map Inr reply), w') \<and> view w' = s'"
  using assms by (simp_all add: runs_scripts_def)

lemma decode_messages [simp]: "decodeScriptMessages (map Inr xs) = Inr xs"
  by (induction xs) simp_all

lemma native_exec_admit:
  assumes "runs_scripts view strtod srv client" "admitScript True strtod srv key (strict_args st r) (view w) = (Some reply, s')"
  shows "\<exists>w'. native_exec client ctx [key] (strict_args st r) w = (Inr reply, w') \<and> view w' = s'"
proof -
  have "length (strict_args st r) = 12 \<and> strict_args st r ! 11 = ''strict''"
    by (simp add: strict_args_def vk_args_def Let_def nth_append)
  moreover obtain w' where "vc_Exec client (AdmitScript True) ctx [key] (strict_args st r) w = (Inr (map Inr reply), w')" "view w' = s'"
    using runs_scriptsD(1) [OF assms] by blast
  ultimately show ?thesis by (simp add: native_exec_def executeScript_def)
qed

lemma vk_strictContext_range: "vk_strictContext ctx w = (ce, w') \<Longrightarrow> ce \<in> {None, Some CanceledOutcome, Some DeadlineOutcome}"
  by (auto simp: vk_strictContext_def Let_def split: prod.splits if_splits)

lemma vkStore_AdmitStrict_declared:
  assumes a: "vkStore_AdmitStrict sha256 withTimeout (Some st) (Some ctx) r w = (d, err, w')"
    and st: "vs_executor st = Some (native_executor client)" and cl: "runs_scripts view strtod srv client" "hash_server srv"
    and r: "request_typed r" "Request_Validate r = None" and now: "year_2000 \<le> r_Now r div 1000"
  shows "declared r d err"
proof -
  obtain ce w1 where c: "vk_strictContext ctx w = (ce, w1)" by (cases "vk_strictContext ctx w")
  have ok: "request_ok r" using Request_Validate_ok [OF r] .
  have mr: "micro_range (r_Now r)" using r(1) by (simp add: request_typed_def)
  show ?thesis
  proof (cases "ce = None \<and> p_algorithm (r_Policy r) \<noteq> Concurrency")
    case False
    then show ?thesis using a st r(2) c vk_strictContext_range [OF c]
      by (auto simp: vkStore_AdmitStrict_def vk_strictReady_def declared_def split: if_splits)
  next
    case True
    obtain reply s' where s: "admitScript True strtod srv (vk_key sha256 st r) (strict_args st r) (view w1) = (Some reply, s')"
      and k: "reply = refusal ''overflow'' \<or> reply = refusal ''corrupt'' \<or>
       (\<exists>a n v. reply = admit_reply True a (of_int n) v \<and> aa_limit a = of_int (int (unat (Limit (r_Policy r)))) \<and> 0 \<le> n \<and>
          n \<le> 9007199254740991 \<and> verdict_ok (int (unat (Limit (r_Policy r)))) (int (unat (r_Cost r))) n v)"
      using strict_script_replies [OF cl(2) ok mr _ now] True by blast
    obtain w2 where "native_exec client (withTimeout ctx (vo_Timeout (vs_options st))) [vk_key sha256 st r] (strict_args st r) w1 = (Inr reply, w2)"
      using native_exec_admit [OF cl(1) s] by blast
    then have d: "decodeStrictDecisionReply reply = (d, err)"
      using a st r(2) c True by (simp add: vkStore_AdmitStrict_def vk_strictReady_def strict_args_def native_executor_def Let_def split: prod.splits)
    have wf: "policy_wf (r_Policy r)" using ok by (simp add: request_ok_def)
    have "unat (r_Cost r) \<le> unat (Limit (r_Policy r))"
      using ok wf by (simp add: request_ok_def policy_wf_Limit) (simp add: policy_wf_def)
    then have b: "int (unat (Limit (r_Policy r))) \<le> 9007199254740991" "int (unat (r_Cost r)) \<le> int (unat (Limit (r_Policy r)))"
      using policy_wf_Limit_bound [OF wf] by linarith+
    show ?thesis
    proof (cases "reply \<in> {refusal ''overflow'', refusal ''corrupt''}")
      case True
      then show ?thesis using d by (auto simp: decode_refusal declared_def)
    next
      case False
      then show ?thesis using k d decode_verdict [OF _ _ _ _ refl b(1) refl b(2)] by (fastforce simp: declared_def)
    qed
  qed
qed

section \<open>A server that keeps its documentation\<close>

text \<open>Hashes as association lists, times to live as instants in milliseconds.\<close>

record vkTable =
  vt_hash :: "string \<Rightarrow> (string \<times> string) list"
  vt_expiry :: "string \<Rightarrow> int option"
  vt_clock :: int

definition vt_live :: "vkTable \<Rightarrow> string \<Rightarrow> (string \<times> string) list" where
  "vt_live s key = (case vt_expiry s key of Some t \<Rightarrow> if t \<le> vt_clock s then [] else vt_hash s key | None \<Rightarrow> vt_hash s key)"

definition vt_store :: "string \<Rightarrow> (string \<times> string) list \<Rightarrow> vkTable \<Rightarrow> vkTable" where
  "vt_store key h s = s\<lparr>vt_hash := (vt_hash s)(key := h),
     vt_expiry := (if vt_live s key = [] then (vt_expiry s)(key := None) else vt_expiry s)\<rparr>"

definition hset :: "(string \<times> string) list \<Rightarrow> (string \<times> string) list \<Rightarrow> (string \<times> string) list" where
  "hset fs h = fold (\<lambda>(f, v). AList.update f v) fs h"

definition table_server :: "vkTable server" where
  "table_server =
     \<lparr>vk_TIME = (\<lambda>s. (1700000000, 0)), vk_EXISTS = (\<lambda>s key. AList.clearjunk (vt_live s key) \<noteq> []),
      vk_MEMORY_USAGE = (\<lambda>s key. Some 4096),
      vk_HGET = (\<lambda>s key. map_of (AList.clearjunk (vt_live s key))),
      vk_HLEN = (\<lambda>s key. length (AList.clearjunk (vt_live s key))),
      vk_HKEYS = (\<lambda>s key. map fst (AList.clearjunk (vt_live s key))),
      vk_HSTRLEN = (\<lambda>s key f. case map_of (AList.clearjunk (vt_live s key)) f of None \<Rightarrow> 0 | Some v \<Rightarrow> length v),
      vk_HGETALL = (\<lambda>s key. AList.clearjunk (vt_live s key)),
      vk_HSET = (\<lambda>key fs s. vt_store key (hset fs (vt_live s key)) s),
      vk_HDEL = (\<lambda>key f s. vt_store key (AList.delete f (vt_live s key)) s),
      vk_DEL = (\<lambda>key s. vt_store key [] s),
      vk_PEXPIRE = (\<lambda>key ttl s. if vt_live s key = [] then s else s\<lparr>vt_expiry := (vt_expiry s)(key \<mapsto> vt_clock s + ttl)\<rparr>)\<rparr>"

lemma hset_map: "map_of (hset fs h) = map_of h ++ map_of (rev fs)"
proof (induction fs arbitrary: h)
  case (Cons x fs)
  then show ?case by (cases x) (auto simp: hset_def map_add_def fun_eq_iff split: option.splits)
qed (simp add: hset_def)

lemma vt_store_live: "vt_live (vt_store key h s) key' = (if key' = key then h else vt_live s key')"
  by (auto simp: vt_live_def vt_store_def split: option.splits if_splits)

lemma table_server_ok: "hash_server table_server"
proof -
  have "vt_live (s\<lparr>vt_expiry := (vt_expiry s)(key \<mapsto> vt_clock s + ttl)\<rparr>) key' = vt_live s key'"
    if "0 < ttl" "vt_live s key \<noteq> []" for s key key' ttl
    using that by (auto simp: vt_live_def split: option.splits if_splits)
  then show ?thesis
    unfolding hash_server_def table_server_def
    by (auto simp: map_of_clearjunk vt_store_live hset_map distinct_clearjunk year_2000_def fun_eq_iff)
qed

text \<open>A client of that server, with the server as its world.\<close>

definition script_result :: "string list option \<times> 's \<Rightarrow> (go_error + (go_error + string) list) \<times> 's" where
  "script_result x = (case x of
     (None, s) \<Rightarrow> (Inl (Foreign ''ERR'' []), s)
   | (Some reply, s) \<Rightarrow> (Inr (map Inr reply), s))"

definition table_client :: "vkTable vkClient" where
  "table_client =
     \<lparr>vc_Exec = (\<lambda>script ctx ks args s.
        case script of
          AdmitScript strict \<Rightarrow> script_result (admitScript strict (\<lambda>t. None) table_server (hd ks) args s)
        | AcquireScript strict \<Rightarrow> script_result (acquireLeaseScript strict (\<lambda>t. None) table_server (hd ks) args s)
        | ReleaseScript strict \<Rightarrow> script_result (releaseLeaseScript strict (\<lambda>t. None) table_server (hd ks) args s)),
      vc_Info = (\<lambda>ctx s. (Inr ''valkey_version:9.0.0'', s)),
      vc_Config = (\<lambda>ctx s. (Inr [(''maxmemory-policy'', ''noeviction'')], s))\<rparr>"

lemma table_client_runs: "runs_scripts id (\<lambda>t. None) table_server table_client"
  by (simp add: runs_scripts_def table_client_def script_result_def)

definition table_options :: vkOptions where
  "table_options = \<lparr>vo_Prefix = ''rl'', vo_Timeout = Second, vo_Clock = VkClientClock\<rparr>"

definition empty_table :: vkTable where
  "empty_table = \<lparr>vt_hash = (\<lambda>key. []), vt_expiry = (\<lambda>key. None), vt_clock = 0\<rparr>"

section \<open>The strict service over Valkey\<close>

lemma vk_NewStrict_store: "vk_NewStrict (Some client) options = Inr st \<Longrightarrow> vs_executor st = Some (native_executor client)"
  by (auto simp: vk_NewStrict_def vk_New_def vk_newStore_def Let_def split: if_splits)



end
