(* ===== verification/Valkey_Retention.thy ===== *)
theory Valkey_Retention
  imports Valkey_Certain
begin

text \<open>
  How long the Valkey backend keeps a token bucket. Every strict admission sets the time
  to live of the hash to twice the policy's period, whatever the burst. A bucket with a
  burst above its capacity needs longer than that to fill, so an idle key is forgotten
  while tokens are still missing, and the next request finds a full bucket.
\<close>

section \<open>A key without state\<close>

text \<open>The fields of a hash that an admission creates.\<close>

definition created_fields :: "admitArgs \<Rightarrow> rat \<Rightarrow> (string \<times> string) list" where
  "created_fields a now = new_fields True a now @ [(''period'', integer_text (aa_period a)), (''carried'', ''0'')]"

lemma created_state:
  assumes srv: "hash_server srv" and absent: "vk_HGETALL srv s key = []"
  shows "\<exists>s1. admit_open True srv key a now s = Value s1 \<and> vk_HGET srv s1 key = map_of (created_fields a now)"
proof -
  define s1 where "s1 = vk_HSET srv key [(''period'', integer_text (aa_period a)), (''carried'', ''0'')]
    (vk_HSET srv key (new_fields True a now) s)"
  have "admit_open True srv key a now s = Value s1"
    using hash_serverD(1) [OF srv] absent by (simp add: admit_open_def s1_def Let_def)
  moreover have "vk_HGET srv s1 key = map_of (created_fields a now)"
  proof -
    have "vk_HGET srv s key = Map.empty" using hash_serverD(3) [OF srv] absent by simp
    then show ?thesis
      unfolding s1_def hash_serverD(7) [OF srv] created_fields_def new_fields_def
      by (auto simp: fun_eq_iff map_add_def)
  qed
  ultimately show ?thesis by blast
qed

lemma fields_boundedI:
  assumes "\<And>f. f \<in> set fs \<Longrightarrow> length f \<le> 66 \<and> vk_HSTRLEN srv s key f \<le> 128 \<and> allowed f"
    and "bytes + 194 * length fs \<le> max_state_bytes"
  shows "fields_bounded srv key allowed s bytes fs"
  using assms
proof (induction fs arbitrary: bytes)
  case (Cons f fs)
  have f: "length f \<le> 66 \<and> vk_HSTRLEN srv s key f \<le> 128 \<and> allowed f" using Cons.prems(1) [of f] by simp
  then have b: "(bytes + length f + vk_HSTRLEN srv s key f) + 194 * length fs \<le> max_state_bytes" using Cons.prems(2) by simp
  moreover have "fields_bounded srv key allowed s (bytes + length f + vk_HSTRLEN srv s key f) fs"
    by (rule Cons.IH [OF _ b]) (use Cons.prems(1) in simp)
  ultimately show ?case using f by (simp add: Let_def not_less)
qed simp

text \<open>The texts a new hash holds are short.\<close>

lemma digits_length: "n < 10 ^ Suc k \<Longrightarrow> length (decimal_digits n) \<le> Suc k"
proof (induction k arbitrary: n)
  case (Suc k)
  show ?case
  proof (cases "n < 10")
    case False
    have "n div 10 < 10 ^ Suc k" using Suc.prems by (simp add: less_mult_imp_div_less)
    then show ?thesis using Suc.IH [of "n div 10"] False by (subst decimal_digits.simps) simp
  qed (subst decimal_digits.simps, simp)
qed (subst decimal_digits.simps, simp)

lemma FormatInt_length: "0 \<le> n \<Longrightarrow> n \<le> 9007199254740991 \<Longrightarrow> length (FormatInt n) \<le> 16"
  using digits_length [of "nat n" 15] by (simp add: FormatInt_def)

lemma FormatInt_canonical:
  assumes "0 \<le> n" "n \<le> 9007199254740991"
  shows "canonical_unsigned (Some (FormatInt n))" "canonical_signed (Some (FormatInt n))"
proof -
  have "positive_digits (FormatInt n)" if "n \<noteq> 0"
  proof -
    have "hd (decimal_digits m) \<noteq> CHR ''0''" if "0 < m" for m
      using that
    proof (induction m rule: decimal_digits.induct)
      case (1 m)
      show ?case
      proof (cases "m < 10")
        case True
        have "char_of (48 + m) \<noteq> CHR ''0''"
        proof
          assume "char_of (48 + m) = CHR ''0''"
          then have "(of_char (char_of (48 + m) :: char) :: nat) = of_char CHR ''0''" by simp
          then show False using of_char_digit [OF True] "1.prems" by simp
        qed
        then show ?thesis using True by (subst decimal_digits.simps) simp
      next
        case False
        then show ?thesis using 1 decimal_digits_hd(2) [of "m div 10"] by (subst decimal_digits.simps) simp
      qed
    qed
    then show ?thesis using that assms by (simp add: positive_digits_def FormatInt_def)
  qed
  moreover have "FormatInt 0 = ''0''" by code_simp
  ultimately show c: "canonical_unsigned (Some (FormatInt n))"
    using FormatInt_length [OF assms] by (cases "n = 0") (auto simp: canonical_unsigned_def)
  then show "canonical_signed (Some (FormatInt n))" by (simp add: canonical_signed_def)
qed

section \<open>The first admission\<close>

text \<open>A new token bucket passes the checks on its fields and holds the limit.\<close>

lemma created_HGET:
  assumes "vk_HGET srv s1 key = map_of (created_fields a now)"
  shows "vk_HGET srv s1 key ''tokens'' = Some (integer_text (aa_limit a))" "vk_HGET srv s1 key ''remainder'' = Some ''0''"
    "vk_HGET srv s1 key ''last'' = Some (integer_text now)" "vk_HGET srv s1 key ''revision'' = Some (aa_revision a)"
    "vk_HGET srv s1 key ''carried'' = Some ''0''"
  by (simp_all add: assms created_fields_def new_fields_def)

lemma created_keys:
  "set (map fst (created_fields a now)) = set (allowed_fields ''token_bucket'')"
  "card (set (allowed_fields ''token_bucket'')) = 11"
  "f \<in> set (allowed_fields ''token_bucket'') \<Longrightarrow> length f \<le> 66"
  by (auto simp: created_fields_def new_fields_def allowed_fields_def)

lemma created_values:
  assumes "length (aa_schema a) \<le> 128" "length (aa_policy_id a) \<le> 128" "length (aa_algorithm a) \<le> 128" "length (aa_revision a) \<le> 128"
    "length (integer_text (aa_limit a)) \<le> 128" "length (integer_text now) \<le> 128" "length (integer_text (aa_period a)) \<le> 128"
    and "map_of (created_fields a now) f = Some v"
  shows "length v \<le> 128"
proof -
  have "(f, v) \<in> set (created_fields a now)" using assms(8) by (rule map_of_SomeD)
  then have "v \<in> set (map snd (created_fields a now))" by force
  then show ?thesis using assms(1-7) by (auto simp: created_fields_def new_fields_def)
qed

lemma created_admit_fields:
  assumes srv: "hash_server srv" and h: "vk_HGET srv s1 key = map_of (created_fields a (of_int n))"
    and p: "policy_wf p" "p_algorithm p = TokenBucket" and a: "a = policy_args p K now sc ttl"
    and n: "0 \<le> n" "n \<le> 9007199254740991"
  shows "admit_fields True srv key a s1"
proof -
  let ?g = "vk_HGETALL srv s1 key"
  have nb: "policy_numbers (int (unat (p_capacity p))) (int (unat (Limit p))) (int (period_us p)) a"
    unfolding a by (rule numbers_of_policy) (use p in simp_all)
  note pd = policy_numbersD [OF nb] and bd = numbers_bounds [OF nb]
  have m: "map_of ?g = map_of (created_fields a (of_int n))" using hash_serverD(3) [OF srv, of s1 key] h by (simp only:)
  have d: "distinct (map fst ?g)" by (rule hash_serverD(2) [OF srv])
  have gk: "set (map fst ?g) = set (allowed_fields ''token_bucket'')"
    unfolding created_keys(1) [of a "of_int n", symmetric] using arg_cong [OF m, of dom] by (simp only: dom_map_of_conv_image_fst set_map)
  have len: "length ?g = 11" using distinct_card [OF d] unfolding gk created_keys(2) by (simp only: length_map)
  have alg: "aa_algorithm a = ''token_bucket''" using a p by (simp add: policy_args_def algorithm_text_def)
  have ids: "length (aa_schema a) \<le> 128" "length (aa_policy_id a) \<le> 128" "length (aa_revision a) \<le> 128"
    using p(1) by (auto simp: a policy_args_def policy_wf_def validPolicyIdentifier_def MaxPolicyIDBytes_def MaxPolicyRevisionBytes_def)
  have nums: "length (integer_text (of_int k)) \<le> 128" if "0 \<le> k" "k \<le> 9007199254740991" for k
    unfolding integer_text_int using FormatInt_length [OF that] by linarith
  have "length v \<le> 128" if "map_of (created_fields a (of_int n)) f = Some v" for f v
  proof (rule created_values [OF ids(1,2) _ ids(3) _ nums [OF n] _ that])
    show "length (aa_algorithm a) \<le> 128" unfolding alg by simp
    show "length (integer_text (aa_limit a)) \<le> 128" unfolding pd(6) by (rule nums) (use bd in linarith)+
    show "length (integer_text (aa_period a)) \<le> 128" unfolding pd(7) by (rule nums) (use pd(3) bd in linarith)+
  qed
  note that' = this
  have bounded: "length f \<le> 66 \<and> vk_HSTRLEN srv s1 key f \<le> 128 \<and> f \<in> set (allowed_fields ''token_bucket'')"
    if "f \<in> set (map fst ?g)" for f
  proof -
    have "vk_HSTRLEN srv s1 key f \<le> 128"
      unfolding hash_serverD(6) [OF srv] h using that' by (cases "map_of (created_fields a (of_int n)) f") simp_all
    then show ?thesis using that created_keys(3) unfolding gk by blast
  qed
  have "fields_bounded srv key (\<lambda>f. f \<in> set (allowed_fields ''token_bucket'')) s1 0 (map fst ?g)"
    by (rule fields_boundedI [OF bounded]) (simp_all add: len max_state_bytes_def)
  moreover have "''token_bucket'' \<noteq> ''sliding_window''" by simp
  ultimately show ?thesis
    unfolding admit_fields_def alg hash_serverD(4,5) [OF srv] Let_def len by (simp only: if_False simp_thms)
qed

text \<open>What the script reads of a new hash, and its decision: the whole limit is there.\<close>

lemma created_stored:
  assumes h: "vk_HGET srv s1 key = map_of (created_fields a (of_int n))" and pn: "policy_numbers C L P a"
    and alg: "aa_algorithm a = ''token_bucket''" and n: "instant_ok P n"
  shows "admit_stored True strtod srv key a (of_int n) s1 =
    Value \<lparr>sd_revision = Some (aa_revision a), sd_carried = False, sd_now = of_int n\<rparr>"
proof -
  note pd = policy_numbersD [OF pn] and bd = numbers_bounds [OF pn] and g = created_HGET [OF h]
  have n': "0 \<le> n" "n \<le> 9007199254740991" using n pd(3) by (simp_all add: instant_ok_def year_2000_def)
  have num: "tonumber strtod (Some (FormatInt n)) = Some (of_int n)" by (rule tonumber_FormatInt) (use n' in linarith)
  have M: "lua_sub max_exact (of_int P) = of_int (9007199254740991 - P)"
    unfolding max_exact_int using pd bd by (intro lua_sub_int) linarith
  have "\<not> corrupt_period strtod a (vk_HGET srv s1 key ''period'')" by (simp add: corrupt_period_def alg)
  moreover have "\<not> corrupt_observed strtod (Some (FormatInt n))"
    using FormatInt_canonical(2) [OF n'] n' num by (simp add: corrupt_observed_def not_exact_def max_exact_def)
  moreover have "\<not> (of_int n :: rat) > lua_sub max_exact (aa_period a)"
    unfolding pd(7) M of_int_less_iff using n by (simp add: instant_ok_def)
  moreover have "\<not> window_overflow True a (of_int n)" by (simp add: window_overflow_def alg)
  ultimately show ?thesis by (simp add: admit_stored_def Let_def g num)
qed

lemma created_token:
  assumes h: "vk_HGET srv s1 key = map_of (created_fields a (of_int n))" and pn: "policy_numbers C L P a"
    and K: "1 \<le> K" "K \<le> L" "aa_cost a = of_int K" and n: "instant_ok P n"
    and sd: "sd = \<lparr>sd_revision = Some (aa_revision a), sd_carried = False, sd_now = of_int n\<rparr>"
  shows "\<exists>v s2. admit_token True strtod srv key a sd s1 = (Value v, s2) \<and> vd_allowed v \<and> verdict_ok L K n v"
proof -
  note pd = policy_numbersD [OF pn] and bd = numbers_bounds [OF pn] and g = created_HGET [OF h, unfolded pd(6) integer_text_int]
  have n': "0 \<le> n" "n \<le> 9007199254740991" and L': "0 \<le> L" using n pd bd by (simp_all add: instant_ok_def year_2000_def)
  have num: "tonumber strtod (Some (FormatInt n)) = Some (of_int n)" "tonumber strtod (Some (FormatInt L)) = Some (of_int L)"
    by (rule tonumber_FormatInt; use n' L' bd in linarith)+
  have z: "FormatInt 0 = ''0''" by code_simp
  have num0: "tonumber strtod (Some ''0'') = Some (of_int 0)" unfolding z [symmetric] by (rule tonumber_FormatInt) simp
  have can: "canonical_unsigned (Some ''0'')" by (simp add: canonical_unsigned_def)
  have ok: "\<not> corrupt_token strtod a True (Some (FormatInt L)) (Some ''0'') (Some (FormatInt n))"
    using FormatInt_canonical(2) [OF n'] FormatInt_canonical(1) [OF L' bd(1)] can n' L' bd(1) pd(3)
    by (simp add: corrupt_token_def num num0 not_exact_def not_exact_unsigned_def max_exact_def pd(6,7) lua_floor_def)
  have e: "exact n" using n' by linarith
  obtain t1 t' r' reset retry where
    f: "lua_refill a (of_int n) (of_int L) (of_int 0) (of_int n) = (of_int t1, of_int r')" and
    tok: "lua_token True a (of_int n) False (of_int L) (of_int 0) (of_int n) =
      (\<lparr>vd_allowed = (K \<le> t1), vd_remaining = of_int t', vd_reset = of_int reset, vd_retry = of_int retry,
        vd_carried = False\<rparr>, of_int t', of_int r')"
    and v: "0 \<le> t'" "t' \<le> (if K \<le> t1 then L - K else K - 1)" "n \<le> reset" "\<bar>reset\<bar> \<le> 36028797018963968"
      "0 \<le> retry" "retry \<le> 9007199254740991"
    using token_exact [OF pn K L' order.refl order.refl _ order.refl e e, of False] pd(3) by force
  have "t1 = L" using f by (simp add: lua_refill_def pd(6))
  then have al: "K \<le> t1" using K by simp
  have "\<exists>s2. admit_token True strtod srv key a sd s1 = (Value \<lparr>vd_allowed = True, vd_remaining = of_int t',
      vd_reset = of_int reset, vd_retry = of_int retry, vd_carried = False\<rparr>, s2)"
    using tok al by (simp add: admit_token_def Let_def g num num0 ok sd)
  moreover have "verdict_ok L K n \<lparr>vd_allowed = True, vd_remaining = of_int t', vd_reset = of_int reset, vd_retry = of_int retry, vd_carried = False\<rparr>"
    by (rule verdict_okI) (use v al in simp_all)
  ultimately show ?thesis by force
qed

lemma state_ttl:
  assumes "policy_wf p" "p_algorithm p \<noteq> Concurrency"
  shows "Milliseconds (valkeyStateTTL (p_period p)) * 1000000 \<le> max (2 * p_period p) Second"
    "0 < Milliseconds (valkeyStateTTL (p_period p))" "Milliseconds (valkeyStateTTL (p_period p)) \<le> 9223372036854"
proof -
  have p: "1000 \<le> p_period p" "p_period p \<le> 9223372036854775807" using assms by (auto simp: policy_wf_def duration_wf_def)
  have "valkeyStateTTL (p_period p) = (if 4611686018427387903 < p_period p then 9223372036854775807 else max (2 * p_period p) Second)"
  proof (cases "4611686018427387903 < p_period p")
    case False
    then have "i64 (p_period p * 2) = 2 * p_period p" using p by (intro trans [OF i64_id]) (simp_all add: int64_range_def)
    then show ?thesis using False by (simp add: valkeyStateTTL_def)
  qed (simp add: valkeyStateTTL_def)
  then have b: "1000000000 \<le> valkeyStateTTL (p_period p)" "valkeyStateTTL (p_period p) \<le> 9223372036854775807"
      "valkeyStateTTL (p_period p) \<le> max (2 * p_period p) Second"
    using p by auto
  then have ms: "Milliseconds (valkeyStateTTL (p_period p)) = valkeyStateTTL (p_period p) div 1000000"
    by (simp add: Milliseconds_def sdiv_nonneg)
  show "Milliseconds (valkeyStateTTL (p_period p)) * 1000000 \<le> max (2 * p_period p) Second"
    unfolding ms using b(3) div_mult_le [of 1000000 "valkeyStateTTL (p_period p)"] by linarith
  show "0 < Milliseconds (valkeyStateTTL (p_period p))" "Milliseconds (valkeyStateTTL (p_period p)) \<le> 9223372036854"
    unfolding ms using b by linarith+
qed

lemma fresh_hash_admitted:
  assumes srv: "hash_server srv" and r: "request_ok r" "micro_range (r_Now r)" "p_algorithm (r_Policy r) = TokenBucket"
    and now: "year_2000 \<le> r_Now r div 1000" and clock: "vo_Clock (vs_options st) = VkClientClock"
    and absent: "vk_HGETALL srv s key = []"
  defines "L \<equiv> int (unat (Limit (r_Policy r)))" and "K \<equiv> int (unat (r_Cost r))" and "n \<equiv> r_Now r div 1000"
  shows "\<exists>a v s0. admitScript True strtod srv key (strict_args st r) s =
      (Some (admit_reply True a (of_int n) v), vk_PEXPIRE srv key (Milliseconds (valkeyStateTTL (p_period (r_Policy r)))) s0) \<and>
    aa_limit a = of_int L \<and> vd_allowed v \<and> verdict_ok L K n v"
proof -
  let ?p = "r_Policy r" and ?P = "int (period_us (r_Policy r))" and ?ms = "Milliseconds (valkeyStateTTL (p_period (r_Policy r)))"
  have wf: "policy_wf ?p" using r by (simp add: request_ok_def)
  have nc: "p_algorithm ?p \<noteq> Concurrency" using r(3) by simp
  have "unat (p_maxCost ?p) \<le> unat (Limit ?p)" using wf by (simp add: policy_wf_Limit) (simp add: policy_wf_def)
  then have K: "1 \<le> K" "K \<le> L" using r(1) unfolding request_ok_def K_def L_def by linarith+
  define a where "a = policy_args ?p K n False ?ms"
  have args: "admit_args strtod (strict_args st r) = Some a"
    unfolding a_def K_def n_def using admit_args_policy [OF r(1,2) nc, of strtod st] clock by simp
  have pn: "policy_numbers (int (unat (p_capacity ?p))) L ?P a" unfolding a_def L_def by (rule numbers_of_policy [OF wf nc])
  note pd = policy_numbersD [OF pn] and bd = numbers_bounds [OF pn]
  have alg: "aa_algorithm a = ''token_bucket''" by (simp add: a_def policy_args_def r(3) algorithm_text_def)
  have c: "aa_cost a = of_int K" "script_clock srv (aa_server_clock a) (aa_now a) s = of_int n"
    by (simp_all add: a_def policy_args_def script_clock_def)
  have "dur_us ?p = ?P"
    using r(3) wf by (simp add: dur_us_def request_duration_def period_us_def policy_wf_def duration_wf_def pos_imp_zdiv_nonneg_iff)
  then have n: "instant_ok ?P n" using r(1) now by (simp add: instant_ok_def n_def request_ok_def maxExact_def)
  then have n': "0 \<le> n" "n \<le> 9007199254740991" using pd(3) by (simp_all add: instant_ok_def year_2000_def)
  have M: "lua_sub max_exact (of_int ?P) = of_int (9007199254740991 - ?P)"
    unfolding max_exact_int by (rule lua_sub_int) (use pd(3) bd(2) in linarith)
  have over: "\<not> admit_overflow True a (of_int n)"
  proof -
    have "\<not> of_int (9007199254740991 - ?P) < (of_int n :: rat)" unfolding of_int_less_iff using n by (simp add: instant_ok_def)
    then show ?thesis
      using pd(1,3) K(1) bd n'
      unfolding admit_overflow_def window_overflow_def alg pd(5-7) c(1) M unfolding max_exact_int
      by (simp only: of_int_le_0_iff of_int_less_iff of_int_minus [symmetric]) simp
  qed
  obtain s1 where s1: "admit_open True srv key a (of_int n) s = Value s1" "vk_HGET srv s1 key = map_of (created_fields a (of_int n))"
    using created_state [OF srv absent] by blast
  note fields = created_admit_fields [OF srv s1(2) wf r(3) a_def n'] and stored = created_stored [OF s1(2) pn alg n]
  obtain v s2 where tok: "admit_token True strtod srv key a \<lparr>sd_revision = Some (aa_revision a), sd_carried = False, sd_now = of_int n\<rparr> s1 = (Value v, s2)"
    and v: "vd_allowed v" "verdict_ok L K n v"
    using created_token [OF s1(2) pn K c(1) n refl] by blast
  have ttl: "round_even (aa_ttl a) = ?ms"
    using state_ttl(2,3) [OF wf nc] by (simp add: a_def policy_args_def fl_int)
  have "\<exists>s0. admitScript True strtod srv key (strict_args st r) s = (Some (admit_reply True a (of_int n) v), vk_PEXPIRE srv key ?ms s0)"
    using fields
    by (simp only: admitScript_def args option.case Let_def c(2) over if_False s1(1) lua.case stored admit_algorithm_def alg simp_thms if_True
        tok prod.case stored.simps admit_finish_def ttl) blast
  then show ?thesis using v pd(6) by blast
qed

section \<open>The store\<close>

lemma fresh_AdmitStrict:
  assumes st: "vs_executor store = Some (native_executor client)" "vo_Clock (vs_options store) = VkClientClock"
    and cl: "runs_scripts view strtod srv client" "hash_server srv"
    and r: "request_typed r" "Request_Validate r = None" "p_algorithm (r_Policy r) = TokenBucket" "year_2000 \<le> r_Now r div 1000"
    and absent: "vk_HGETALL srv (view w) (vk_key sha256 store r) = []"
  shows "\<exists>d w' s0. vkStore_AdmitStrict sha256 withTimeout (Some store) (Some live_ctx) r w = (d, None, w') \<and> d_Allowed d \<and>
    view w' = vk_PEXPIRE srv (vk_key sha256 store r) (Milliseconds (valkeyStateTTL (p_period (r_Policy r)))) s0"
proof -
  have ok: "request_ok r" using Request_Validate_ok [OF r(1,2)] .
  have mr: "micro_range (r_Now r)" using r(1) by (simp add: request_typed_def)
  have wf: "policy_wf (r_Policy r)" using ok by (simp add: request_ok_def)
  have "unat (r_Cost r) \<le> unat (Limit (r_Policy r))"
    using ok wf by (simp add: request_ok_def policy_wf_Limit) (simp add: policy_wf_def)
  then have b: "int (unat (Limit (r_Policy r))) \<le> 9007199254740991" "int (unat (r_Cost r)) \<le> int (unat (Limit (r_Policy r)))"
    using policy_wf_Limit_bound [OF wf] by linarith+
  obtain a v s0 where s: "admitScript True strtod srv (vk_key sha256 store r) (strict_args store r) (view w) =
      (Some (admit_reply True a (of_int (r_Now r div 1000)) v), vk_PEXPIRE srv (vk_key sha256 store r) (Milliseconds (valkeyStateTTL (p_period (r_Policy r)))) s0)"
    and v: "aa_limit a = of_int (int (unat (Limit (r_Policy r))))" "vd_allowed v"
      "verdict_ok (int (unat (Limit (r_Policy r)))) (int (unat (r_Cost r))) (r_Now r div 1000) v"
    using fresh_hash_admitted [OF cl(2) ok mr r(3,4) st(2) absent] by blast
  obtain w2 where e: "native_exec client (withTimeout live_ctx (vo_Timeout (vs_options store))) [vk_key sha256 store r] (strict_args store r) w =
      (Inr (admit_reply True a (of_int (r_Now r div 1000)) v), w2)"
    and w2: "view w2 = vk_PEXPIRE srv (vk_key sha256 store r) (Milliseconds (valkeyStateTTL (p_period (r_Policy r)))) s0"
    using native_exec_admit [OF cl(1) s] by blast
  have "0 \<le> dur_us (r_Policy r)"
    using duration_wf_request [OF wf] by (simp add: dur_us_def duration_wf_def pos_imp_zdiv_nonneg_iff)
  then have n: "0 \<le> r_Now r div 1000" "r_Now r div 1000 \<le> 9007199254740991"
    using r(4) ok by (auto simp: year_2000_def request_ok_def maxExact_def)
  obtain d err where d: "decodeStrictDecisionReply (admit_reply True a (of_int (r_Now r div 1000)) v) = (d, err)"
      "complete r d err" "d_Allowed d"
    using decode_verdict [OF v(3,1) n refl b(1) refl b(2)] v(2) by blast
  then have "err = None" by (auto simp: complete_def completeRejected_def)
  then have "vkStore_AdmitStrict sha256 withTimeout (Some store) (Some live_ctx) r w = (d, None, w2)"
    using st(1) r(2,3) e d(1)
    by (simp add: vkStore_AdmitStrict_def vk_strictReady_def vk_strictContext_def live_ctx_def strict_args_def native_executor_def)
  then show ?thesis using d(3) w2 by blast
qed

text \<open>
  Time passing in the world: a hash whose time to live was the last thing set is gone
  once that many milliseconds have passed.
\<close>

definition forgets :: "('w \<Rightarrow> 's) \<Rightarrow> 's server \<Rightarrow> (int \<Rightarrow> 'w \<Rightarrow> 'w) \<Rightarrow> bool" where
  "forgets view srv elapse \<longleftrightarrow>
     (\<forall>key ttl ms s w. 0 < ttl \<and> ttl \<le> ms \<and> view w = vk_PEXPIRE srv key ttl s \<longrightarrow> vk_HGETALL srv (view (elapse ms w)) key = [])"

text \<open>C40. The Valkey store forgets a token bucket before it has filled. Every strict
  admission sets the time to live of the hash to twice the policy's period (at least a
  second). For a policy whose burst exceeds its capacity, a request for the whole limit
  empties the bucket; when the key then stays idle for exactly that time, the next request
  for the whole limit is allowed too, although the elapsed time has refilled less than a
  limit's worth of tokens: the two requests together take more than the limit plus the
  refill, the bound that the bucket of the memory store keeps.\<close>

theorem valkey_forgets_burst:
  assumes store: "vk_NewStrict (Some client) options = Inr store" "vo_Clock options = VkClientClock"
    and client: "runs_scripts view strtod srv client" and srv: "hash_server srv" "forgets view srv elapse"
    and r: "request_typed r" "Request_Validate r = None" "p_algorithm (r_Policy r) = TokenBucket" "year_2000 \<le> r_Now r div 1000"
      "r_Cost r = Limit (r_Policy r)"
    and burst: "p_capacity (r_Policy r) < p_burst (r_Policy r)" "Second \<le> 2 * p_period (r_Policy r)"
    and absent: "vk_HGETALL srv (view w) (vk_key sha256 store r) = []"
    and ms: "ms = Milliseconds (valkeyStateTTL (p_period (r_Policy r)))"
    and r2: "r2 = r\<lparr>r_Now := r_Now r + ms * Millisecond\<rparr>" "request_typed r2" "Request_Validate r2 = None"
    and a1: "vkStore_AdmitStrict sha256 withTimeout (Some store) (Some live_ctx) r w = (d1, e1, w1)"
    and a2: "vkStore_AdmitStrict sha256 withTimeout (Some store) (Some live_ctx) r2 (elapse ms w1) = (d2, e2, w2)"
  shows "e1 = None \<and> d_Allowed d1 \<and> e2 = None \<and> d_Allowed d2 \<and>
    unat (Limit (r_Policy r)) * period_us (r_Policy r) + unat (p_capacity (r_Policy r)) * nat ((r_Now r2 - r_Now r) div 1000)
      < (unat (r_Cost r) + unat (r_Cost r2)) * period_us (r_Policy r)"
proof -
  let ?p = "r_Policy r"
  have st: "vs_executor store = Some (native_executor client)" "vo_Clock (vs_options store) = VkClientClock"
    using store by (auto simp: vk_NewStrict_def vk_New_def vk_newStore_def Let_def split: if_splits)
  have wf: "policy_wf ?p" using Request_Validate_ok [OF r(1,2)] by (simp add: request_ok_def)
  have nc: "p_algorithm ?p \<noteq> Concurrency" using r(3) by simp
  note ttl = state_ttl [OF wf nc, folded ms]
  obtain s0 where 1: "e1 = None" "d_Allowed d1" "view w1 = vk_PEXPIRE srv (vk_key sha256 store r) ms s0"
    using fresh_AdmitStrict [OF st client srv(1) r(1-4) absent, of withTimeout] a1 ms by auto
  have k: "vk_key sha256 store r2 = vk_key sha256 store r" by (simp add: r2(1) vk_key_def)
  have "vk_HGETALL srv (view (elapse ms w1)) (vk_key sha256 store r2) = []"
    unfolding k using srv(2) ttl(2) 1(3) unfolding forgets_def by (meson order.refl)
  moreover have "r_Now r div 1000 \<le> r_Now r2 div 1000" by (rule zdiv_mono1) (use ttl(2) in \<open>simp_all add: r2(1)\<close>)
  ultimately have 2: "e2 = None" "d_Allowed d2"
    using fresh_AdmitStrict [OF st client srv(1) r2(2,3), of "elapse ms w1" sha256 withTimeout] a2 r(3,4) by (auto simp: r2(1))
  have el: "nat ((r_Now r2 - r_Now r) div 1000) \<le> 2 * period_us ?p"
  proof -
    have "(r_Now r2 - r_Now r) div 1000 \<le> 2 * p_period ?p div 1000" by (rule zdiv_mono1) (use ttl(1) burst(2) in \<open>simp_all add: r2(1)\<close>)
    also have "\<dots> = 2 * (p_period ?p div 1000)" using wf nc by (auto simp: policy_wf_def duration_wf_def)
    finally show ?thesis using wf nc by (simp add: period_us_def policy_wf_def duration_wf_def)
  qed
  have "2 * unat (p_capacity ?p) < unat (Limit ?p)" using burst(1) by (simp add: policy_wf_Limit [OF wf] u64_less)
  moreover have "0 < period_us ?p" by (rule policy_wf_period(2) [OF wf nc])
  ultimately have "unat (p_capacity ?p) * (2 * period_us ?p) < unat (Limit ?p) * period_us ?p"
    using mult_less_mono1 [of "2 * unat (p_capacity ?p)" "unat (Limit ?p)" "period_us ?p"] by (simp add: mult.assoc mult.left_commute)
  then have "unat (p_capacity ?p) * nat ((r_Now r2 - r_Now r) div 1000) < unat (Limit ?p) * period_us ?p"
    using mult_le_mono2 [OF el, of "unat (p_capacity ?p)"] by linarith
  then show ?thesis using 1 2 r(5) by (simp add: r2(1) distrib_right)
qed

text \<open>The server of association lists with its clock moved forward; a policy of one token per second with a burst of nine.\<close>

definition table_elapse :: "int \<Rightarrow> vkTable \<Rightarrow> vkTable" where
  "table_elapse ms s = s\<lparr>vt_clock := vt_clock s + ms\<rparr>"

lemma table_forgets: "forgets id table_server table_elapse"
proof -
  have "vt_live (table_elapse ms (if vt_live s key = [] then s else s\<lparr>vt_expiry := (vt_expiry s)(key \<mapsto> vt_clock s + ttl)\<rparr>)) key = []"
    if "0 < ttl" "ttl \<le> ms" for ms ttl s key
    using that by (auto simp: vt_live_def table_elapse_def split: option.splits if_splits)
  then show ?thesis by (simp add: forgets_def table_server_def)
qed

definition burst_request :: request where
  "burst_request = sample_request\<lparr>r_Policy := (r_Policy sample_request)\<lparr>p_algorithm := TokenBucket, p_capacity := 1,
     p_burst := 9, p_period := Second, p_maxCost := 10\<rparr>, r_Cost := 10\<rparr>"

lemma burst_request_ok:
  assumes "r = burst_request\<lparr>r_Now := t\<rparr>" "t \<in> {1700000000000000000, 1700000002000000000}"
  shows "request_typed r" "Request_Validate r = None"
proof -
  have wf: "policy_wf (r_Policy r)"
    by (simp add: assms(1) burst_request_def sample_request_def sample_policy_def policy_wf_def duration_wf_def
        validPolicyIdentifier_def policyIdentifierChar_def in_range_def MaxPolicyIDBytes_def MaxPolicyRevisionBytes_def period_us_def)
  then show t: "request_typed r"
    using assms by (auto simp: request_typed_def micro_range_def int64_range_def)
  show "Request_Validate r = None"
    using assms
    by (auto simp: Request_Validate_def burst_request_def sample_request_def sample_key_def sample_policy_def IsZero_def zero_time_def
      UnixMicro_def i64_def maxExact_def request_duration_def Let_def)
qed

theorem valkey_forgets_burst_witness:
  "\<exists>store ms r2 d1 e1 w1 d2 e2 w2. vk_NewStrict (Some table_client) table_options = Inr store \<and>
     ms = Milliseconds (valkeyStateTTL (p_period (r_Policy burst_request))) \<and>
     r2 = burst_request\<lparr>r_Now := r_Now burst_request + ms * Millisecond\<rparr> \<and>
     vkStore_AdmitStrict id (\<lambda>ctx d. ctx) (Some store) (Some live_ctx) burst_request empty_table = (d1, e1, w1) \<and>
     vkStore_AdmitStrict id (\<lambda>ctx d. ctx) (Some store) (Some live_ctx) r2 (table_elapse ms w1) = (d2, e2, w2) \<and>
     e1 = None \<and> e2 = None \<and> d_Allowed d2"
proof -
  let ?r = burst_request
  define ms where "ms = Milliseconds (valkeyStateTTL (p_period (r_Policy ?r)))"
  have m: "ms = 2000"
    by (simp add: ms_def burst_request_def valkeyStateTTL_def Milliseconds_def sdiv_nonneg i64_def)
  define r2 where "r2 = ?r\<lparr>r_Now := r_Now ?r + ms * Millisecond\<rparr>"
  have now: "r_Now ?r = 1700000000000000000" by (simp add: burst_request_def sample_request_def)
  have r1: "?r = ?r\<lparr>r_Now := 1700000000000000000\<rparr>" using now by simp
  have r2: "r2 = ?r\<lparr>r_Now := 1700000002000000000\<rparr>" by (simp add: r2_def m now)
  note t = burst_request_ok [OF r1] burst_request_ok [OF r2]
  have f: "p_algorithm (r_Policy ?r) = TokenBucket" "year_2000 \<le> r_Now ?r div 1000" "r_Cost ?r = Limit (r_Policy ?r)"
    "p_capacity (r_Policy ?r) < p_burst (r_Policy ?r)" "Second \<le> 2 * p_period (r_Policy ?r)"
    by (simp_all add: burst_request_def sample_request_def year_2000_def Limit_def)
  have c: "vo_Clock table_options = VkClientClock" by (simp add: table_options_def)
  have "\<exists>store. vk_NewStrict (Some table_client) table_options = Inr store"
    by (simp add: vk_NewStrict_def vk_New_def vk_newStore_def table_options_def MaxPrefixBytes_def unsafe_prefix_chars_def Let_def)
  then obtain store where st: "vk_NewStrict (Some table_client) table_options = Inr store" by blast
  have absent: "vk_HGETALL table_server (id empty_table) (vk_key id store ?r) = []"
    by (simp add: table_server_def empty_table_def vt_live_def)
  obtain d1 e1 w1 where a1: "vkStore_AdmitStrict id (\<lambda>ctx d. ctx) (Some store) (Some live_ctx) ?r empty_table = (d1, e1, w1)"
    by (metis surj_pair)
  obtain d2 e2 w2 where a2: "vkStore_AdmitStrict id (\<lambda>ctx d. ctx) (Some store) (Some live_ctx) r2 (table_elapse ms w1) = (d2, e2, w2)"
    by (metis surj_pair)
  show ?thesis
    using valkey_forgets_burst [OF st c table_client_runs table_server_ok table_forgets t(1,2) f(1-5) absent ms_def r2_def t(3,4) a1 a2]
      st ms_def r2_def a1 a2 by blast
qed

end
