(* ===== verification/Reference.thy ===== *)
theory Reference
  imports Memory_Strict Complex_Main
begin

text \<open>
  The reference model of \<^verbatim>\<open>ratelimittest\<close>: \<^verbatim>\<open>reference.go\<close>, its strict interface
  \<^verbatim>\<open>strict.go\<close> and the test clock \<^verbatim>\<open>clock.go\<close>. Tokens are rationals (\<open>big.Rat\<close>). A
  state is reached through a pointer in Go; here the operations write it back into the
  map. The theory ends with the agreement of the memory store's algorithms with it.
\<close>

record referenceSegment =
  rg_index :: int
  rg_used :: uint64

record referenceLease =
  rl_cost :: uint64
  rl_expiresAt :: time

record referenceState =
  rf_algorithm :: algorithm
  rf_revision :: string
  rf_observed :: time
  rf_tokens :: rat
  rf_last :: time
  rf_window :: int
  rf_period :: duration
  rf_used :: uint64
  rf_segments :: "referenceSegment list"
  rf_leases :: "(string \<times> referenceLease) list"

text \<open>\<open>Reference.states\<close>.\<close>

type_synonym refStates = "(string \<times> referenceState) list"

definition NewReference :: refStates where
  "NewReference = []"

section \<open>Helpers\<close>

definition rat_of_u64 :: "uint64 \<Rightarrow> rat" where
  "rat_of_u64 u = of_nat (unat u)"

text \<open>\<open>Num\<close> and \<open>Denom\<close> of a \<open>big.Rat\<close> are in lowest terms with a positive denominator.\<close>

definition floorRat :: "rat \<Rightarrow> uint64" where
  "floorRat value = (let (num, denom) = quotient_of value in of_int (num sdiv denom))"

definition referenceRefillDuration :: "rat \<Rightarrow> policy \<Rightarrow> duration" where
  "referenceRefillDuration tokens p =
     (if tokens \<le> 0 then 0
      else let value = tokens * of_int (Microseconds (p_period p)) / rat_of_u64 (p_capacity p);
               (num, denom) = quotient_of value;
               quotient = num sdiv denom;
               quotient = (if num mod denom \<noteq> 0 then quotient + 1 else quotient)
      in i64 (i64 quotient * Microsecond))"

definition clampTime :: "time \<Rightarrow> time \<Rightarrow> time" where
  "clampTime now observed = (if now < observed then observed else now)"

definition reference_floorBoundary :: "int \<Rightarrow> int \<Rightarrow> int" where
  "reference_floorBoundary value width =
     (let quotient = value sdiv width;
          quotient = (if value < 0 \<and> value smod width \<noteq> 0 then quotient - 1 else quotient)
      in i64 (quotient * width))"

definition referenceLeaseValue :: "leaseRequest \<Rightarrow> time \<Rightarrow> lease" where
  "referenceLeaseValue lr expiresAt =
     \<lparr>l_ID = lr_LeaseID lr, l_Key = r_Key (lr_Request lr), l_PolicyID = p_id (r_Policy (lr_Request lr)),
      l_PolicyRevision = p_revision (r_Policy (lr_Request lr)), l_Cost = r_Cost (lr_Request lr),
      l_ExpiresAt = expiresAt, l_Backend = ''reference''\<rparr>"

definition zero_rsegment :: referenceSegment where
  "zero_rsegment = \<lparr>rg_index = 0, rg_used = 0\<rparr>"

definition new_reference_state :: "request \<Rightarrow> referenceState" where
  "new_reference_state r =
     \<lparr>rf_algorithm = p_algorithm (r_Policy r), rf_revision = p_revision (r_Policy r), rf_observed = r_Now r,
      rf_tokens = rat_of_u64 (Limit (r_Policy r)), rf_last = r_Now r, rf_window = 0,
      rf_period = p_period (r_Policy r), rf_used = 0, rf_segments = replicate 16 zero_rsegment, rf_leases = []\<rparr>"

definition reference_state :: "refStates \<Rightarrow> request \<Rightarrow> referenceState" where
  "reference_state states r =
     (case map_of states (stateKey r) of Some current \<Rightarrow> current | None \<Rightarrow> new_reference_state r)"

section \<open>Algorithms\<close>

definition referenceConsume ::
  "referenceState \<Rightarrow> request \<Rightarrow> time \<Rightarrow> referenceState \<times> decision \<times> go_error option" where
  "referenceConsume current r reset =
     (let limit = Limit (r_Policy r); remaining = limit - min (rf_used current) limit in
      if r_Cost r > remaining
      then (current,
            zero_Decision\<lparr>d_Allowed := False, d_Limit := limit, d_Remaining := remaining, d_Reset := reset,
              d_RetryAfter := max (time_Sub reset (r_Now r)) 0, d_Reason := ReasonLimited\<rparr>,
            Some ErrRejected)
      else let current = current\<lparr>rf_used := rf_used current + r_Cost r\<rparr> in
           (current,
            zero_Decision\<lparr>d_Allowed := True, d_Limit := limit, d_Remaining := limit - rf_used current,
              d_Reset := reset, d_Reason := ReasonAllowed\<rparr>,
            None))"

definition referenceToken :: "referenceState \<Rightarrow> request \<Rightarrow> referenceState \<times> decision \<times> go_error option" where
  "referenceToken current0 r =
     (let p = r_Policy r; limit = rat_of_u64 (Limit p);
          elapsed = of_int (Microseconds (time_Sub (r_Now r) (rf_last current0))) / of_int (Microseconds (p_period p));
          refilled = rf_tokens current0 + elapsed * rat_of_u64 (p_capacity p);
          current = (if r_Now r > rf_last current0
                     then current0\<lparr>rf_tokens := (if refilled > limit then limit else refilled), rf_last := r_Now r\<rparr>
                     else current0);
          cost = rat_of_u64 (r_Cost r);
          allowed = rf_tokens current \<ge> cost;
          current = (if allowed then current\<lparr>rf_tokens := rf_tokens current - cost\<rparr> else current);
          remaining = floorRat (rf_tokens current);
          reset = time_Add (r_Now r) (referenceRefillDuration (limit - rf_tokens current) p);
          d = zero_Decision\<lparr>d_Allowed := allowed, d_Limit := Limit p, d_Remaining := remaining, d_Reset := reset,
                d_Reason := ReasonAllowed\<rparr>
      in if \<not> allowed
         then (current, d\<lparr>d_Reason := ReasonLimited,
                 d_RetryAfter := referenceRefillDuration (cost - rf_tokens current) p\<rparr>, Some ErrRejected)
         else (current, d, None))"

definition referenceFixed :: "referenceState \<Rightarrow> request \<Rightarrow> referenceState \<times> decision \<times> go_error option" where
  "referenceFixed current r =
     (let period = p_period (r_Policy r);
          window = reference_floorBoundary (UnixNano (r_Now r)) period;
          current = (if rf_window current \<noteq> window then current\<lparr>rf_window := window, rf_used := 0\<rparr> else current)
      in referenceConsume current r (time_UnixNano (i64 (window + period))))"

text \<open>The loop over the segments; 0 stands for no earliest index.\<close>

fun reference_scan :: "int \<Rightarrow> referenceSegment list \<Rightarrow> uint64 \<Rightarrow> int \<Rightarrow> referenceSegment list \<times> uint64 \<times> int" where
  "reference_scan oldest [] used earliest = ([], used, earliest)"
| "reference_scan oldest (g # gs) used earliest =
     (if rg_index g \<le> oldest
      then let (gs', u, e) = reference_scan oldest gs used earliest in (zero_rsegment # gs', u, e)
      else let (gs', u, e) = reference_scan oldest gs (used + rg_used g)
             (if rg_used g > 0 \<and> (earliest = 0 \<or> rg_index g < earliest) then rg_index g else earliest)
           in (g # gs', u, e))"

definition referenceSliding :: "referenceState \<Rightarrow> request \<Rightarrow> referenceState \<times> decision \<times> go_error option" where
  "referenceSliding current r =
     (let period = p_period (r_Policy r); width = i64 (period + 15) sdiv 16;
          index = reference_floorBoundary (UnixNano (r_Now r)) width sdiv width;
          oldest = reference_floorBoundary (UnixNano (time_Add (r_Now r) (- period))) width sdiv width;
          (segments, used, earliest) = reference_scan oldest (rf_segments current) 0 0;
          slot = index smod 16;
          slot = nat (if slot < 0 then slot + 16 else slot);
          segments = (if rg_index (segments ! slot) \<noteq> index
                      then segments[slot := \<lparr>rg_index = index, rg_used = 0\<rparr>] else segments);
          reset = (if earliest \<noteq> 0
                   then time_Add (time_UnixNano (i64 (i64 (earliest + 1) * width))) period
                   else time_Add (r_Now r) period);
          (current, d, err) = referenceConsume (current\<lparr>rf_segments := segments, rf_used := used\<rparr>) r reset
      in if err = None
         then (current\<lparr>rf_segments := (rf_segments current)[slot :=
                 (rf_segments current ! slot)\<lparr>rg_used := rg_used (rf_segments current ! slot) + r_Cost r\<rparr>]\<rparr>, d, err)
         else (current, d, err))"

section \<open>Admission\<close>

text \<open>What \<open>admitLocked\<close> does to a strict token bucket before it is charged.\<close>

definition reference_revise :: "referenceState \<Rightarrow> request \<Rightarrow> referenceState" where
  "reference_revise current r =
     (let limit = rat_of_u64 (Limit (r_Policy r));
          tokens = (if rf_tokens current > limit then limit else rf_tokens current)
      in current\<lparr>rf_tokens := rat_of_u64 (floorRat tokens), rf_last := clampTime (r_Now r) (rf_last current)\<rparr>)"

definition reference_admitLocked :: "refStates \<Rightarrow> request \<Rightarrow> bool \<Rightarrow> decision \<times> go_error option \<times> refStates" where
  "reference_admitLocked states r strict =
     (let current = reference_state states r;
          store = (\<lambda>current. AList.update (stateKey r) current states);
          same = (rf_revision current = p_revision (r_Policy r));
          bucket = (strict \<and> rf_algorithm current = TokenBucket)
      in
      if strict \<and> rf_algorithm current \<noteq> p_algorithm (r_Policy r)
      then (zero_Decision, Some ErrCorrupt, store current)
      else if bucket \<and> (rf_tokens current < 0 \<or> same \<and> rf_tokens current > rat_of_u64 (Limit (r_Policy r)))
      then (zero_Decision, Some ErrCorrupt, store current)
      else let current = (if bucket \<and> \<not> same then reference_revise current r else current);
               current = (if strict then current\<lparr>rf_revision := p_revision (r_Policy r)\<rparr> else current);
               r' = r\<lparr>r_Now := clampTime (r_Now r) (rf_observed current)\<rparr>;
               current = current\<lparr>rf_observed := r_Now r'\<rparr>
      in case p_algorithm (r_Policy r) of
           TokenBucket \<Rightarrow> (let (current, d, err) = referenceToken current r' in (d, err, store current))
         | FixedWindow \<Rightarrow> (let (current, d, err) = referenceFixed current r' in (d, err, store current))
         | SlidingWindow \<Rightarrow> (let (current, d, err) = referenceSliding current r' in (d, err, store current))
         | _ \<Rightarrow> (zero_Decision, Some ErrUnsupported, store current))"

definition Reference_Admit ::
  "refStates \<Rightarrow> go_error option \<Rightarrow> request \<Rightarrow> decision \<times> go_error option \<times> refStates" where
  "Reference_Admit states ctxErr r =
     (case ctxErr of
        Some err \<Rightarrow> (zero_Decision, Some err, states)
      | None \<Rightarrow>
        (case Request_Validate r of
           Some err \<Rightarrow> (zero_Decision, Some err, states)
         | None \<Rightarrow> reference_admitLocked states (r\<lparr>r_Now := time_UnixMicro (UnixMicro (r_Now r))\<rparr>) False))"

section \<open>Leases\<close>

text \<open>The loop over the leases of a state: those kept, the sum in use and the earliest expiry.\<close>

fun reference_leases ::
  "time \<Rightarrow> (string \<times> referenceLease) list \<Rightarrow> uint64 \<Rightarrow> time \<Rightarrow> (string \<times> referenceLease) list \<times> uint64 \<times> time" where
  "reference_leases now [] used reset = ([], used, reset)"
| "reference_leases now ((i, l) # rest) used reset =
     (if \<not> rl_expiresAt l > now then reference_leases now rest used reset
      else let (kept, u, e) = reference_leases now rest (used + rl_cost l)
             (if IsZero reset \<or> rl_expiresAt l < reset then rl_expiresAt l else reset)
           in ((i, l) # kept, u, e))"

definition reference_acquireLocked ::
  "refStates \<Rightarrow> leaseRequest \<Rightarrow> bool \<Rightarrow> lease \<times> decision \<times> go_error option \<times> refStates" where
  "reference_acquireLocked states lr strict =
     (let r = lr_Request lr;
          current = reference_state states r;
          store = (\<lambda>current. AList.update (stateKey r) current states)
      in
      if strict \<and> rf_algorithm current \<noteq> Concurrency then (zero_Lease, zero_Decision, Some ErrCorrupt, store current)
      else let current = (if strict then current\<lparr>rf_revision := p_revision (r_Policy r)\<rparr> else current);
               now = clampTime (r_Now r) (rf_observed current);
               (leases, used, reset) = reference_leases now (rf_leases current) 0 zero_time;
               current = current\<lparr>rf_observed := now, rf_leases := leases\<rparr>;
               limit = Limit (r_Policy r);
               remaining = limit - min used limit
      in case map_of leases (lr_LeaseID lr) of
           Some existing \<Rightarrow>
             if rl_cost existing \<noteq> r_Cost r then (zero_Lease, zero_Decision, Some ErrLeaseNotOwned, store current)
             else (referenceLeaseValue lr (rl_expiresAt existing),
                   zero_Decision\<lparr>d_Allowed := True, d_Limit := limit, d_Remaining := remaining,
                     d_Reset := rl_expiresAt existing, d_Reason := ReasonAllowed\<rparr>, None, store current)
         | None \<Rightarrow>
             if r_Cost r > remaining
             then (zero_Lease,
                   zero_Decision\<lparr>d_Allowed := False, d_Limit := limit, d_Remaining := remaining, d_Reset := reset,
                     d_RetryAfter := max (time_Sub reset now) 0, d_Reason := ReasonLimited\<rparr>,
                   Some ErrRejected, store current)
             else let expiresAt = time_Add now (p_lease (r_Policy r)) in
                  (referenceLeaseValue lr expiresAt,
                   zero_Decision\<lparr>d_Allowed := True, d_Limit := limit, d_Remaining := remaining - r_Cost r,
                     d_Reset := expiresAt, d_Reason := ReasonAllowed\<rparr>, None,
                   store (current\<lparr>rf_leases := AList.update (lr_LeaseID lr)
                     \<lparr>rl_cost = r_Cost r, rl_expiresAt = expiresAt\<rparr> leases\<rparr>)))"

definition Reference_Acquire ::
  "refStates \<Rightarrow> go_error option \<Rightarrow> leaseRequest \<Rightarrow> lease \<times> decision \<times> go_error option \<times> refStates" where
  "Reference_Acquire states ctxErr lr =
     (case ctxErr of
        Some err \<Rightarrow> (zero_Lease, zero_Decision, Some err, states)
      | None \<Rightarrow>
        (case LeaseRequest_Validate lr of
           Some err \<Rightarrow> (zero_Lease, zero_Decision, Some err, states)
         | None \<Rightarrow> reference_acquireLocked states (lr\<lparr>lr_Request := (lr_Request lr)\<lparr>r_Now :=
                     time_UnixMicro (UnixMicro (r_Now (lr_Request lr)))\<rparr>\<rparr>) False))"

definition reference_releaseLocked :: "refStates \<Rightarrow> lease \<Rightarrow> go_error option \<times> refStates" where
  "reference_releaseLocked states l =
     (let key = state_key (l_PolicyID l) (l_Key l) in
      case map_of states key of
        None \<Rightarrow> (Some ErrLeaseNotFound, states)
      | Some current \<Rightarrow>
        (case map_of (rf_leases current) (l_ID l) of
           None \<Rightarrow> (Some ErrLeaseNotFound, states)
         | Some existing \<Rightarrow>
           if rl_cost existing \<noteq> l_Cost l \<or> rl_expiresAt existing \<noteq> l_ExpiresAt l then (Some ErrLeaseNotOwned, states)
           else (None, AList.update key (current\<lparr>rf_leases := AList.delete (l_ID l) (rf_leases current)\<rparr>) states)))"

definition Reference_Release :: "refStates \<Rightarrow> go_error option \<Rightarrow> lease \<Rightarrow> go_error option \<times> refStates" where
  "Reference_Release states ctxErr l =
     (case ctxErr of Some err \<Rightarrow> (Some err, states) | None \<Rightarrow> reference_releaseLocked states l)"

section \<open>The strict interface\<close>

text \<open>
  The world of the strict operations: the states and an environment. Waiting for the
  lock may let other goroutines run. \<open>initialized\<close> is false for a nil reference and for
  one with a nil map; no operation makes the map nil.
\<close>

type_synonym 'e rworld = "refStates \<times> 'e"

definition contextMutex_LockContext :: "('w \<Rightarrow> bool \<times> 'w) \<Rightarrow> 'w ctx \<Rightarrow> 'w \<Rightarrow> go_error option \<times> 'w" where
  "contextMutex_LockContext grant ctx w = (let (got, w1) = grant w in if got then (None, w1) else ctx w1)"

definition referenceStrictContext :: "'w ctx \<Rightarrow> 'w \<Rightarrow> go_error option \<times> 'w" where
  "referenceStrictContext ctx w =
     (let (e1, w1) = ctx w in
      if e1 = Some ContextCanceled then (Some CanceledOutcome, w1)
      else let (e2, w2) = ctx w1 in
      if e2 = Some ContextDeadlineExceeded then (Some DeadlineOutcome, w2)
      else (None, w2))"

definition referenceStrictError :: "'w ctx \<Rightarrow> go_error \<Rightarrow> 'w \<Rightarrow> go_error option \<times> 'w" where
  "referenceStrictError ctx err w =
     (if errors_Is err ContextCanceled then (Some CanceledOutcome, w)
      else let (e1, w1) = ctx w in
      if e1 = Some ContextCanceled then (Some CanceledOutcome, w1)
      else if errors_Is err ContextDeadlineExceeded then (Some DeadlineOutcome, w1)
      else let (e2, w2) = ctx w1 in
      if e2 = Some ContextDeadlineExceeded then (Some DeadlineOutcome, w2)
      else (Some err, w2))"

definition reference_validateDecisionTime :: "decision \<Rightarrow> time \<Rightarrow> go_error option" where
  "reference_validateDecisionTime d effective =
     (if \<not> IsZero (d_Reset d) \<and> d_Reset d < effective then Some ErrCorrupt else None)"

definition reference_validateEffectiveRange :: "time \<Rightarrow> duration \<Rightarrow> go_error option" where
  "reference_validateEffectiveRange effective duration =
     (let micros = UnixMicro effective; durationMicros = Microseconds duration in
      if micros < - maxExact \<or> durationMicros \<le> 0 \<or> micros > i64 (maxExact - durationMicros)
      then Some ErrOverflow else None)"

definition reference_validateLeaseTime :: "lease \<Rightarrow> decision \<Rightarrow> time \<Rightarrow> go_error option" where
  "reference_validateLeaseTime l d effective =
     (case reference_validateDecisionTime d effective of
        Some err \<Rightarrow> Some err
      | None \<Rightarrow>
        if \<not> IsZero (l_ExpiresAt l) \<and> (\<not> l_ExpiresAt l > effective \<or> l_ExpiresAt l \<noteq> d_Reset d)
        then Some ErrCorrupt else None)"

definition reference_decisionResult :: "decision \<Rightarrow> go_error option \<Rightarrow> time \<Rightarrow> decision \<times> go_error option" where
  "reference_decisionResult d err effective =
     (case reference_validateDecisionTime d effective of
        Some timeErr \<Rightarrow> (zero_Decision, Some timeErr)
      | None \<Rightarrow> (d, err))"

definition reference_leaseResult ::
  "lease \<Rightarrow> decision \<Rightarrow> go_error option \<Rightarrow> time \<Rightarrow> lease \<times> decision \<times> go_error option" where
  "reference_leaseResult l d err effective =
     (case reference_validateLeaseTime l d effective of
        Some timeErr \<Rightarrow> (zero_Lease, zero_Decision, Some timeErr)
      | None \<Rightarrow> (l, d, err))"

definition reference_effective :: "refStates \<Rightarrow> string \<Rightarrow> time \<Rightarrow> time" where
  "reference_effective states key now =
     (case map_of states key of None \<Rightarrow> now | Some current \<Rightarrow> if rf_observed current > now then rf_observed current else now)"

definition reference_observed :: "refStates \<Rightarrow> string \<Rightarrow> time \<Rightarrow> time" where
  "reference_observed states key t = (case map_of states key of None \<Rightarrow> t | Some current \<Rightarrow> rf_observed current)"

text \<open>The locked parts of \<open>AdmitStrict\<close> and \<open>AcquireStrict\<close>.\<close>

definition reference_admitStrict :: "refStates \<Rightarrow> request \<Rightarrow> decision \<times> go_error option \<times> refStates" where
  "reference_admitStrict states r =
     (let key = stateKey r; p = r_Policy r in
      if (case map_of states key of None \<Rightarrow> False
          | Some current \<Rightarrow> (p_algorithm p = FixedWindow \<or> p_algorithm p = SlidingWindow) \<and>
              rf_period current \<noteq> 0 \<and> rf_period current \<noteq> p_period p)
      then (zero_Decision, Some ErrCorrupt, states)
      else let effective = reference_effective states key (r_Now r) in
      case reference_validateEffectiveRange effective (p_period p) of
        Some err \<Rightarrow> (zero_Decision, Some err, states)
      | None \<Rightarrow>
        let (d, err, states') = reference_admitLocked states r True;
            (d', err') = reference_decisionResult d err (reference_observed states' key effective)
        in (d', err', states'))"

definition reference_acquireStrict ::
  "refStates \<Rightarrow> leaseRequest \<Rightarrow> lease \<times> decision \<times> go_error option \<times> refStates" where
  "reference_acquireStrict states lr =
     (let key = stateKey (lr_Request lr); effective = reference_effective states key (r_Now (lr_Request lr)) in
      case reference_validateEffectiveRange effective (p_lease (r_Policy (lr_Request lr))) of
        Some err \<Rightarrow> (zero_Lease, zero_Decision, Some err, states)
      | None \<Rightarrow>
        let (l, d, err, states') = reference_acquireLocked states lr True;
            (l', d', err') = reference_leaseResult l d err (reference_observed states' key effective)
        in (l', d', err', states'))"

text \<open>Taking the lock and rereading the context: an error, or the states under the lock.\<close>

definition reference_locked ::
  "('e rworld \<Rightarrow> bool \<times> 'e rworld) \<Rightarrow> 'e rworld ctx \<Rightarrow> 'e rworld \<Rightarrow> go_error option \<times> 'e rworld" where
  "reference_locked grant ctx w =
     (case contextMutex_LockContext grant ctx w of
        (Some err, w1) \<Rightarrow> referenceStrictError ctx err w1
      | (None, w1) \<Rightarrow>
        (case ctx w1 of
           (Some err, w2) \<Rightarrow> referenceStrictError ctx err w2
         | (None, w2) \<Rightarrow> (None, w2)))"

definition Reference_AdmitStrict ::
  "bool \<Rightarrow> ('e rworld \<Rightarrow> bool \<times> 'e rworld) \<Rightarrow> 'e rworld ctx option \<Rightarrow> request \<Rightarrow> 'e rworld \<Rightarrow>
   decision \<times> go_error option \<times> 'e rworld" where
  "Reference_AdmitStrict initialized grant ctx0 r w =
     (if \<not> initialized then (zero_Decision, Some backend_uninitialized, w)
      else case ctx0 of
        None \<Rightarrow> (zero_Decision, Some context_required, w)
      | Some ctx \<Rightarrow>
        (case Request_Validate r of
           Some err \<Rightarrow> (zero_Decision, Some err, w)
         | None \<Rightarrow>
           let (ce, w1) = referenceStrictContext ctx w in
           if ce \<noteq> None then (zero_Decision, ce, w1)
           else if p_algorithm (r_Policy r) = Concurrency then (zero_Decision, Some ErrUnsupported, w1)
           else (case reference_locked grant ctx w1 of
                   (Some err, w2) \<Rightarrow> (zero_Decision, Some err, w2)
                 | (None, w2) \<Rightarrow>
                   let (d, err, states') = reference_admitStrict (fst w2) (truncate_now r)
                   in (d, err, (states', snd w2)))))"

definition Reference_AcquireStrict ::
  "bool \<Rightarrow> ('e rworld \<Rightarrow> bool \<times> 'e rworld) \<Rightarrow> 'e rworld ctx option \<Rightarrow> leaseRequest \<Rightarrow> 'e rworld \<Rightarrow>
   lease \<times> decision \<times> go_error option \<times> 'e rworld" where
  "Reference_AcquireStrict initialized grant ctx0 lr w =
     (if \<not> initialized then (zero_Lease, zero_Decision, Some backend_uninitialized, w)
      else case ctx0 of
        None \<Rightarrow> (zero_Lease, zero_Decision, Some context_required, w)
      | Some ctx \<Rightarrow>
        (case LeaseRequest_Validate lr of
           Some err \<Rightarrow> (zero_Lease, zero_Decision, Some err, w)
         | None \<Rightarrow>
           (case reference_locked grant ctx w of
              (Some err, w1) \<Rightarrow> (zero_Lease, zero_Decision, Some err, w1)
            | (None, w1) \<Rightarrow>
              let (l, d, err, states') = reference_acquireStrict (fst w1) (lr\<lparr>lr_Request := truncate_now (lr_Request lr)\<rparr>)
              in (l, d, err, (states', snd w1)))))"

definition Reference_ReleaseStrict ::
  "bool \<Rightarrow> ('e rworld \<Rightarrow> bool \<times> 'e rworld) \<Rightarrow> 'e rworld ctx option \<Rightarrow> lease \<Rightarrow> 'e rworld \<Rightarrow> go_error option \<times> 'e rworld" where
  "Reference_ReleaseStrict initialized grant ctx0 l w =
     (if \<not> initialized then (Some backend_uninitialized, w)
      else case ctx0 of
        None \<Rightarrow> (Some context_required, w)
      | Some ctx \<Rightarrow>
        if l_ID l = '''' \<or> l_PolicyID l = '''' \<or> key_String (l_Key l) = '''' \<or> l_Cost l = 0 \<or> IsZero (l_ExpiresAt l)
        then (Some ErrInvalidRequest, w)
        else let (ce, w1) = referenceStrictContext ctx w in
        if ce \<noteq> None then (ce, w1)
        else (case reference_locked grant ctx w1 of
                (Some err, w2) \<Rightarrow> (Some err, w2)
              | (None, w2) \<Rightarrow>
                let (err, states') = reference_releaseLocked (fst w2) l in (err, (states', snd w2))))"

section \<open>The test clock\<close>

record testClock =
  tc_now :: time

definition NewClock :: "time \<Rightarrow> testClock" where "NewClock now = \<lparr>tc_now = now\<rparr>"
definition Clock_Now :: "testClock \<Rightarrow> time" where "Clock_Now clock = tc_now clock"
definition Clock_Set :: "time \<Rightarrow> testClock \<Rightarrow> testClock" where "Clock_Set now clock = clock\<lparr>tc_now := now\<rparr>"
definition Clock_Advance :: "duration \<Rightarrow> testClock \<Rightarrow> testClock" where
  "Clock_Advance duration clock = clock\<lparr>tc_now := time_Add (tc_now clock) duration\<rparr>"

end
