(* ===== verification/Reference_Agrees.thy ===== *)
theory Reference_Agrees
  imports Reference Memory_Limits
begin

text \<open>
  The algorithms of the memory store agree with the reference model: on one key, over any
  sequence of requests under one policy, decision by decision. The memory store counts
  whole tokens and a remainder in 64-bit words, the reference model rational tokens;
  \<open>token_agrees\<close> relates the two. The windows use the same numbers on both sides, except
  that the reference model reads an earliest index of 0 as none.
\<close>

section \<open>Rational numbers\<close>

lemma quotient_nat:
  assumes "0 < b" "quotient_of (of_nat a / of_nat b) = (n, d)"
  shows "n sdiv d = int (a div b)" "n mod d = 0 \<longleftrightarrow> a mod b = 0"
proof -
  have d: "0 < d" using assms(2) by (rule quotient_of_denom_pos)
  have v: "of_nat a / of_nat b = (of_int n / of_int d :: rat)" using assms(2) by (rule quotient_of_div)
  have "(0 :: rat) \<le> of_int n / of_int d" unfolding v [symmetric] by simp
  then have n: "0 \<le> n" using d by (simp add: zero_le_divide_iff)
  have "n div d = \<lfloor>of_int n / of_int d :: rat\<rfloor>" by (simp add: floor_divide_of_int_eq)
  also have "\<dots> = int (a div b)" unfolding v [symmetric] using floor_divide_of_nat_eq [of a b, where 'a = rat] by simp
  finally have q: "n div d = int (a div b)" .
  then show "n sdiv d = int (a div b)" using n d by (simp add: sdiv_nonneg)
  have "of_int n * of_nat b = (of_nat a * of_int d :: rat)" using v assms(1) d by (simp add: field_simps)
  then have c: "n * int b = int a * d" by (metis of_int_eq_iff of_int_mult of_int_of_nat_eq)
  show "n mod d = 0 \<longleftrightarrow> a mod b = 0"
  proof
    assume "n mod d = 0"
    then have "n = n div d * d" by (simp add: minus_mod_eq_div_mult [symmetric])
    then have "int (a div b) * d * int b = int a * d" using c q by simp
    then have "int (a div b * b) = int a" using d by (simp add: ac_simps)
    then show "a mod b = 0" by (metis mod_mult_self2_is_0 of_nat_eq_iff)
  next
    assume "a mod b = 0"
    then have "int a = int (a div b) * int b" by (metis add_0_right div_mult_mod_eq of_nat_mult)
    then have "n * int b = int (a div b) * d * int b" using c by simp
    then have "n = int (a div b) * d" using assms(1) by simp
    then show "n mod d = 0" by simp
  qed
qed

lemma floorRat_level:
  assumes "0 < P"
  shows "floorRat (of_nat n / of_nat P) = of_nat (n div P)"
proof -
  obtain num den where q: "quotient_of (of_nat n / of_nat P) = (num, den)" by fastforce
  show ?thesis using quotient_nat(1) [OF assms q] by (simp add: floorRat_def q)
qed

lemma reference_refill:
  assumes p: "token_policy p" and n: "need \<le> unat (Limit p) * period_us p"
  shows "referenceRefillDuration (of_nat need / of_nat (period_us p)) p =
    1000 * int (need div unat (p_capacity p) + (if need mod unat (p_capacity p) \<noteq> 0 then 1 else 0))"
proof (cases "need = 0")
  case False
  note pf = token_policy_facts [OF p]
  let ?c = "unat (p_capacity p)"
  define q where "q = need div ?c + (if need mod ?c \<noteq> 0 then 1 else 0)"
  have "need div ?c \<le> 9007199254740991" using n pf(2) div_le_dividend [of need ?c] by linarith
  then have qb: "q \<le> 9007199254740992" unfolding q_def by (simp split: if_splits)
  have per: "Microseconds (p_period p) = int (period_us p)"
    using p policy_wf_period(3) [of p] by (simp add: token_policy_def)
  have v: "of_nat need / of_nat (period_us p) * of_int (Microseconds (p_period p)) / rat_of_u64 (p_capacity p) = of_nat need / of_nat ?c"
    using pf(1) unfolding per rat_of_u64_def by simp
  obtain num den where qo: "quotient_of (of_nat need / of_nat ?c) = (num, den)" by fastforce
  note qn = quotient_nat [OF pf(4) qo]
  have pos: "\<not> of_nat need / of_nat (period_us p) \<le> (0 :: rat)" using False pf(1) by (simp add: divide_le_0_iff)
  have "(if num mod den \<noteq> 0 then num sdiv den + 1 else num sdiv den) = int q"
    unfolding qn q_def by simp
  then have "referenceRefillDuration (of_nat need / of_nat (period_us p)) p = i64 (i64 (int q) * 1000)"
    unfolding referenceRefillDuration_def Let_def v qo prod.case if_not_P [OF pos] by simp
  moreover have "int64_range (int q)" "int64_range (int q * 1000)" using qb by (intro int64_rangeI; linarith)+
  ultimately show ?thesis unfolding q_def [symmetric] by simp
qed (simp add: referenceRefillDuration_def)

section \<open>Token buckets\<close>

definition token_agrees :: "policy \<Rightarrow> mstate \<Rightarrow> referenceState \<Rightarrow> bool" where
  "token_agrees p st rs \<longleftrightarrow> token_inv p st \<and> rf_last rs = st_lastRefill st \<and>
     rf_tokens rs = of_nat (token_level p st) / of_nat (period_us p)"

lemma level_div:
  assumes "token_policy p" "token_inv p st"
  shows "of_nat (token_level p st div period_us p) = st_tokens st"
proof -
  have "token_level p st div period_us p = unat (st_tokens st)"
    using assms token_policy_facts(1) [OF assms(1)] by (simp add: token_level_def token_inv_def)
  then show ?thesis by simp
qed

text \<open>Refilling, with the saturation of \<open>Time.Sub\<close> on both sides.\<close>

lemma refill_agrees:
  assumes p: "token_policy (r_Policy r)" "no_wrap (r_Policy r)" and ag: "token_agrees (r_Policy r) st rs"
    and now: "on_micro (r_Now r)" "st_lastRefill st < r_Now r"
  defines "P \<equiv> period_us (r_Policy r)" and "L \<equiv> rat_of_u64 (Limit (r_Policy r))"
  defines "refilled \<equiv> rf_tokens rs + of_int (Microseconds (time_Sub (r_Now r) (rf_last rs))) /
      of_int (Microseconds (p_period (r_Policy r))) * rat_of_u64 (p_capacity (r_Policy r))"
  shows "(if L < refilled then L else refilled) = of_nat (token_level (r_Policy r) (refill st r)) / of_nat P"
proof -
  let ?p = "r_Policy r" and ?l = "token_level (r_Policy r) st" and ?c = "unat (p_capacity (r_Policy r))"
  note pf = token_policy_facts [OF p(1), folded P_def]
  let ?e = "nat ((r_Now r - st_lastRefill st) div 1000)"
  define es where "es = min 9223372036854775 ?e"
  have inv: "token_inv ?p st" and rt: "rf_last rs = st_lastRefill st" "rf_tokens rs = of_nat ?l / of_nat P"
    using ag by (simp_all add: token_agrees_def P_def)
  have per: "Microseconds (p_period ?p) = int P" using p policy_wf_period(3) [of ?p] by (simp add: token_policy_def P_def)
  have el: "Microseconds (time_Sub (r_Now r) (rf_last rs)) = int es"
    using elapsed_us [OF now(2)] now(2) unfolding rt(1) es_def
    by (simp add: time_Sub_def unat_uint64_of split: if_splits)
  have "refilled = of_nat (?l + ?c * es) / of_nat P"
    unfolding refilled_def el per rt(2) rat_of_u64_def by (simp add: add_divide_distrib mult.commute)
  moreover have "L = of_nat (unat (Limit ?p) * P) / of_nat P" using pf(1) by (simp add: L_def rat_of_u64_def)
  moreover have "token_level ?p (refill st r) = min (unat (Limit ?p) * P) (?l + ?c * es)"
    using refill_level [OF p inv now(1)] now(2) saturated_elapsed [OF pf(2,4), of ?l ?e] by (simp add: P_def es_def)
  ultimately show ?thesis using pf(1)
    by (simp only: divide_less_cancel of_nat_less_iff min_def of_nat_0_less_iff) (auto simp: not_less)
qed

text \<open>The waiting times: until the bucket holds \<open>x\<close> tokens.\<close>

lemma wait_agrees:
  assumes p: "token_policy p" and inv: "token_inv p st" and x: "unat (st_tokens st) \<le> unat x" "unat x \<le> unat (Limit p)"
    "x = st_tokens st \<Longrightarrow> st_remainder st = 0"
  shows "referenceRefillDuration (rat_of_u64 x - of_nat (token_level p st) / of_nat (period_us p)) p =
    refillDuration (x - st_tokens st) (st_remainder st) p"
proof -
  let ?P = "period_us p" and ?t = "unat (st_tokens st)" and ?r = "unat (st_remainder st)"
  define need where "need = (unat x - ?t) * ?P - ?r"
  note pf = token_policy_facts [OF p]
  have r: "?r < ?P" using inv by (simp add: token_inv_def)
  have sub: "unat (x - st_tokens st) = unat x - ?t" using x(1) by (rule u64_sub)
  have fits: "?r \<le> (unat x - ?t) * ?P"
  proof (cases "x = st_tokens st")
    case False
    then have "1 \<le> unat x - ?t" using x(1) by (simp add: u64_eq)
    then have "1 * ?P \<le> (unat x - ?t) * ?P" by (rule mult_le_mono1)
    then show ?thesis using r by linarith
  qed (use x(3) in simp)
  have le: "?t * ?P \<le> unat x * ?P" using x(1) by (rule mult_le_mono1)
  have "need + token_level p st = unat x * ?P"
    using fits le unfolding need_def token_level_def diff_mult_distrib by linarith
  then have "rat_of_u64 x * of_nat ?P = of_nat need + of_nat (token_level p st)"
    unfolding rat_of_u64_def by (metis of_nat_add of_nat_mult)
  then have "rat_of_u64 x - of_nat (token_level p st) / of_nat ?P = of_nat need / of_nat ?P"
    using pf(1) by (simp add: field_simps)
  moreover have "need \<le> unat (Limit p) * ?P"
  proof -
    have "(unat x - ?t) * ?P \<le> unat (Limit p) * ?P" using x(2) by (intro mult_le_mono1) linarith
    then show ?thesis unfolding need_def by linarith
  qed
  moreover have "refillDuration (x - st_tokens st) (st_remainder st) p = 1000 * int (refill_us (unat x - ?t) ?r p)"
    using refillDuration_us [OF p _ r, of "x - st_tokens st"] sub x(2) by simp
  ultimately show ?thesis using reference_refill [OF p, of need] by (simp add: refill_us_def Let_def need_def)
qed

lemma token_step_agrees:
  assumes p: "token_policy (r_Policy r)" "no_wrap (r_Policy r)" and ag: "token_agrees (r_Policy r) st rs"
    and now: "on_micro (r_Now r)" "st_lastRefill st \<le> r_Now r" and cost: "0 < unat (r_Cost r)" "unat (r_Cost r) \<le> unat (Limit (r_Policy r))"
    and adm: "admitToken st r = (st', d, err)"
  shows "\<exists>t l. referenceToken rs r = (rs\<lparr>rf_tokens := t, rf_last := l\<rparr>, d, err) \<and>
    token_agrees (r_Policy r) st' (rs\<lparr>rf_tokens := t, rf_last := l\<rparr>) \<and> st_lastRefill st' = r_Now r"
proof -
  let ?p = "r_Policy r" and ?s = "refill st r" and ?c = "unat (r_Cost r)" and ?P = "period_us (r_Policy r)"
  note pf = token_policy_facts [OF p(1)]
  have inv0: "token_inv ?p st" and last: "rf_last rs = st_lastRefill st" using ag by (simp_all add: token_agrees_def)
  note rl = refill_level [OF p inv0 now] and law = admitToken_law [OF p inv0 now cost(1) adm]
  have inv: "token_inv ?p ?s" using rl by simp
  let ?cur = "rs\<lparr>rf_tokens := of_nat (token_level ?p ?s) / of_nat ?P, rf_last := r_Now r\<rparr>"
  let ?refilled = "rf_tokens rs + of_int (Microseconds (time_Sub (r_Now r) (rf_last rs))) /
      of_int (Microseconds (p_period (r_Policy r))) * rat_of_u64 (p_capacity (r_Policy r))"
  have cur: "(if r_Now r > rf_last rs
      then rs\<lparr>rf_tokens := (if ?refilled > rat_of_u64 (Limit ?p) then rat_of_u64 (Limit ?p) else ?refilled), rf_last := r_Now r\<rparr>
      else rs) = ?cur"
  proof (cases "st_lastRefill st < r_Now r")
    case True
    then show ?thesis using refill_agrees [OF p ag now(1) True] last by simp
  next
    case False
    then show ?thesis using ag now(2) by (simp add: token_agrees_def refill_def)
  qed
  have covers: "rat_of_u64 (r_Cost r) \<le> of_nat (token_level ?p ?s) / of_nat ?P \<longleftrightarrow> \<not> st_tokens ?s < r_Cost r"
  proof -
    have "rat_of_u64 (r_Cost r) \<le> of_nat (token_level ?p ?s) / of_nat ?P \<longleftrightarrow> (of_nat (?c * ?P) :: rat) \<le> of_nat (token_level ?p ?s)"
      using pf(1) by (simp add: rat_of_u64_def pos_le_divide_eq)
    also have "\<dots> \<longleftrightarrow> ?c \<le> unat (st_tokens ?s)"
      unfolding of_nat_le_iff token_level_def using inv by (intro level_covers) (simp add: token_inv_def)
    finally show ?thesis by (simp add: u64_less not_less)
  qed
  show ?thesis
  proof (cases "st_tokens ?s < r_Cost r")
    case True
    have st': "st' = ?s" "err = Some ErrRejected" using adm True by (auto simp: admitToken_def Let_def)
    have w: "referenceRefillDuration (rat_of_u64 (Limit ?p) - of_nat (token_level ?p ?s) / of_nat ?P) ?p =
        refillDuration (Limit ?p - st_tokens ?s) (st_remainder ?s) ?p"
      "referenceRefillDuration (rat_of_u64 (r_Cost r) - of_nat (token_level ?p ?s) / of_nat ?P) ?p =
        refillDuration (r_Cost r - st_tokens ?s) (st_remainder ?s) ?p"
      using inv True cost(2) by (auto intro!: wait_agrees [OF p(1) inv] simp: token_inv_def u64_less)
    have "referenceToken rs r = (?cur, d, err)"
      unfolding referenceToken_def Let_def cur
      using adm True w level_div [OF p(1) inv] covers
      by (auto simp: admitToken_def Let_def floorRat_level [OF pf(1)] zero_Decision_def)
    then show ?thesis using inv rl st' by (auto simp: token_agrees_def intro!: exI)
  next
    case False
    let ?t = "?s\<lparr>st_tokens := st_tokens ?s - r_Cost r\<rparr>"
    have st': "st' = ?t" "err = None" using adm False by (auto simp: admitToken_def Let_def)
    have inv': "token_inv ?p st'" by (rule law(1))
    have "token_level ?p st' + ?c * ?P = token_level ?p ?s" using law(4) st'(2) rl by simp
    then have "of_nat (token_level ?p ?s) = rat_of_u64 (r_Cost r) * of_nat ?P + of_nat (token_level ?p st')"
      unfolding rat_of_u64_def by (metis add.commute of_nat_add of_nat_mult)
    then have lv: "of_nat (token_level ?p ?s) / of_nat ?P - rat_of_u64 (r_Cost r) = of_nat (token_level ?p st') / of_nat ?P"
      using pf(1) by (simp add: field_simps)
    have w: "referenceRefillDuration (rat_of_u64 (Limit ?p) - of_nat (token_level ?p st') / of_nat ?P) ?p =
        refillDuration (Limit ?p - st_tokens st') (st_remainder st') ?p"
      using inv' by (auto intro!: wait_agrees [OF p(1) inv'] simp: token_inv_def)
    have "referenceToken rs r = (rs\<lparr>rf_tokens := of_nat (token_level ?p st') / of_nat ?P, rf_last := r_Now r\<rparr>, d, err)"
      unfolding referenceToken_def Let_def cur
      using adm False w level_div [OF p(1) inv'] covers lv
      by (simp add: admitToken_def Let_def floorRat_level [OF pf(1)] st')
    then show ?thesis using inv' law(2) by (auto simp: token_agrees_def intro!: exI)
  qed
qed

section \<open>Windows\<close>

lemma reference_floorBoundary_eq: "int64_range v \<Longrightarrow> reference_floorBoundary v w = floorBoundary v w"
  using shift63 [of v] by (simp add: reference_floorBoundary_def floorBoundary_def Let_def)

lemma consume_agrees:
  assumes "rf_used rs = st_used st" "consumeWindow st r reset = (st', d, err)"
  shows "referenceConsume rs r reset = (rs\<lparr>rf_used := st_used st'\<rparr>, d, err)"
  using assms by (auto simp: referenceConsume_def consumeWindow_def nonnegative_def Let_def split: if_splits)

lemma fixed_step_agrees:
  assumes "rf_window rs = st_windowStart st" "rf_used rs = st_used st" "admitFixed st r = (st', d, err)"
  shows "referenceFixed rs r = (rs\<lparr>rf_window := st_windowStart st', rf_used := st_used st'\<rparr>, d, err)"
proof -
  let ?w = "floorBoundary (UnixNano (r_Now r)) (p_period (r_Policy r))"
  let ?st = "if st_windowStart st \<noteq> ?w then st\<lparr>st_windowStart := ?w, st_used := 0\<rparr> else st"
  let ?rs = "if rf_window rs \<noteq> ?w then rs\<lparr>rf_window := ?w, rf_used := 0\<rparr> else rs"
  have w: "reference_floorBoundary (UnixNano (r_Now r)) (p_period (r_Policy r)) = ?w"
    by (rule reference_floorBoundary_eq) (simp add: UnixNano_def i64_range)
  have c: "consumeWindow ?st r (time_UnixNano (i64 (?w + p_period (r_Policy r)))) = (st', d, err)"
    using assms(3) by (simp only: admitFixed_def Let_def)
  then have "st_windowStart st' = ?w" by (auto simp: consumeWindow_def Let_def split: if_splits)
  moreover have "rf_used ?rs = st_used ?st" using assms(1,2) by simp
  ultimately show ?thesis
    using consume_agrees [OF _ c, of ?rs] assms(1) by (simp add: referenceFixed_def Let_def w) (auto split: if_splits)
qed

text \<open>The segments of the two sides, and the two ways to say that none is in use.\<close>

definition reference_segment :: "segment \<Rightarrow> referenceSegment" where
  "reference_segment g = \<lparr>rg_index = g_index g, rg_used = g_used g\<rparr>"

definition segment_ok :: "segment \<Rightarrow> bool" where
  "segment_ok g \<longleftrightarrow> g_used g \<noteq> 0 \<longrightarrow> 0 < g_index g \<and> g_index g < MaxInt64"

definition earliest_agrees :: "int \<Rightarrow> int \<Rightarrow> bool" where
  "earliest_agrees m e \<longleftrightarrow> e = 0 \<and> m = MaxInt64 \<or> e = m \<and> 0 < m \<and> m < MaxInt64"

lemma segment_simps [simp]:
  "rg_index (reference_segment g) = g_index g" "rg_used (reference_segment g) = g_used g"
  "reference_segment zero_segment = zero_rsegment" "segment_ok zero_segment"
  by (simp_all add: reference_segment_def zero_segment_def zero_rsegment_def segment_ok_def)

lemma scan_agrees:
  assumes "\<forall>g \<in> set gs. segment_ok g" "earliest_agrees m e" "scanSegments oldest gs u m = (gs', u', m')"
  shows "\<exists>e'. reference_scan oldest (map reference_segment gs) u e = (map reference_segment gs', u', e') \<and> earliest_agrees m' e' \<and>
    (\<forall>g \<in> set gs'. segment_ok g) \<and> length gs' = length gs"
  using assms
proof (induction gs arbitrary: u m e gs')
  case (Cons g gs)
  show ?case
  proof (cases "g_index g \<le> oldest")
    case True
    obtain gs1 where s: "scanSegments oldest gs u m = (gs1, u', m')" "gs' = zero_segment # gs1"
      using Cons.prems(3) True by (auto split: prod.splits)
    show ?thesis using Cons.IH [OF _ Cons.prems(2) s(1)] Cons.prems(1) True s(2) by auto
  next
    case False
    let ?m = "if g_used g \<noteq> 0 then min m (g_index g) else m"
    let ?e = "if g_used g > 0 \<and> (e = 0 \<or> g_index g < e) then g_index g else e"
    obtain gs1 where s: "scanSegments oldest gs (u + g_used g) ?m = (gs1, u', m')" "gs' = g # gs1"
      using Cons.prems(3) False by (auto simp: Let_def split: prod.splits)
    have "earliest_agrees ?m ?e"
      using Cons.prems(1,2) by (auto simp: earliest_agrees_def segment_ok_def min_def word_gt_0)
    from Cons.IH [OF _ this s(1)] show ?thesis using Cons.prems(1) False s(2) by auto
  qed
qed simp

lemma sliding_index_ok:
  assumes p: "sliding_policy p" and t: "p_period p \<le> t" "t \<le> MaxInt64"
  defines "i \<equiv> floorBoundary (UnixNano t) (segmentSize p) sdiv segmentSize p"
  shows "0 < i" "i < MaxInt64" "nat (positiveMod i 16) < 16"
proof -
  note w = sliding_width [OF p]
  have per: "1000 \<le> p_period p" using p by (auto simp: sliding_policy_def policy_wf_def duration_wf_def)
  then have w2: "2 \<le> seg_width p" unfolding seg_width_def by linarith
  have r: "int64_range t" using t per by (intro int64_rangeI) linarith+
  have q: "t div seg_width p * seg_width p \<le> t" "1 \<le> t div seg_width p"
    using w(2,4) t(1) pos_mod_sign [OF w(2), of t] zdiv_mono1 [of "seg_width p" t "seg_width p"]
    by (simp_all add: minus_mod_eq_div_mult [symmetric])
  have two: "t div seg_width p * 2 \<le> t div seg_width p * seg_width p" using w2 q(2) by (intro mult_left_mono) linarith+
  have "int64_range (t div seg_width p * seg_width p)" using q t two by (intro int64_rangeI) linarith+
  then have i: "i = t div seg_width p"
    using r w(2) by (simp add: i_def w(1) UnixNano_def floorBoundary_floor sdiv_multiple)
  show "0 < i" "i < MaxInt64" unfolding i using q two t by linarith+
  show "nat (positiveMod i 16) < 16" using positiveMod_mod [of 16 i] by (simp add: nat_less_iff)
qed

lemma sliding_step_agrees:
  assumes p: "sliding_policy (r_Policy r)" and t: "p_period (r_Policy r) \<le> r_Now r" "r_Now r \<le> MaxInt64"
    and segs: "rf_segments rs = map reference_segment (st_segments st)" "length (st_segments st) = 16" "\<forall>g \<in> set (st_segments st). segment_ok g"
    and adm: "admitSliding st r = (st', d, err)"
  shows "referenceSliding rs r = (rs\<lparr>rf_used := st_used st', rf_segments := map reference_segment (st_segments st')\<rparr>, d, err) \<and>
    length (st_segments st') = 16 \<and> (\<forall>g \<in> set (st_segments st'). segment_ok g)"
proof -
  let ?p = "r_Policy r" and ?w = "segmentSize (r_Policy r)"
  define i where "i = floorBoundary (UnixNano (r_Now r)) ?w sdiv ?w"
  define old where "old = floorBoundary (UnixNano (time_Add (r_Now r) (- p_period ?p))) ?w sdiv ?w"
  define k where "k = nat (positiveMod i 16)"
  note io = sliding_index_ok [OF p t, folded i_def]
  have k: "k < 16" "k = nat (if i smod 16 < 0 then i smod 16 + 16 else i smod 16)"
    using io(3) by (simp_all add: k_def positiveMod_def Let_def)
  have w: "i64 (p_period ?p + 15) sdiv 16 = ?w" by (simp add: segmentSize_def slidingSegments_def algebra_simps)
  have b: "reference_floorBoundary (UnixNano t) ?w = floorBoundary (UnixNano t) ?w" for t
    by (rule reference_floorBoundary_eq) (simp add: UnixNano_def i64_range)
  obtain gs u m where sc: "scanSegments old (st_segments st) 0 MaxInt64 = (gs, u, m)"
    by (cases "scanSegments old (st_segments st) 0 MaxInt64")
  have "earliest_agrees MaxInt64 0" by (simp add: earliest_agrees_def)
  from scan_agrees [OF segs(3) this sc] obtain e where
    rsc: "reference_scan old (map reference_segment (st_segments st)) 0 0 = (map reference_segment gs, u, e)" and
    e: "earliest_agrees m e" and ok: "\<forall>g \<in> set gs. segment_ok g" and len: "length gs = 16"
    using segs(2) by auto
  define hs where "hs = (if g_index (gs ! k) \<noteq> i then gs[k := \<lparr>g_index = i, g_used = 0\<rparr>] else gs)"
  have rhs: "(if rg_index (map reference_segment gs ! k) \<noteq> i then (map reference_segment gs)[k := \<lparr>rg_index = i, rg_used = 0\<rparr>]
      else map reference_segment gs) = map reference_segment hs"
    using k len by (simp add: hs_def map_update reference_segment_def)
  have hs: "length hs = 16" "\<forall>g \<in> set hs. segment_ok g" "g_index (hs ! k) = i"
    using ok len k set_update_subset_insert [of gs k "\<lparr>g_index = i, g_used = 0\<rparr>"]
    by (auto simp: hs_def segment_ok_def)
  define reset where "reset = (if m \<noteq> MaxInt64 then time_Add (time_UnixNano (i64 (i64 (m + 1) * ?w))) (p_period ?p)
      else time_Add (r_Now r) (p_period ?p))"
  have reset: "(if e \<noteq> 0 then time_Add (time_UnixNano (i64 (i64 (e + 1) * ?w))) (p_period ?p)
      else time_Add (r_Now r) (p_period ?p)) = reset"
    using e by (auto simp: reset_def earliest_agrees_def)
  obtain st1 d1 err1 where c1: "consumeWindow (st\<lparr>st_segments := hs, st_used := u\<rparr>) r reset = (st1, d1, err1)"
    by (cases "consumeWindow (st\<lparr>st_segments := hs, st_used := u\<rparr>) r reset")
  have sg: "int slidingSegments = 16" by (simp add: slidingSegments_def)
  have a: "(if err1 = None then (st1\<lparr>st_segments := (st_segments st1)[k := (st_segments st1 ! k)
        \<lparr>g_used := g_used (st_segments st1 ! k) + r_Cost r\<rparr>]\<rparr>, d1, err1) else (st1, d1, err1)) = (st', d, err)"
    using adm unfolding admitSliding_def Let_def i_def [symmetric] old_def [symmetric] sc prod.case sg k_def [symmetric]
      hs_def [symmetric] reset_def [symmetric] c1 .
  then have de: "d1 = d" "err1 = err" by (simp_all split: if_splits)
  note c = c1 [unfolded de]
  have st': "st' = (if err = None then st1\<lparr>st_segments := (st_segments st1)[k := (st_segments st1 ! k)
        \<lparr>g_used := g_used (st_segments st1 ! k) + r_Cost r\<rparr>]\<rparr> else st1)"
    using a de by (auto split: if_splits)
  have s1: "st_segments st1 = hs" using c by (auto simp: consumeWindow_def Let_def split: if_splits)
  have rc: "referenceConsume (rs\<lparr>rf_segments := map reference_segment hs, rf_used := u\<rparr>) r reset =
      (rs\<lparr>rf_segments := map reference_segment hs, rf_used := st_used st1\<rparr>, d, err)"
    using consume_agrees [OF _ c, of "rs\<lparr>rf_segments := map reference_segment hs, rf_used := u\<rparr>"] by simp
  have upd: "(map reference_segment hs)[k := (map reference_segment hs ! k)\<lparr>rg_used := rg_used (map reference_segment hs ! k) + r_Cost r\<rparr>] =
      map reference_segment (hs[k := (hs ! k)\<lparr>g_used := g_used (hs ! k) + r_Cost r\<rparr>])"
    using k hs(1) by (simp add: map_update reference_segment_def)
  have r: "referenceSliding rs r = (if err = None
      then (rs\<lparr>rf_segments := map reference_segment (hs[k := (hs ! k)\<lparr>g_used := g_used (hs ! k) + r_Cost r\<rparr>]), rf_used := st_used st1\<rparr>, d, err)
      else (rs\<lparr>rf_segments := map reference_segment hs, rf_used := st_used st1\<rparr>, d, err))"
    unfolding referenceSliding_def Let_def w b i_def [symmetric] old_def [symmetric] segs(1) rsc prod.case k(2) [symmetric] rhs reset rc
    by (simp add: upd)
  have "\<forall>g \<in> set (st_segments st'). segment_ok g" "length (st_segments st') = 16"
    using hs io(1,2) s1 st' k set_update_subset_insert [of hs k "(hs ! k)\<lparr>g_used := g_used (hs ! k) + r_Cost r\<rparr>"]
    by (auto simp: segment_ok_def)
  then show ?thesis using r s1 st' by (cases "err = None") simp_all
qed

section \<open>Sequences of requests\<close>

text \<open>
  Instants on a microsecond; for a sliding window also at least one period after 1970
  and within \<open>int64\<close> nanoseconds, so that no segment in use has index 0.
\<close>

definition instant_fits :: "policy \<Rightarrow> time \<Rightarrow> bool" where
  "instant_fits p t \<longleftrightarrow> on_micro t \<and> (p_algorithm p = SlidingWindow \<longrightarrow> p_period p \<le> t \<and> t \<le> MaxInt64)"

definition key_agrees :: "policy \<Rightarrow> mstate \<Rightarrow> referenceState \<Rightarrow> bool" where
  "key_agrees p st rs \<longleftrightarrow>
     rf_algorithm rs = p_algorithm p \<and> rf_revision rs = p_revision p \<and> rf_observed rs = st_lastSeen st \<and>
     instant_fits p (st_lastSeen st) \<and>
     (p_algorithm p = TokenBucket \<longrightarrow> token_agrees p st rs \<and> st_lastRefill st \<le> st_lastSeen st) \<and>
     (p_algorithm p = FixedWindow \<longrightarrow> rf_window rs = st_windowStart st \<and> rf_used rs = st_used st) \<and>
     (p_algorithm p = SlidingWindow \<longrightarrow> rf_segments rs = map reference_segment (st_segments st) \<and>
        length (st_segments st) = 16 \<and> (\<forall>g \<in> set (st_segments st). segment_ok g))"

lemma new_agrees:
  assumes "policy_wf p" "p_algorithm p \<noteq> Concurrency" "r_Policy r = p" "instant_fits p (r_Now r)"
  shows "key_agrees p (new_state r) (new_reference_state r)"
proof -
  have "0 < period_us p" by (rule policy_wf_period(2) [OF assms(1,2)])
  then show ?thesis
    using assms
    by (auto simp: key_agrees_def new_state_def new_reference_state_def token_agrees_def token_inv_def token_level_def
        rat_of_u64_def instant_fits_def slidingSegments_def)
qed

text \<open>The algorithms on a state whose last instant is the request's.\<close>

lemma algorithm_agrees:
  assumes p: "policy_wf p" "p_algorithm p \<noteq> Concurrency" "p_algorithm p = TokenBucket \<longrightarrow> no_wrap p"
    and r: "r_Policy r = p" "0 < unat (r_Cost r)" "unat (r_Cost r) \<le> unat (Limit p)" "r_Now r = st_lastSeen st"
    and ag: "key_agrees p st rs"
    and adm: "(case p_algorithm p of TokenBucket \<Rightarrow> admitToken st r | FixedWindow \<Rightarrow> admitFixed st r | _ \<Rightarrow> admitSliding st r) = (st', d, err)"
  shows "\<exists>rs'. (case p_algorithm p of TokenBucket \<Rightarrow> referenceToken rs r | FixedWindow \<Rightarrow> referenceFixed rs r
      | SlidingWindow \<Rightarrow> referenceSliding rs r | _ \<Rightarrow> (rs, zero_Decision, Some ErrUnsupported)) = (rs', d, err) \<and> key_agrees p st' rs'"
proof -
  have fits: "instant_fits p (r_Now r)" using ag r(4) by (simp add: key_agrees_def)
  have "p_algorithm p \<in> {TokenBucket, FixedWindow, SlidingWindow}" using p by (auto simp: policy_wf_def)
  then consider (token) "p_algorithm p = TokenBucket" | (fixed) "p_algorithm p = FixedWindow" | (sliding) "p_algorithm p = SlidingWindow"
    by auto
  then show ?thesis
  proof cases
    case token
    then have tp: "token_policy (r_Policy r)" "no_wrap (r_Policy r)" "token_agrees (r_Policy r) st rs" "on_micro (r_Now r)"
      "st_lastRefill st \<le> r_Now r" "0 < unat (r_Cost r)" "unat (r_Cost r) \<le> unat (Limit (r_Policy r))" "admitToken st r = (st', d, err)"
      using p r ag fits adm by (simp_all add: token_policy_def key_agrees_def instant_fits_def)
    obtain t l where "referenceToken rs r = (rs\<lparr>rf_tokens := t, rf_last := l\<rparr>, d, err)"
      "token_agrees p st' (rs\<lparr>rf_tokens := t, rf_last := l\<rparr>)" "st_lastRefill st' = r_Now r"
      using token_step_agrees [OF tp] r(1) by auto
    then show ?thesis using token ag r(4) lastSeen_kept(1) [OF tp(8)] by (auto simp: key_agrees_def)
  next
    case fixed
    then have a: "admitFixed st r = (st', d, err)" using adm by simp
    show ?thesis
      using fixed_step_agrees [OF _ _ a, of rs] fixed ag lastSeen_kept(2) [OF a] by (auto simp: key_agrees_def)
  next
    case sliding
    then have a: "admitSliding st r = (st', d, err)" using adm by simp
    have "sliding_policy (r_Policy r)" "p_period (r_Policy r) \<le> r_Now r" "r_Now r \<le> MaxInt64"
      using p(1) sliding r(1) fits by (simp_all add: sliding_policy_def instant_fits_def)
    from sliding_step_agrees [OF this _ _ _ a, of rs] show ?thesis
      using sliding ag lastSeen_kept(3) [OF a] by (auto simp: key_agrees_def)
  qed
qed

lemma step_agrees:
  assumes p: "policy_wf p" "p_algorithm p \<noteq> Concurrency" "p_algorithm p = TokenBucket \<longrightarrow> no_wrap p"
    and r: "sends p r" "instant_fits p (r_Now r)"
    and ag: "key_agrees p st (reference_state states r)" and adm: "admitState st r = (st', d, err)"
  shows "\<exists>rs'. reference_admitLocked states r strict = (d, err, AList.update (stateKey r) rs' states) \<and> key_agrees p st' rs'"
proof -
  let ?rs = "reference_state states r" and ?now = "max (r_Now r) (st_lastSeen st)"
  let ?r = "r\<lparr>r_Now := ?now\<rparr>" and ?st = "st\<lparr>st_lastSeen := ?now\<rparr>"
  have s: "r_Policy r = p" "0 < unat (r_Cost r)" "unat (r_Cost r) \<le> unat (Limit p)" using r(1) by (simp_all add: sends_def)
  have obs: "rf_observed ?rs = st_lastSeen st" "rf_algorithm ?rs = p_algorithm p" "rf_revision ?rs = p_revision p"
    using ag by (simp_all add: key_agrees_def)
  define cur where "cur = ?rs\<lparr>rf_observed := ?now\<rparr>"
  have "instant_fits p ?now" using r(2) ag by (simp add: key_agrees_def max_def)
  then have ag': "key_agrees p ?st cur" using ag by (auto simp: key_agrees_def cur_def token_agrees_def token_inv_def token_level_def)
  have adm': "(case p_algorithm p of TokenBucket \<Rightarrow> admitToken ?st ?r | FixedWindow \<Rightarrow> admitFixed ?st ?r | _ \<Rightarrow> admitSliding ?st ?r) = (st', d, err)"
  proof -
    have e: "(if r_Now r < st_lastSeen st then r\<lparr>r_Now := st_lastSeen st\<rparr> else r) = ?r" by (simp add: max_def)
    have "r_Policy ?r = p" "r_Now ?r = ?now" using s(1) by simp_all
    then show ?thesis using adm unfolding admitState_def Let_def e by (simp only:)
  qed
  obtain rs' where step: "(case p_algorithm p of TokenBucket \<Rightarrow> referenceToken cur ?r | FixedWindow \<Rightarrow> referenceFixed cur ?r
      | SlidingWindow \<Rightarrow> referenceSliding cur ?r | _ \<Rightarrow> (cur, zero_Decision, Some ErrUnsupported)) = (rs', d, err)" "key_agrees p st' rs'"
    using algorithm_agrees [OF p _ _ _ _ ag' adm'] s by auto
  have tok: "\<not> (rf_tokens ?rs < 0 \<or> rat_of_u64 (Limit p) < rf_tokens ?rs)" if "p_algorithm p = TokenBucket"
  proof -
    have inv: "token_inv p st" "rf_tokens ?rs = of_nat (token_level p st) / of_nat (period_us p)"
      using ag that by (simp_all add: key_agrees_def token_agrees_def)
    have "(of_nat (token_level p st) :: rat) \<le> of_nat (unat (Limit p) * period_us p)"
      unfolding of_nat_le_iff by (rule token_level_bound [OF inv(1)])
    then show ?thesis using policy_wf_period(2) [OF p(1,2)] by (simp add: inv(2) rat_of_u64_def not_less pos_divide_le_eq)
  qed
  have clamp: "clampTime (r_Now r) (st_lastSeen st) = ?now" by (simp add: clampTime_def max_def)
  have noop: "?rs\<lparr>rf_revision := p_revision p\<rparr> = ?rs" by (simp add: obs(3) [symmetric])
  have "reference_admitLocked states r strict = (d, err, AList.update (stateKey r) rs' states)"
    using step(1) tok unfolding reference_admitLocked_def Let_def s(1) obs
    by (auto simp: noop clamp cur_def obs split: algorithm.splits)
  then show ?thesis using step(2) by blast
qed

fun admit_log :: "mstate \<Rightarrow> request list \<Rightarrow> (decision \<times> go_error option) list" where
  "admit_log st [] = []"
| "admit_log st (r # rs) = (let (st', d, err) = admitState st r in (d, err) # admit_log st' rs)"

fun reference_log :: "bool \<Rightarrow> refStates \<Rightarrow> request list \<Rightarrow> (decision \<times> go_error option) list" where
  "reference_log strict states [] = []"
| "reference_log strict states (r # rs) =
     (let (d, err, states') = reference_admitLocked states r strict in (d, err) # reference_log strict states' rs)"

lemma logs_agree:
  assumes p: "policy_wf p" "p_algorithm p \<noteq> Concurrency" "p_algorithm p = TokenBucket \<longrightarrow> no_wrap p"
    and rs: "\<forall>r \<in> set rs. sends p r \<and> instant_fits p (r_Now r) \<and> r_Key r = k"
    and ag: "\<And>r. r \<in> set rs \<Longrightarrow> key_agrees p st (reference_state states r)"
  shows "admit_log st rs = reference_log strict states rs"
  using rs ag
proof (induction rs arbitrary: st states)
  case (Cons r rs)
  obtain st' d err where a: "admitState st r = (st', d, err)" by (cases "admitState st r")
  obtain rs' where s: "reference_admitLocked states r strict = (d, err, AList.update (stateKey r) rs' states)" "key_agrees p st' rs'"
    using step_agrees [OF p _ _ Cons.prems(2) a, of strict] Cons.prems(1) by auto
  have "reference_state (AList.update (stateKey r) rs' states) r' = rs'" if "r' \<in> set rs" for r'
  proof -
    have "stateKey r' = stateKey r" using Cons.prems(1) that by (simp add: stateKey_def sends_def)
    then show ?thesis by (simp add: reference_state_def update_conv)
  qed
  then have "admit_log st' rs = reference_log strict (AList.update (stateKey r) rs' states) rs"
    using Cons.IH [of st'] Cons.prems(1) s(2) by simp
  then show ?case by (simp add: a s(1))
qed simp

text \<open>C7. The memory store's algorithms agree with the reference model. Take any policy other
  than a concurrency limit, a token bucket of at most 1,024 tokens per microsecond, and
  any sequence of validated requests on one new key, with clocks that may run backwards.
  Then the decisions and errors of the memory store, with whole tokens and remainders in
  64-bit words, are those of the reference model with rational tokens, one by one: outcome,
  remaining units, reset and retry hint; for the strict and the released reference model.
  For a sliding window the instants lie between one period after 1970 and the year 2262.\<close>

theorem reference_agrees:
  assumes p: "policy_wf p" "p_algorithm p \<noteq> Concurrency" "p_algorithm p = TokenBucket \<longrightarrow> no_wrap p"
    and rs: "\<forall>r \<in> set (r0 # rs). sends p r \<and> instant_fits p (r_Now r) \<and> r_Key r = k"
    and new: "map_of states (stateKey r0) = None"
  shows "admit_log (new_state r0) (r0 # rs) = reference_log strict states (r0 # rs)"
proof -
  have r0: "sends p r0" "instant_fits p (r_Now r0)" "reference_state states r0 = new_reference_state r0"
    using rs new by (simp_all add: reference_state_def)
  have n: "key_agrees p (new_state r0) (new_reference_state r0)"
    using new_agrees [OF p(1,2) _ r0(2)] r0(1) by (simp add: sends_def)
  obtain st' d err where a: "admitState (new_state r0) r0 = (st', d, err)" by (cases "admitState (new_state r0) r0")
  obtain rs' where s: "reference_admitLocked states r0 strict = (d, err, AList.update (stateKey r0) rs' states)" "key_agrees p st' rs'"
    using step_agrees [OF p r0(1,2) _ a, of states strict] n r0(3) by auto
  have "key_agrees p st' (reference_state (AList.update (stateKey r0) rs' states) r)" if "r \<in> set rs" for r
  proof -
    have "stateKey r = stateKey r0" using rs that by (simp add: stateKey_def sends_def)
    then show ?thesis using s(2) by (simp add: reference_state_def update_conv)
  qed
  then have "admit_log st' rs = reference_log strict (AList.update (stateKey r0) rs' states) rs"
    using rs by (intro logs_agree [OF p]) auto
  then show ?thesis by (simp add: a s(1))
qed

theorem reference_agrees_witness:
  "admit_log (new_state sample_request) [sample_request, sample_request\<lparr>r_Cost := 15, r_Now := 1700000000100000000\<rparr>] =
   reference_log True NewReference [sample_request, sample_request\<lparr>r_Cost := 15, r_Now := 1700000000100000000\<rparr>]"
  by (rule reference_agrees [of sample_policy _ _ sample_key, OF sample_policy_wf])
    (simp_all add: sends_def instant_fits_def no_wrap_def sample_request_def NewReference_def on_micro_def
      sample_policy_def Limit_def period_us_def del: admit_log.simps reference_log.simps)

end
