(* ===== verification/Netip.thy ===== *)
theory Netip
  imports Go_Text "HOL-Library.Word"
begin

unbundle bit_operations_syntax

text \<open>
  What the HTTP adapter uses of \<open>net/netip\<close> and \<open>net\<close>: addresses, prefixes, parsing and
  \<open>SplitHostPort\<close>. An address is the zero \<open>Addr\<close>, an IPv4 address, or an IPv6 address
  with a zone, empty for none. A failed parse is \<open>None\<close>; its text is not used.
\<close>

datatype addr = ZeroAddr | Addr4 "32 word" | Addr6 "128 word" string

fun BitLen :: "addr \<Rightarrow> nat" where
  "BitLen ZeroAddr = 0"
| "BitLen (Addr4 a) = 32"
| "BitLen (Addr6 a zone) = 128"

fun hasZone :: "addr \<Rightarrow> bool" where
  "hasZone (Addr6 a zone) = (zone \<noteq> '''')"
| "hasZone _ = False"

fun Unmap :: "addr \<Rightarrow> addr" where
  "Unmap (Addr6 a zone) = (if drop_bit 32 a = 0xFFFF then Addr4 (ucast a) else Addr6 a zone)"
| "Unmap ip = ip"

section \<open>Prefixes\<close>

text \<open>The number of bits is \<open>None\<close> for an invalid prefix. The address of a prefix has no zone.\<close>

record prefix =
  pf_ip :: addr
  pf_bits :: "nat option"

fun withoutZone :: "addr \<Rightarrow> addr" where
  "withoutZone (Addr6 a zone) = Addr6 a ''''"
| "withoutZone ip = ip"

definition PrefixFrom :: "addr \<Rightarrow> int \<Rightarrow> prefix" where
  "PrefixFrom ip bits =
     \<lparr>pf_ip = withoutZone ip,
      pf_bits = (if ip \<noteq> ZeroAddr \<and> 0 \<le> bits \<and> bits \<le> int (BitLen ip) then Some (nat bits) else None)\<rparr>"

definition prefix_IsValid :: "prefix \<Rightarrow> bool" where
  "prefix_IsValid p \<longleftrightarrow> pf_bits p \<noteq> None"

fun mask_addr :: "nat \<Rightarrow> addr \<Rightarrow> addr" where
  "mask_addr bits (Addr4 a) = Addr4 (push_bit (32 - bits) (drop_bit (32 - bits) a))"
| "mask_addr bits (Addr6 a zone) = Addr6 (push_bit (128 - bits) (drop_bit (128 - bits) a)) ''''"
| "mask_addr bits ZeroAddr = ZeroAddr"

definition Masked :: "prefix \<Rightarrow> prefix" where
  "Masked p = (case pf_bits p of
     None \<Rightarrow> \<lparr>pf_ip = ZeroAddr, pf_bits = None\<rparr>
   | Some bits \<Rightarrow> \<lparr>pf_ip = mask_addr bits (pf_ip p), pf_bits = Some bits\<rparr>)"

definition Contains :: "prefix \<Rightarrow> addr \<Rightarrow> bool" where
  "Contains p ip = (case pf_bits p of
     None \<Rightarrow> False
   | Some bits \<Rightarrow>
     \<not> hasZone ip \<and>
     (case (ip, pf_ip p) of
        (Addr4 a, Addr4 b) \<Rightarrow> drop_bit (32 - bits) (a XOR b) = 0
      | (Addr6 a z, Addr6 b z') \<Rightarrow> drop_bit (128 - bits) (a XOR b) = 0
      | _ \<Rightarrow> False))"

section \<open>Parsing\<close>

definition digit_char :: "char \<Rightarrow> bool" where
  "digit_char c \<longleftrightarrow> 48 \<le> (of_char c :: nat) \<and> (of_char c :: nat) \<le> 57"

text \<open>
  The fields of a dotted address: value and number of digits of the current field, and the
  fields before it. No digit yet means the start of the text or a dot just before.
\<close>

fun parseIPv4Fields :: "string \<Rightarrow> nat \<Rightarrow> nat \<Rightarrow> nat list \<Rightarrow> nat list option" where
  "parseIPv4Fields [] val digLen done = (if length done < 3 then None else Some (done @ [val]))"
| "parseIPv4Fields (c # cs) val digLen done =
     (if digit_char c
      then if digLen = 1 \<and> val = 0 then None
           else let val = val * 10 + of_char c - 48 in
                if val > 255 then None else parseIPv4Fields cs val (Suc digLen) done
      else if c = CHR ''.''
      then if digLen = 0 \<or> cs = [] then None
           else if length done = 3 then None
           else parseIPv4Fields cs 0 0 (done @ [val])
      else None)"

definition word_of_bytes :: "nat list \<Rightarrow> 'a :: len word" where
  "word_of_bytes bs = foldl (\<lambda>acc b. push_bit 8 acc OR of_nat b) 0 bs"

definition parseIPv4 :: "string \<Rightarrow> addr option" where
  "parseIPv4 s = map_option (\<lambda>fs. Addr4 (word_of_bytes fs)) (parseIPv4Fields s 0 0 [])"

definition hex_digit :: "char \<Rightarrow> nat option" where
  "hex_digit c =
     (let n = of_char c :: nat in
      if 48 \<le> n \<and> n \<le> 57 then Some (n - 48)
      else if 97 \<le> n \<and> n \<le> 102 then Some (n - 87)
      else if 65 \<le> n \<and> n \<le> 70 then Some (n - 55)
      else None)"

text \<open>A group of at most four hexadecimal digits: their number, the value and the rest of the text.\<close>

fun hex_group :: "string \<Rightarrow> nat \<Rightarrow> nat \<Rightarrow> (nat \<times> nat \<times> string) option" where
  "hex_group [] off acc = Some (off, acc, [])"
| "hex_group (c # cs) off acc =
     (case hex_digit c of
        None \<Rightarrow> Some (off, acc, c # cs)
      | Some d \<Rightarrow> if off > 3 then None else hex_group cs (Suc off) (acc * 16 + d))"

text \<open>The loop of \<open>parseIPv6\<close>: the rest of the text, the bytes read and the place of the ellipsis.\<close>

function parseIPv6_loop :: "string \<Rightarrow> nat list \<Rightarrow> nat option \<Rightarrow> (string \<times> nat list \<times> nat option) option" where
  "parseIPv6_loop s ip ellipsis =
     (if length ip \<ge> 16 then Some (s, ip, ellipsis)
      else case hex_group s 0 0 of
        None \<Rightarrow> None
      | Some (off, acc, rest) \<Rightarrow>
        if off = 0 then None
        else if rest \<noteq> [] \<and> hd rest = CHR ''.''
        then if ellipsis = None \<and> length ip \<noteq> 12 then None
             else if length ip + 4 > 16 then None
             else map_option (\<lambda>fs. ([], ip @ fs, ellipsis)) (parseIPv4Fields s 0 0 [])
        else let ip = ip @ [acc div 256, acc mod 256] in
             case rest of
               [] \<Rightarrow> Some ([], ip, ellipsis)
             | c # r \<Rightarrow>
               if c \<noteq> CHR '':'' then None
               else if r = [] then None
               else if hd r = CHR '':''
               then if ellipsis \<noteq> None then None
                    else if tl r = [] then Some ([], ip, Some (length ip))
                    else parseIPv6_loop (tl r) ip (Some (length ip))
               else parseIPv6_loop r ip ellipsis)"
  by pat_completeness auto

termination parseIPv6_loop
  by (relation "measure (\<lambda>(s, ip, ellipsis). 16 - length ip)") auto

declare parseIPv6_loop.simps [simp del]

definition expand_ellipsis :: "nat list \<Rightarrow> nat option \<Rightarrow> nat list option" where
  "expand_ellipsis ip ellipsis =
     (if length ip < 16
      then case ellipsis of
             None \<Rightarrow> None
           | Some e \<Rightarrow> Some (take e ip @ replicate (16 - length ip) 0 @ drop e ip)
      else if ellipsis \<noteq> None then None else Some ip)"

definition parseIPv6 :: "string \<Rightarrow> addr option" where
  "parseIPv6 text =
     (let s = takeWhile (\<lambda>c. c \<noteq> CHR ''%'') text; zone = tl (dropWhile (\<lambda>c. c \<noteq> CHR ''%'') text) in
      if CHR ''%'' \<in> set text \<and> zone = '''' then None
      else let zone = (if CHR ''%'' \<in> set text then zone else '''');
               leading = (take 2 s = ''::'');
               s = (if leading then drop 2 s else s)
      in if leading \<and> s = [] then Some (Addr6 0 zone)
         else case parseIPv6_loop s [] (if leading then Some 0 else None) of
           None \<Rightarrow> None
         | Some (rest, ip, ellipsis) \<Rightarrow>
           if rest \<noteq> [] then None
           else map_option (\<lambda>bs. Addr6 (word_of_bytes bs) zone) (expand_ellipsis ip ellipsis))"

text \<open>The first of \<open>.\<close>, \<open>:\<close> and \<open>%\<close> decides the syntax.\<close>

definition ParseAddr :: "string \<Rightarrow> addr option" where
  "ParseAddr s =
     (case List.find (\<lambda>c. c \<in> {CHR ''.'', CHR '':'', CHR ''%''}) s of
        None \<Rightarrow> None
      | Some c \<Rightarrow> if c = CHR ''.'' then parseIPv4 s else if c = CHR '':'' then parseIPv6 s else None)"

section \<open>Printing\<close>

definition hex_char_of :: "nat \<Rightarrow> char" where
  "hex_char_of d = (if d < 10 then char_of (48 + d) else char_of (87 + d))"

fun hex_digits :: "nat \<Rightarrow> string" where
  "hex_digits n = (if n < 16 then [hex_char_of n] else hex_digits (n div 16) @ [hex_char_of (n mod 16)])"

declare hex_digits.simps [simp del]

definition string4 :: "32 word \<Rightarrow> string" where
  "string4 a =
     (let byte = (\<lambda>i. decimal_digits (unat (drop_bit (8 * i) a AND 255))) in
      byte 3 @ ''.'' @ byte 2 @ ''.'' @ byte 1 @ ''.'' @ byte 0)"

definition v6u16 :: "128 word \<Rightarrow> nat \<Rightarrow> nat" where
  "v6u16 a i = unat (drop_bit (16 * (7 - i)) a AND 65535)"

text \<open>The first longest run of at least two zero groups.\<close>

definition zero_run :: "128 word \<Rightarrow> nat \<Rightarrow> nat" where
  "zero_run a i = length (takeWhile (\<lambda>j. v6u16 a j = 0) [i..<8])"

definition zero_span :: "128 word \<Rightarrow> nat \<times> nat" where
  "zero_span a = foldl (\<lambda>(b, e) i. if zero_run a i \<ge> 2 \<and> zero_run a i > e - b then (i, i + zero_run a i) else (b, e))
     (255, 255) [0..<8]"

function appendTo6 :: "128 word \<Rightarrow> nat \<times> nat \<Rightarrow> nat \<Rightarrow> string" where
  "appendTo6 a span i =
     (if i \<ge> 8 then ''''
      else if i = fst span
      then if snd span \<ge> 8 \<or> snd span < i then ''::''
           else ''::'' @ hex_digits (v6u16 a (snd span)) @ appendTo6 a span (Suc (snd span))
      else (if i > 0 then '':'' else '''') @ hex_digits (v6u16 a i) @ appendTo6 a span (Suc i))"
  by pat_completeness auto

termination appendTo6
  by (relation "measure (\<lambda>(a, span, i). 8 - i)") auto

declare appendTo6.simps [simp del]

fun addr_String :: "addr \<Rightarrow> string" where
  "addr_String ZeroAddr = ''invalid IP''"
| "addr_String (Addr4 a) = string4 a"
| "addr_String (Addr6 a zone) =
     (if drop_bit 32 a = 0xFFFF then ''::ffff:'' @ string4 (ucast a) else appendTo6 a (zero_span a) 0) @
     (if zone = '''' then '''' else CHR ''%'' # zone)"

section \<open>net.SplitHostPort\<close>

definition last_index :: "char \<Rightarrow> string \<Rightarrow> nat option" where
  "last_index c s = (if c \<in> set s then Some (length s - 1 - length (takeWhile (\<lambda>x. x \<noteq> c) (rev s))) else None)"

definition first_index :: "char \<Rightarrow> string \<Rightarrow> nat option" where
  "first_index c s = (if c \<in> set s then Some (length (takeWhile (\<lambda>x. x \<noteq> c) s)) else None)"

text \<open>The host of an address with a port.\<close>

definition SplitHostPort :: "string \<Rightarrow> string option" where
  "SplitHostPort hostport =
     (case last_index CHR '':'' hostport of
        None \<Rightarrow> None
      | Some i \<Rightarrow>
        if hd hostport = CHR ''[''
        then (case first_index CHR '']'' hostport of
                None \<Rightarrow> None
              | Some e \<Rightarrow>
                if Suc e \<noteq> i then None
                else if CHR ''['' \<in> set (drop 1 hostport) then None
                else if CHR '']'' \<in> set (drop (Suc e) hostport) then None
                else Some (drop 1 (take e hostport)))
        else if CHR '':'' \<in> set (take i hostport) then None
        else if CHR ''['' \<in> set hostport then None
        else if CHR '']'' \<in> set hostport then None
        else Some (take i hostport))"

end
