(* ===== verification/Http_Adapter.thy ===== *)
theory Http_Adapter
  imports Netip Strict_Service Floats
begin

text \<open>
  \<^verbatim>\<open>adapters/http/client_ip.go\<close> and \<^verbatim>\<open>adapters/http/middleware.go\<close>: the address of a client
  behind trusted proxies, and the HTTP middleware. Callbacks and the next handler act on
  the world and on the response; a nil pointer, function or interface is \<open>None\<close>.
\<close>

section \<open>Client addresses\<close>

definition ErrInvalidClientIP :: go_error where
  "ErrInvalidClientIP = Foreign ''invalid client IP'' []"

definition MaxTrustedProxies :: nat where "MaxTrustedProxies = 64"
definition maxForwardedBytes :: nat where "maxForwardedBytes = 4096"
definition maxForwardedHops :: nat where "maxForwardedHops = 32"

text \<open>A header maps canonical names to their lines.\<close>

type_synonym header = "(string \<times> string list) list"

fun canonical_name :: "bool \<Rightarrow> string \<Rightarrow> string" where
  "canonical_name first [] = []"
| "canonical_name first (c # cs) =
     (let n = of_char c :: nat;
          c' = (if first \<and> 97 \<le> n \<and> n \<le> 122 then char_of (n - 32)
                else if \<not> first \<and> 65 \<le> n \<and> n \<le> 90 then char_of (n + 32) else c)
      in c' # canonical_name (c = CHR ''-'') cs)"

definition header_Get :: "header \<Rightarrow> string \<Rightarrow> string" where
  "header_Get h name = (case map_of h (canonical_name True name) of Some (v # vs) \<Rightarrow> v | _ \<Rightarrow> '''')"

definition header_Set :: "string \<Rightarrow> string \<Rightarrow> header \<Rightarrow> header" where
  "header_Set name v h = AList.update (canonical_name True name) [v] h"

record 'w httpRequest =
  hq_RemoteAddr :: string
  hq_Header :: header
  hq_Context :: "'w ctx"

text \<open>\<open>ClientIPExtractor.trusted\<close>.\<close>

type_synonym extractor = "prefix list"

fun copy_prefixes :: "nat \<Rightarrow> prefix list \<Rightarrow> go_error + extractor" where
  "copy_prefixes index [] = Inr []"
| "copy_prefixes index (p # ps) =
     (if \<not> prefix_IsValid p
      then Inl (Wrapped (''trusted proxy at index '' @ decimal_digits index @ '' is invalid'') ErrInvalidClientIP)
      else case copy_prefixes (Suc index) ps of Inl err \<Rightarrow> Inl err | Inr rest \<Rightarrow> Inr (Masked p # rest))"

definition NewClientIPExtractor :: "prefix list \<Rightarrow> go_error + extractor" where
  "NewClientIPExtractor proxies =
     (if length proxies > MaxTrustedProxies then Inl (Wrapped ''too many trusted proxies'' ErrInvalidClientIP)
      else copy_prefixes 0 proxies)"

definition isTrusted :: "extractor \<Rightarrow> addr \<Rightarrow> bool" where
  "isTrusted trusted address \<longleftrightarrow> list_ex (\<lambda>p. Contains p address) trusted"

definition parseRemoteAddr :: "string \<Rightarrow> go_error + addr" where
  "parseRemoteAddr value =
     (let host = (case SplitHostPort value of None \<Rightarrow> value | Some h \<Rightarrow> h) in
      case ParseAddr host of
        None \<Rightarrow> Inl (Wrapped ''malformed remote address'' ErrInvalidClientIP)
      | Some a \<Rightarrow> Inr (Unmap a))"

fun parse_hops :: "string list \<Rightarrow> addr list option" where
  "parse_hops [] = Some []"
| "parse_hops (part # parts) =
     (case ParseAddr (TrimSpace part) of
        None \<Rightarrow> None
      | Some a \<Rightarrow> (case parse_hops parts of None \<Rightarrow> None | Some rest \<Rightarrow> Some (Unmap a # rest)))"

text \<open>From the right, the first address that is not trusted; the leftmost if all are.\<close>

definition select_hop :: "extractor \<Rightarrow> addr list \<Rightarrow> addr" where
  "select_hop trusted addresses =
     (case List.find (\<lambda>a. \<not> isTrusted trusted a) (rev addresses) of Some a \<Rightarrow> a | None \<Rightarrow> hd addresses)"

definition ClientIP :: "extractor option \<Rightarrow> 'w httpRequest option \<Rightarrow> go_error + addr" where
  "ClientIP extractor req =
     (case extractor of
        None \<Rightarrow> Inl (Wrapped ''extractor is nil or uninitialized'' ErrInvalidClientIP)
      | Some trusted \<Rightarrow>
        (case req of
           None \<Rightarrow> Inl (Wrapped ''request is required'' ErrInvalidClientIP)
         | Some r \<Rightarrow>
           (case parseRemoteAddr (hq_RemoteAddr r) of
              Inl err \<Rightarrow> Inl err
            | Inr peer \<Rightarrow>
              if \<not> isTrusted trusted peer then Inr peer
              else let forwarded = header_Get (hq_Header r) ''X-Forwarded-For'' in
              if forwarded = '''' then Inr peer
              else if length forwarded > maxForwardedBytes then Inl (Wrapped ''forwarded chain too large'' ErrInvalidClientIP)
              else let parts = split_at CHR '','' forwarded in
              if length parts > maxForwardedHops then Inl (Wrapped ''too many forwarded hops'' ErrInvalidClientIP)
              else case parse_hops parts of
                None \<Rightarrow> Inl (Wrapped ''malformed forwarded hop'' ErrInvalidClientIP)
              | Some addresses \<Rightarrow> Inr (select_hop trusted addresses))))"

section \<open>Middleware\<close>

text \<open>A response under construction; the status is \<open>None\<close> until it is written.\<close>

record httpWriter =
  hw_Header :: header
  hw_Status :: "int option"
  hw_Body :: string

type_synonym 'w httpHandler = "'w httpRequest \<Rightarrow> httpWriter \<Rightarrow> 'w \<Rightarrow> httpWriter \<times> 'w"

record 'w httpOptions =
  ho_Service :: "'w strictService option"
  ho_Policy :: policy
  ho_Now :: "'w clock option"
  ho_Cost :: "('w httpRequest \<Rightarrow> 'w \<Rightarrow> (go_error + uint64) \<times> 'w) option"
  ho_Key :: "('w httpRequest \<Rightarrow> 'w \<Rightarrow> (go_error + key) \<times> 'w) option"
  ho_ClientIP :: "prefix list"

definition client_key :: "(string \<Rightarrow> string) \<Rightarrow> extractor \<Rightarrow> 'w httpRequest \<Rightarrow> go_error + key" where
  "client_key sha256 ex r =
     (case ClientIP (Some ex) (Some r) of
        Inl err \<Rightarrow> Inl err
      | Inr address \<Rightarrow> NewKey sha256 \<lparr>k_Namespace = ''http'', k_Version = ''v1'',
          k_Subject = \<lparr>sub_Kind = ''ip'', sub_Value = addr_String address\<rparr>, k_Hash = True\<rparr>)"

definition http_New :: "(string \<Rightarrow> string) \<Rightarrow> 'w clock \<Rightarrow> 'w httpOptions \<Rightarrow> go_error + 'w httpOptions" where
  "http_New sha256 timeNow options =
     (if ho_Service options = None then Inl (Wrapped ''strict service is required'' ErrInvalidPolicy)
      else if p_id (ho_Policy options) = '''' then Inl (Wrapped ''policy is required'' ErrInvalidPolicy)
      else case NewClientIPExtractor (ho_ClientIP options) of
        Inl err \<Rightarrow> Inl err
      | Inr ex \<Rightarrow>
        let options = (if ho_Now options = None then options\<lparr>ho_Now := Some timeNow\<rparr> else options);
            options = (if ho_Cost options = None then options\<lparr>ho_Cost := Some (\<lambda>r w. (Inr 1, w))\<rparr> else options);
            options = (if ho_Key options = None then options\<lparr>ho_Key := Some (\<lambda>r w. (client_key sha256 ex r, w))\<rparr> else options)
        in Inr options)"

text \<open>\<open>http.Error\<close>.\<close>

definition http_Error :: "httpWriter \<Rightarrow> string \<Rightarrow> int \<Rightarrow> httpWriter" where
  "http_Error writer text code =
     \<lparr>hw_Header = header_Set ''X-Content-Type-Options'' ''nosniff''
        (header_Set ''Content-Type'' ''text/plain; charset=utf-8'' (AList.delete ''Content-Length'' (hw_Header writer))),
      hw_Status = (case hw_Status writer of None \<Rightarrow> Some code | s \<Rightarrow> s),
      hw_Body = hw_Body writer @ text @ [CHR 0x0A]\<rparr>"

text \<open>\<open>Duration.Seconds\<close> and the whole seconds of a header, rounded up.\<close>

definition Seconds :: "duration \<Rightarrow> rat" where
  "Seconds d = (let sec = d sdiv Second; nsec = d smod Second in
     fl (fl (of_int sec) + fl (fl (of_int nsec) / 1000000000)))"

definition header_seconds :: "duration \<Rightarrow> int" where
  "header_seconds d = i64 \<lceil>Seconds d\<rceil>"

definition writeHeaders :: "header \<Rightarrow> decision \<Rightarrow> time \<Rightarrow> header" where
  "writeHeaders h d now =
     (let h = header_Set ''RateLimit-Limit'' (FormatUint (d_Limit d)) h;
          h = header_Set ''RateLimit-Remaining'' (FormatUint (d_Remaining d)) h;
          h = header_Set ''RateLimit-Reset'' (FormatInt (header_seconds (max (time_Sub (d_Reset d) now) 0))) h
      in if d_RetryAfter d > 0 then header_Set ''Retry-After'' (FormatInt (header_seconds (d_RetryAfter d))) h else h)"

definition http_serve :: "'w clock \<Rightarrow> 'w httpOptions \<Rightarrow> 'w httpHandler \<Rightarrow> 'w httpHandler" where
  "http_serve clock options next_handler r writer w =
     (case the (ho_Key options) r w of
        (Inl err, w1) \<Rightarrow> (http_Error writer ''invalid rate limit subject'' 400, w1)
      | (Inr key, w1) \<Rightarrow>
        (case the (ho_Cost options) r w1 of
           (Inl err, w2) \<Rightarrow> (http_Error writer ''invalid rate limit cost'' 400, w2)
         | (Inr cost, w2) \<Rightarrow>
           let (now, w3) = the (ho_Now options) w2;
               (d, err, w4) = StrictService_Admit clock (ho_Service options) (Some (hq_Context r))
                 \<lparr>r_Policy = ho_Policy options, r_Key = key, r_Cost = cost, r_Now = now\<rparr> w3;
               writer = writer\<lparr>hw_Header := writeHeaders (hw_Header writer) d now\<rparr>
           in if Is err ErrRejected then (http_Error writer ''rate limit exceeded'' 429, w4)
              else if err \<noteq> None then (http_Error writer ''rate limit unavailable'' 503, w4)
              else next_handler r writer w4))"

definition http_Wrap ::
  "'w clock \<Rightarrow> 'w httpOptions option \<Rightarrow> 'w httpHandler option \<Rightarrow> go_error + 'w httpHandler" where
  "http_Wrap clock middleware next_handler =
     (case middleware of
        None \<Rightarrow> Inl (Wrapped ''middleware is nil or uninitialized'' ErrInvalidPolicy)
      | Some options \<Rightarrow>
        if ho_Service options = None then Inl (Wrapped ''middleware is nil or uninitialized'' ErrInvalidPolicy)
        else case next_handler of
          None \<Rightarrow> Inl (Wrapped ''handler is required'' ErrInvalidPolicy)
        | Some h \<Rightarrow> Inr (http_serve clock options h))"

section \<open>Forwarded chains\<close>

lemma split_at_nonempty [simp]: "split_at c s \<noteq> []"
  by (cases s) (auto split: list.splits)

lemma split_at_append: "split_at c (a @ c # b) = split_at c a @ split_at c b"
  by (induction a) (auto split: list.splits)

lemma parse_hops_append:
  "parse_hops (as @ bs) =
     (case parse_hops as of None \<Rightarrow> None | Some xs \<Rightarrow> (case parse_hops bs of None \<Rightarrow> None | Some ys \<Rightarrow> Some (xs @ ys)))"
  by (induction as) (auto split: option.splits)

lemma select_hop_suffix:
  assumes "\<exists>a \<in> set ys. \<not> isTrusted t a"
  shows "select_hop t (xs @ ys) = select_hop t ys"
proof -
  have f: "List.find P (as @ bs) = List.find P as" if "\<exists>a \<in> set as. P a" for P and as bs :: "addr list"
    using that by (induction as) auto
  obtain a where "List.find (\<lambda>a. \<not> isTrusted t a) (rev ys) = Some a"
    using assms by (cases "List.find (\<lambda>a. \<not> isTrusted t a) (rev ys)") (auto simp: find_None_iff)
  then show ?thesis using f [of "rev ys" "\<lambda>a. \<not> isTrusted t a" "rev xs"] assms by (simp add: select_hop_def)
qed


definition proxy_request :: "string \<Rightarrow> unit httpRequest" where
  "proxy_request forwarded =
     \<lparr>hq_RemoteAddr = ''10.0.0.1:443'', hq_Header = [(''X-Forwarded-For'', [forwarded])], hq_Context = (\<lambda>w. (None, w))\<rparr>"


section \<open>Headers\<close>

text \<open>
  Durations on a microsecond are rounded up exactly, although \<open>Seconds\<close> is a double: a
  client that waits for the announced seconds is not early, and waits less than a second
  longer than it must.
\<close>

lemma fl_relative:
  assumes "x \<noteq> 0"
  shows "\<bar>fl x - x\<bar> \<le> \<bar>x\<bar> / 9007199254740992"
proof -
  have "(2 :: rat) powi (binexp x - 52) * 2 ^ 52 \<le> \<bar>x\<bar>" unfolding powi_split by (rule binexp_bounds(1) [OF assms])
  then show ?thesis using fl_error [OF assms] by simp
qed

lemma header_seconds_exact:
  assumes d: "0 \<le> d" "d \<le> MaxInt64" "d mod 1000 = 0"
  shows "header_seconds d = (d + (Second - 1)) div Second"
proof -
  define s n where "s = d div 1000000000" and "n = d mod 1000000000"
  have b: "0 \<le> s" "s \<le> 9223372036" "0 \<le> n" "n < 1000000000" "d = s * 1000000000 + n" "n mod 1000 = 0"
    using d by (simp_all add: s_def n_def mod_mod_cancel)
  define y :: rat where "y = of_int n / 1000000000"
  have e1: "d sdiv 1000000000 = s" using d(1) by (simp add: s_def sdiv_nonneg)
  then have e: "d sdiv 1000000000 = s" "d smod 1000000000 = n" using b(5) by (simp_all only: smod_eq)
  have S: "Seconds d = fl (of_int s + fl y)"
  proof -
    have "fl (of_int s) = of_int s" "fl (of_int n) = of_int n" using b(1-4) by (intro fl_int; simp)+
    then show ?thesis by (simp only: Seconds_def Let_def e y_def)
  qed
  have "\<lceil>Seconds d\<rceil> = (if n = 0 then s else s + 1)"
  proof (cases "n = 0")
    case True
    then have "Seconds d = fl (of_int s)" using S by (simp add: y_def fl_def)
    then have "Seconds d = of_int s" using fl_int [of s] b(1,2) by simp
    then show ?thesis using True by simp
  next
    case False
    have "1000 dvd n" using b(6) by (simp add: dvd_eq_mod_eq_0)
    then have n: "1000 \<le> n" using b(3) False by (intro zdvd_imp_le) simp_all
    have y: "1 / 1000000 \<le> y" "y \<le> 1" using n b by (simp_all add: y_def field_simps)
    have "\<bar>fl y - y\<bar> \<le> y / 9007199254740992" using fl_relative [of y] y(1) by simp
    then have f: "1 / 1048575 \<le> fl y" using y(1) by linarith
    have f1: "fl y \<le> 1" using fl_le [of y 1] y(2) by simp
    let ?v = "of_int s + fl y"
    have v: "of_int s + 1 / 1048575 \<le> ?v" "?v \<le> of_int (s + 1)" "?v \<noteq> 0" "0 < ?v" using f f1 b(1) by simp_all
    have up: "fl ?v \<le> of_int (s + 1)" using v(2) b by (intro fl_le) simp_all
    have "binexp ?v \<le> 33"
    proof (rule ccontr)
      assume "\<not> binexp ?v \<le> 33"
      then have "(2 :: rat) powi 34 \<le> 2 powi (binexp ?v)" by (intro power_int_increasing) simp_all
      also have "\<dots> \<le> \<bar>?v\<bar>" by (rule binexp_bounds(1) [OF v(3)])
      also have "\<dots> \<le> of_int (s + 1)" using v by simp
      finally have "(of_int 17179869184 :: rat) \<le> of_int (s + 1)" by simp
      then show False using b(2) unfolding of_int_le_iff by simp
    qed
    then have "(2 :: rat) powi (binexp ?v - 52) \<le> 2 powi (- 19)" by (intro power_int_increasing) simp_all
    then have "\<bar>fl ?v - ?v\<bar> \<le> 1 / 1048576" using fl_error [OF v(3)] by (simp add: power_int_minus)
    then have "of_int s < fl ?v" using v(1) by linarith
    then show ?thesis using up False S by (simp add: ceiling_eq_iff)
  qed
  moreover have "(d + (Second - 1)) div Second = (if n = 0 then s else s + 1)"
  proof -
    have "d + 999999999 = s * 1000000000 + (n + 999999999)" using b by simp
    then have "(d + 999999999) div 1000000000 = s + (n + 999999999) div 1000000000" by (simp only:)
    also have "(n + 999999999) div 1000000000 = (if n = 0 then 0 else 1)"
      using b by (auto simp: div_pos_pos_trivial)
    finally show ?thesis by simp
  qed
  ultimately show ?thesis using b by (simp add: header_seconds_def int64_range_def)
qed

section \<open>Serving\<close>

text \<open>The next handler runs only when admission ended with a nil error; otherwise the response says why.\<close>

lemma http_serve_cases:
  assumes "http_serve clock options h r writer w = (writer', w')" "hw_Status writer = None"
  shows "(\<exists>writer1 w1. h r writer1 w1 = (writer', w')) \<or> hw_Status writer' \<in> {Some 400, Some 429, Some 503}"
  using assms
  by (auto simp: http_serve_def http_Error_def Let_def split: prod.splits sum.splits if_splits)

end
