(* ===== verification/Queue_Adapter.thy ===== *)
theory Queue_Adapter
  imports Strict_Service Go_Text
begin

text \<open>
  \<^verbatim>\<open>adapters/queue/middleware.go\<close> and \<^verbatim>\<open>adapters/authentication/authentication.go\<close>:
  queue messages and principals as subjects of the rate limiter. Callbacks of the caller
  act on the world; a nil interface or function is \<open>None\<close>, also when it is typed.
\<close>

record message =
  ms_ID :: string
  ms_Queue :: string
  ms_Tenant :: string
  ms_Principal :: string
  ms_Attempt :: uint64

type_synonym 'w queueHandler = "'w ctx option \<Rightarrow> message \<Rightarrow> 'w \<Rightarrow> go_error option \<times> 'w"
type_synonym 'w subjectFunc = "message \<Rightarrow> 'w \<Rightarrow> (go_error + subject) \<times> 'w"

record 'w queueOptions =
  qo_Service :: "'w strictService option"
  qo_Policy :: policy
  qo_Subject :: "'w subjectFunc option"
  qo_Cost :: "(message \<Rightarrow> 'w \<Rightarrow> (go_error + uint64) \<times> 'w) option"
  qo_Now :: "('w clock) option"

text \<open>The errors of a wrapped handler: those of the packages below, and \<open>*Deferred\<close>.\<close>

datatype queueError = QueueError go_error | Deferred duration "go_error option"

definition Deferred_Error :: string where
  "Deferred_Error = ''rate-limited queue admission deferred''"

definition Deferred_Unwrap :: "(duration \<times> go_error option) option \<Rightarrow> go_error" where
  "Deferred_Unwrap deferred =
     (case deferred of None \<Rightarrow> ErrRejected | Some (retryAfter, None) \<Rightarrow> ErrRejected | Some (retryAfter, Some cause) \<Rightarrow> cause)"

definition HandlerFunc_Handle :: "'w queueHandler option \<Rightarrow> 'w queueHandler" where
  "HandlerFunc_Handle function ctx m w =
     (case function of
        None \<Rightarrow> (Some (Wrapped ''handler is required'' ErrInvalidPolicy), w)
      | Some f \<Rightarrow>
        if ctx = None then (Some (Wrapped ''context is required'' ErrInvalidRequest), w) else f ctx m w)"

definition queue_New :: "'w clock \<Rightarrow> 'w queueOptions \<Rightarrow> go_error + 'w queueOptions" where
  "queue_New timeNow options =
     (if qo_Service options = None then Inl (Wrapped ''strict service is required'' ErrInvalidPolicy)
      else if p_id (qo_Policy options) = '''' then Inl (Wrapped ''policy is required'' ErrInvalidPolicy)
      else if qo_Subject options = None then Inl (Wrapped ''subject is required'' ErrInvalidPolicy)
      else let options = (if qo_Cost options = None then options\<lparr>qo_Cost := Some (\<lambda>m w. (Inr 1, w))\<rparr> else options);
               options = (if qo_Now options = None then options\<lparr>qo_Now := Some timeNow\<rparr> else options)
      in Inr options)"

definition queue_spec :: "subject \<Rightarrow> keySpec" where
  "queue_spec subject = \<lparr>k_Namespace = ''queue'', k_Version = ''v1'', k_Subject = subject, k_Hash = True\<rparr>"

text \<open>
  The wrapped handler. \<open>now\<close> of the service is the clock that times its observations;
  instants are in UTC throughout.
\<close>

definition queue_handle ::
  "(string \<Rightarrow> string) \<Rightarrow> 'w clock \<Rightarrow> 'w queueOptions \<Rightarrow> 'w queueHandler \<Rightarrow> 'w ctx option \<Rightarrow> message \<Rightarrow> 'w \<Rightarrow>
   queueError option \<times> 'w" where
  "queue_handle sha256 clock options next_handler ctx m w =
     (if ctx = None then (Some (QueueError (Wrapped ''context is required'' ErrInvalidRequest)), w)
      else case the (qo_Subject options) m w of
        (Inl err, w1) \<Rightarrow> (Some (QueueError err), w1)
      | (Inr subject, w1) \<Rightarrow>
        (case NewKey sha256 (queue_spec subject) of
           Inl err \<Rightarrow> (Some (QueueError err), w1)
         | Inr key \<Rightarrow>
           (case the (qo_Cost options) m w1 of
              (Inl err, w2) \<Rightarrow> (Some (QueueError err), w2)
            | (Inr cost, w2) \<Rightarrow>
              let (now, w3) = the (qo_Now options) w2;
                  (d, err, w4) = StrictService_Admit clock (qo_Service options) ctx
                    \<lparr>r_Policy = qo_Policy options, r_Key = key, r_Cost = cost, r_Now = now\<rparr> w3
              in if Is err ErrRejected then (Some (Deferred (d_RetryAfter d) err), w4)
                 else case err of
                   Some e \<Rightarrow> (Some (QueueError e), w4)
                 | None \<Rightarrow> let (e, w5) = next_handler ctx m w4 in (map_option QueueError e, w5))))"

definition queue_Wrap ::
  "(string \<Rightarrow> string) \<Rightarrow> 'w clock \<Rightarrow> 'w queueOptions option \<Rightarrow> 'w queueHandler option \<Rightarrow>
   go_error + ('w ctx option \<Rightarrow> message \<Rightarrow> 'w \<Rightarrow> queueError option \<times> 'w)" where
  "queue_Wrap sha256 clock middleware next_handler =
     (case middleware of
        None \<Rightarrow> Inl (Wrapped ''middleware is nil or uninitialized'' ErrInvalidPolicy)
      | Some options \<Rightarrow>
        if qo_Service options = None then Inl (Wrapped ''middleware is nil or uninitialized'' ErrInvalidPolicy)
        else case next_handler of
          None \<Rightarrow> Inl (Wrapped ''handler is required'' ErrInvalidPolicy)
        | Some h \<Rightarrow> Inr (queue_handle sha256 clock options h))"

definition ByQueueAndTenant :: "message \<Rightarrow> go_error + subject" where
  "ByQueueAndTenant m =
     (if ms_Queue m = '''' \<or> ms_Tenant m = '''' then Inl (Wrapped ''queue and tenant are required'' ErrInvalidKey)
      else Inr \<lparr>sub_Kind = ''queue-tenant'',
                sub_Value = decimal_digits (length (ms_Queue m)) @ '':'' @ ms_Queue m @ ms_Tenant m\<rparr>)"

definition ByPrincipal :: "message \<Rightarrow> go_error + subject" where
  "ByPrincipal m =
     (if ms_Principal m = '''' then Inl (Wrapped ''principal is required'' ErrInvalidKey)
      else Inr \<lparr>sub_Kind = ''principal'', sub_Value = ms_Principal m\<rparr>)"

text \<open>\<open>ratelimitauthentication.Key\<close>; the principal is read once.\<close>

definition authentication_Key :: "(string \<Rightarrow> string) \<Rightarrow> ('w \<Rightarrow> string \<times> 'w) option \<Rightarrow> 'w \<Rightarrow> (go_error + key) \<times> 'w" where
  "authentication_Key sha256 who w =
     (case who of
        None \<Rightarrow> (Inl (Wrapped ''principal is required'' ErrInvalidPolicy), w)
      | Some Subject \<Rightarrow>
        let (subject, w1) = Subject w in
        if subject = '''' then (Inl (Wrapped ''authenticated principal is required'' ErrInvalidKey), w1)
        else (NewKey sha256 \<lparr>k_Namespace = ''auth'', k_Version = ''v1'',
                k_Subject = \<lparr>sub_Kind = ''principal'', sub_Value = subject\<rparr>, k_Hash = True\<rparr>, w1))"

section \<open>Subjects\<close>

lemma digits_before_colon: "CHR '':'' \<notin> set (decimal_digits n)"
  using all_digits_decimal [of n] by (auto simp: all_digits_def list_all_iff in_range_def)

lemma takeWhile_digits: "takeWhile (\<lambda>c. c \<noteq> CHR '':'') (decimal_digits n) = decimal_digits n"
  using digits_before_colon [of n] by (simp add: takeWhile_eq_all_conv) blast

lemma queue_tenant_injective:
  assumes "ByQueueAndTenant m = Inr s" "ByQueueAndTenant m' = Inr s" 
  shows "ms_Queue m = ms_Queue m'" "ms_Tenant m = ms_Tenant m'"
proof -
  let ?v = "\<lambda>m. decimal_digits (length (ms_Queue m)) @ CHR '':'' # ms_Queue m @ ms_Tenant m"
  have v: "?v m = ?v m'" using assms by (auto simp: ByQueueAndTenant_def split: if_splits)
  then have "takeWhile (\<lambda>c. c \<noteq> CHR '':'') (?v m) = takeWhile (\<lambda>c. c \<noteq> CHR '':'') (?v m')" by simp
  then have len: "length (ms_Queue m) = length (ms_Queue m')"
    using digits_before_colon by (simp add: takeWhile_tail takeWhile_digits)
  then have "ms_Queue m @ ms_Tenant m = ms_Queue m' @ ms_Tenant m'" using v by simp
  then show "ms_Queue m = ms_Queue m'" "ms_Tenant m = ms_Tenant m'" using len by (simp_all add: append_eq_append_conv)
qed

text \<open>C34. Queue subjects do not collide. The key derived from a message by queue and
  tenant determines both: messages whose queues and tenants are split differently get
  different keys, however many colons the names contain, and no such key is the key of a
  principal, unless SHA-256 collides on the two hashed inputs.\<close>

theorem queue_keys_distinct:
  assumes s: "ByQueueAndTenant m = Inr s" and k: "NewKey sha256 (queue_spec s) = Inr k"
    and s': "ByQueueAndTenant m' = Inr s' \<or> ByPrincipal m' = Inr s'" and k': "NewKey sha256 (queue_spec s') = Inr k'"
    and eq: "key_String k = key_String k'"
    and collision: "sha256 (key_preimage (queue_spec s)) = sha256 (key_preimage (queue_spec s')) \<Longrightarrow>
      key_preimage (queue_spec s) = key_preimage (queue_spec s')"
  shows "ms_Queue m = ms_Queue m' \<and> ms_Tenant m = ms_Tenant m' \<and> ByQueueAndTenant m' = Inr s'"
proof -
  have "s = s'"
    using NewKey_spec_unique [OF k k' eq _ collision] by (simp add: queue_spec_def)
  moreover have "sub_Kind s = ''queue-tenant''" using s by (auto simp: ByQueueAndTenant_def split: if_splits)
  ultimately have "ByQueueAndTenant m' = Inr s" using s' by (auto simp: ByPrincipal_def split: if_splits)
  then show ?thesis using queue_tenant_injective [OF s] \<open>s = s'\<close> by simp
qed

theorem queue_keys_distinct_witness:
  "\<exists>m s k. ByQueueAndTenant m = Inr s \<and> NewKey rev (queue_spec s) = Inr k \<and>
     (\<forall>m' s'. ByPrincipal m' = Inr s' \<longrightarrow> NewKey rev (queue_spec s') \<noteq> Inr k)"
proof -
  define m where "m = \<lparr>ms_ID = ''1'', ms_Queue = ''a:b'', ms_Tenant = ''c'', ms_Principal = ''p'', ms_Attempt = 0\<rparr>"
  obtain s where s: "ByQueueAndTenant m = Inr s" by (simp add: m_def ByQueueAndTenant_def)
  have "\<exists>k. NewKey rev (queue_spec s) = Inr k"
    using s by (auto simp: m_def ByQueueAndTenant_def NewKey_def queue_spec_def validKeyPart_def keyPartChar_def in_range_def
        maxKeyPartBytes_def MaxSubjectBytes_def decimal_digits.simps)
  then obtain k where k: "NewKey rev (queue_spec s) = Inr k" ..
  have "NewKey rev (queue_spec s') \<noteq> Inr k" if "ByPrincipal m' = Inr s'" for m' s'
  proof
    assume k': "NewKey rev (queue_spec s') = Inr k"
    have "ByQueueAndTenant m' = Inr s'" using queue_keys_distinct [OF s k disjI2 [OF that] k'] by simp
    then show False using that by (auto simp: ByQueueAndTenant_def ByPrincipal_def split: if_splits)
  qed
  then show ?thesis using s k by blast
qed

section \<open>Handlers\<close>

text \<open>The next handler runs only after an admission with a nil error; a rejection is a deferral with its cause.\<close>

lemma queue_handle_deferred:
  assumes "queue_handle sha256 clock options h ctx m w = (Some (Deferred retry cause), w')"
  shows "\<exists>e. cause = Some e \<and> errors_Is e ErrRejected \<and> Deferred_Unwrap (Some (retry, cause)) = e"
  using assms
  by (auto simp: queue_handle_def Let_def Deferred_Unwrap_def Is_def split: if_splits sum.splits prod.splits option.splits)

end
