(* ===== verification/Rpc_Adapter.thy ===== *)
theory Rpc_Adapter
  imports Service Go_Text
begin

text \<open>
  \<^verbatim>\<open>ratelimitrpc/middleware.go\<close>: ordered admission rules before a JSON-RPC handler. The
  identifier and the result of a call are values of any type \<open>'v\<close>. Callbacks act on the
  world; a nil function is \<open>None\<close>.
\<close>

definition CodeRateLimited :: int where "CodeRateLimited = - 32029"
definition CodeRateUnavailable :: int where "CodeRateUnavailable = - 32030"
definition MaxRules :: nat where "MaxRules = 16"

record 'v call =
  ca_ID :: 'v
  ca_Method :: string
  ca_Principal :: string
  ca_Tenant :: string

record rpcError =
  re_Code :: int
  re_Message :: string
  re_RetryAfter :: duration

record 'v response =
  rs_ID :: 'v
  rs_Result :: "'v option"
  rs_Error :: "rpcError option"

type_synonym ('v, 'w) rpcHandler = "'w ctx \<Rightarrow> 'v call \<Rightarrow> 'w \<Rightarrow> 'v response \<times> go_error option \<times> 'w"
type_synonym ('v, 'w) rpcSubject = "'v call \<Rightarrow> 'w \<Rightarrow> (go_error + subject) \<times> 'w"

record ('v, 'w) rule =
  ru_Policy :: policy
  ru_Subject :: "('v, 'w) rpcSubject option"
  ru_Cost :: "('v call \<Rightarrow> 'w \<Rightarrow> (go_error + uint64) \<times> 'w) option"

record ('v, 'w) rpcOptions =
  ro_Service :: "'w service option"
  ro_Rules :: "('v, 'w) rule list"
  ro_Now :: "'w clock option"

definition bounded_rules_required :: go_error where
  "bounded_rules_required = Wrapped ''service and bounded rules are required'' ErrInvalidPolicy"

text \<open>The loop of \<open>New\<close> over the copied rules: the first incomplete one, or the rules with their costs.\<close>

fun rpc_rules :: "nat \<Rightarrow> ('v, 'w) rule list \<Rightarrow> go_error + ('v, 'w) rule list" where
  "rpc_rules index [] = Inr []"
| "rpc_rules index (r # rs) =
     (if p_id (ru_Policy r) = '''' \<or> ru_Subject r = None
      then Inl (Wrapped (''rule '' @ decimal_digits index @ '' is incomplete'') ErrInvalidPolicy)
      else case rpc_rules (Suc index) rs of
        Inl err \<Rightarrow> Inl err
      | Inr rest \<Rightarrow> Inr ((if ru_Cost r = None then r\<lparr>ru_Cost := Some (\<lambda>call w. (Inr 1, w))\<rparr> else r) # rest))"

definition rpc_New :: "'w clock \<Rightarrow> ('v, 'w) rpcOptions \<Rightarrow> go_error + ('v, 'w) rpcOptions" where
  "rpc_New timeNow options =
     (if ro_Service options = None then Inl bounded_rules_required
      else if length (ro_Rules options) = 0 then Inl bounded_rules_required
      else if length (ro_Rules options) > MaxRules then Inl bounded_rules_required
      else case rpc_rules 0 (ro_Rules options) of
        Inl err \<Rightarrow> Inl err
      | Inr rules \<Rightarrow> Inr (options\<lparr>ro_Rules := rules, ro_Now := Some (case ro_Now options of None \<Rightarrow> timeNow | Some n \<Rightarrow> n)\<rparr>))"

definition rpc_failure :: "'v call \<Rightarrow> int \<Rightarrow> string \<Rightarrow> duration \<Rightarrow> 'v response" where
  "rpc_failure call code text retry =
     \<lparr>rs_ID = ca_ID call, rs_Result = None, rs_Error = Some \<lparr>re_Code = code, re_Message = text, re_RetryAfter = retry\<rparr>\<rparr>"

definition rpc_spec :: "subject \<Rightarrow> keySpec" where
  "rpc_spec subject = \<lparr>k_Namespace = ''rpc'', k_Version = ''v1'', k_Subject = subject, k_Hash = True\<rparr>"

text \<open>One round of the loop over the rules: the response that ends the call, or none.\<close>

definition rpc_rule ::
  "(string \<Rightarrow> string) \<Rightarrow> 'w clock \<Rightarrow> 'w service \<Rightarrow> 'w clock \<Rightarrow> 'w ctx \<Rightarrow> 'v call \<Rightarrow> ('v, 'w) rule \<Rightarrow> 'w \<Rightarrow>
   ('v response \<times> go_error option) option \<times> 'w" where
  "rpc_rule sha256 clock service timeNow ctx call r w =
     (case the (ru_Subject r) call w of
        (Inl err, w1) \<Rightarrow> (Some (rpc_failure call CodeRateUnavailable ''invalid rate limit subject'' 0, Some err), w1)
      | (Inr subject, w1) \<Rightarrow>
        (case NewKey sha256 (rpc_spec subject) of
           Inl err \<Rightarrow> (Some (rpc_failure call CodeRateUnavailable ''invalid rate limit subject'' 0, Some err), w1)
         | Inr key \<Rightarrow>
           (case the (ru_Cost r) call w1 of
              (Inl err, w2) \<Rightarrow> (Some (rpc_failure call CodeRateUnavailable ''invalid rate limit cost'' 0, Some err), w2)
            | (Inr cost, w2) \<Rightarrow>
              let (now, w3) = timeNow w2;
                  (d, err, w4) = Service_Admit clock service ctx
                    \<lparr>r_Policy = ru_Policy r, r_Key = key, r_Cost = cost, r_Now = now\<rparr> w3
              in if Is err ErrRejected
                 then (Some (rpc_failure call CodeRateLimited ''rate limit exceeded'' (d_RetryAfter d), err), w4)
                 else if err \<noteq> None
                 then (Some (rpc_failure call CodeRateUnavailable ''rate limit unavailable'' 0, err), w4)
                 else (None, w4))))"

fun rpc_loop ::
  "(string \<Rightarrow> string) \<Rightarrow> 'w clock \<Rightarrow> 'w service \<Rightarrow> 'w clock \<Rightarrow> 'w ctx \<Rightarrow> 'v call \<Rightarrow> ('v, 'w) rule list \<Rightarrow> 'w \<Rightarrow>
   ('v response \<times> go_error option) option \<times> 'w" where
  "rpc_loop sha256 clock service timeNow ctx call [] w = (None, w)"
| "rpc_loop sha256 clock service timeNow ctx call (r # rs) w =
     (case rpc_rule sha256 clock service timeNow ctx call r w of
        (Some stop, w1) \<Rightarrow> (Some stop, w1)
      | (None, w1) \<Rightarrow> rpc_loop sha256 clock service timeNow ctx call rs w1)"

definition rpc_handle ::
  "(string \<Rightarrow> string) \<Rightarrow> 'w clock \<Rightarrow> ('v, 'w) rpcOptions \<Rightarrow> ('v, 'w) rpcHandler \<Rightarrow> ('v, 'w) rpcHandler" where
  "rpc_handle sha256 clock options next_handler ctx call w =
     (case rpc_loop sha256 clock (the (ro_Service options)) (the (ro_Now options)) ctx call (ro_Rules options) w of
        (Some (response, err), w1) \<Rightarrow> (response, err, w1)
      | (None, w1) \<Rightarrow> next_handler ctx call w1)"

definition requiredSubject :: "string \<Rightarrow> string \<Rightarrow> go_error + subject" where
  "requiredSubject kind value =
     (if value = '''' then Inl (Wrapped (''missing '' @ kind) ErrInvalidKey) else Inr \<lparr>sub_Kind = kind, sub_Value = value\<rparr>)"

definition Global :: "string \<Rightarrow> 'v call \<Rightarrow> go_error + subject" where
  "Global value call = requiredSubject ''global'' value"
definition rpc_Principal :: "'v call \<Rightarrow> go_error + subject" where
  "rpc_Principal call = requiredSubject ''principal'' (ca_Principal call)"
definition rpc_Method :: "'v call \<Rightarrow> go_error + subject" where
  "rpc_Method call = requiredSubject ''method'' (ca_Method call)"
definition rpc_Tenant :: "'v call \<Rightarrow> go_error + subject" where
  "rpc_Tenant call = requiredSubject ''tenant'' (ca_Tenant call)"

section \<open>Order of the rules\<close>

lemma rpc_rule_stop:
  assumes "rpc_rule sha256 clock service timeNow ctx call r w = (Some (resp, err), w')"
  shows "\<exists>e. err = Some e \<and> rs_ID resp = ca_ID call \<and> rs_Result resp = None \<and>
    rs_Error resp \<noteq> None \<and> (re_Code (the (rs_Error resp)) = CodeRateLimited \<longleftrightarrow> re_Message (the (rs_Error resp)) = ''rate limit exceeded'') \<and>
    (re_Code (the (rs_Error resp)) = CodeRateLimited \<longrightarrow> errors_Is e ErrRejected)"
  using assms
  by (auto simp: rpc_rule_def rpc_failure_def Let_def Is_def CodeRateLimited_def CodeRateUnavailable_def
      split: sum.splits prod.splits if_splits option.splits)

lemma rpc_loop_append:
  "rpc_loop sha256 clock service timeNow ctx call (as @ bs) w =
     (case rpc_loop sha256 clock service timeNow ctx call as w of
        (Some stop, w1) \<Rightarrow> (Some stop, w1)
      | (None, w1) \<Rightarrow> rpc_loop sha256 clock service timeNow ctx call bs w1)"
  by (induction as arbitrary: w) (auto split: prod.splits option.splits)

lemma rpc_loop_split:
  assumes "rpc_loop sha256 clock service timeNow ctx call rs w = (Some stop, w')"
  shows "\<exists>as r bs w1. rs = as @ r # bs \<and> rpc_loop sha256 clock service timeNow ctx call as w = (None, w1) \<and>
    rpc_rule sha256 clock service timeNow ctx call r w1 = (Some stop, w')"
  using assms
proof (induction rs arbitrary: w)
  case (Cons r rs)
  show ?case
  proof (cases "rpc_rule sha256 clock service timeNow ctx call r w")
    case (Pair x w1)
    show ?thesis
    proof (cases x)
      case None
      then have "rpc_loop sha256 clock service timeNow ctx call rs w1 = (Some stop, w')" using Cons.prems Pair by simp
      from Cons.IH [OF this] obtain as q bs w2 where "rs = as @ q # bs" "rpc_loop sha256 clock service timeNow ctx call as w1 = (None, w2)"
        "rpc_rule sha256 clock service timeNow ctx call q w2 = (Some stop, w')" by blast
      then show ?thesis using Pair None by (intro exI [of _ "r # as"]) auto
    next
      case (Some s)
      then show ?thesis using Cons.prems Pair by (intro exI [of _ "[]"]) auto
    qed
  qed
qed simp

text \<open>The rules in a row, each of them admitting: from one world to another.\<close>

primrec rules_admitted :: "('r \<Rightarrow> 'w \<Rightarrow> 'x option \<times> 'w) \<Rightarrow> 'r list \<Rightarrow> 'w \<Rightarrow> 'w \<Rightarrow> bool" where
  "rules_admitted step [] w w' = (w' = w)"
| "rules_admitted step (r # rs) w w' = (fst (step r w) = None \<and> rules_admitted step rs (snd (step r w)) w')"

lemma rpc_loop_admitted:
  "rpc_loop sha256 clock service timeNow ctx call rs w = (None, w') \<longleftrightarrow>
     rules_admitted (rpc_rule sha256 clock service timeNow ctx call) rs w w'"
  by (induction rs arbitrary: w) (auto split: prod.splits option.splits)


definition sample_rule :: "(nat, nat) rule" where
  "sample_rule = \<lparr>ru_Policy = sample_policy, ru_Subject = Some (\<lambda>call w. (rpc_Principal call, Suc w)), ru_Cost = None\<rparr>"

definition sample_rpc_options :: "(nat, nat) rpcOptions" where
  "sample_rpc_options = \<lparr>ro_Service = Some down_service, ro_Rules = [sample_rule, sample_rule], ro_Now = None\<rparr>"

definition sample_call :: "nat call" where
  "sample_call = \<lparr>ca_ID = 7, ca_Method = ''list'', ca_Principal = '''', ca_Tenant = ''acme''\<rparr>"


end
