(* ===== verification/Observers.thy ===== *)
theory Observers
  imports Http_Adapter
begin

text \<open>
  \<^verbatim>\<open>adapters/slog/observer.go\<close> and \<^verbatim>\<open>adapters/otel/observer.go\<close>: the observers that report
  decisions. A logger and the instruments of a meter act on the world; a nil one is \<open>None\<close>.
\<close>

datatype attr = AttrString string | AttrBool bool | AttrInt64 int

section \<open>slog\<close>

record slogRecord =
  sr_Level :: int
  sr_Message :: string
  sr_Attrs :: "(string \<times> attr) list"

type_synonym 'w logger = "slogRecord \<Rightarrow> 'w \<Rightarrow> 'w"

record 'w slogOptions =
  slo_Logger :: "'w logger option"
  slo_Level :: int

definition slog_New :: "'w slogOptions \<Rightarrow> go_error + 'w slogOptions" where
  "slog_New options =
     (if slo_Logger options = None then Inl (Wrapped ''logger is required'' ErrInvalidPolicy) else Inr options)"

definition slog_errorKind :: "go_error option \<Rightarrow> string" where
  "slog_errorKind err =
     (if err = None then ''none''
      else if Is err ErrOutcomeUnknown then ''outcome_unknown''
      else if Is err ErrCanceled then ''canceled''
      else if Is err ErrDeadline then ''deadline''
      else if Is err ErrRejected then ''rejected''
      else if Is err ErrUnavailable then ''unavailable''
      else if Is err ErrOverflow then ''overflow''
      else if Is err ErrCorrupt then ''corrupt''
      else if Is err ErrUnsupported then ''unsupported''
      else if Is err ErrInvalidPolicy \<or> Is err ErrInvalidKey \<or> Is err ErrInvalidRequest then ''invalid''
      else ''internal'')"

definition slog_Observe :: "'w slogOptions option \<Rightarrow> observation \<Rightarrow> 'w \<Rightarrow> 'w" where
  "slog_Observe observer ob w =
     (case observer of
        None \<Rightarrow> w
      | Some options \<Rightarrow>
        (case slo_Logger options of
           None \<Rightarrow> w
         | Some logger \<Rightarrow>
           logger \<lparr>sr_Level = slo_Level options, sr_Message = ''rate limit decision'',
                sr_Attrs = [(''policy_id'', AttrString (o_PolicyID ob)),
                  (''policy_revision'', AttrString (d_PolicyRevision (o_Decision ob))),
                  (''subject_kind'', AttrString (o_SubjectKind ob)),
                  (''backend'', AttrString (d_Backend (o_Decision ob))),
                  (''reason'', AttrString (d_Reason (o_Decision ob))),
                  (''allowed'', AttrBool (d_Allowed (o_Decision ob))),
                  (''duration_ns'', AttrInt64 (o_Duration ob)),
                  (''error_kind'', AttrString (slog_errorKind (o_Err ob)))]\<rparr> w))"

section \<open>OpenTelemetry\<close>

definition scopeName :: string where
  "scopeName = ''github.com/faustbrian/go-rate-limit/v3/adapters/otel''"

type_synonym attributes = "(string \<times> string) list"

text \<open>A meter creates instruments from a name, a description and a unit.\<close>

record 'w meter =
  mt_Int64Counter :: "string \<Rightarrow> string \<Rightarrow> string \<Rightarrow> 'w \<Rightarrow> (go_error + (int \<Rightarrow> attributes \<Rightarrow> 'w \<Rightarrow> 'w)) \<times> 'w"
  mt_Float64Histogram :: "string \<Rightarrow> string \<Rightarrow> string \<Rightarrow> 'w \<Rightarrow> (go_error + (rat \<Rightarrow> attributes \<Rightarrow> 'w \<Rightarrow> 'w)) \<times> 'w"

record 'w otelObserver =
  oo_decisions :: "(int \<Rightarrow> attributes \<Rightarrow> 'w \<Rightarrow> 'w) option"
  oo_duration :: "(rat \<Rightarrow> attributes \<Rightarrow> 'w \<Rightarrow> 'w) option"

definition otel_New :: "(string \<Rightarrow> 'w meter) option \<Rightarrow> 'w \<Rightarrow> (go_error + 'w otelObserver) \<times> 'w" where
  "otel_New provider w =
     (case provider of
        None \<Rightarrow> (Inl (Wrapped ''meter provider is required'' ErrInvalidPolicy), w)
      | Some Meter \<Rightarrow>
        let meter = Meter scopeName in
        case mt_Int64Counter meter ''rate_limit.decisions'' ''Rate limit admission decisions'' ''{decision}'' w of
          (Inl err, w1) \<Rightarrow> (Inl err, w1)
        | (Inr decisions, w1) \<Rightarrow>
          (case mt_Float64Histogram meter ''rate_limit.decision.duration'' ''Rate limit decision latency'' ''s'' w1 of
             (Inl err, w2) \<Rightarrow> (Inl err, w2)
           | (Inr duration, w2) \<Rightarrow> (Inr \<lparr>oo_decisions = Some decisions, oo_duration = Some duration\<rparr>, w2)))"

definition otel_errorKind :: "go_error option \<Rightarrow> string" where
  "otel_errorKind err =
     (if err = None then ''none''
      else if Is err ErrOutcomeUnknown then ''outcome_unknown''
      else if Is err ErrCanceled then ''canceled''
      else if Is err ErrDeadline then ''deadline''
      else if Is err ErrRejected then ''rejected''
      else if Is err ErrUnavailable then ''unavailable''
      else if Is err ErrOverflow then ''overflow''
      else if Is err ErrCorrupt then ''corrupt''
      else if Is err ErrUnsupported then ''unsupported''
      else if Is err ErrInvalidPolicy \<or> Is err ErrInvalidKey \<or> Is err ErrInvalidRequest then ''invalid''
      else ''internal'')"

definition otel_Observe :: "'w otelObserver option \<Rightarrow> observation \<Rightarrow> 'w \<Rightarrow> 'w" where
  "otel_Observe observer ob w =
     (case observer of
        None \<Rightarrow> w
      | Some oo \<Rightarrow>
        (case (oo_decisions oo, oo_duration oo) of
           (Some decisions, Some duration) \<Rightarrow>
             let attributes = [(''rate_limit.policy.id'', o_PolicyID ob),
                   (''rate_limit.policy.revision'', d_PolicyRevision (o_Decision ob)),
                   (''rate_limit.subject.kind'', o_SubjectKind ob), (''rate_limit.backend'', d_Backend (o_Decision ob)),
                   (''rate_limit.reason'', d_Reason (o_Decision ob)), (''rate_limit.error.kind'', otel_errorKind (o_Err ob))]
             in duration (Seconds (o_Duration ob)) attributes (decisions 1 attributes w)
         | _ \<Rightarrow> w))"

section \<open>Labels\<close>

text \<open>Both observers report an error as one of eleven categories, never as its text, and agree on it.\<close>

definition error_kinds :: "string list" where
  "error_kinds = [''none'', ''outcome_unknown'', ''canceled'', ''deadline'', ''rejected'', ''unavailable'', ''overflow'',
     ''corrupt'', ''unsupported'', ''invalid'', ''internal'']"

lemma error_kind_bounded: "slog_errorKind err = otel_errorKind err \<and> otel_errorKind err \<in> set error_kinds"
  by (simp add: slog_errorKind_def otel_errorKind_def error_kinds_def)

text \<open>A rejection is reported as such, and not as a failure.\<close>

lemma error_kind_rejected: "otel_errorKind (Some ErrRejected) = ''rejected''" "otel_errorKind (Some (UnknownOutcome c)) = ''outcome_unknown''"
  by (simp_all add: otel_errorKind_def UnknownOutcome_def strictOutcome_Is_def)

end
