(* ===== verification/Spec2Isabelle.thy ===== *)
theory Spec2Isabelle
  imports Postgres_Commands Valkey_Retention Reference_Agrees Http_Adapter Queue_Adapter Rpc_Adapter Observers
begin

text \<open>
  A verification of the rate limiter of this repository: the services that applications
  call, the four backends they call (memory, PostgreSQL, Valkey and the reference model of
  the tests), and the adapters in front of them. The definitions translate the Go sources
  and the Lua scripts; the theorems say what an admission, a lease or a batch guarantees.

  \<^bold>\<open>Conventions.\<close> A \<open>uint64\<close> is a 64-bit word. An \<open>int64\<close>, a \<open>time.Duration\<close> and a
  \<open>time.Time\<close> (nanoseconds since the Unix epoch) are integers, and \<open>i64\<close> wraps where the
  code can overflow. Strings are lists of bytes. A Go map is an association list, a nil
  pointer or interface is \<open>None\<close>, and a Go \<open>error\<close> is a \<open>go_error option\<close>. What a function
  mutates it returns. Contexts, clocks, observers, callbacks and drivers are functions on a
  world \<open>'w\<close> that every call hands on, so they may answer differently at every call.

  \<^bold>\<open>Foundations.\<close> \<open>Prelude\<close> has the shared facts on words, association lists and sums,
  \<open>Go_Runtime\<close> 64-bit arithmetic and package \<open>time\<close>, \<open>Floats\<close> binary64 rounding,
  \<open>Go_Text\<close> packages \<open>strconv\<close> and \<open>strings\<close>, \<open>Netip\<close> packages \<open>net\<close> and \<open>net/netip\<close>.

  \<^bold>\<open>Contracts.\<close> \<open>Token_Bucket\<close> and \<open>Window_Counter\<close> state what a token bucket, a fixed
  window and a sliding window promise, as locales, and prove the bounds on what they admit
  once. The algorithms of \<^verbatim>\<open>memory/store.go\<close> interpret all three, for a single state and for
  a key with its clamped clock (\<open>Memory_Token\<close>, \<open>Memory_Window\<close>, \<open>Memory_Limits\<close>); the
  token buckets of \<^verbatim>\<open>postgres/state.go\<close> (\<open>Postgres_Token\<close>) and of the Lua script
  (\<open>Valkey_Token\<close>) interpret the first. The locale \<open>state_invariant\<close> of \<open>Memory_Leases\<close>
  carries an invariant of single states to every operation of the memory store.

  \<^bold>\<open>Values\<close> (the package's root directory).
  \<^item> \<open>Errors\<close>: \<^verbatim>\<open>errors.go\<close>, \<^verbatim>\<open>strict_errors.go\<close>; sentinels, outcome declarations and
    \<open>errors.Is\<close>.
  \<^item> \<open>Policy\<close>, \<open>Keys\<close>, \<open>Request\<close>: \<^verbatim>\<open>policy.go\<close>, \<^verbatim>\<open>key.go\<close>, \<^verbatim>\<open>request.go\<close>, \<^verbatim>\<open>decision.go\<close>,
    \<^verbatim>\<open>observation.go\<close>. \<open>NewPolicy\<close> and \<open>Validate\<close> accept exactly the stated inputs; keys are
    injective up to collisions of SHA-256.

  \<^bold>\<open>Services.\<close>
  \<^item> \<open>Service\<close>: \<^verbatim>\<open>service.go\<close>, \<^verbatim>\<open>batch.go\<close>, \<^verbatim>\<open>lease.go\<close>. A nil error is the backend's own
    answer or a policy that fails open on an unavailable backend; batches keep their order.
  \<^item> \<open>Strict_Service\<close>, \<open>Strict_Lease\<close>: \<^verbatim>\<open>strict_service.go\<close>, \<^verbatim>\<open>strict_lease.go\<close>. Whatever a
    backend returns, an allowance and a nil error come together, every result is complete
    or zero, and anything else is an unknown outcome; a batch dispatches an initial segment and reports a cut.
  \<^item> \<open>Atomic_Batch\<close>: \<^verbatim>\<open>atomic_batch.go\<close>. A result is accepted only as a whole.

  \<^bold>\<open>Memory\<close> (\<^verbatim>\<open>memory/store.go\<close>, \<^verbatim>\<open>memory/strict.go\<close>).
  \<^item> \<open>Memory_State\<close>, \<open>Memory_Token\<close>, \<open>Memory_Window\<close>: the states and the algorithms; the
    retry hint of a token bucket is the least waiting time, and a rate above 1,024 tokens
    per microsecond can overflow the refill.
  \<^item> \<open>Memory_Store\<close>, \<open>Memory_Limits\<close>, \<open>Memory_Leases\<close>: shards, eviction, leases and sweeping.
    The number of keys stays bounded, rates and window sums hold over arbitrary sequences of
    requests with backward clocks, leases never exceed the capacity, acquisition is
    idempotent, release undoes it, expiry frees, and keys do not disturb each other.
  \<^item> \<open>Memory_Strict\<close>: the strict interface; the strict service over it never reports an
    unknown outcome, and agrees with the compatibility service.

  \<^bold>\<open>PostgreSQL\<close> (\<^verbatim>\<open>postgres/\<close>).
  \<^item> \<open>Postgres_State\<close>, \<open>Postgres_Token\<close>, \<open>Postgres_Window\<close>, \<open>Postgres_Rows\<close>: \<^verbatim>\<open>state.go\<close>; rows
    are read back as written, and strict writers never write a row that their own checks
    reject, also across revisions of a policy.
  \<^item> \<open>Postgres_Store\<close>, \<open>Postgres_Outcomes\<close>, \<open>Postgres_Certain\<close>: \<^verbatim>\<open>store.go\<close>, \<^verbatim>\<open>native.go\<close>,
    \<^verbatim>\<open>lease.go\<close>, \<^verbatim>\<open>strict.go\<close>, over an arbitrary database, one function per SQL statement.
    Every strict operation opens at most one transaction and ends it as it reports.
  \<^item> \<open>Postgres_Atomic\<close>, \<open>Postgres_Commands\<close>: \<^verbatim>\<open>atomic.go\<close>; over any database that keeps the
    documented behaviour of transactions, a command debits all its buckets or none, at most
    once, and replays return the recorded outcome.

  \<^bold>\<open>Valkey\<close> (\<^verbatim>\<open>valkey/\<close>). \<open>Valkey_Scripts\<close> has the Lua scripts of \<^verbatim>\<open>scripts.go\<close> over the commands
  of an arbitrary server, \<open>Valkey_Store\<close> the Go side. \<open>Valkey_Token\<close> shows that the doubles
  of the strict token bucket are exact, \<open>Valkey_Certain\<close> that a strict admission always
  ends in a reply the Go side accepts, \<open>Valkey_Retention\<close> that a bucket with a large burst
  is forgotten before it is full.

  \<^bold>\<open>Reference model\<close> (\<^verbatim>\<open>ratelimittest/\<close>). \<open>Reference\<close> has \<^verbatim>\<open>reference.go\<close>, \<^verbatim>\<open>strict.go\<close> and
  \<^verbatim>\<open>clock.go\<close>; \<open>Reference_Agrees\<close> shows by a simulation that the memory store decides every
  sequence of requests as the reference model does.

  \<^bold>\<open>Adapters.\<close>
  \<^item> \<open>Http_Adapter\<close>: \<^verbatim>\<open>adapters/http\<close>; a client cannot choose the address it is limited by,
    and the seconds in the headers are rounded up exactly, for whole microseconds.
  \<^item> \<open>Queue_Adapter\<close>: \<^verbatim>\<open>adapters/queue\<close> and \<^verbatim>\<open>adapters/authentication\<close>; keys of queues and
    tenants do not collide, and a rejection defers the message.
  \<^item> \<open>Rpc_Adapter\<close>: \<^verbatim>\<open>ratelimitrpc\<close>; rules run in order up to the first that refuses.
  \<^item> \<open>Observers\<close>: \<^verbatim>\<open>adapters/slog\<close> and \<^verbatim>\<open>adapters/otel\<close>; both report the same category
    for an error, one of eleven.

  This theory puts the strict service on top of the PostgreSQL store.

  \<^bold>\<open>Bounds.\<close> No definition uses fuel: every loop of the code runs over a finite list and every
  model of it is a total function. The word sizes are the code's. \<open>no_wrap\<close>, at most 1,024
  tokens per microsecond, is what keeps the refill of the memory store below 2^64, and
  \<open>refill_overflow\<close> shows that a bound is needed. Instants of the sliding windows are kept
  where \<open>UnixNano\<close> is defined. Doubles need no bound on the exponent, because all numbers
  of the scripts are below 2^120.

  \<^bold>\<open>Parameters.\<close> Code of other packages is an argument of the definitions that use it:
  SHA-256 and the digest of an intent, \<open>context.WithTimeout\<close>, the database and its
  transactions, the Valkey server and client, \<open>strtod\<close> for texts that are no decimal
  integers, loggers, meters, HTTP handlers. What a theorem needs of them is a named
  predicate among its hypotheses, and its witness gives an instance.

  \<^bold>\<open>Not modelled.\<close>
  \<^item> Interleavings inside a critical section: a section under a mutex is one step, and other
    goroutines run where a context is read or a lock is awaited.
  \<^item> Panics of backends and drivers, which the services and stores turn into unknown
    outcomes by \<open>recover\<close>; panics of observers are modelled.
  \<^item> The difference between a nil interface and a typed nil, which the code's own
    \<open>isNilInterface\<close> removes.
  \<^item> The formatting and marshalling methods that write a constant, the SQL texts of the
    migrations, and \<^verbatim>\<open>poolDatabase\<close> and \<^verbatim>\<open>poolTransaction\<close>, which forward to pgx.
  \<^item> \<^verbatim>\<open>ratelimittest/conformance.go\<close>, a driver of package \<open>testing\<close>, and the package comments.
\<close>

section \<open>The strict service over PostgreSQL\<close>

lemma NewStrict_store:
  assumes "NewStrict (Some db) options T = Inr store"
  shows "\<exists>executor. pg_executor store = Some executor \<and> ne_database executor = db" "0 < pg_rollbackTimeout store"
  using assms by (auto simp: NewStrict_def pg_New_def newStore_def Let_def split: if_splits sum.splits)

text \<open>C9. The strict service over PostgreSQL knows the outcome of every admission whose
  transaction could be begun, committed and rolled back. Whatever the rows hold and
  whichever of the other statements fail, whenever the context ends and whatever the
  request is, no admission is reported with an unknown outcome: the database store
  returns a complete allowance, a complete rejection, or a declared failure with a zero
  decision, and the service's checks accept it.\<close>

theorem postgres_strict_certain:
  assumes store: "NewStrict (Some db) options T = Inr store" and db: "steady_db db"
    and s: "NewStrictService (Some (postgres_backend sha256 digest withTimeout clock (Some store))) observers = Inr s"
    and r: "request_typed r" and adm: "StrictService_Admit clock' (Some s) (Some ctx) r w = (d, err, w')"
  shows "err \<noteq> Some (StrictOutcome strictOutcomeUnknown c)"
proof -
  let ?b = "postgres_backend sha256 digest withTimeout clock (Some store)"
  have b: "ss_backend s = Some ?b" "ss_name s \<noteq> ''''"
    using s by (auto simp: NewStrictService_def postgres_backend_def split: sum.splits if_splits)
  obtain executor where e: "pg_executor store = Some executor" "steady_db (ne_database executor)"
    using NewStrict_store [OF store] db by auto
  show ?thesis
  proof (rule declared_certain [where I = "\<lambda>w. True", OF b _ _ _ _ adm])
    fix w1 raw rawErr w2
    assume "Request_Validate r = None" "sb_AdmitStrict ?b ctx r w1 = (raw, rawErr, w2)"
    then show "declared r raw rawErr"
      using pgStore_AdmitStrict_declared [OF _ e(1) NewStrict_store(2) [OF store] e(2) r] by (simp add: postgres_backend_def)
  qed simp_all
qed

theorem postgres_strict_certain_witness:
  "\<exists>store s d err w'. NewStrict (Some (table_db 1700000000000000000)) (ne_options table_executor) Second = Inr store \<and>
     steady_db (table_db 1700000000000000000) \<and>
     NewStrictService (Some (postgres_backend id (\<lambda>x. '''') (\<lambda>ctx d. ctx) (\<lambda>w. (0, w)) (Some store))) [] = Inr s \<and>
     StrictService_Admit (\<lambda>w. (0, w)) (Some s) (Some live_ctx) sample_request ([], []) = (d, err, w') \<and>
     err \<noteq> Some (StrictOutcome strictOutcomeUnknown None)"
proof -
  have "\<exists>store. NewStrict (Some (table_db 1700000000000000000)) (ne_options table_executor) Second = Inr store"
    by (simp add: NewStrict_def pg_New_def newStore_def table_executor_def Let_def)
  then obtain store where store: "NewStrict (Some (table_db 1700000000000000000)) (ne_options table_executor) Second = Inr store" by blast
  have steady: "steady_db (table_db 1700000000000000000)"
    by (simp add: steady_db_def table_db_def table_tx_def steady_tx_def fails_as_driver_def micro_range_def int64_range_def
        split: option.split prod.split)
  have "\<exists>s. NewStrictService (Some (postgres_backend id (\<lambda>x. '''') (\<lambda>ctx d. ctx) (\<lambda>w. (0, w)) (Some store))) [] = Inr s"
    by (simp add: NewStrictService_def postgres_backend_def validBackendName_def MaxBackendNameBytes_def MaxObservers_def
        in_range_def)
  then obtain s where s: "NewStrictService (Some (postgres_backend id (\<lambda>x. '''') (\<lambda>ctx d. ctx) (\<lambda>w. (0, w)) (Some store))) [] = Inr s"
    by blast
  obtain d err w' where a: "StrictService_Admit (\<lambda>w. (0, w)) (Some s) (Some live_ctx) sample_request ([], []) = (d, err, w')"
    by (metis surj_pair)
  show ?thesis using postgres_strict_certain [OF store steady s sample_store_facts(2) a] store steady s a by blast
qed

end
